(* ===== verification/BR_Prelude.thy ===== *)
theory BR_Prelude
  imports Main "HOL-Library.Word" "HOL-Library.AList" "HOL-Library.Multiset"
begin

text \<open>
  What the component theories share: the machine types of the Go sources
  (\<open>byte\<close>, \<open>u16\<close>, \<open>u32\<close>, \<open>u64\<close>), instants and durations, the little-endian
  and big-endian encodings of \<^verbatim>\<open>encoding/binary\<close>, Go maps as association
  lists, and the lemmas about them that the component proofs use.

  A Go map is an association list read with \<open>map_of\<close>, written with
  \<open>AList.update\<close> and \<open>AList.delete\<close>. A \<^verbatim>\<open>range\<close> over a map visits the list in
  its own order; Go leaves that order open, and so do the theorems, which hold
  for every list.
\<close>

named_theorems go_map "lookups, updates and deletions on association lists"
named_theorems br_defs "definitions that component proofs unfold together"

type_synonym byte = "8 word"
type_synonym u16 = "16 word"
type_synonym u32 = "32 word"
type_synonym u64 = "64 word"

type_synonym bytes = "byte list"

text \<open>
  \<^verbatim>\<open>time.Time\<close> and \<^verbatim>\<open>time.Duration\<close>: nanoseconds as an integer (an instant counts
  them from the Unix epoch). \<^verbatim>\<open>Time.Sub\<close> saturates at the bounds of the signed
  64-bit \<^verbatim>\<open>Duration\<close>.
\<close>

type_synonym time = int
type_synonym duration = int

definition second :: duration where
  "second = 1000000000"

text \<open>The zero \<^verbatim>\<open>time.Time\<close>: January 1 of the year 1.\<close>

definition zero_time :: time where
  "zero_time = - 62135596800 * second"

definition time_sub :: "time \<Rightarrow> time \<Rightarrow> duration" where
  "time_sub a b = max (- (2 ^ 63)) (min (2 ^ 63 - 1) (a - b))"

definition time_unix :: "time \<Rightarrow> int" where
  "time_unix t = t div second"

definition time_unix_milli :: "time \<Rightarrow> int" where
  "time_unix_milli t = t div 1000000"

definition from_unix :: "int \<Rightarrow> time" where
  "from_unix s = s * second"

definition from_unix_milli :: "int \<Rightarrow> time" where
  "from_unix_milli ms = ms * 1000000"

section \<open>Fixed-width encodings\<close>

definition put_u32_le :: "u32 \<Rightarrow> bytes" where
  "put_u32_le w = [ucast w, ucast (drop_bit 8 w), ucast (drop_bit 16 w), ucast (drop_bit 24 w)]"

definition put_u32_be :: "u32 \<Rightarrow> bytes" where
  "put_u32_be w = rev (put_u32_le w)"

fun get_le :: "bytes \<Rightarrow> nat" where
  "get_le [] = 0"
| "get_le (b # bs) = unat b + 256 * get_le bs"

definition get_u32_le :: "bytes \<Rightarrow> u32" where
  "get_u32_le bs = of_nat (get_le (take 4 bs))"

definition get_u32_be :: "bytes \<Rightarrow> u32" where
  "get_u32_be bs = of_nat (get_le (rev (take 4 bs)))"

lemma length_put_u32 [simp]:
  "length (put_u32_le w) = 4" "length (put_u32_be w) = 4"
  by (simp_all add: put_u32_le_def put_u32_be_def)

lemma unat_ucast_byte: "unat (ucast (w :: u32) :: byte) = unat w mod 256"
  by (simp add: unsigned_ucast_eq take_bit_eq_mod)

lemma unat_drop_bit_word: "unat (drop_bit n (w :: u32)) = unat w div 2 ^ n"
  by (subst unat_drop_bit_eq) (simp add: drop_bit_eq_div)

lemma nat_base256: 
  fixes n :: nat
  assumes "n < 2 ^ 32"
  shows "n mod 256 + 256 * (n div 2 ^ 8 mod 256 + 256 * (n div 2 ^ 16 mod 256 + 256 * (n div 2 ^ 24 mod 256))) = n"
proof -
  have "n div 2 ^ 16 = n div 2 ^ 8 div 256" "n div 2 ^ 24 = n div 2 ^ 8 div 256 div 256"
    by (simp_all add: div_mult2_eq [symmetric])
  moreover have "n div 2 ^ 8 div 256 div 256 < 256"
    using assms by (simp add: div_mult2_eq [symmetric] less_mult_imp_div_less)
  ultimately show ?thesis
    using div_mult_mod_eq [of n 256] div_mult_mod_eq [of "n div 256" 256]
      div_mult_mod_eq [of "n div 256 div 256" 256] by simp
qed

lemma get_le_put_u32: "get_le (put_u32_le w) = unat w"
  using nat_base256 [of "unat w"] unsigned_less [of w, where 'a = nat]
  by (simp add: put_u32_le_def unat_ucast_byte unat_drop_bit_word)

lemma get_put_u32_le [simp]: "get_u32_le (put_u32_le w @ bs) = w"
  by (simp add: get_u32_le_def get_le_put_u32)

lemma get_put_u32_be [simp]: "get_u32_be (put_u32_be w @ bs) = w"
  by (simp add: get_u32_be_def put_u32_be_def get_le_put_u32)

section \<open>Go maps as association lists\<close>

type_synonym ('k, 'v) gomap = "('k \<times> 'v) list"

definition wf_map :: "('k, 'v) gomap \<Rightarrow> bool" where
  "wf_map m \<longleftrightarrow> distinct (map fst m)"

lemma wf_map_Nil [simp]: "wf_map []"
  by (simp add: wf_map_def)

lemma wf_map_update [simp]: "wf_map m \<Longrightarrow> wf_map (AList.update k v m)"
  unfolding wf_map_def by (rule distinct_update)

lemma wf_map_delete [simp]: "wf_map m \<Longrightarrow> wf_map (AList.delete k m)"
  unfolding wf_map_def by (rule distinct_delete)

lemma map_of_update [go_map, simp]:
  "map_of (AList.update k v m) = (map_of m)(k \<mapsto> v)"
  by (simp add: update_conv')

lemma map_of_delete [go_map, simp]:
  "map_of (AList.delete k m) = (map_of m)(k := None)"
  by (simp add: delete_conv')

lemma length_update_le: "length (AList.update k v m) \<le> Suc (length m)"
  by (induction m) auto

lemma length_update_present:
  "map_of m k \<noteq> None \<Longrightarrow> length (AList.update k v m) = length m"
  by (induction m) (auto split: if_splits)

lemma length_delete_absent: "map_of m k = None \<Longrightarrow> AList.delete k m = m"
  by (induction m) (auto split: if_splits)

lemma update_absent: "k \<notin> fst ` set m \<Longrightarrow> AList.update k v m = m @ [(k, v)]"
  by (induction m) auto

lemma fold_update_distinct:
  "distinct (map fst xs) \<Longrightarrow> fst ` set xs \<inter> fst ` set m = {} \<Longrightarrow>
   fold (\<lambda>(k, v). AList.update k v) xs m = m @ xs"
proof (induction xs arbitrary: m)
  case (Cons x xs)
  obtain k v where x: "x = (k, v)" by (cases x)
  have "AList.update k v m = m @ [(k, v)]"
    using Cons.prems x by (intro update_absent) auto
  then show ?case
    using Cons.prems x Cons.IH [of "m @ [(k, v)]"] by auto
qed simp

lemma map_of_fold_update:
  "map_of (fold (\<lambda>(k, v). AList.update k v) xs m) k =
   (case map_of (rev xs) k of None \<Rightarrow> map_of m k | Some v \<Rightarrow> Some v)"
  by (induction xs arbitrary: m) (auto simp: map_add_def split: option.splits)

lemma length_fold_update_le:
  "length (fold (\<lambda>(k, v). AList.update k v) xs m) \<le> length m + length xs"
proof (induction xs arbitrary: m)
  case (Cons x xs)
  obtain k v where "x = (k, v)" by (cases x)
  with Cons [of "AList.update k v m"] length_update_le [of k v m] show ?case by simp
qed simp

lemma wf_map_fold_update [simp]: "wf_map m \<Longrightarrow> wf_map (fold (\<lambda>(k, v). AList.update k v) xs m)"
  by (induction xs arbitrary: m) auto

lemma sum_list_update:
  fixes f :: "'v \<Rightarrow> nat"
  assumes "wf_map m"
  shows "sum_list (map (f \<circ> snd) (AList.update k v m)) =
    sum_list (map (f \<circ> snd) m) + f v - (case map_of m k of None \<Rightarrow> 0 | Some w \<Rightarrow> f w)"
  using assms
proof (induction m)
  case (Cons x m)
  obtain a b where x: "x = (a, b)" by (cases x)
  have le: "map_of m k = Some w \<Longrightarrow> f w \<le> sum_list (map (f \<circ> snd) m)" for w
    by (drule map_of_SomeD, rule member_le_sum_list) (force, simp)
  have IH: "sum_list (map (f \<circ> snd) (AList.update k v m)) =
      sum_list (map (f \<circ> snd) m) + f v - (case map_of m k of None \<Rightarrow> 0 | Some w \<Rightarrow> f w)"
    by (rule Cons.IH) (use Cons.prems in \<open>simp add: wf_map_def\<close>)
  show ?case
  proof (cases "map_of m k")
    case None
    with IH x show ?thesis by (simp add: comp_def)
  next
    case (Some w)
    with IH x le [OF Some] show ?thesis by (auto simp: comp_def)
  qed
qed (simp add: wf_map_def)

lemma set_update_subset: "set (AList.update k v m) \<subseteq> insert (k, v) (set m)"
  by (induction m) auto

lemma set_delete_subset: "set (AList.delete k m) \<subseteq> set m"
  by (auto simp: AList.delete_eq)

lemma set_fold_update_subset: "set (fold (\<lambda>(k, v). AList.update k v) xs m) \<subseteq> set xs \<union> set m"
proof (induction xs arbitrary: m)
  case (Cons x xs)
  obtain k v where "x = (k, v)" by (cases x)
  with Cons [of "AList.update k v m"] set_update_subset [of k v m] show ?case by auto
qed simp

end
