(* ===== verification/Crypto.thy ===== *)
theory Crypto
  imports BR_Prelude
begin

text \<open>
  The cryptographic primitives the sources call (\<^verbatim>\<open>golang.org/x/crypto\<close>,
  \<^verbatim>\<open>sntrup4591761\<close>, \<^verbatim>\<open>blake256\<close> and the hashes of Go's \<^verbatim>\<open>crypto\<close> packages) as one
  record \<open>crypto\<close> that every definition using them takes as an argument, the
  documented behaviour of these primitives as named predicates over it, and the
  package \<^verbatim>\<open>sw\<close> (\<^verbatim>\<open>src/sw/sw.go\<close>), which wraps secretbox.

  A random source is the list of bytes it will still deliver.
\<close>

type_synonym key = bytes

record crypto =
  hmac_sha256 :: "key \<Rightarrow> bytes \<Rightarrow> key"
  sha256 :: "bytes \<Rightarrow> key"
  blake256 :: "bytes \<Rightarrow> bytes"
  secretbox_overhead :: nat
  secretbox_seal :: "bytes \<Rightarrow> bytes \<Rightarrow> key \<Rightarrow> bytes"
  secretbox_open :: "bytes \<Rightarrow> bytes \<Rightarrow> key \<Rightarrow> bytes option"
  x25519 :: "key \<Rightarrow> key \<Rightarrow> key option"
  scalar_base_mult :: "key \<Rightarrow> key"
  sntrup_encapsulate :: "bytes \<Rightarrow> bytes \<Rightarrow> (bytes \<times> key \<times> bytes) option"
  sntrup_decapsulate :: "bytes \<Rightarrow> bytes \<Rightarrow> key option"

section \<open>Documented behaviour of the primitives\<close>

text \<open>Hashes and shared keys fill a 32-byte array.\<close>

definition key_sizes :: "crypto \<Rightarrow> bool" where
  "key_sizes C \<longleftrightarrow>
     (\<forall>k l. length (hmac_sha256 C k l) = 32) \<and>
     (\<forall>k. length (scalar_base_mult C k) = 32)"

text \<open>Opening what was sealed under the same nonce and key gives the message back, and a
  box is longer than its message by the overhead.\<close>

definition secretbox_correct :: "crypto \<Rightarrow> bool" where
  "secretbox_correct C \<longleftrightarrow>
     (\<forall>m n k. length n = 24 \<longrightarrow> length k = 32 \<longrightarrow>
        secretbox_open C (secretbox_seal C m n k) n k = Some m \<and>
        length (secretbox_seal C m n k) = length m + secretbox_overhead C)"

text \<open>A box does not open under a key other than the one that sealed it.\<close>

definition secretbox_authentic :: "crypto \<Rightarrow> bool" where
  "secretbox_authentic C \<longleftrightarrow>
     (\<forall>m n k k'. length n = 24 \<longrightarrow> length k = 32 \<longrightarrow> length k' = 32 \<longrightarrow> k \<noteq> k' \<longrightarrow>
        secretbox_open C (secretbox_seal C m n k) n k' = None)"

text \<open>A given box opens under one key at most (under a given nonce). The hypothesis is made for
  the boxes of one message, not for all: no AEAD of this kind promises it of a box made up by an
  attacker who knows both keys.\<close>

definition box_commits :: "crypto \<Rightarrow> bytes \<Rightarrow> bool" where
  "box_commits C b \<longleftrightarrow>
     (\<forall>n k k' m m'. secretbox_open C b n k = Some m \<longrightarrow> secretbox_open C b n k' = Some m' \<longrightarrow> k = k')"

text \<open>An opened message is shorter than its box by the overhead.\<close>

definition secretbox_sized :: "crypto \<Rightarrow> bool" where
  "secretbox_sized C \<longleftrightarrow>
     (\<forall>b n k m. secretbox_open C b n k = Some m \<longrightarrow> length b = length m + secretbox_overhead C)"

text \<open>Diffie-Hellman: both sides compute the same shared key.\<close>

definition dh_agrees :: "crypto \<Rightarrow> bool" where
  "dh_agrees C \<longleftrightarrow>
     (\<forall>a b. x25519 C a (scalar_base_mult C b) = x25519 C b (scalar_base_mult C a))"

text \<open>A key encapsulated to a public key is decapsulated by the matching private key.\<close>

definition kem_pair :: "crypto \<Rightarrow> bytes \<Rightarrow> bytes \<Rightarrow> bool" where
  "kem_pair C pk sk \<longleftrightarrow>
     (\<forall>rnd c k rnd'. sntrup_encapsulate C rnd pk = Some (c, k, rnd') \<longrightarrow>
        sntrup_decapsulate C c sk = Some k \<and> length k = 32)"

text \<open>A ciphertext fills an array of the documented size.\<close>

definition sntrup_CiphertextSize :: nat where
  "sntrup_CiphertextSize = 1047"

definition kem_sized :: "crypto \<Rightarrow> bool" where
  "kem_sized C \<longleftrightarrow>
     (\<forall>rnd pk c k rnd'. sntrup_encapsulate C rnd pk = Some (c, k, rnd') \<longrightarrow> length c = sntrup_CiphertextSize)"

lemma secretbox_open_seal:
  "secretbox_correct C \<Longrightarrow> length n = 24 \<Longrightarrow> length k = 32 \<Longrightarrow>
   secretbox_open C (secretbox_seal C m n k) n k = Some m"
  by (simp add: secretbox_correct_def)

lemma length_secretbox_seal:
  "secretbox_correct C \<Longrightarrow> length n = 24 \<Longrightarrow> length k = 32 \<Longrightarrow>
   length (secretbox_seal C m n k) = length m + secretbox_overhead C"
  by (simp add: secretbox_correct_def)

lemma secretbox_open_other:
  "secretbox_authentic C \<Longrightarrow> length n = 24 \<Longrightarrow> length k = 32 \<Longrightarrow> length k' = 32 \<Longrightarrow> k \<noteq> k' \<Longrightarrow>
   secretbox_open C (secretbox_seal C m n k) n k' = None"
  by (simp add: secretbox_authentic_def)

lemma secretbox_commit_other:
  "box_commits C b \<Longrightarrow> secretbox_open C b n k = Some m \<Longrightarrow> k' \<noteq> k \<Longrightarrow>
   secretbox_open C b n k' = None"
  unfolding box_commits_def by (metis not_None_eq)

section \<open>Package sw\<close>

text \<open>
  \<^verbatim>\<open>sw.Seal\<close> draws its nonce from the system's reader (\<open>rnd\<close>); \<open>None\<close> is the read
  error. \<^verbatim>\<open>sw.Open\<close> slices \<^verbatim>\<open>box[:24]\<close> without looking at the length first, which
  panics on a shorter box.
\<close>

datatype sw_open_result = SwPanic | SwFail | SwOk bytes

definition sw_Seal :: "crypto \<Rightarrow> bytes \<Rightarrow> bytes \<Rightarrow> key \<Rightarrow> (bytes \<times> bytes) option" where
  "sw_Seal C rnd message key =
     (if length rnd < 24 then None
      else let nonce = take 24 rnd
           in Some (nonce @ secretbox_seal C message nonce key, drop 24 rnd))"

definition sw_Open :: "crypto \<Rightarrow> bytes \<Rightarrow> key \<Rightarrow> sw_open_result" where
  "sw_Open C box key =
     (if length box < 24 then SwPanic
      else case secretbox_open C (drop 24 box) (take 24 box) key of
             None \<Rightarrow> SwFail
           | Some m \<Rightarrow> SwOk m)"

definition PackedEncryptedSize :: "crypto \<Rightarrow> nat \<Rightarrow> nat" where
  "PackedEncryptedSize C msgSize = 24 + msgSize + secretbox_overhead C"

lemma sw_Open_Seal:
  assumes "secretbox_correct C" and "length key = 32" and "sw_Seal C rnd message key = Some (box, rnd')"
  shows "sw_Open C box key = SwOk message"
  using assms by (auto simp: sw_Seal_def sw_Open_def Let_def secretbox_open_seal split: if_splits)

lemma length_sw_Seal:
  assumes "secretbox_correct C" and "length key = 32" and "sw_Seal C rnd message key = Some (box, rnd')"
  shows "length box = PackedEncryptedSize C (length message)"
  using assms
  by (auto simp: sw_Seal_def PackedEncryptedSize_def Let_def length_secretbox_seal split: if_splits)

section \<open>An instance\<close>

text \<open>
  A small instance on which the laws hold together, so that theorems that assume them can be
  applied to concrete values. A box is the message followed by the key; a derived key records the sum
  of its label and then the key it came from.
\<close>

definition fit32 :: "bytes \<Rightarrow> key" where
  "fit32 bs = take 32 (bs @ replicate 32 0)"

definition ex_crypto :: crypto where
  "ex_crypto =
     \<lparr>hmac_sha256 = (\<lambda>k l. fit32 (fold (+) l 0 # k)),
      sha256 = (\<lambda>bs. fit32 (drop 15 bs)),
      blake256 = fit32,
      secretbox_overhead = 32,
      secretbox_seal = (\<lambda>m n k. m @ k),
      secretbox_open = (\<lambda>b n k. if 32 \<le> length b \<and> drop (length b - 32) b = k
                                then Some (take (length b - 32) b) else None),
      x25519 = (\<lambda>a p. Some (map2 (+) (fit32 a) p)),
      scalar_base_mult = fit32,
      sntrup_encapsulate = (\<lambda>rnd pk. if length rnd < 32 then None
                                     else Some (take 32 rnd @ replicate 1015 0, take 32 rnd, drop 32 rnd)),
      sntrup_decapsulate = (\<lambda>c sk. if length c = 1047 then Some (take 32 c) else None)\<rparr>"

lemma length_fit32 [simp]: "length (fit32 bs) = 32"
  by (simp add: fit32_def)

lemma ex_crypto_laws:
  "key_sizes ex_crypto" "secretbox_correct ex_crypto" "secretbox_authentic ex_crypto"
  "secretbox_sized ex_crypto" "box_commits ex_crypto b" "kem_pair ex_crypto pk sk"
  by (auto simp: ex_crypto_def key_sizes_def secretbox_correct_def secretbox_authentic_def
      secretbox_sized_def box_commits_def kem_pair_def split: if_splits)

lemma ex_crypto_kem_sized: "kem_sized ex_crypto"
  by (auto simp: ex_crypto_def kem_sized_def sntrup_CiphertextSize_def split: if_splits)

lemma ex_crypto_dh: "dh_agrees ex_crypto"
proof -
  have "map2 (+) xs ys = map2 (+) ys (xs :: bytes)" for xs ys
    by (induction xs ys rule: list_induct2') (simp_all add: add.commute)
  then show ?thesis by (auto simp: ex_crypto_def dh_agrees_def)
qed

end
