(* ===== verification/Ratchet.thy ===== *)
theory Ratchet
  imports Crypto
begin

unbundle bit_operations_syntax

text \<open>
  The axolotl ratchet of \<^verbatim>\<open>src/ratchet/ratchet.go\<close>: the state \<open>ratchet\<close>, key
  exchange, rendezvous points, \<open>Encrypt\<close>, \<open>Decrypt\<close> with its store of keys for
  messages that arrive late, and the lemmas about single operations. The
  conversation between two ratchets is in \<open>Ratchet_Protocol\<close>, the stored form in
  \<open>Ratchet_Disk\<close>.

  An operation takes the primitives \<open>C\<close>, the clock reading \<open>now\<close> where it asks for
  the time, and the state, and returns its result and the state it leaves, also
  when it fails. \<open>Decrypt\<close> returns an option because its key loop counts with a
  32-bit counter up to and including the received message number: \<open>None\<close> is the
  loop that never ends.
\<close>

section \<open>State\<close>

record savedKey =
  timestamp :: time
  sk_key :: key

type_synonym msg_keys = "(u32, savedKey) gomap"
type_synonym saved_keys = "(key, msg_keys) gomap"

record ratchet =
  MyPrivateKey :: bytes
  TheirPublicKey :: bytes
  rootKey :: key
  sendHeaderKey :: key
  recvHeaderKey :: key
  nextSendHeaderKey :: key
  nextRecvHeaderKey :: key
  prevRecvHeaderKey :: key
  sendChainKey :: key
  recvChainKey :: key
  sendRatchetPrivate :: key
  recvRatchetPublic :: key
  sendCount :: u32
  recvCount :: u32
  prevSendCount :: u32
  prevRecvCount :: u32
  ratchet_flag :: bool
  saved :: saved_keys
  myHalf :: "key option"
  theirHalf :: "key option"
  kxPrivate :: "key option"
  lastEncryptTime :: time
  lastDecryptTime :: time
  rand :: bytes

datatype ratchet_error =
    EPanic
  | EEncapsulate
  | ESeal
  | EDecapsulate
  | EOpenKxPublic
  | EPointLength
  | EPointTooSmall
  | EPointTooLarge
  | EX25519
  | EHeaderTooSmall
  | ECorrupt
  | EDuplicate
  | EReorderLimit
  | EHeaderSize
  | ECannotDecrypt
  | ENoRatchetFlag
  | EUnmarshal

definition headerSize :: nat where
  "headerSize = 4 + 4 + 32 + 24"

definition sealedHeaderSize :: "crypto \<Rightarrow> nat" where
  "sealedHeaderSize C = 24 + headerSize + secretbox_overhead C"

definition nonceInHeaderOffset :: nat where
  "nonceInHeaderOffset = 4 + 4 + 32"

definition maxMissingMessages :: u32 where
  "maxMissingMessages = 80"

definition zeroKey :: key where
  "zeroKey = replicate 32 0"

text \<open>The labels, as the bytes of their ASCII strings.\<close>

definition label :: "string \<Rightarrow> bytes" where
  "label s = map of_char s"

definition chainKeyLabel :: bytes where
  "chainKeyLabel = label ''chain key''"
definition headerKeyLabel :: bytes where
  "headerKeyLabel = label ''header key''"
definition nextRecvHeaderKeyLabel :: bytes where
  "nextRecvHeaderKeyLabel = label ''next receive header key''"
definition rootKeyLabel :: bytes where
  "rootKeyLabel = label ''root key''"
definition rootKeyUpdateLabel :: bytes where
  "rootKeyUpdateLabel = label ''root key update''"
definition sendHeaderKeyLabel :: bytes where
  "sendHeaderKeyLabel = label ''next send header key''"
definition messageKeyLabel :: bytes where
  "messageKeyLabel = label ''message key''"
definition chainKeyStepLabel :: bytes where
  "chainKeyStepLabel = label ''chain key step''"

section \<open>Construction and key exchange\<close>

text \<open>\<open>randBytes\<close>: the bytes read and the reader left; a short read panics.\<close>

definition randBytes :: "nat \<Rightarrow> ratchet \<Rightarrow> (bytes \<times> ratchet) option" where
  "randBytes n r =
     (if length (rand r) < n then None
      else Some (take n (rand r), r\<lparr>rand := drop n (rand r)\<rparr>))"

definition New :: "bytes \<Rightarrow> ratchet option" where
  "New rnd =
     (let r = \<lparr>MyPrivateKey = [], TheirPublicKey = [],
               rootKey = zeroKey, sendHeaderKey = zeroKey, recvHeaderKey = zeroKey,
               nextSendHeaderKey = zeroKey, nextRecvHeaderKey = zeroKey,
               prevRecvHeaderKey = zeroKey, sendChainKey = zeroKey, recvChainKey = zeroKey,
               sendRatchetPrivate = zeroKey, recvRatchetPublic = zeroKey,
               sendCount = 0, recvCount = 0, prevSendCount = 0, prevRecvCount = 0,
               ratchet_flag = False, saved = [], myHalf = None, theirHalf = None,
               kxPrivate = None, lastEncryptTime = zero_time, lastDecryptTime = zero_time, rand = rnd\<rparr>
      in case randBytes 32 r of
           None \<Rightarrow> None
         | Some (k, r) \<Rightarrow> Some (r\<lparr>kxPrivate := Some k\<rparr>))"

record key_exchange =
  kx_Public :: bytes
  kx_Cipher :: bytes

text \<open>\<open>sys\<close> is what \<^verbatim>\<open>crypto/rand\<close> delivers to \<^verbatim>\<open>sw.Seal\<close>. A nil \<^verbatim>\<open>kxPrivate\<close>
  (the exchange was completed before) is dereferenced and panics.\<close>

definition FillKeyExchange ::
    "crypto \<Rightarrow> bytes \<Rightarrow> ratchet \<Rightarrow> (ratchet_error + key_exchange) \<times> ratchet" where
  "FillKeyExchange C sys r =
     (case sntrup_encapsulate C (rand r) (TheirPublicKey r) of
        None \<Rightarrow> (Inl EEncapsulate, r)
      | Some (c, k, rnd) \<Rightarrow>
          let r = r\<lparr>rand := rnd\<rparr> in
          case kxPrivate r of
            None \<Rightarrow> (Inl EPanic, r)
          | Some priv \<Rightarrow>
              (case sw_Seal C sys (scalar_base_mult C priv) k of
                 None \<Rightarrow> (Inl ESeal, r)
               | Some (packed, sys') \<Rightarrow>
                   (Inr \<lparr>kx_Public = packed, kx_Cipher = c\<rparr>, r\<lparr>myHalf := Some k\<rparr>)))"

definition deriveKey :: "crypto \<Rightarrow> key \<Rightarrow> bytes \<Rightarrow> key" where
  "deriveKey C k lbl = hmac_sha256 C k lbl"

definition inv32 :: "bytes \<Rightarrow> bytes" where
  "inv32 x = map (\<lambda>i. x ! (31 - i)) [0..<32]"

definition nat_of_be :: "bytes \<Rightarrow> nat" where
  "nat_of_be bs = get_le (rev bs)"

definition validateECDHpoint :: "bytes \<Rightarrow> ratchet_error option" where
  "validateECDHpoint p =
     (if length p \<noteq> 32 then Some EPointLength
      else let pn = nat_of_be (inv32 p) in
        if pn < 3 then Some EPointTooSmall
        else if pn \<ge> 2 ^ 255 - 19 then Some EPointTooLarge
        else None)"

definition CompleteKeyExchange ::
    "crypto \<Rightarrow> ratchet \<Rightarrow> key_exchange \<Rightarrow> bool \<Rightarrow> (ratchet_error + unit) \<times> ratchet" where
  "CompleteKeyExchange C r kx alice =
     (case sntrup_decapsulate C (kx_Cipher kx) (MyPrivateKey r) of
        None \<Rightarrow> (Inl EDecapsulate, r)
      | Some k \<Rightarrow>
        let r = r\<lparr>theirHalf := Some k\<rparr> in
        case sw_Open C (kx_Public kx) k of
          SwPanic \<Rightarrow> (Inl EPanic, r)
        | SwFail \<Rightarrow> (Inl EOpenKxPublic, r)
        | SwOk ratchetPublic \<Rightarrow>
            (case validateECDHpoint ratchetPublic of
               Some e \<Rightarrow> (Inl e, r)
             | None \<Rightarrow>
                (case myHalf r of
                   None \<Rightarrow> (Inl EPanic, r)
                 | Some mh \<Rightarrow>
                   let sharedKey = (if alice then sha256 C (mh @ k) else sha256 C (k @ mh));
                       r = r\<lparr>rootKey := deriveKey C sharedKey rootKeyLabel\<rparr>
                   in if alice then
                        (Inr (), r\<lparr>recvHeaderKey := deriveKey C sharedKey headerKeyLabel,
                                   nextSendHeaderKey := deriveKey C sharedKey sendHeaderKeyLabel,
                                   nextRecvHeaderKey := deriveKey C sharedKey nextRecvHeaderKeyLabel,
                                   recvChainKey := deriveKey C sharedKey chainKeyLabel,
                                   recvRatchetPublic := ratchetPublic,
                                   ratchet_flag := alice, kxPrivate := None\<rparr>)
                      else
                        (case kxPrivate r of
                           None \<Rightarrow> (Inl EPanic, r)
                         | Some priv \<Rightarrow>
                            (Inr (), r\<lparr>sendHeaderKey := deriveKey C sharedKey headerKeyLabel,
                                       nextRecvHeaderKey := deriveKey C sharedKey sendHeaderKeyLabel,
                                       nextSendHeaderKey := deriveKey C sharedKey nextRecvHeaderKeyLabel,
                                       sendChainKey := deriveKey C sharedKey chainKeyLabel,
                                       sendRatchetPrivate := priv,
                                       ratchet_flag := alice, kxPrivate := None\<rparr>)))))"

section \<open>Rendezvous points\<close>

definition isZeroKey :: "key \<Rightarrow> bool" where
  "isZeroKey key \<longleftrightarrow> fold (\<lambda>v x. x OR v) key 0 = 0"

definition ratchetRendezvous :: "crypto \<Rightarrow> key \<Rightarrow> u32 \<Rightarrow> bytes" where
  "ratchetRendezvous C headerKey msgCount = blake256 C (headerKey @ put_u32_le msgCount)"

definition sendRVKey :: "ratchet \<Rightarrow> key" where
  "sendRVKey r = (if isZeroKey (sendHeaderKey r) then nextSendHeaderKey r else sendHeaderKey r)"

definition SendRendezvous :: "crypto \<Rightarrow> ratchet \<Rightarrow> bytes" where
  "SendRendezvous C r = ratchetRendezvous C (sendRVKey r) (sendCount r)"

definition recvRVKeys :: "ratchet \<Rightarrow> key \<times> key" where
  "recvRVKeys r =
     (if isZeroKey (recvHeaderKey r) then nextRecvHeaderKey r else recvHeaderKey r,
      prevRecvHeaderKey r)"

definition RecvRendezvous :: "crypto \<Rightarrow> ratchet \<Rightarrow> bytes \<times> bytes" where
  "RecvRendezvous C r =
     (let (rhk, dk) = recvRVKeys r
      in (ratchetRendezvous C rhk (recvCount r),
          if isZeroKey dk then zeroKey else ratchetRendezvous C dk (prevRecvCount r)))"

section \<open>Encrypt\<close>

text \<open>The Diffie-Hellman step of \<open>Encrypt\<close>, taken when the ratchet flag is set.\<close>

definition ratchetStep :: "crypto \<Rightarrow> ratchet \<Rightarrow> (ratchet_error + unit) \<times> ratchet" where
  "ratchetStep C r =
     (case randBytes 32 r of
        None \<Rightarrow> (Inl EPanic, r)
      | Some (priv, r) \<Rightarrow>
        let r = r\<lparr>sendRatchetPrivate := priv\<rparr> in
        case x25519 C priv (recvRatchetPublic r) of
          None \<Rightarrow> (Inl EX25519, r)
        | Some sharedKey \<Rightarrow>
            let keyMaterial = sha256 C (rootKeyUpdateLabel @ rootKey r @ sharedKey) in
            (Inr (), r\<lparr>sendHeaderKey := nextSendHeaderKey r,
                       rootKey := deriveKey C keyMaterial rootKeyLabel,
                       nextSendHeaderKey := deriveKey C keyMaterial sendHeaderKeyLabel,
                       sendChainKey := deriveKey C keyMaterial chainKeyLabel,
                       prevSendCount := sendCount r,
                       sendCount := 0,
                       ratchet_flag := False\<rparr>))"

definition header_bytes :: "u32 \<Rightarrow> u32 \<Rightarrow> key \<Rightarrow> bytes \<Rightarrow> bytes" where
  "header_bytes cnt prevCnt pub nonce = put_u32_le cnt @ put_u32_le prevCnt @ pub @ nonce"

text \<open>The rest of \<open>Encrypt\<close>: the message key, the header and the two boxes.\<close>

definition encryptMessage ::
    "crypto \<Rightarrow> time \<Rightarrow> ratchet \<Rightarrow> bytes \<Rightarrow> bytes \<Rightarrow> (ratchet_error + bytes) \<times> ratchet" where
  "encryptMessage C now r out msg =
     (let messageKey = deriveKey C (sendChainKey r) messageKeyLabel;
          r = r\<lparr>sendChainKey := deriveKey C (sendChainKey r) chainKeyStepLabel\<rparr>;
          sendRatchetPublic = scalar_base_mult C (sendRatchetPrivate r)
      in case randBytes 24 r of
           None \<Rightarrow> (Inl EPanic, r)
         | Some (headerNonce, r) \<Rightarrow>
           (case randBytes 24 r of
              None \<Rightarrow> (Inl EPanic, r)
            | Some (messageNonce, r) \<Rightarrow>
              let header = header_bytes (sendCount r) (prevSendCount r) sendRatchetPublic messageNonce;
                  out = out @ headerNonce @ secretbox_seal C header headerNonce (sendHeaderKey r);
                  r = r\<lparr>sendCount := sendCount r + 1, lastEncryptTime := now\<rparr>
              in (Inr (out @ secretbox_seal C msg messageNonce messageKey), r)))"

definition Encrypt ::
    "crypto \<Rightarrow> time \<Rightarrow> ratchet \<Rightarrow> bytes \<Rightarrow> bytes \<Rightarrow> (ratchet_error + bytes) \<times> ratchet" where
  "Encrypt C now r out msg =
     (if ratchet_flag r then
        (case ratchetStep C r of
           (Inl e, r) \<Rightarrow> (Inl e, r)
         | (Inr _, r) \<Rightarrow> encryptMessage C now r out msg)
      else encryptMessage C now r out msg)"

section \<open>Keys of late messages\<close>

text \<open>
  \<open>trySavedKeys\<close> ranges over the saved header keys. \<open>None\<close> from the loop means that
  every key was passed over; \<open>Some (Inr None)\<close> is the early \<^verbatim>\<open>return nil, nil\<close>.
  \<^verbatim>\<open>secretbox.Open\<close> appends the message to a nil slice, so an empty message is the
  nil slice too: \<open>nilSlice\<close>.
\<close>

definition nilSlice :: "bytes \<Rightarrow> bytes option" where
  "nilSlice xs = (if xs = [] then None else Some xs)"

definition dropSavedKey :: "saved_keys \<Rightarrow> key \<Rightarrow> msg_keys \<Rightarrow> u32 \<Rightarrow> saved_keys" where
  "dropSavedKey sv headerKey messageKeys msgNum =
     (let messageKeys = AList.delete msgNum messageKeys
      in if messageKeys = [] then AList.delete headerKey sv
         else AList.update headerKey messageKeys sv)"

fun trySavedLoop ::
    "crypto \<Rightarrow> bytes \<Rightarrow> bytes \<Rightarrow> bytes \<Rightarrow> saved_keys \<Rightarrow> saved_keys \<Rightarrow>
     (ratchet_error + bytes option \<times> saved_keys) option" where
  "trySavedLoop C sealedHeader nonce sealedMessage sv [] = None"
| "trySavedLoop C sealedHeader nonce sealedMessage sv ((headerKey, messageKeys) # rest) =
     (case secretbox_open C sealedHeader nonce headerKey of
        None \<Rightarrow> trySavedLoop C sealedHeader nonce sealedMessage sv rest
      | Some header \<Rightarrow>
          if length header \<noteq> headerSize then trySavedLoop C sealedHeader nonce sealedMessage sv rest
          else let msgNum = get_u32_le (take 4 header) in
            case map_of messageKeys msgNum of
              None \<Rightarrow> Some (Inr (None, sv))
            | Some msgKey \<Rightarrow>
                (case secretbox_open C sealedMessage (drop nonceInHeaderOffset header) (sk_key msgKey) of
                   None \<Rightarrow> Some (Inl ECorrupt)
                 | Some msg \<Rightarrow>
                     Some (Inr (nilSlice msg, dropSavedKey sv headerKey messageKeys msgNum))))"

definition trySavedKeys ::
    "crypto \<Rightarrow> ratchet \<Rightarrow> bytes \<Rightarrow> (ratchet_error + bytes option) \<times> ratchet" where
  "trySavedKeys C r ciphertext =
     (if length ciphertext < sealedHeaderSize C then (Inl EHeaderTooSmall, r)
      else
        let sealedHeader = take (sealedHeaderSize C) ciphertext;
            nonce = take 24 sealedHeader;
            sealedHeader = drop 24 sealedHeader;
            sealedMessage = drop (sealedHeaderSize C) ciphertext
        in case trySavedLoop C sealedHeader nonce sealedMessage (saved r) (saved r) of
             None \<Rightarrow> (Inr None, r)
           | Some (Inl e) \<Rightarrow> (Inl e, r)
           | Some (Inr (msg, sv)) \<Rightarrow> (Inr msg, r\<lparr>saved := sv\<rparr>))"

text \<open>
  The loop of \<open>saveKeys\<close>, \<^verbatim>\<open>for n := receivedCount; n <= messageNum; n++\<close> on
  \<^verbatim>\<open>uint32\<close>. \<open>mks\<close> is the map of skipped keys, \<open>None\<close> the nil map, whose
  assignment panics.
\<close>

partial_function (option) saveKeysLoop ::
    "crypto \<Rightarrow> time \<Rightarrow> u32 \<Rightarrow> u32 \<Rightarrow> key \<Rightarrow> key \<Rightarrow> msg_keys option \<Rightarrow>
     (ratchet_error + key \<times> key \<times> msg_keys option) option" where
  "saveKeysLoop C now messageNum n chainKey messageKey mks =
     (if n \<le> messageNum then
        (if n < messageNum then
           (case mks of
              None \<Rightarrow> Some (Inl EPanic)
            | Some m \<Rightarrow>
                saveKeysLoop C now messageNum (n + 1)
                  (deriveKey C chainKey chainKeyStepLabel)
                  (deriveKey C chainKey messageKeyLabel)
                  (Some (AList.update n \<lparr>timestamp = now, sk_key = deriveKey C chainKey messageKeyLabel\<rparr> m)))
         else
           saveKeysLoop C now messageNum (n + 1)
             (deriveKey C chainKey chainKeyStepLabel)
             (deriveKey C chainKey messageKeyLabel) mks)
      else Some (Inr (chainKey, messageKey, mks)))"

definition saveKeys ::
    "crypto \<Rightarrow> time \<Rightarrow> key \<Rightarrow> key \<Rightarrow> u32 \<Rightarrow> u32 \<Rightarrow>
     (ratchet_error + key \<times> key \<times> saved_keys) option" where
  "saveKeys C now headerKey chainKey messageNum receivedCount =
     (if messageNum < receivedCount then Some (Inl EDuplicate)
      else let missingMessages = messageNum - receivedCount in
        if missingMessages > maxMissingMessages then Some (Inl EReorderLimit)
        else
          (case saveKeysLoop C now messageNum receivedCount chainKey zeroKey
                  (if missingMessages > 0 then Some [] else None) of
             None \<Rightarrow> None
           | Some (Inl e) \<Rightarrow> Some (Inl e)
           | Some (Inr (ck, mk, mks)) \<Rightarrow>
               Some (Inr (ck, mk, case mks of None \<Rightarrow> [] | Some m \<Rightarrow> [(headerKey, m)]))))"

definition mergeMessageKeys :: "msg_keys \<Rightarrow> msg_keys \<Rightarrow> msg_keys" where
  "mergeMessageKeys new old = fold (\<lambda>(n, k). AList.update n k) new old"

fun mergeSavedKeys :: "saved_keys \<Rightarrow> saved_keys \<Rightarrow> saved_keys" where
  "mergeSavedKeys [] sv = sv"
| "mergeSavedKeys ((headerKey, new) # rest) sv =
     mergeSavedKeys rest
       (case map_of sv headerKey of
          None \<Rightarrow> AList.update headerKey new sv
        | Some messageKeys \<Rightarrow> AList.update headerKey (mergeMessageKeys new messageKeys) sv)"

definition NbSavedKeys :: "ratchet \<Rightarrow> nat" where
  "NbSavedKeys r = sum_list (map (length \<circ> snd) (saved r))"

definition WillRatchet :: "ratchet \<Rightarrow> bool" where
  "WillRatchet r = ratchet_flag r"

section \<open>Decrypt\<close>

text \<open>The branch of \<open>Decrypt\<close> for a header that opens under the current receive header key.\<close>

definition decryptCurrent ::
    "crypto \<Rightarrow> time \<Rightarrow> ratchet \<Rightarrow> bytes \<Rightarrow> bytes \<Rightarrow>
     ((ratchet_error + bytes) \<times> ratchet) option" where
  "decryptCurrent C now r header sealedMessage =
     (if length header \<noteq> headerSize then Some (Inl EHeaderSize, r)
      else let messageNum = get_u32_le (take 4 header) in
        case saveKeys C now (recvHeaderKey r) (recvChainKey r) messageNum (recvCount r) of
          None \<Rightarrow> None
        | Some (Inl e) \<Rightarrow> Some (Inl e, r)
        | Some (Inr (chainKey, messageKey, savedKeys)) \<Rightarrow>
            (case secretbox_open C sealedMessage (drop nonceInHeaderOffset header) messageKey of
               None \<Rightarrow> Some (Inl ECorrupt, r)
             | Some msg \<Rightarrow>
                 Some (Inr msg, r\<lparr>recvChainKey := chainKey,
                                  saved := mergeSavedKeys savedKeys (saved r),
                                  recvCount := messageNum + 1,
                                  lastDecryptTime := now\<rparr>)))"

text \<open>The branch for a header that opens under the next receive header key: the peer ratcheted.\<close>

definition decryptNext ::
    "crypto \<Rightarrow> time \<Rightarrow> ratchet \<Rightarrow> bytes \<Rightarrow> bytes \<Rightarrow>
     ((ratchet_error + bytes) \<times> ratchet) option" where
  "decryptNext C now r header sealedMessage =
     (if length header \<noteq> headerSize then Some (Inl EHeaderSize, r)
      else if ratchet_flag r then Some (Inl ENoRatchetFlag, r)
      else let messageNum = get_u32_le (take 4 header);
               prevMessageCount = get_u32_le (take 4 (drop 4 header)) in
        case saveKeys C now (recvHeaderKey r) (recvChainKey r) prevMessageCount (recvCount r) of
          None \<Rightarrow> None
        | Some (Inl e) \<Rightarrow> Some (Inl e, r)
        | Some (Inr (_, _, oldSavedKeys)) \<Rightarrow>
          let dhPublic = take 32 (drop 8 header) in
          (case x25519 C (sendRatchetPrivate r) dhPublic of
             None \<Rightarrow> Some (Inl EX25519, r)
           | Some sharedKey \<Rightarrow>
             let keyMaterial = sha256 C (rootKeyUpdateLabel @ rootKey r @ sharedKey);
                 rk = deriveKey C keyMaterial rootKeyLabel;
                 chainKey = deriveKey C keyMaterial chainKeyLabel in
             (case saveKeys C now (nextRecvHeaderKey r) chainKey messageNum 0 of
                None \<Rightarrow> None
              | Some (Inl e) \<Rightarrow> Some (Inl e, r)
              | Some (Inr (ck, messageKey, savedKeys)) \<Rightarrow>
                (case secretbox_open C sealedMessage (drop nonceInHeaderOffset header) messageKey of
                   None \<Rightarrow> Some (Inl ECorrupt, r)
                 | Some msg \<Rightarrow>
                     Some (Inr msg,
                           r\<lparr>rootKey := rk,
                             recvChainKey := ck,
                             prevRecvHeaderKey := recvHeaderKey r,
                             recvHeaderKey := nextRecvHeaderKey r,
                             nextRecvHeaderKey := deriveKey C keyMaterial sendHeaderKeyLabel,
                             sendRatchetPrivate := zeroKey,
                             recvRatchetPublic := dhPublic,
                             prevRecvCount := recvCount r,
                             recvCount := messageNum + 1,
                             saved := mergeSavedKeys savedKeys (mergeSavedKeys oldSavedKeys (saved r)),
                             ratchet_flag := True,
                             lastDecryptTime := now\<rparr>)))))"

definition Decrypt ::
    "crypto \<Rightarrow> time \<Rightarrow> ratchet \<Rightarrow> bytes \<Rightarrow> ((ratchet_error + bytes) \<times> ratchet) option" where
  "Decrypt C now r ciphertext =
     (case trySavedKeys C r ciphertext of
        (Inl e, r) \<Rightarrow> Some (Inl e, r)
      | (Inr (Some msg), r) \<Rightarrow> Some (Inr msg, r\<lparr>lastDecryptTime := now\<rparr>)
      | (Inr None, r) \<Rightarrow>
          let sealedHeader = take (sealedHeaderSize C) ciphertext;
              sealedMessage = drop (sealedHeaderSize C) ciphertext;
              nonce = take 24 sealedHeader;
              sealedHeader = drop 24 sealedHeader
          in case (if isZeroKey (recvHeaderKey r) then None
                   else secretbox_open C sealedHeader nonce (recvHeaderKey r)) of
               Some header \<Rightarrow> decryptCurrent C now r header sealedMessage
             | None \<Rightarrow>
                 (case secretbox_open C sealedHeader nonce (nextRecvHeaderKey r) of
                    None \<Rightarrow> Some (Inl ECannotDecrypt, r)
                  | Some header \<Rightarrow> decryptNext C now r header sealedMessage))"

definition LastEncDecTimes :: "ratchet \<Rightarrow> time \<times> time" where
  "LastEncDecTimes r = (lastEncryptTime r, lastDecryptTime r)"

definition EncryptedSize :: "crypto \<Rightarrow> nat \<Rightarrow> nat" where
  "EncryptedSize C msgSize =
     24 + headerSize + secretbox_overhead C + msgSize + secretbox_overhead C"


section \<open>Facts about single operations\<close>

subsection \<open>The zero key\<close>

lemma fold_or_eq_0_iff:
  "fold (\<lambda>v x. x OR v) key (a :: byte) = 0 \<longleftrightarrow> a = 0 \<and> (\<forall>v \<in> set key. v = 0)"
proof (induction key arbitrary: a)
  case (Cons v key)
  have "a OR v = 0 \<longleftrightarrow> a = 0 \<and> v = 0"
    by (auto simp: bit_eq_iff bit_or_iff)
  with Cons show ?case by simp
qed simp

lemma isZeroKey_iff: "length key = 32 \<Longrightarrow> isZeroKey key \<longleftrightarrow> key = zeroKey"
  unfolding isZeroKey_def zeroKey_def fold_or_eq_0_iff
  by (metis in_set_replicate replicate_length_same)

lemma isZeroKey_zeroKey [simp]: "isZeroKey zeroKey"
  by (simp only: isZeroKey_def fold_or_eq_0_iff zeroKey_def set_replicate_conv_if) simp

subsection \<open>The header\<close>

lemma length_header_bytes:
  "length pub = 32 \<Longrightarrow> length nonce = 24 \<Longrightarrow> length (header_bytes cnt prev pub nonce) = headerSize"
  by (simp add: header_bytes_def headerSize_def)

lemma header_fields:
  assumes "length pub = 32"
  shows "get_u32_le (take 4 (header_bytes cnt prev pub nonce)) = cnt"
    and "get_u32_le (take 4 (drop 4 (header_bytes cnt prev pub nonce))) = prev"
    and "take 32 (drop 8 (header_bytes cnt prev pub nonce)) = pub"
    and "drop nonceInHeaderOffset (header_bytes cnt prev pub nonce) = nonce"
  using assms get_put_u32_le [of cnt "[]"] get_put_u32_le [of prev "[]"]
  by (simp_all add: header_bytes_def nonceInHeaderOffset_def)

subsection \<open>The chain of message keys\<close>

text \<open>The chain key after \<open>n\<close> steps and the \<open>n\<close>-th message key of a chain.\<close>

definition chainAt :: "crypto \<Rightarrow> key \<Rightarrow> nat \<Rightarrow> key" where
  "chainAt C ck n = ((\<lambda>k. deriveKey C k chainKeyStepLabel) ^^ n) ck"

definition msgKeyAt :: "crypto \<Rightarrow> key \<Rightarrow> nat \<Rightarrow> key" where
  "msgKeyAt C ck n = deriveKey C (chainAt C ck n) messageKeyLabel"

text \<open>The keys of the \<open>d\<close> messages skipped from number \<open>n\<close> on.\<close>

definition skippedKeys :: "crypto \<Rightarrow> time \<Rightarrow> key \<Rightarrow> u32 \<Rightarrow> nat \<Rightarrow> msg_keys" where
  "skippedKeys C now ck n d =
     map (\<lambda>i. (n + of_nat i, \<lparr>timestamp = now, sk_key = msgKeyAt C ck i\<rparr>)) [0..<d]"

lemma chainAt_0 [simp]: "chainAt C ck 0 = ck"
  by (simp add: chainAt_def)

lemma chainAt_Suc: "chainAt C (deriveKey C ck chainKeyStepLabel) n = chainAt C ck (Suc n)"
  by (simp add: chainAt_def funpow_swap1 [of "\<lambda>k. deriveKey C k chainKeyStepLabel"])

lemma chainAt_step: "deriveKey C (chainAt C ck n) chainKeyStepLabel = chainAt C ck (Suc n)"
  by (simp add: chainAt_def)

lemma chainAt_add: "chainAt C (chainAt C ck m) n = chainAt C ck (m + n)"
  by (simp add: chainAt_def funpow_add [symmetric, THEN fun_cong, simplified] add.commute)

lemma msgKeyAt_Suc: "msgKeyAt C (deriveKey C ck chainKeyStepLabel) n = msgKeyAt C ck (Suc n)"
  by (simp add: msgKeyAt_def chainAt_Suc)

lemma msgKeyAt_add: "msgKeyAt C (chainAt C ck m) n = msgKeyAt C ck (m + n)"
  by (simp add: msgKeyAt_def chainAt_add)

lemma msgKeyAt_0 [simp]: "msgKeyAt C ck 0 = deriveKey C ck messageKeyLabel"
  by (simp add: msgKeyAt_def)

lemma unat_Suc_no_wrap:
  assumes "n < (m :: u32)"
  shows "unat (n + 1) = Suc (unat n)"
proof -
  have "Suc (unat n) < 2 ^ 32"
    using assms unsigned_less [of m, where 'a = nat] by (simp add: word_less_nat_alt)
  then show ?thesis by (simp add: unat_word_ariths)
qed

lemma less_Suc_word: "(n :: u32) \<noteq> - 1 \<Longrightarrow> n < n + 1"
  using unat_Suc_no_wrap [of n "- 1"] word_order.extremum [of n]
  unfolding word_less_nat_alt [of n "n + 1"] by (simp add: order.strict_iff_order [of n "- 1"])

lemma skippedKeys_0 [simp]: "skippedKeys C now ck n 0 = []"
  by (simp add: skippedKeys_def)

lemma skippedKeys_Suc:
  "skippedKeys C now ck n (Suc d) =
   (n, \<lparr>timestamp = now, sk_key = deriveKey C ck messageKeyLabel\<rparr>) #
   skippedKeys C now (deriveKey C ck chainKeyStepLabel) (n + 1) d"
  by (simp add: skippedKeys_def upt_conv_Cons map_Suc_upt [symmetric] msgKeyAt_Suc
      del: upt_Suc)

lemma length_skippedKeys [simp]: "length (skippedKeys C now ck n d) = d"
  by (simp add: skippedKeys_def)

lemma fst_skippedKeys: "map fst (skippedKeys C now ck n d) = map (\<lambda>i. n + of_nat i) [0..<d]"
  by (simp add: skippedKeys_def)

text \<open>Below the wrap-around, the loop returns the chain key and message key of the received
  message and adds the keys of the skipped ones.\<close>

lemma saveKeysLoop_last:
  assumes "m \<noteq> - 1"
  shows "saveKeysLoop C now m m ck mk mks =
    Some (Inr (deriveKey C ck chainKeyStepLabel, deriveKey C ck messageKeyLabel, mks))"
proof -
  have "\<not> m + 1 \<le> m"
    using less_Suc_word [OF assms] by simp
  then show ?thesis by (simp add: saveKeysLoop.simps [of C now m])
qed

lemma saveKeysLoop_Some:
  assumes "m \<noteq> - 1" and "unat m = unat n + d"
  shows "saveKeysLoop C now m n ck mk (Some ks) =
    Some (Inr (chainAt C ck (Suc d), msgKeyAt C ck d,
               Some (fold (\<lambda>(n, k). AList.update n k) (skippedKeys C now ck n d) ks)))"
  using assms(2)
proof (induction d arbitrary: n ck mk ks)
  case 0
  then have "n = m" by (simp add: word_unat_eq_iff)
  with saveKeysLoop_last [OF assms(1)] show ?case
    by (simp add: chainAt_Suc [symmetric])
next
  case (Suc d)
  then have lt: "n < m" by (simp add: word_less_nat_alt)
  with Suc.prems have "unat m = unat (n + 1) + d" by (simp add: unat_Suc_no_wrap)
  note IH = Suc.IH [OF this, of "deriveKey C ck chainKeyStepLabel"]
  from lt show ?case
    by (subst saveKeysLoop.simps)
      (simp add: IH chainAt_Suc msgKeyAt_Suc skippedKeys_Suc less_imp_le)
qed

text \<open>With the largest message number the loop never leaves through its condition.\<close>

lemma saveKeysLoop_max: "saveKeysLoop C now (- 1) n ck mk mks \<noteq> Some (Inr x)"
proof
  assume ret: "saveKeysLoop C now (- 1) n ck mk mks = Some (Inr x)"
  have "(- 1 :: u32) = - 1 \<longrightarrow> (\<forall>y. Inr x \<noteq> (Inr y :: ratchet_error + key \<times> key \<times> msg_keys option))"
  proof (rule saveKeysLoop.raw_induct
      [where P = "\<lambda>C now m n ck mk mks r. m = - 1 \<longrightarrow> (\<forall>y. r \<noteq> Inr y)", OF _ ret])
    fix f C now and m n :: u32 and ck mk mks r
    assume IH: "\<And>C now m n ck mk mks r. f C now m n ck mk mks = Some r \<Longrightarrow> m = - 1 \<longrightarrow> (\<forall>y. r \<noteq> Inr y)"
      and eq: "(if n \<le> m then if n < m then case mks of None \<Rightarrow> Some (Inl EPanic)
              | Some ma \<Rightarrow> f C now m (n + 1) (deriveKey C ck chainKeyStepLabel)
                  (deriveKey C ck messageKeyLabel)
                  (Some (AList.update n \<lparr>timestamp = now, sk_key = deriveKey C ck messageKeyLabel\<rparr> ma))
            else f C now m (n + 1) (deriveKey C ck chainKeyStepLabel)
                  (deriveKey C ck messageKeyLabel) mks
          else Some (Inr (ck, mk, mks))) = Some r"
    show "m = - 1 \<longrightarrow> (\<forall>y. r \<noteq> Inr y)"
      using IH eq word_order.extremum [of n] by (auto split: if_splits option.splits)
  qed
  then show False by simp
qed

lemma skippedKeys_distinct:
  assumes "d < 2 ^ 32"
  shows "distinct (map fst (skippedKeys C now ck n d))"
proof -
  have "inj_on (\<lambda>i. n + of_nat i) {0..<d}"
  proof (rule inj_onI)
    fix i j assume "i \<in> {0..<d}" "j \<in> {0..<d}" and eq: "n + of_nat i = n + of_nat j"
    then have "i < 2 ^ 32" "j < 2 ^ 32" using assms by auto
    moreover from eq have "unat (of_nat i :: u32) = unat (of_nat j :: u32)" by simp
    ultimately show "i = j" by (simp add: unat_of_nat)
  qed
  then show ?thesis by (simp add: fst_skippedKeys distinct_map)
qed

definition skippedFor :: "crypto \<Rightarrow> time \<Rightarrow> key \<Rightarrow> key \<Rightarrow> u32 \<Rightarrow> nat \<Rightarrow> saved_keys" where
  "skippedFor C now hk ck n d = (if d = 0 then [] else [(hk, skippedKeys C now ck n d)])"

lemma saveKeys_window:
  assumes "rc \<le> num" and "num - rc \<le> maxMissingMessages"
  shows "unat num - unat rc \<le> 80" and "unat num = unat rc + (unat num - unat rc)"
  using assms unat_sub [of rc num] by (simp_all add: word_le_nat_alt maxMissingMessages_def)

lemma saveKeys_ok:
  assumes le: "rc \<le> num" and win: "num - rc \<le> maxMissingMessages" and max: "num \<noteq> - 1"
  shows "saveKeys C now hk ck num rc =
    (let d = unat num - unat rc in
     Some (Inr (chainAt C ck (Suc d), msgKeyAt C ck d, skippedFor C now hk ck rc d)))"
proof (cases "num = rc")
  case True
  then show ?thesis
    using saveKeysLoop_last [OF max, of C now ck zeroKey None]
    by (simp add: saveKeys_def skippedFor_def chainAt_Suc [symmetric] maxMissingMessages_def)
next
  case False
  define d where "d = unat num - unat rc"
  have d: "unat num = unat rc + d" "d \<le> 80" "d \<noteq> 0"
    using saveKeys_window [OF le win] False by (auto simp: d_def word_unat_eq_iff)
  have "fold (\<lambda>(n, k). AList.update n k) (skippedKeys C now ck rc d) [] = skippedKeys C now ck rc d"
    using fold_update_distinct [OF skippedKeys_distinct, of d C now ck rc "[]"] d(2) by simp
  then have "saveKeysLoop C now num rc ck zeroKey (Some []) =
    Some (Inr (chainAt C ck (Suc d), msgKeyAt C ck d, Some (skippedKeys C now ck rc d)))"
    using saveKeysLoop_Some [OF max d(1)] by simp
  moreover have "num - rc > 0"
    using False by (simp add: word_neq_0_conv [symmetric])
  ultimately show ?thesis
    using le win d(3) by (simp add: saveKeys_def skippedFor_def not_less d_def [symmetric] Let_def)
qed

lemma saveKeys_Inr:
  assumes "saveKeys C now hk ck num rc = Some (Inr (ck', mk, sk))"
  shows "rc \<le> num" and "num - rc \<le> maxMissingMessages" and "num \<noteq> - 1"
    and "ck' = chainAt C ck (Suc (unat num - unat rc))"
    and "mk = msgKeyAt C ck (unat num - unat rc)"
    and "sk = skippedFor C now hk ck rc (unat num - unat rc)"
proof -
  show le: "rc \<le> num" and win: "num - rc \<le> maxMissingMessages"
    using assms by (auto simp: saveKeys_def Let_def not_less split: if_splits)
  show max: "num \<noteq> - 1"
    using assms le win saveKeysLoop_max
    by (fastforce simp: saveKeys_def Let_def split: if_splits option.splits sum.splits)
  show "ck' = chainAt C ck (Suc (unat num - unat rc))"
    and "mk = msgKeyAt C ck (unat num - unat rc)"
    and "sk = skippedFor C now hk ck rc (unat num - unat rc)"
    using assms saveKeys_ok [OF le win max] by (simp_all add: Let_def)
qed

lemma saveKeys_total:
  assumes "unat rc < 2 ^ 32 - 81"
  shows "saveKeys C now hk ck num rc \<noteq> None"
proof (cases "rc \<le> num \<and> num - rc \<le> maxMissingMessages")
  case True
  then have "unat num < 2 ^ 32 - 1"
    using saveKeys_window [of rc num] assms by auto
  then have "num \<noteq> - 1" by (auto simp: unsigned_minus_1_eq_mask mask_eq_exp_minus_1)
  with True show ?thesis by (simp add: saveKeys_ok Let_def)
next
  case False
  then show ?thesis by (auto simp: saveKeys_def Let_def not_less)
qed

subsection \<open>The store of saved keys\<close>

definition lookupKey :: "saved_keys \<Rightarrow> key \<Rightarrow> u32 \<Rightarrow> savedKey option" where
  "lookupKey sv hk n = Option.bind (map_of sv hk) (\<lambda>m. map_of m n)"

definition nbKeys :: "saved_keys \<Rightarrow> nat" where
  "nbKeys sv = sum_list (map (length \<circ> snd) sv)"

lemma map_of_skippedKeys:
  assumes "d < 2 ^ 32"
  shows "map_of (skippedKeys C now ck n d) m =
    (if unat (m - n) < d then Some \<lparr>timestamp = now, sk_key = msgKeyAt C ck (unat (m - n))\<rparr> else None)"
proof (cases "unat (m - n) < d")
  case True
  have "(n + of_nat (unat (m - n)), \<lparr>timestamp = now, sk_key = msgKeyAt C ck (unat (m - n))\<rparr>)
      \<in> set (skippedKeys C now ck n d)"
    using True unfolding skippedKeys_def set_map by (intro image_eqI [of _ _ "unat (m - n)"]) auto
  then have "(m, \<lparr>timestamp = now, sk_key = msgKeyAt C ck (unat (m - n))\<rparr>)
      \<in> set (skippedKeys C now ck n d)"
    by simp
  then show ?thesis
    using True skippedKeys_distinct [OF assms] by (simp add: map_of_eq_Some_iff)
next
  case False
  have "m \<notin> fst ` set (skippedKeys C now ck n d)"
  proof
    assume "m \<in> fst ` set (skippedKeys C now ck n d)"
    then obtain i where "i < d" "m = n + of_nat i" by (auto simp: skippedKeys_def)
    with False assms show False by (simp add: unat_of_nat)
  qed
  with False show ?thesis by (simp add: map_of_eq_None_iff)
qed

lemma lookupKey_merge:
  assumes "d < 2 ^ 32"
  shows "lookupKey (mergeSavedKeys (skippedFor C now hk ck n d) sv) hk' m =
    (if hk' = hk \<and> unat (m - n) < d
     then Some \<lparr>timestamp = now, sk_key = msgKeyAt C ck (unat (m - n))\<rparr>
     else lookupKey sv hk' m)"
proof -
  have "map_of (rev (skippedKeys C now ck n d)) = map_of (skippedKeys C now ck n d)"
    using skippedKeys_distinct [OF assms] by (intro map_of_inject_set [THEN iffD2]) (simp_all add: rev_map [symmetric])
  then show ?thesis
    by (auto simp: lookupKey_def skippedFor_def mergeMessageKeys_def map_of_fold_update
        map_of_skippedKeys [OF assms] split: option.splits)
qed

lemma wf_map_merge [simp]: "wf_map sv \<Longrightarrow> wf_map (mergeSavedKeys new sv)"
  by (induction new sv rule: mergeSavedKeys.induct) (simp_all split: option.split)

lemma nbKeys_update:
  "wf_map sv \<Longrightarrow> nbKeys (AList.update hk m sv) =
   nbKeys sv + length m - (case map_of sv hk of None \<Rightarrow> 0 | Some w \<Rightarrow> length w)"
  unfolding nbKeys_def by (rule sum_list_update)

lemma nbKeys_merge:
  assumes "wf_map sv"
  shows "nbKeys (mergeSavedKeys (skippedFor C now hk ck n d) sv) \<le> nbKeys sv + d"
proof (cases "map_of sv hk")
  case None
  with assms show ?thesis by (simp add: skippedFor_def nbKeys_update)
next
  case (Some old)
  have "length (mergeMessageKeys (skippedKeys C now ck n d) old) \<le> length old + d"
    using length_fold_update_le [of "skippedKeys C now ck n d" old] by (simp add: mergeMessageKeys_def)
  with assms Some show ?thesis by (auto simp: skippedFor_def nbKeys_update)
qed

lemma nbKeys_dropSavedKey:
  assumes "wf_map sv" and "map_of sv hk = Some m"
  shows "nbKeys (dropSavedKey sv hk m n) \<le> nbKeys sv"
proof -
  have "length (AList.delete n m) \<le> length m"
    by (simp add: AList.delete_eq)
  moreover have "nbKeys (AList.delete hk sv) \<le> nbKeys sv"
    unfolding nbKeys_def AList.delete_eq by (induction sv) auto
  ultimately show ?thesis
    using assms by (auto simp: dropSavedKey_def Let_def nbKeys_update)
qed

subsection \<open>Outcomes of the search among the saved keys\<close>

definition savedHit ::
    "crypto \<Rightarrow> bytes \<Rightarrow> bytes \<Rightarrow> bytes \<Rightarrow> saved_keys \<Rightarrow> key \<Rightarrow> msg_keys \<Rightarrow> u32 \<Rightarrow> bytes \<Rightarrow> bool" where
  "savedHit C sh nonce sm sv hk mks num msg \<longleftrightarrow>
     (hk, mks) \<in> set sv \<and>
     (\<exists>header mk. secretbox_open C sh nonce hk = Some header \<and> length header = headerSize \<and>
        num = get_u32_le (take 4 header) \<and> map_of mks num = Some mk \<and>
        secretbox_open C sm (drop nonceInHeaderOffset header) (sk_key mk) = Some msg)"

lemma savedHit_Cons: "savedHit C sh nonce sm sv hk mks num msg \<Longrightarrow> savedHit C sh nonce sm (x # sv) hk mks num msg"
  by (auto simp: savedHit_def)

lemma trySavedLoop_Inr:
  assumes "trySavedLoop C sh nonce sm sv rest = Some (Inr (res, sv'))"
  shows "res = None \<and> sv' = sv \<or>
    (\<exists>hk mks num msg. savedHit C sh nonce sm rest hk mks num msg \<and>
       res = nilSlice msg \<and> sv' = dropSavedKey sv hk mks num)"
  using assms
proof (induction C sh nonce sm sv rest rule: trySavedLoop.induct)
  case (2 C sh nonce sm sv hk mks rest)
  show ?case
  proof (cases "\<exists>header. secretbox_open C sh nonce hk = Some header \<and> length header = headerSize")
    case True
    then obtain header where h: "secretbox_open C sh nonce hk = Some header" "length header = headerSize"
      by blast
    show ?thesis
    proof (cases "map_of mks (get_u32_le (take 4 header))")
      case None
      with h "2.prems" show ?thesis by simp
    next
      case (Some mk)
      with h "2.prems" obtain msg where
        "secretbox_open C sm (drop nonceInHeaderOffset header) (sk_key mk) = Some msg"
        "res = nilSlice msg" "sv' = dropSavedKey sv hk mks (get_u32_le (take 4 header))"
        by (auto split: option.splits)
      with h Some show ?thesis by (fastforce simp: savedHit_def)
    qed
  next
    case False
    then have "res = None \<and> sv' = sv \<or>
      (\<exists>hk mks num msg. savedHit C sh nonce sm rest hk mks num msg \<and>
         res = nilSlice msg \<and> sv' = dropSavedKey sv hk mks num)"
      using "2.IH" "2.prems" by (cases "secretbox_open C sh nonce hk") auto
    then show ?thesis by (blast intro: savedHit_Cons)
  qed
qed simp

lemma trySavedKeys_Inl: "trySavedKeys C r ct = (Inl e, r') \<Longrightarrow> r' = r"
  by (auto simp: trySavedKeys_def Let_def split: if_splits option.splits sum.splits prod.splits)

lemma trySavedKeys_Inr:
  assumes "trySavedKeys C r ct = (Inr res, r')"
  shows "r' = r \<and> res = None \<or>
    (\<exists>hk mks num msg.
       savedHit C (drop 24 (take (sealedHeaderSize C) ct)) (take 24 (take (sealedHeaderSize C) ct))
         (drop (sealedHeaderSize C) ct) (saved r) hk mks num msg \<and>
       res = nilSlice msg \<and> r' = r\<lparr>saved := dropSavedKey (saved r) hk mks num\<rparr>)"
  using assms
  by (auto simp: trySavedKeys_def Let_def split: if_splits option.splits sum.splits prod.splits
      dest!: trySavedLoop_Inr)

lemma trySavedKeys_long: "trySavedKeys C r ct = (Inr res, r') \<Longrightarrow> sealedHeaderSize C \<le> length ct"
  by (auto simp: trySavedKeys_def split: if_splits)

lemma trySavedKeys_None:
  assumes "secretbox_sized C" and "length ct \<noteq> sealedHeaderSize C + secretbox_overhead C"
    and "trySavedKeys C r ct = (Inr None, r')"
  shows "r' = r"
proof -
  have "secretbox_open C (drop (sealedHeaderSize C) ct) nonce k \<noteq> Some []" for nonce k
    using assms(1,2) trySavedKeys_long [OF assms(3)] by (fastforce simp: secretbox_sized_def)
  then show ?thesis
    using trySavedKeys_Inr [OF assms(3)] by (auto simp: savedHit_def nilSlice_def split: if_splits)
qed

lemma decryptCurrent_Inl: "decryptCurrent C now r header sm = Some (Inl e, r') \<Longrightarrow> r' = r"
  by (auto simp: decryptCurrent_def Let_def split: if_splits option.splits sum.splits prod.splits)

lemma decryptNext_Inl: "decryptNext C now r header sm = Some (Inl e, r') \<Longrightarrow> r' = r"
  by (auto simp: decryptNext_def Let_def split: if_splits option.splits sum.splits prod.splits)

text \<open>Every outcome of \<open>Decrypt\<close> comes from one of its three ways through.\<close>

lemma Decrypt_cases:
  assumes "Decrypt C now r ct = Some (res, r')"
  obtains (too_short) e where "res = Inl e" "r' = r" "trySavedKeys C r ct = (Inl e, r)"
  | (from_saved) msg r1 where "trySavedKeys C r ct = (Inr (Some msg), r1)" "res = Inr msg"
      "r' = r1\<lparr>lastDecryptTime := now\<rparr>"
  | (cannot) r1 where "trySavedKeys C r ct = (Inr None, r1)" "res = Inl ECannotDecrypt" "r' = r1"
  | (current) r1 header where "trySavedKeys C r ct = (Inr None, r1)"
      "\<not> isZeroKey (recvHeaderKey r1)"
      "secretbox_open C (drop 24 (take (sealedHeaderSize C) ct)) (take 24 (take (sealedHeaderSize C) ct))
         (recvHeaderKey r1) = Some header"
      "decryptCurrent C now r1 header (drop (sealedHeaderSize C) ct) = Some (res, r')"
  | (ratcheted) r1 header where "trySavedKeys C r ct = (Inr None, r1)"
      "isZeroKey (recvHeaderKey r1) \<or>
       secretbox_open C (drop 24 (take (sealedHeaderSize C) ct)) (take 24 (take (sealedHeaderSize C) ct))
         (recvHeaderKey r1) = None"
      "secretbox_open C (drop 24 (take (sealedHeaderSize C) ct)) (take 24 (take (sealedHeaderSize C) ct))
         (nextRecvHeaderKey r1) = Some header"
      "decryptNext C now r1 header (drop (sealedHeaderSize C) ct) = Some (res, r')"
proof (cases "trySavedKeys C r ct")
  case (Pair out r1)
  show thesis
  proof (cases out)
    case (Inl e)
    then show thesis
      using assms Pair trySavedKeys_Inl [of C r ct e r1] too_short
      by (auto simp: Decrypt_def)
  next
    case (Inr m)
    show thesis
    proof (cases m)
      case (Some msg)
      with Inr show thesis using assms Pair from_saved by (simp add: Decrypt_def)
    next
      case None
      with Inr Pair have none: "trySavedKeys C r ct = (Inr None, r1)" by simp
      show thesis
        using assms none cannot [OF none] current [OF none] ratcheted [OF none]
        by (auto simp: Decrypt_def Let_def split: if_splits option.splits)
    qed
  qed
qed

lemma Decrypt_Inl_state:
  assumes "secretbox_sized C" and "length ct \<noteq> sealedHeaderSize C + secretbox_overhead C"
    and "Decrypt C now r ct = Some (Inl e, r')"
  shows "r' = r"
  using assms(3)
proof (cases rule: Decrypt_cases)
  case (current r1 header)
  then show ?thesis using trySavedKeys_None [OF assms(1,2)] decryptCurrent_Inl by blast
next
  case (ratcheted r1 header)
  then show ?thesis using trySavedKeys_None [OF assms(1,2)] decryptNext_Inl by blast
qed (use trySavedKeys_None [OF assms(1,2)] in auto)

text \<open>A successful decryption under the current header key.\<close>

lemma decryptCurrent_Inr:
  assumes "decryptCurrent C now r header sm = Some (Inr msg, r')"
  obtains num d where "length header = headerSize" "num = get_u32_le (take 4 header)"
    "recvCount r \<le> num" "d \<le> 80" "num \<noteq> - 1" "unat num = unat (recvCount r) + d"
    "secretbox_open C sm (drop nonceInHeaderOffset header) (msgKeyAt C (recvChainKey r) d) = Some msg"
    "r' = r\<lparr>recvChainKey := chainAt C (recvChainKey r) (Suc d),
            saved := mergeSavedKeys (skippedFor C now (recvHeaderKey r) (recvChainKey r) (recvCount r) d) (saved r),
            recvCount := num + 1, lastDecryptTime := now\<rparr>"
proof -
  let ?num = "get_u32_le (take 4 header)"
  from assms obtain ck mk sk where
    sv: "saveKeys C now (recvHeaderKey r) (recvChainKey r) ?num (recvCount r) = Some (Inr (ck, mk, sk))"
    and rest: "length header = headerSize"
      "secretbox_open C sm (drop nonceInHeaderOffset header) mk = Some msg"
      "r' = r\<lparr>recvChainKey := ck, saved := mergeSavedKeys sk (saved r),
              recvCount := ?num + 1, lastDecryptTime := now\<rparr>"
    by (auto simp: decryptCurrent_def Let_def split: if_splits option.splits sum.splits prod.splits)
  note facts = saveKeys_Inr [OF sv]
  show thesis
    using rest facts saveKeys_window [OF facts(1,2)] that [of ?num "unat ?num - unat (recvCount r)"] by auto
qed

text \<open>A successful decryption under the next header key.\<close>

lemma decryptNext_Inr:
  assumes "decryptNext C now r header sm = Some (Inr msg, r')"
  obtains num prev d dhPublic sharedKey km where "length header = headerSize" "\<not> ratchet_flag r"
    "num = get_u32_le (take 4 header)" "prev = get_u32_le (take 4 (drop 4 header))"
    "recvCount r \<le> prev" "d \<le> 80" "unat prev = unat (recvCount r) + d"
    "unat num \<le> 80" "num \<noteq> - 1"
    "dhPublic = take 32 (drop 8 header)" "x25519 C (sendRatchetPrivate r) dhPublic = Some sharedKey"
    "km = sha256 C (rootKeyUpdateLabel @ rootKey r @ sharedKey)"
    "secretbox_open C sm (drop nonceInHeaderOffset header)
       (msgKeyAt C (deriveKey C km chainKeyLabel) (unat num)) = Some msg"
    "r' = r\<lparr>rootKey := deriveKey C km rootKeyLabel,
            recvChainKey := chainAt C (deriveKey C km chainKeyLabel) (Suc (unat num)),
            prevRecvHeaderKey := recvHeaderKey r,
            recvHeaderKey := nextRecvHeaderKey r,
            nextRecvHeaderKey := deriveKey C km sendHeaderKeyLabel,
            sendRatchetPrivate := zeroKey,
            recvRatchetPublic := dhPublic,
            prevRecvCount := recvCount r,
            recvCount := num + 1,
            saved := mergeSavedKeys
              (skippedFor C now (nextRecvHeaderKey r) (deriveKey C km chainKeyLabel) 0 (unat num))
              (mergeSavedKeys (skippedFor C now (recvHeaderKey r) (recvChainKey r) (recvCount r) d) (saved r)),
            ratchet_flag := True,
            lastDecryptTime := now\<rparr>"
proof -
  let ?num = "get_u32_le (take 4 header)" and ?prev = "get_u32_le (take 4 (drop 4 header))"
  from assms obtain ck0 mk0 sk0 sharedKey where
    sv0: "saveKeys C now (recvHeaderKey r) (recvChainKey r) ?prev (recvCount r) = Some (Inr (ck0, mk0, sk0))"
    and sh: "x25519 C (sendRatchetPrivate r) (take 32 (drop 8 header)) = Some sharedKey"
    and hdr: "length header = headerSize" "\<not> ratchet_flag r"
    by (auto simp: decryptNext_def Let_def split: if_splits option.splits sum.splits prod.splits)
  define km where "km = sha256 C (rootKeyUpdateLabel @ rootKey r @ sharedKey)"
  from assms sv0 sh hdr obtain ck mk sk where
    sv: "saveKeys C now (nextRecvHeaderKey r) (deriveKey C km chainKeyLabel) ?num 0 = Some (Inr (ck, mk, sk))"
    and op: "secretbox_open C sm (drop nonceInHeaderOffset header) mk = Some msg"
    and r': "r' = r\<lparr>rootKey := deriveKey C km rootKeyLabel, recvChainKey := ck,
            prevRecvHeaderKey := recvHeaderKey r, recvHeaderKey := nextRecvHeaderKey r,
            nextRecvHeaderKey := deriveKey C km sendHeaderKeyLabel, sendRatchetPrivate := zeroKey,
            recvRatchetPublic := take 32 (drop 8 header), prevRecvCount := recvCount r,
            recvCount := ?num + 1, saved := mergeSavedKeys sk (mergeSavedKeys sk0 (saved r)),
            ratchet_flag := True, lastDecryptTime := now\<rparr>"
    by (auto simp: decryptNext_def Let_def km_def split: option.splits sum.splits prod.splits)
  note f0 = saveKeys_Inr [OF sv0] and f = saveKeys_Inr [OF sv]
  show thesis
    using hdr sh op r' f0 f saveKeys_window [OF f0(1,2)] saveKeys_window [OF f(1,2)]
      that [of ?num ?prev "unat ?prev - unat (recvCount r)" "take 32 (drop 8 header)" sharedKey km]
    by (simp add: km_def)
qed

lemma Decrypt_nbKeys:
  assumes "wf_map (saved r)" and "Decrypt C now r ct = Some (res, r')"
  shows "nbKeys (saved r') \<le> nbKeys (saved r) + 160" and "wf_map (saved r')"
proof -
  have drop: "wf_map (dropSavedKey (saved r) hk mks num) \<and>
      nbKeys (dropSavedKey (saved r) hk mks num) \<le> nbKeys (saved r)"
    if "savedHit C sh nonce sm (saved r) hk mks num msg" for sh nonce sm hk mks num msg
  proof -
    have "map_of (saved r) hk = Some mks"
      using that assms(1) by (simp add: savedHit_def wf_map_def)
    then show ?thesis
      using assms(1) nbKeys_dropSavedKey by (simp add: dropSavedKey_def Let_def)
  qed
  have r1: "wf_map (saved r1) \<and> nbKeys (saved r1) \<le> nbKeys (saved r)"
    if "trySavedKeys C r ct = (Inr m, r1)" for m r1
    using trySavedKeys_Inr [OF that] drop assms(1) by auto
  show "nbKeys (saved r') \<le> nbKeys (saved r) + 160" and "wf_map (saved r')"
    using assms(2)
  proof (atomize (full), cases rule: Decrypt_cases)
    case (current r1 header)
    note r1 = r1 [OF current(1)]
    show "nbKeys (saved r') \<le> nbKeys (saved r) + 160 \<and> wf_map (saved r')"
    proof (cases res)
      case (Inl e)
      then show ?thesis using current(4) decryptCurrent_Inl r1 by fastforce
    next
      case (Inr msg)
      with current(4) have "decryptCurrent C now r1 header (drop (sealedHeaderSize C) ct) = Some (Inr msg, r')"
        by simp
      then obtain d where "d \<le> 80" "saved r' = mergeSavedKeys
          (skippedFor C now (recvHeaderKey r1) (recvChainKey r1) (recvCount r1) d) (saved r1)"
        by (rule decryptCurrent_Inr) auto
      then show ?thesis
        using r1 nbKeys_merge [of "saved r1"] by (fastforce intro: order_trans)
    qed
  next
    case (ratcheted r1 header)
    note r1 = r1 [OF ratcheted(1)]
    show "nbKeys (saved r') \<le> nbKeys (saved r) + 160 \<and> wf_map (saved r')"
    proof (cases res)
      case (Inl e)
      then show ?thesis using ratcheted(4) decryptNext_Inl r1 by fastforce
    next
      case (Inr msg)
      with ratcheted(4) have "decryptNext C now r1 header (drop (sealedHeaderSize C) ct) = Some (Inr msg, r')"
        by simp
      then obtain d d' ck where d: "d \<le> 80" "d' \<le> 80" "saved r' = mergeSavedKeys
          (skippedFor C now (nextRecvHeaderKey r1) ck 0 d') (mergeSavedKeys
          (skippedFor C now (recvHeaderKey r1) (recvChainKey r1) (recvCount r1) d) (saved r1))"
        by (rule decryptNext_Inr) auto
      let ?sv = "mergeSavedKeys (skippedFor C now (recvHeaderKey r1) (recvChainKey r1) (recvCount r1) d) (saved r1)"
      have "nbKeys ?sv \<le> nbKeys (saved r1) + d"
        using r1 by (simp add: nbKeys_merge)
      moreover have "nbKeys (saved r') \<le> nbKeys ?sv + d'"
        using r1 by (simp add: nbKeys_merge d(3))
      ultimately show ?thesis using r1 d by simp
    qed
  qed (use r1 assms(1) in auto)
qed

subsection \<open>Decrypt returns\<close>

lemma trySavedKeys_counts:
  "trySavedKeys C r ct = (res, r1) \<Longrightarrow> recvCount r1 = recvCount r"
  by (auto simp: trySavedKeys_def Let_def split: if_splits option.splits sum.splits prod.splits)

lemma decryptCurrent_total:
  assumes "unat (recvCount r) < 2 ^ 32 - 81"
  shows "decryptCurrent C now r header sm \<noteq> None"
  using saveKeys_total [OF assms, of C now "recvHeaderKey r" "recvChainKey r" "get_u32_le (take 4 header)"]
  by (simp add: decryptCurrent_def Let_def del: not_None_eq split: option.split sum.split)

lemma decryptNext_total:
  assumes "unat (recvCount r) < 2 ^ 32 - 81"
  shows "decryptNext C now r header sm \<noteq> None"
proof -
  have "saveKeys C now hk ck num 0 \<noteq> None" for hk ck num
    by (rule saveKeys_total) simp
  then show ?thesis
    using saveKeys_total [OF assms, of C now "recvHeaderKey r" "recvChainKey r"
        "get_u32_le (take 4 (drop 4 header))"]
    by (simp add: decryptNext_def Let_def del: not_None_eq split: option.split sum.split)
qed

lemma Decrypt_total:
  assumes "unat (recvCount r) < 2 ^ 32 - 81"
  shows "Decrypt C now r ct \<noteq> None"
proof -
  obtain res r1 where "trySavedKeys C r ct = (res, r1)" by (cases "trySavedKeys C r ct")
  moreover from this have "unat (recvCount r1) < 2 ^ 32 - 81"
    using assms by (simp add: trySavedKeys_counts)
  ultimately show ?thesis
    by (simp add: Decrypt_def Let_def decryptCurrent_total decryptNext_total
        del: not_None_eq split: sum.split option.split)
qed

subsection \<open>Sizes: every key fills its array\<close>

definition key32 :: "key \<Rightarrow> bool" where
  "key32 k \<longleftrightarrow> length k = 32"

definition wf_msg_keys :: "msg_keys \<Rightarrow> bool" where
  "wf_msg_keys mks \<longleftrightarrow> wf_map mks \<and> (\<forall>(n, mk) \<in> set mks. key32 (sk_key mk))"

definition wf_saved :: "saved_keys \<Rightarrow> bool" where
  "wf_saved sv \<longleftrightarrow> wf_map sv \<and> (\<forall>(hk, mks) \<in> set sv. key32 hk \<and> wf_msg_keys mks)"

definition wf_ratchet :: "ratchet \<Rightarrow> bool" where
  "wf_ratchet r \<longleftrightarrow>
     key32 (rootKey r) \<and> key32 (sendHeaderKey r) \<and> key32 (recvHeaderKey r) \<and>
     key32 (nextSendHeaderKey r) \<and> key32 (nextRecvHeaderKey r) \<and> key32 (prevRecvHeaderKey r) \<and>
     key32 (sendChainKey r) \<and> key32 (recvChainKey r) \<and> key32 (sendRatchetPrivate r) \<and>
     key32 (recvRatchetPublic r) \<and> wf_saved (saved r) \<and>
     pred_option key32 (myHalf r) \<and> pred_option key32 (theirHalf r) \<and> pred_option key32 (kxPrivate r)"

lemma wf_saved_Nil [simp]: "wf_saved []"
  by (simp add: wf_saved_def)

lemma key32_deriveKey [simp]: "key_sizes C \<Longrightarrow> key32 (deriveKey C k l)"
  by (simp add: key32_def deriveKey_def key_sizes_def)

lemma key32_msgKeyAt [simp]: "key_sizes C \<Longrightarrow> key32 (msgKeyAt C ck n)"
  by (simp add: msgKeyAt_def)

lemma key32_chainAt: "key_sizes C \<Longrightarrow> key32 ck \<Longrightarrow> key32 (chainAt C ck n)"
  by (induction n) (simp_all flip: chainAt_step)

lemma key32_zeroKey [simp]: "key32 zeroKey"
  by (simp add: key32_def zeroKey_def)

lemma randBytes_Some:
  "randBytes n r = Some (bs, r') \<longleftrightarrow>
   n \<le> length (rand r) \<and> bs = take n (rand r) \<and> r' = r\<lparr>rand := drop n (rand r)\<rparr>"
  by (auto simp: randBytes_def)

lemma wf_ratchet_step:
  assumes "key_sizes C" and "wf_ratchet r" and "ratchetStep C r = (res, r')"
  shows "wf_ratchet r'"
proof (cases "randBytes 32 r")
  case None
  with assms show ?thesis by (simp add: ratchetStep_def)
next
  case (Some p)
  then obtain priv where p: "p = (priv, r\<lparr>rand := drop 32 (rand r)\<rparr>)" "key32 priv"
    by (cases p) (auto simp: randBytes_Some key32_def)
  with Some assms show ?thesis
    by (auto simp: ratchetStep_def Let_def wf_ratchet_def split: option.splits)
qed

lemma wf_ratchet_encryptMessage:
  assumes "key_sizes C" and "wf_ratchet r" and "encryptMessage C now r out msg = (res, r')"
  shows "wf_ratchet r'"
  using assms
  by (auto simp: encryptMessage_def Let_def randBytes_Some wf_ratchet_def split: option.splits)

lemma wf_ratchet_Encrypt:
  "key_sizes C \<Longrightarrow> wf_ratchet r \<Longrightarrow> Encrypt C now r out msg = (res, r') \<Longrightarrow> wf_ratchet r'"
  by (auto simp: Encrypt_def split: if_splits prod.splits sum.splits
      intro: wf_ratchet_encryptMessage wf_ratchet_step)

lemma wf_saved_update:
  "wf_saved sv \<Longrightarrow> key32 hk \<Longrightarrow> wf_msg_keys mks \<Longrightarrow> wf_saved (AList.update hk mks sv)"
  using set_update_subset [of hk mks sv] by (auto simp: wf_saved_def)

lemma wf_saved_delete: "wf_saved sv \<Longrightarrow> wf_saved (AList.delete hk sv)"
  using set_delete_subset [of hk sv] by (auto simp: wf_saved_def)

lemma wf_msg_keys_delete: "wf_msg_keys mks \<Longrightarrow> wf_msg_keys (AList.delete n mks)"
  using set_delete_subset [of n mks] by (auto simp: wf_msg_keys_def)

lemma wf_msg_keys_merge:
  "wf_msg_keys new \<Longrightarrow> wf_msg_keys old \<Longrightarrow> wf_msg_keys (mergeMessageKeys new old)"
  using set_fold_update_subset [of new old] by (auto simp: wf_msg_keys_def mergeMessageKeys_def)

lemma wf_msg_keys_skipped:
  "key_sizes C \<Longrightarrow> d < 2 ^ 32 \<Longrightarrow> wf_msg_keys (skippedKeys C now ck n d)"
  using skippedKeys_distinct [of d C now ck n]
  by (auto simp: wf_msg_keys_def wf_map_def skippedKeys_def)

lemma wf_saved_dropSavedKey:
  "wf_saved sv \<Longrightarrow> (hk, mks) \<in> set sv \<Longrightarrow> wf_saved (dropSavedKey sv hk mks n)"
  by (auto simp: dropSavedKey_def Let_def intro!: wf_saved_delete wf_saved_update wf_msg_keys_delete)
    (auto simp: wf_saved_def)

lemma wf_saved_lookup:
  "wf_saved sv \<Longrightarrow> map_of sv hk = Some mks \<Longrightarrow> key32 hk \<and> wf_msg_keys mks"
  by (drule map_of_SomeD) (auto simp: wf_saved_def)

lemma wf_saved_merge:
  assumes "key_sizes C" "d < 2 ^ 32" "wf_saved sv" "key32 hk"
  shows "wf_saved (mergeSavedKeys (skippedFor C now hk ck n d) sv)"
  using assms
  by (auto simp: skippedFor_def split: option.splits
      intro!: wf_saved_update wf_msg_keys_skipped wf_msg_keys_merge dest: wf_saved_lookup)

lemma wf_ratchet_trySavedKeys:
  assumes "wf_ratchet r" and "trySavedKeys C r ct = (Inr res, r1)"
  shows "wf_ratchet r1"
  using assms(1) trySavedKeys_Inr [OF assms(2)]
  by (auto simp: wf_ratchet_def savedHit_def intro!: wf_saved_dropSavedKey)

lemma wf_ratchet_decryptCurrent:
  assumes "key_sizes C" and "wf_ratchet r" and "decryptCurrent C now r header sm = Some (Inr msg, r')"
  shows "wf_ratchet r'"
  using assms(3)
proof (rule decryptCurrent_Inr)
  fix num d
  assume "d \<le> 80" and r': "r' = r\<lparr>recvChainKey := chainAt C (recvChainKey r) (Suc d),
      saved := mergeSavedKeys (skippedFor C now (recvHeaderKey r) (recvChainKey r) (recvCount r) d) (saved r),
      recvCount := num + 1, lastDecryptTime := now\<rparr>"
  with assms(1,2) show "wf_ratchet r'"
    by (simp add: wf_ratchet_def wf_saved_merge key32_chainAt)
qed

lemma wf_ratchet_decryptNext:
  assumes "key_sizes C" and "wf_ratchet r" and "decryptNext C now r header sm = Some (Inr msg, r')"
  shows "wf_ratchet r'"
  using assms(3)
proof (rule decryptNext_Inr, goal_cases)
  case (1 num prev d dhPublic sharedKey km)
  then have "key32 dhPublic" by (simp add: key32_def headerSize_def)
  with 1 assms(1,2) show ?case
    by (simp add: wf_ratchet_def wf_saved_merge key32_chainAt)
qed

lemma wf_ratchet_Decrypt:
  assumes "key_sizes C" and "wf_ratchet r" and "Decrypt C now r ct = Some (res, r')"
  shows "wf_ratchet r'"
  using assms(3)
proof (cases rule: Decrypt_cases)
  case (from_saved msg r1)
  then show ?thesis
    using wf_ratchet_trySavedKeys [OF assms(2)] by (fastforce simp: wf_ratchet_def)
next
  case (current r1 header)
  with wf_ratchet_trySavedKeys [OF assms(2)] have "wf_ratchet r1" by blast
  with current(4) show ?thesis
    using wf_ratchet_decryptCurrent [OF assms(1)] decryptCurrent_Inl by (cases res) blast+
next
  case (ratcheted r1 header)
  with wf_ratchet_trySavedKeys [OF assms(2)] have "wf_ratchet r1" by blast
  with ratcheted(4) show ?thesis
    using wf_ratchet_decryptNext [OF assms(1)] decryptNext_Inl by (cases res) blast+
qed (use assms(2) wf_ratchet_trySavedKeys [OF assms(2)] in blast)+

end
