(* ===== verification/Ratchet_Protocol.thy ===== *)
theory Ratchet_Protocol
  imports Ratchet
begin

text \<open>
  Two ratchets in conversation: what \<open>Encrypt\<close> puts on the wire and what \<open>Decrypt\<close>
  makes of it, the relation \<open>synced\<close> between the two ends of a conversation, that
  key exchange establishes it and that every delivered message keeps it, that
  both ends agree on the rendezvous point of the next message, and delivery out of
  order within one chain.
\<close>

section \<open>The wire format\<close>

definition wire :: "crypto \<Rightarrow> bytes \<Rightarrow> bytes \<Rightarrow> key \<Rightarrow> key \<Rightarrow> u32 \<Rightarrow> u32 \<Rightarrow> key \<Rightarrow> bytes \<Rightarrow> bytes" where
  "wire C hn mn hk mk num prev pub msg =
     hn @ secretbox_seal C (header_bytes num prev pub mn) hn hk @ secretbox_seal C msg mn mk"

text \<open>A message formed the way \<open>Encrypt\<close> forms it, under a 32-byte header key.\<close>

definition wire_ok :: "crypto \<Rightarrow> bytes \<Rightarrow> bytes \<Rightarrow> key \<Rightarrow> key \<Rightarrow> key \<Rightarrow> bool" where
  "wire_ok C hn mn hk mk pub \<longleftrightarrow>
     secretbox_correct C \<and> length hn = 24 \<and> length mn = 24 \<and> key32 hk \<and> key32 mk \<and> key32 pub"

lemma encryptMessage_Inr:
  assumes "encryptMessage C now r out msg = (Inr ct, r')"
  obtains hn mn where "length hn = 24" "length mn = 24"
    "ct = out @ wire C hn mn (sendHeaderKey r) (deriveKey C (sendChainKey r) messageKeyLabel)
            (sendCount r) (prevSendCount r) (scalar_base_mult C (sendRatchetPrivate r)) msg"
    "r' = r\<lparr>sendChainKey := deriveKey C (sendChainKey r) chainKeyStepLabel,
            rand := drop 48 (rand r), sendCount := sendCount r + 1, lastEncryptTime := now\<rparr>"
  using assms
  by (auto simp: encryptMessage_def Let_def randBytes_Some wire_def split: option.splits
      intro!: that [of "take 24 (rand r)" "take 24 (drop 24 (rand r))"])

lemma ratchetStep_Inr:
  assumes "ratchetStep C r = (Inr u, r')"
  obtains priv sharedKey km where "key32 priv" "x25519 C priv (recvRatchetPublic r) = Some sharedKey"
    "km = sha256 C (rootKeyUpdateLabel @ rootKey r @ sharedKey)"
    "r' = r\<lparr>rand := drop 32 (rand r), sendRatchetPrivate := priv,
            sendHeaderKey := nextSendHeaderKey r,
            rootKey := deriveKey C km rootKeyLabel,
            nextSendHeaderKey := deriveKey C km sendHeaderKeyLabel,
            sendChainKey := deriveKey C km chainKeyLabel,
            prevSendCount := sendCount r, sendCount := 0, ratchet_flag := False\<rparr>"
proof -
  from assms obtain sharedKey where
    len: "32 \<le> length (rand r)" and sh: "x25519 C (take 32 (rand r)) (recvRatchetPublic r) = Some sharedKey"
    by (auto simp: ratchetStep_def Let_def randBytes_Some split: option.splits)
  show thesis
    using assms len sh that [of "take 32 (rand r)" sharedKey, OF _ sh refl]
    by (simp add: ratchetStep_def Let_def randBytes_def key32_def not_less)
qed

lemma wire_parts:
  fixes num prev msg
  assumes "wire_ok C hn mn hk mk pub"
  defines "ct \<equiv> wire C hn mn hk mk num prev pub msg"
  shows "sealedHeaderSize C \<le> length ct"
    and "take 24 (take (sealedHeaderSize C) ct) = hn"
    and "drop 24 (take (sealedHeaderSize C) ct) = secretbox_seal C (header_bytes num prev pub mn) hn hk"
    and "drop (sealedHeaderSize C) ct = secretbox_seal C msg mn mk"
  using assms length_secretbox_seal [of C hn hk "header_bytes num prev pub mn"]
  by (simp_all add: wire_def wire_ok_def sealedHeaderSize_def length_header_bytes key32_def)

lemma length_wire:
  assumes "wire_ok C hn mn hk mk pub"
  shows "length (wire C hn mn hk mk num prev pub msg) = EncryptedSize C (length msg)"
  using assms
  by (simp add: wire_def wire_ok_def EncryptedSize_def length_secretbox_seal length_header_bytes key32_def)

lemma wire_opens:
  assumes "wire_ok C hn mn hk mk pub"
  shows "secretbox_open C (secretbox_seal C (header_bytes num prev pub mn) hn hk) hn hk =
      Some (header_bytes num prev pub mn)"
    and "secretbox_open C (secretbox_seal C msg mn mk) mn mk = Some msg"
    and "length (header_bytes num prev pub mn) = headerSize"
    and "get_u32_le (take 4 (header_bytes num prev pub mn)) = num"
    and "get_u32_le (take 4 (drop 4 (header_bytes num prev pub mn))) = prev"
    and "take 32 (drop 8 (header_bytes num prev pub mn)) = pub"
    and "drop nonceInHeaderOffset (header_bytes num prev pub mn) = mn"
  using assms
  by (simp_all add: wire_ok_def secretbox_open_seal length_header_bytes header_fields key32_def)

section \<open>Saved keys and the wire\<close>

lemma trySavedLoop_skip:
  assumes "wire_ok C hn mn hk mk pub" "secretbox_authentic C"
    and "\<forall>(hk', mks) \<in> set pre. key32 hk' \<and> hk' \<noteq> hk"
  shows "trySavedLoop C (secretbox_seal C (header_bytes num prev pub mn) hn hk) hn sm sv (pre @ rest) =
    trySavedLoop C (secretbox_seal C (header_bytes num prev pub mn) hn hk) hn sm sv rest"
  using assms(3)
proof (induction pre)
  case (Cons x pre)
  obtain hk' mks where x: "x = (hk', mks)" by (cases x)
  have "secretbox_open C (secretbox_seal C (header_bytes num prev pub mn) hn hk) hn hk' = None"
    using assms(1,2) Cons.prems x by (intro secretbox_open_other) (auto simp: wire_ok_def key32_def)
  with Cons x show ?case by simp
qed simp

lemma saved_split:
  assumes "wf_saved sv" and "map_of sv hk = Some mks"
  obtains pre post where "sv = pre @ (hk, mks) # post" "\<forall>(hk', mks) \<in> set pre. key32 hk' \<and> hk' \<noteq> hk"
proof -
  obtain pre post where sv: "sv = pre @ (hk, mks) # post"
    using map_of_SomeD [OF assms(2)] by (auto dest: split_list)
  moreover have "\<forall>(hk', mks) \<in> set pre. key32 hk' \<and> hk' \<noteq> hk"
    using assms(1) sv by (auto simp: wf_saved_def wf_map_def rev_image_eqI)
  ultimately show thesis by (rule that)
qed

lemma trySavedKeys_wire_miss:
  assumes "wire_ok C hn mn hk mk pub" "secretbox_authentic C" "wf_saved (saved r)"
    and "lookupKey (saved r) hk num = None"
  shows "trySavedKeys C r (wire C hn mn hk mk num prev pub msg) = (Inr None, r)"
proof (cases "map_of (saved r) hk")
  case None
  then have "\<forall>(hk', mks) \<in> set (saved r). key32 hk' \<and> hk' \<noteq> hk"
    using assms(3) by (auto simp: wf_saved_def map_of_eq_None_iff rev_image_eqI)
  from trySavedLoop_skip [OF assms(1,2) this, of _ _ _ _ "[]"] show ?thesis
    using wire_parts [OF assms(1), of num prev msg] by (simp add: trySavedKeys_def Let_def)
next
  case (Some mks)
  then have "map_of mks num = None"
    using assms(4) by (simp add: lookupKey_def)
  moreover obtain pre post where "saved r = pre @ (hk, mks) # post"
    "\<forall>(hk', mks) \<in> set pre. key32 hk' \<and> hk' \<noteq> hk"
    using saved_split [OF assms(3) Some] by blast
  ultimately show ?thesis
    using wire_parts [OF assms(1), of num prev msg] trySavedLoop_skip [OF assms(1,2)]
    by (simp add: trySavedKeys_def Let_def wire_opens [OF assms(1)])
qed

lemma trySavedKeys_wire_hit:
  assumes "wire_ok C hn mn hk (sk_key mk) pub" "secretbox_authentic C" "wf_saved (saved r)"
    and "map_of (saved r) hk = Some mks" "map_of mks num = Some mk"
  shows "trySavedKeys C r (wire C hn mn hk (sk_key mk) num prev pub msg) =
    (Inr (nilSlice msg), r\<lparr>saved := dropSavedKey (saved r) hk mks num\<rparr>)"
proof -
  obtain pre post where "saved r = pre @ (hk, mks) # post"
    "\<forall>(hk', mks) \<in> set pre. key32 hk' \<and> hk' \<noteq> hk"
    using saved_split [OF assms(3,4)] by blast
  then show ?thesis
    using wire_parts [OF assms(1), of num prev msg] trySavedLoop_skip [OF assms(1,2)] assms(5)
    by (simp add: trySavedKeys_def Let_def wire_opens [OF assms(1)])
qed

section \<open>Receiving a message\<close>

text \<open>Under the current header key, up to 80 messages ahead.\<close>

lemma Decrypt_wire_current:
  assumes w: "wire_ok C hn mn (recvHeaderKey r) (msgKeyAt C (recvChainKey r) d) pub"
    and "secretbox_authentic C" "wf_ratchet r" "\<not> isZeroKey (recvHeaderKey r)"
    and "lookupKey (saved r) (recvHeaderKey r) num = None"
    and "unat num = unat (recvCount r) + d" "d \<le> 80" "num \<noteq> - 1"
  shows "Decrypt C now r (wire C hn mn (recvHeaderKey r) (msgKeyAt C (recvChainKey r) d) num prev pub msg) =
    Some (Inr msg, r\<lparr>recvChainKey := chainAt C (recvChainKey r) (Suc d),
      saved := mergeSavedKeys (skippedFor C now (recvHeaderKey r) (recvChainKey r) (recvCount r) d) (saved r),
      recvCount := num + 1, lastDecryptTime := now\<rparr>)"
proof -
  have le: "recvCount r \<le> num" and win: "num - recvCount r \<le> maxMissingMessages"
    using assms(6,7) unat_sub [of "recvCount r" num]
    by (simp_all add: word_le_nat_alt maxMissingMessages_def)
  note sv = saveKeys_ok [OF le win assms(8)]
  have "wf_saved (saved r)" using assms(3) by (simp add: wf_ratchet_def)
  note miss = trySavedKeys_wire_miss [OF w assms(2) this assms(5)]
  show ?thesis
    using wire_parts [OF w, of num prev msg] assms(4,6)
    by (simp add: Decrypt_def miss Let_def decryptCurrent_def wire_opens [OF w] sv)
qed

text \<open>Under a saved key.\<close>

lemma Decrypt_wire_saved:
  assumes "wire_ok C hn mn hk (sk_key mk) pub" "secretbox_authentic C" "wf_saved (saved r)"
    and "map_of (saved r) hk = Some mks" "map_of mks num = Some mk" "msg \<noteq> []"
  shows "Decrypt C now r (wire C hn mn hk (sk_key mk) num prev pub msg) =
    Some (Inr msg, r\<lparr>saved := dropSavedKey (saved r) hk mks num, lastDecryptTime := now\<rparr>)"
  using trySavedKeys_wire_hit [OF assms(1-5), of prev msg] assms(6)
  by (simp add: Decrypt_def nilSlice_def)

text \<open>Under the next header key, after the peer's Diffie-Hellman step.\<close>

lemma Decrypt_wire_next:
  assumes w: "wire_ok C hn mn (nextRecvHeaderKey r) (msgKeyAt C ck (unat num)) pub"
    and "secretbox_authentic C" "wf_ratchet r" "\<not> ratchet_flag r"
    and "recvHeaderKey r \<noteq> nextRecvHeaderKey r"
    and "lookupKey (saved r) (nextRecvHeaderKey r) num = None"
    and "prev = recvCount r" "prev \<noteq> - 1" "unat num \<le> 80"
    and "x25519 C (sendRatchetPrivate r) pub = Some sharedKey"
    and km: "km = sha256 C (rootKeyUpdateLabel @ rootKey r @ sharedKey)"
    and ck: "ck = deriveKey C km chainKeyLabel"
  shows "Decrypt C now r (wire C hn mn (nextRecvHeaderKey r) (msgKeyAt C ck (unat num)) num prev pub msg) =
    Some (Inr msg, r\<lparr>rootKey := deriveKey C km rootKeyLabel,
      recvChainKey := chainAt C ck (Suc (unat num)),
      prevRecvHeaderKey := recvHeaderKey r,
      recvHeaderKey := nextRecvHeaderKey r,
      nextRecvHeaderKey := deriveKey C km sendHeaderKeyLabel,
      sendRatchetPrivate := zeroKey, recvRatchetPublic := pub,
      prevRecvCount := recvCount r, recvCount := num + 1,
      saved := mergeSavedKeys (skippedFor C now (nextRecvHeaderKey r) ck 0 (unat num)) (saved r),
      ratchet_flag := True, lastDecryptTime := now\<rparr>)"
proof -
  have "wf_saved (saved r)" using assms(3) by (simp add: wf_ratchet_def)
  note miss = trySavedKeys_wire_miss [OF w assms(2) this assms(6)]
  have other: "secretbox_open C (secretbox_seal C (header_bytes num prev pub mn) hn (nextRecvHeaderKey r)) hn
      (recvHeaderKey r) = None"
    using w assms(2,3,5)
    by (intro secretbox_open_other) (auto simp: wire_ok_def key32_def wf_ratchet_def)
  have sv0: "saveKeys C now (recvHeaderKey r) (recvChainKey r) prev (recvCount r) =
      Some (Inr (chainAt C (recvChainKey r) 1, msgKeyAt C (recvChainKey r) 0, []))"
    using saveKeys_ok [of "recvCount r" prev C now "recvHeaderKey r" "recvChainKey r"] assms(7,8)
    by (simp add: maxMissingMessages_def skippedFor_def)
  have sv: "saveKeys C now (nextRecvHeaderKey r) ck num 0 =
      Some (Inr (chainAt C ck (Suc (unat num)), msgKeyAt C ck (unat num),
        skippedFor C now (nextRecvHeaderKey r) ck 0 (unat num)))"
  proof -
    have "num \<noteq> - 1"
      using assms(9) by (auto simp: unsigned_minus_1_eq_mask mask_eq_exp_minus_1)
    then show ?thesis
      using saveKeys_ok [of 0 num C now "nextRecvHeaderKey r" ck] assms(9)
      by (simp add: maxMissingMessages_def word_le_nat_alt Let_def)
  qed
  show ?thesis
    using wire_parts [OF w, of num prev msg] assms(4,10) sv
    by (simp add: Decrypt_def miss Let_def decryptNext_def wire_opens [OF w] other sv0 flip: km ck)
qed

section \<open>Two ratchets in step\<close>

text \<open>
  \<open>synced C X Y\<close>: the two ends hold matching keys and counters and no message is
  under way. \<open>X\<close> is the end whose ratchet flag is set, that is, the end that takes the
  Diffie-Hellman step with its next message.
\<close>

definition freshHeaderKey :: "ratchet \<Rightarrow> bool" where
  "freshHeaderKey r \<longleftrightarrow>
     \<not> isZeroKey (nextSendHeaderKey r) \<and> nextSendHeaderKey r \<noteq> sendHeaderKey r"

definition synced :: "crypto \<Rightarrow> ratchet \<Rightarrow> ratchet \<Rightarrow> bool" where
  "synced C X Y \<longleftrightarrow>
     wf_ratchet X \<and> wf_ratchet Y \<and> ratchet_flag X \<and> \<not> ratchet_flag Y \<and>
     rootKey X = rootKey Y \<and>
     nextSendHeaderKey X = nextRecvHeaderKey Y \<and> nextSendHeaderKey Y = nextRecvHeaderKey X \<and>
     sendHeaderKey X = recvHeaderKey Y \<and> sendCount X = recvCount Y \<and>
     sendHeaderKey Y = recvHeaderKey X \<and> sendCount Y = recvCount X \<and>
     sendChainKey Y = recvChainKey X \<and>
     recvRatchetPublic X = scalar_base_mult C (sendRatchetPrivate Y) \<and>
     \<not> isZeroKey (recvHeaderKey X) \<and> freshHeaderKey X \<and> freshHeaderKey Y \<and>
     saved X = [] \<and> saved Y = []"

definition crypto_laws :: "crypto \<Rightarrow> bool" where
  "crypto_laws C \<longleftrightarrow>
     key_sizes C \<and> secretbox_correct C \<and> secretbox_authentic C \<and> dh_agrees C"

lemma key32_base [simp]: "key_sizes C \<Longrightarrow> key32 (scalar_base_mult C k)"
  by (simp add: key_sizes_def key32_def)

text \<open>The end without the flag sends.\<close>

lemma synced_send_plain:
  assumes laws: "crypto_laws C" and sync: "synced C X Y" and "sendCount Y \<noteq> - 1"
    and enc: "Encrypt C now Y [] msg = (Inr ct, Y')"
  shows "\<exists>X'. Decrypt C now' X ct = Some (Inr msg, X') \<and> synced C X' Y'"
proof -
  have "encryptMessage C now Y [] msg = (Inr ct, Y')"
    using enc sync by (simp add: Encrypt_def synced_def)
  then obtain hn mn where n: "length hn = 24" "length mn = 24"
    and ct: "ct = wire C hn mn (sendHeaderKey Y) (deriveKey C (sendChainKey Y) messageKeyLabel)
      (sendCount Y) (prevSendCount Y) (scalar_base_mult C (sendRatchetPrivate Y)) msg"
    and Y': "Y' = Y\<lparr>sendChainKey := deriveKey C (sendChainKey Y) chainKeyStepLabel,
      rand := drop 48 (rand Y), sendCount := sendCount Y + 1, lastEncryptTime := now\<rparr>"
    by (rule encryptMessage_Inr) simp
  let ?pub = "scalar_base_mult C (sendRatchetPrivate Y)"
  have w: "wire_ok C hn mn (recvHeaderKey X) (msgKeyAt C (recvChainKey X) 0) ?pub"
    using n laws sync by (simp add: wire_ok_def crypto_laws_def synced_def wf_ratchet_def)
  have "Decrypt C now' X ct = Some (Inr msg, X\<lparr>recvChainKey := chainAt C (recvChainKey X) (Suc 0),
      recvCount := sendCount Y + 1, lastDecryptTime := now'\<rparr>)" (is "_ = Some (_, ?X')")
    using Decrypt_wire_current [OF w, of "sendCount Y" now' "prevSendCount Y" msg] laws sync assms(3)
    by (simp add: ct crypto_laws_def synced_def lookupKey_def skippedFor_def)
  moreover have "wf_ratchet Y'"
    using wf_ratchet_Encrypt [OF _ _ enc] laws sync by (simp add: crypto_laws_def synced_def)
  moreover have "wf_ratchet ?X'"
    using laws sync by (simp add: wf_ratchet_def synced_def crypto_laws_def key32_chainAt)
  ultimately show ?thesis
    using sync by (auto simp: Y' synced_def freshHeaderKey_def simp flip: chainAt_step)
qed

text \<open>The end with the flag sends; the flag moves to the other end.\<close>

lemma synced_send_ratchet:
  assumes laws: "crypto_laws C" and sync: "synced C X Y" and "sendCount X \<noteq> - 1"
    and enc: "Encrypt C now X [] msg = (Inr ct, X')" and fresh: "freshHeaderKey X'"
  shows "\<exists>Y'. Decrypt C now' Y ct = Some (Inr msg, Y') \<and> synced C Y' X'"
proof -
  obtain X1 where step: "ratchetStep C X = (Inr (), X1)" and em: "encryptMessage C now X1 [] msg = (Inr ct, X')"
    using enc sync by (auto simp: Encrypt_def synced_def split: prod.splits sum.splits)
  from step obtain priv sh km where pr: "key32 priv" "x25519 C priv (recvRatchetPublic X) = Some sh"
    and km: "km = sha256 C (rootKeyUpdateLabel @ rootKey X @ sh)"
    and X1: "X1 = X\<lparr>rand := drop 32 (rand X), sendRatchetPrivate := priv,
            sendHeaderKey := nextSendHeaderKey X, rootKey := deriveKey C km rootKeyLabel,
            nextSendHeaderKey := deriveKey C km sendHeaderKeyLabel,
            sendChainKey := deriveKey C km chainKeyLabel,
            prevSendCount := sendCount X, sendCount := 0, ratchet_flag := False\<rparr>"
    by (rule ratchetStep_Inr)
  let ?ck = "deriveKey C km chainKeyLabel"
  from em obtain hn mn where n: "length hn = 24" "length mn = 24"
    and ct: "ct = wire C hn mn (nextSendHeaderKey X) (deriveKey C ?ck messageKeyLabel)
      0 (sendCount X) (scalar_base_mult C priv) msg"
    and X': "X' = X1\<lparr>sendChainKey := deriveKey C ?ck chainKeyStepLabel,
      rand := drop 48 (rand X1), sendCount := 1, lastEncryptTime := now\<rparr>"
    by (rule encryptMessage_Inr) (simp add: X1)
  have w: "wire_ok C hn mn (nextRecvHeaderKey Y) (msgKeyAt C ?ck (unat (0 :: u32))) (scalar_base_mult C priv)"
    using n laws sync by (simp add: wire_ok_def crypto_laws_def synced_def wf_ratchet_def)
  have "x25519 C (sendRatchetPrivate Y) (scalar_base_mult C priv) = Some sh"
    using pr laws sync by (simp add: crypto_laws_def dh_agrees_def synced_def)
  moreover have "km = sha256 C (rootKeyUpdateLabel @ rootKey Y @ sh)"
    using km sync by (simp add: synced_def)
  ultimately have dec: "Decrypt C now' Y ct = Some (Inr msg, Y\<lparr>rootKey := deriveKey C km rootKeyLabel,
      recvChainKey := chainAt C ?ck (Suc 0),
      prevRecvHeaderKey := recvHeaderKey Y, recvHeaderKey := nextRecvHeaderKey Y,
      nextRecvHeaderKey := deriveKey C km sendHeaderKeyLabel,
      sendRatchetPrivate := zeroKey, recvRatchetPublic := scalar_base_mult C priv,
      prevRecvCount := recvCount Y, recvCount := 1, ratchet_flag := True, lastDecryptTime := now'\<rparr>)"
    (is "_ = Some (_, ?Y')")
    using Decrypt_wire_next [OF w, of "sendCount X" sh km now' msg] laws sync assms(3)
    by (auto simp: ct crypto_laws_def synced_def freshHeaderKey_def lookupKey_def skippedFor_def)
  moreover have "wf_ratchet X'"
    using wf_ratchet_Encrypt [OF _ _ enc] laws sync by (simp add: crypto_laws_def synced_def)
  moreover have "wf_ratchet ?Y'"
    using wf_ratchet_Decrypt [OF _ _ dec] laws sync by (simp add: crypto_laws_def synced_def)
  ultimately show ?thesis
    using sync fresh by (auto simp: X' X1 synced_def freshHeaderKey_def simp flip: chainAt_step)
qed

section \<open>Conversations\<close>

text \<open>
  A conversation with prompt delivery: each entry says who sends (\<open>True\<close>: the first end), the
  clock at both ends, and the message. The result is the list of messages received.
\<close>

fun converse ::
    "crypto \<Rightarrow> (bool \<times> time \<times> time \<times> bytes) list \<Rightarrow> ratchet \<Rightarrow> ratchet \<Rightarrow>
     (bytes list \<times> ratchet \<times> ratchet) option" where
  "converse C [] a b = Some ([], a, b)"
| "converse C ((True, t, t', msg) # xs) a b =
     (case Encrypt C t a [] msg of
        (Inr ct, a') \<Rightarrow>
          (case Decrypt C t' b ct of
             Some (Inr m, b') \<Rightarrow> map_option (apfst (Cons m)) (converse C xs a' b')
           | _ \<Rightarrow> None)
      | _ \<Rightarrow> None)"
| "converse C ((False, t, t', msg) # xs) a b =
     (case Encrypt C t b [] msg of
        (Inr ct, b') \<Rightarrow>
          (case Decrypt C t' a ct of
             Some (Inr m, a') \<Rightarrow> map_option (apfst (Cons m)) (converse C xs a' b')
           | _ \<Rightarrow> None)
      | _ \<Rightarrow> None)"

text \<open>
  What a conversation needs from the environment at every step: the sender's random source and
  the Diffie-Hellman function do not fail, its counter is not exhausted, and the header key it
  derives for its next step is not zero and not the one in use.
\<close>

definition can_send :: "crypto \<Rightarrow> time \<Rightarrow> ratchet \<Rightarrow> bytes \<Rightarrow> bool" where
  "can_send C t r msg \<longleftrightarrow>
     sendCount r \<noteq> - 1 \<and> \<not> isl (fst (Encrypt C t r [] msg)) \<and> freshHeaderKey (snd (Encrypt C t r [] msg))"

fun undisturbed ::
    "crypto \<Rightarrow> (bool \<times> time \<times> time \<times> bytes) list \<Rightarrow> ratchet \<Rightarrow> ratchet \<Rightarrow> bool" where
  "undisturbed C [] a b = True"
| "undisturbed C ((True, t, t', msg) # xs) a b =
     (can_send C t a msg \<and>
      (case Encrypt C t a [] msg of
         (Inr ct, a') \<Rightarrow> (case Decrypt C t' b ct of Some (_, b') \<Rightarrow> undisturbed C xs a' b' | None \<Rightarrow> True)
       | _ \<Rightarrow> True))"
| "undisturbed C ((False, t, t', msg) # xs) a b =
     (can_send C t b msg \<and>
      (case Encrypt C t b [] msg of
         (Inr ct, b') \<Rightarrow> (case Decrypt C t' a ct of Some (_, a') \<Rightarrow> undisturbed C xs a' b' | None \<Rightarrow> True)
       | _ \<Rightarrow> True))"

definition paired :: "crypto \<Rightarrow> ratchet \<Rightarrow> ratchet \<Rightarrow> bool" where
  "paired C a b \<longleftrightarrow> synced C a b \<or> synced C b a"

lemma paired_commute: "paired C a b = paired C b a"
  by (auto simp: paired_def)

lemma paired_send:
  assumes "crypto_laws C" "paired C a b" "can_send C t a msg" "Encrypt C t a [] msg = (Inr ct, a')"
  shows "\<exists>b'. Decrypt C t' b ct = Some (Inr msg, b') \<and> paired C a' b'"
  using assms synced_send_plain [of C b a t msg ct a' t'] synced_send_ratchet [of C a b t msg ct a' t']
  by (auto simp: paired_def can_send_def)

lemma can_send_obtains:
  assumes "can_send C t a msg"
  obtains ct a' where "Encrypt C t a [] msg = (Inr ct, a')"
  using assms by (cases "Encrypt C t a [] msg"; cases "fst (Encrypt C t a [] msg)") (auto simp: can_send_def)

lemma converse_delivers:
  assumes "crypto_laws C" "paired C a b" "undisturbed C xs a b"
  shows "\<exists>a' b'. converse C xs a b = Some (map (\<lambda>(_, _, _, msg). msg) xs, a', b') \<and> paired C a' b'"
  using assms(2,3)
proof (induction xs arbitrary: a b)
  case (Cons x xs)
  obtain who t t' msg where x: "x = (who, t, t', msg)" by (cases x)
  show ?case
  proof (cases who)
    case True
    with Cons.prems x have cs: "can_send C t a msg" by simp
    then obtain ct a' where enc: "Encrypt C t a [] msg = (Inr ct, a')" by (rule can_send_obtains)
    obtain b' where dec: "Decrypt C t' b ct = Some (Inr msg, b')" and "paired C a' b'"
      using paired_send [OF assms(1) Cons.prems(1) cs enc] by blast
    with Cons.IH [of a' b'] Cons.prems(2) x True enc show ?thesis by auto
  next
    case False
    with Cons.prems x have cs: "can_send C t b msg" by simp
    then obtain ct b' where enc: "Encrypt C t b [] msg = (Inr ct, b')" by (rule can_send_obtains)
    obtain a' where dec: "Decrypt C t' a ct = Some (Inr msg, a')" and "paired C b' a'"
      using paired_send [OF assms(1) _ cs enc] Cons.prems(1) by (auto simp: paired_commute)
    with Cons.IH [of a' b'] Cons.prems(2) x False enc show ?thesis by (auto simp: paired_commute)
  qed
qed simp

section \<open>Both ends agree on where the next message is left\<close>

lemma synced_rendezvous:
  assumes "synced C X Y"
  shows "SendRendezvous C X = fst (RecvRendezvous C Y)" and "SendRendezvous C Y = fst (RecvRendezvous C X)"
  using assms
  by (auto simp: synced_def SendRendezvous_def RecvRendezvous_def sendRVKey_def recvRVKeys_def)

lemma paired_rendezvous:
  "paired C a b \<Longrightarrow> SendRendezvous C a = fst (RecvRendezvous C b)"
  by (auto simp: paired_def synced_rendezvous)

section \<open>Key exchange\<close>

text \<open>A ratchet before the exchange: fresh from \<open>New\<close>, with the key pair and the peer's key set.\<close>

definition beforeKx :: "bytes \<Rightarrow> bytes \<Rightarrow> ratchet \<Rightarrow> bool" where
  "beforeKx sk pk r \<longleftrightarrow>
     (\<exists>rnd r0. New rnd = Some r0 \<and> r = r0\<lparr>MyPrivateKey := sk, TheirPublicKey := pk\<rparr>)"

definition unsetRatchet :: "bytes \<Rightarrow> bytes \<Rightarrow> key \<Rightarrow> bytes \<Rightarrow> ratchet" where
  "unsetRatchet sk pk priv rnd =
     \<lparr>MyPrivateKey = sk, TheirPublicKey = pk,
      rootKey = zeroKey, sendHeaderKey = zeroKey, recvHeaderKey = zeroKey,
      nextSendHeaderKey = zeroKey, nextRecvHeaderKey = zeroKey,
      prevRecvHeaderKey = zeroKey, sendChainKey = zeroKey, recvChainKey = zeroKey,
      sendRatchetPrivate = zeroKey, recvRatchetPublic = zeroKey,
      sendCount = 0, recvCount = 0, prevSendCount = 0, prevRecvCount = 0,
      ratchet_flag = False, saved = [], myHalf = None, theirHalf = None,
      kxPrivate = Some priv, lastEncryptTime = zero_time, lastDecryptTime = zero_time, rand = rnd\<rparr>"

lemma beforeKx_fields:
  assumes "beforeKx sk pk r"
  obtains priv rnd where "key32 priv" "r = unsetRatchet sk pk priv rnd"
  using assms
  by (auto simp: beforeKx_def New_def randBytes_Some key32_def unsetRatchet_def split: option.splits
      intro!: that)

lemma FillKeyExchange_Inr:
  assumes "FillKeyExchange C sys r = (Inr kx, r')"
  obtains c k rnd priv packed sys' where
    "sntrup_encapsulate C (rand r) (TheirPublicKey r) = Some (c, k, rnd)" "kxPrivate r = Some priv"
    "sw_Seal C sys (scalar_base_mult C priv) k = Some (packed, sys')"
    "kx = \<lparr>kx_Public = packed, kx_Cipher = c\<rparr>" "r' = r\<lparr>rand := rnd, myHalf := Some k\<rparr>"
  using assms by (auto simp: FillKeyExchange_def Let_def split: option.splits)

lemma FillKeyExchange_opens:
  assumes "secretbox_correct C" "kem_pair C (TheirPublicKey r) sk" "kxPrivate r = Some priv"
    and "FillKeyExchange C sys r = (Inr kx, r')"
  shows "\<exists>k rnd. sntrup_decapsulate C (kx_Cipher kx) sk = Some k \<and> key32 k \<and>
    sw_Open C (kx_Public kx) k = SwOk (scalar_base_mult C priv) \<and> r' = r\<lparr>rand := rnd, myHalf := Some k\<rparr>"
proof -
  obtain c k rnd priv' packed sys' where
    f: "sntrup_encapsulate C (rand r) (TheirPublicKey r) = Some (c, k, rnd)" "kxPrivate r = Some priv'"
    "sw_Seal C sys (scalar_base_mult C priv') k = Some (packed, sys')"
    "kx = \<lparr>kx_Public = packed, kx_Cipher = c\<rparr>" "r' = r\<lparr>rand := rnd, myHalf := Some k\<rparr>"
    using assms(4) by (rule FillKeyExchange_Inr)
  from assms(2) f(1) have k: "sntrup_decapsulate C c sk = Some k" "length k = 32"
    by (auto simp: kem_pair_def)
  with sw_Open_Seal [OF assms(1) _ f(3)] show ?thesis
    using f assms(3) by (auto simp: key32_def)
qed

lemma kx_synced:
  assumes laws: "crypto_laws C"
    and kem: "kem_pair C pkA skA" "kem_pair C pkB skB"
    and new: "beforeKx skA pkB A" "beforeKx skB pkA B"
    and fill: "FillKeyExchange C sysA A = (Inr kxA, A1)" "FillKeyExchange C sysB B = (Inr kxB, B1)"
    and valid: "kxPrivate A = Some pa" "validateECDHpoint (scalar_base_mult C pa) = None"
      "kxPrivate B = Some pb" "validateECDHpoint (scalar_base_mult C pb) = None"
  shows "\<exists>A2 B2. CompleteKeyExchange C A1 kxB True = (Inr (), A2) \<and>
    CompleteKeyExchange C B1 kxA False = (Inr (), B2) \<and>
    (\<not> isZeroKey (recvHeaderKey A2) \<longrightarrow> freshHeaderKey A2 \<longrightarrow> freshHeaderKey B2 \<longrightarrow> synced C A2 B2)"
proof -
  obtain ra where pa: "key32 pa" and A: "A = unsetRatchet skA pkB pa ra"
    using new(1) valid(1) by (auto elim!: beforeKx_fields simp: unsetRatchet_def)
  obtain rb where pb: "key32 pb" and B: "B = unsetRatchet skB pkA pb rb"
    using new(2) valid(3) by (auto elim!: beforeKx_fields simp: unsetRatchet_def)
  have sb: "secretbox_correct C" "key_sizes C" using laws by (simp_all add: crypto_laws_def)
  obtain ka ra' where ka: "sntrup_decapsulate C (kx_Cipher kxA) skB = Some ka" "key32 ka"
      "sw_Open C (kx_Public kxA) ka = SwOk (scalar_base_mult C pa)" "A1 = A\<lparr>rand := ra', myHalf := Some ka\<rparr>"
    using FillKeyExchange_opens [OF sb(1) _ valid(1) fill(1), of skB] kem(2)
    by (auto simp: A unsetRatchet_def)
  obtain kb rb' where kb: "sntrup_decapsulate C (kx_Cipher kxB) skA = Some kb" "key32 kb"
      "sw_Open C (kx_Public kxB) kb = SwOk (scalar_base_mult C pb)" "B1 = B\<lparr>rand := rb', myHalf := Some kb\<rparr>"
    using FillKeyExchange_opens [OF sb(1) _ valid(3) fill(2), of skA] kem(1)
    by (auto simp: B unsetRatchet_def)
  show ?thesis
    using ka kb valid(2,4) sb pa pb
    by (simp add: CompleteKeyExchange_def Let_def A B unsetRatchet_def synced_def wf_ratchet_def)
qed

end
