(* ===== verification/Ratchet_Reorder.thy ===== *)
theory Ratchet_Reorder
  imports Ratchet_Protocol
begin

text \<open>
  Delivery that is late, out of order or repeated: messages of one chain decrypt in any order
  of arrival, as long as no more than 80 are missing, and no message decrypts twice.
\<close>

section \<open>Sending several messages and delivering them in some order\<close>

fun sendAll :: "crypto \<Rightarrow> time \<Rightarrow> ratchet \<Rightarrow> bytes list \<Rightarrow> (bytes list \<times> ratchet) option" where
  "sendAll C now s [] = Some ([], s)"
| "sendAll C now s (msg # msgs) =
     (case Encrypt C now s [] msg of
        (Inr ct, s') \<Rightarrow> map_option (apfst (Cons ct)) (sendAll C now s' msgs)
      | _ \<Rightarrow> None)"

fun deliver :: "crypto \<Rightarrow> time \<Rightarrow> ratchet \<Rightarrow> bytes list \<Rightarrow> (bytes list \<times> ratchet) option" where
  "deliver C now r [] = Some ([], r)"
| "deliver C now r (ct # cts) =
     (case Decrypt C now r ct of
        Some (Inr msg, r') \<Rightarrow> map_option (apfst (Cons msg)) (deliver C now r' cts)
      | _ \<Rightarrow> None)"

text \<open>The \<open>i\<close>-th message sent under header key \<open>hk\<close> and chain key \<open>ck\<close> from number \<open>c\<close> on.\<close>

definition isWire :: "crypto \<Rightarrow> key \<Rightarrow> key \<Rightarrow> u32 \<Rightarrow> nat \<Rightarrow> bytes \<Rightarrow> bytes \<Rightarrow> bool" where
  "isWire C hk ck c i msg ct \<longleftrightarrow>
     (\<exists>hn mn prev pub. wire_ok C hn mn hk (msgKeyAt C ck i) pub \<and>
        ct = wire C hn mn hk (msgKeyAt C ck i) (c + of_nat i) prev pub msg)"

lemma isWireI:
  "wire_ok C hn mn hk (msgKeyAt C ck i) pub \<Longrightarrow>
   isWire C hk ck c i msg (wire C hn mn hk (msgKeyAt C ck i) (c + of_nat i) prev pub msg)"
  unfolding isWire_def by blast

lemma sendAll_wire:
  assumes "key_sizes C" "secretbox_correct C" "key32 (sendHeaderKey s)" "\<not> ratchet_flag s"
    and "sendAll C now s msgs = Some (cts, s')"
  shows "length cts = length msgs \<and>
    (\<forall>i < length msgs. isWire C (sendHeaderKey s) (sendChainKey s) (sendCount s) i (msgs ! i) (cts ! i))"
  using assms(3-)
proof (induction msgs arbitrary: s cts)
  case (Cons msg msgs)
  then obtain ct s1 cts1 where enc: "encryptMessage C now s [] msg = (Inr ct, s1)"
    and rest: "sendAll C now s1 msgs = Some (cts1, s')" and cts: "cts = ct # cts1"
    by (auto simp: Encrypt_def split: prod.splits sum.splits)
  from enc obtain hn mn where n: "length hn = 24" "length mn = 24"
    and ct: "ct = wire C hn mn (sendHeaderKey s) (deriveKey C (sendChainKey s) messageKeyLabel)
      (sendCount s) (prevSendCount s) (scalar_base_mult C (sendRatchetPrivate s)) msg"
    and s1: "s1 = s\<lparr>sendChainKey := deriveKey C (sendChainKey s) chainKeyStepLabel,
      rand := drop 48 (rand s), sendCount := sendCount s + 1, lastEncryptTime := now\<rparr>"
    by (rule encryptMessage_Inr) simp
  have "isWire C (sendHeaderKey s) (sendChainKey s) (sendCount s) 0 msg ct"
    using isWireI [of C hn mn "sendHeaderKey s" "sendChainKey s" 0] n ct assms(1,2) Cons.prems(1)
    by (simp add: wire_ok_def)
  moreover have "length cts1 = length msgs \<and> (\<forall>i < length msgs.
      isWire C (sendHeaderKey s) (sendChainKey s) (sendCount s) (Suc i) (msgs ! i) (cts1 ! i))"
    using Cons.IH [OF _ _ rest] Cons.prems(1,2)
    by (simp add: s1 isWire_def msgKeyAt_Suc add.assoc [symmetric])
  ultimately show ?case
    by (auto simp: cts nth_Cons split: nat.splits)
qed simp

section \<open>The receiver while messages are missing\<close>

text \<open>
  \<open>D\<close> are the indices delivered so far, \<open>h\<close> is one past the highest of them. Keys are saved
  exactly for the indices below \<open>h\<close> that were not delivered.
\<close>

definition receiving :: "crypto \<Rightarrow> key \<Rightarrow> key \<Rightarrow> u32 \<Rightarrow> nat \<Rightarrow> nat set \<Rightarrow> nat \<Rightarrow> ratchet \<Rightarrow> bool" where
  "receiving C hk ck c N D h r \<longleftrightarrow>
     wf_ratchet r \<and> recvHeaderKey r = hk \<and> h \<le> N \<and>
     recvCount r = c + of_nat h \<and> recvChainKey r = chainAt C ck h \<and>
     (\<forall>i < N. map_option sk_key (lookupKey (saved r) hk (c + of_nat i)) =
        (if i < h \<and> i \<notin> D then Some (msgKeyAt C ck i) else None))"

lemma delete_Nil_lookup: "AList.delete n m = [] \<Longrightarrow> n' \<noteq> n \<Longrightarrow> map_of m n' = None"
  using AList.map_of_delete [of n' n m] by simp

lemma lookupKey_drop:
  "map_of sv hk = Some mks \<Longrightarrow>
   lookupKey (dropSavedKey sv hk mks n) hk' n' =
     (if hk' = hk \<and> n' = n then None else lookupKey sv hk' n')"
  by (auto simp: lookupKey_def dropSavedKey_def Let_def fun_upd_def dest: delete_Nil_lookup split: if_splits)

lemma unat_plus_index:
  assumes "unat c + N < 2 ^ 32" "i \<le> N"
  shows "unat ((c :: u32) + of_nat i) = unat c + i"
  using assms by (simp add: unat_word_ariths unat_of_nat)

lemma index_not_max:
  assumes "unat c + N < 2 ^ 32" "i < N"
  shows "(c :: u32) + of_nat i \<noteq> - 1"
proof
  assume "c + of_nat i = - 1"
  then have "unat c + i = 2 ^ 32 - 1"
    using unat_plus_index [of c N i] assms by (simp add: unsigned_minus_1_eq_mask mask_eq_exp_minus_1)
  with assms show False by simp
qed

lemma index_eq:
  assumes "unat c + N < 2 ^ 32" "i < N" "j < N"
  shows "(c :: u32) + of_nat i = c + of_nat j \<longleftrightarrow> i = j"
proof
  assume "c + of_nat i = c + of_nat j"
  then have "unat (c + of_nat i) = unat (c + of_nat j)" by simp
  with assms show "i = j" by (simp add: unat_plus_index)
qed simp

lemma index_window:
  assumes "unat c + N < 2 ^ 32" "i < N" "j < N" "h \<le> N"
  shows "unat ((c + of_nat j :: u32) - (c + of_nat h)) < i - h \<longleftrightarrow> h \<le> j \<and> j < i"
proof -
  have j: "unat (c + of_nat j) = unat c + j" and h: "unat (c + of_nat h) = unat c + h"
    using assms by (simp_all add: unat_plus_index)
  show ?thesis
    using assms unfolding unat_sub_if' j h by auto
qed

lemma receiving_ahead:
  assumes laws: "key_sizes C" "secretbox_authentic C"
    and rc: "receiving C hk ck c N D h r" and hk: "\<not> isZeroKey hk"
    and N: "unat c + N < 2 ^ 32" "N \<le> 81" and i: "i < N" "h \<le> i" "D \<subseteq> {0..<h}"
    and ct: "isWire C hk ck c i msg ct"
  shows "\<exists>r'. Decrypt C now r ct = Some (Inr msg, r') \<and> receiving C hk ck c N (insert i D) (Suc i) r'"
proof -
  from rc have R: "wf_ratchet r" "recvHeaderKey r = hk" "h \<le> N" "recvCount r = c + of_nat h"
    "recvChainKey r = chainAt C ck h"
    and lk: "\<forall>i < N. map_option sk_key (lookupKey (saved r) hk (c + of_nat i)) =
        (if i < h \<and> i \<notin> D then Some (msgKeyAt C ck i) else None)"
    by (auto simp: receiving_def)
  obtain hn mn prev pub where w: "wire_ok C hn mn hk (msgKeyAt C ck i) pub"
    and ct': "ct = wire C hn mn hk (msgKeyAt C ck i) (c + of_nat i) prev pub msg"
    using ct by (auto simp: isWire_def)
  have mk: "msgKeyAt C (recvChainKey r) (i - h) = msgKeyAt C ck i"
    using R(5) i(2) by (simp add: msgKeyAt_add)
  have w': "wire_ok C hn mn (recvHeaderKey r) (msgKeyAt C (recvChainKey r) (i - h)) pub"
    using w R(2) mk by simp
  have none: "lookupKey (saved r) (recvHeaderKey r) (c + of_nat i) = None"
    using lk i R(2) by auto
  have un: "unat (c + of_nat i) = unat (recvCount r) + (i - h)"
    using unat_plus_index [OF N(1), of i] unat_plus_index [OF N(1), of h] i R(3,4) by simp
  let ?r' = "r\<lparr>recvChainKey := chainAt C (recvChainKey r) (Suc (i - h)),
      saved := mergeSavedKeys (skippedFor C now (recvHeaderKey r) (recvChainKey r) (recvCount r) (i - h)) (saved r),
      recvCount := c + of_nat i + 1, lastDecryptTime := now\<rparr>"
  have dec: "Decrypt C now r ct = Some (Inr msg, ?r')"
    using Decrypt_wire_current [OF w' laws(2) R(1) _ none un] hk R(2) i(1) N index_not_max [OF N(1) i(1)]
    by (simp add: ct' mk)
  have "receiving C hk ck c N (insert i D) (Suc i) ?r'"
    unfolding receiving_def
  proof (intro conjI allI impI)
    show "wf_ratchet ?r'"
      using wf_ratchet_Decrypt [OF laws(1) R(1) dec] .
    show "recvChainKey ?r' = chainAt C ck (Suc i)"
      using R(5) i(2) by (simp add: chainAt_add)
  next
    fix j assume j: "j < N"
    show "map_option sk_key (lookupKey (saved ?r') hk (c + of_nat j)) =
        (if j < Suc i \<and> j \<notin> insert i D then Some (msgKeyAt C ck j) else None)"
    proof (cases "h \<le> j \<and> j < i")
      case True
      then have "unat ((c + of_nat j) - (c + of_nat h)) = j - h"
        using j R(3) unat_plus_index [OF N(1), of j] unat_plus_index [OF N(1), of h]
        unfolding unat_sub_if' by simp
      then show ?thesis
        using True index_window [OF N(1) i(1) j R(3)] R i N(2) by (auto simp: lookupKey_merge msgKeyAt_add)
    next
      case False
      then show ?thesis
        using index_window [OF N(1) i(1) j R(3)] R i N(2) lk j by (auto simp: lookupKey_merge)
    qed
  qed (use R i in \<open>simp_all add: algebra_simps\<close>)
  with dec show ?thesis by blast
qed

lemma receiving_late:
  assumes laws: "key_sizes C" "secretbox_authentic C"
    and rc: "receiving C hk ck c N D h r"
    and N: "unat c + N < 2 ^ 32" and i: "i < h" "i \<notin> D"
    and ct: "isWire C hk ck c i msg ct" and msg: "msg \<noteq> []"
  shows "\<exists>r'. Decrypt C now r ct = Some (Inr msg, r') \<and> receiving C hk ck c N (insert i D) h r'"
proof -
  from rc have R: "wf_ratchet r" "recvHeaderKey r = hk" "h \<le> N" "recvCount r = c + of_nat h"
    "recvChainKey r = chainAt C ck h"
    and lk: "\<forall>i < N. map_option sk_key (lookupKey (saved r) hk (c + of_nat i)) =
        (if i < h \<and> i \<notin> D then Some (msgKeyAt C ck i) else None)"
    by (auto simp: receiving_def)
  obtain hn mn prev pub where w: "wire_ok C hn mn hk (msgKeyAt C ck i) pub"
    and ct': "ct = wire C hn mn hk (msgKeyAt C ck i) (c + of_nat i) prev pub msg"
    using ct by (auto simp: isWire_def)
  from i R(3) lk have "map_option sk_key (lookupKey (saved r) hk (c + of_nat i)) = Some (msgKeyAt C ck i)"
    by auto
  then obtain mks mk where m: "map_of (saved r) hk = Some mks" "map_of mks (c + of_nat i) = Some mk"
    and k: "sk_key mk = msgKeyAt C ck i"
    by (auto simp: lookupKey_def bind_eq_Some_conv)
  let ?r' = "r\<lparr>saved := dropSavedKey (saved r) hk mks (c + of_nat i), lastDecryptTime := now\<rparr>"
  have dec: "Decrypt C now r ct = Some (Inr msg, ?r')"
    using Decrypt_wire_saved [OF _ laws(2) _ m msg, of hn mn pub now prev] w k R(1)
    by (simp add: ct' wf_ratchet_def)
  have "receiving C hk ck c N (insert i D) h ?r'"
    unfolding receiving_def
  proof (intro conjI allI impI)
    show "wf_ratchet ?r'"
      using wf_ratchet_Decrypt [OF laws(1) R(1) dec] .
  next
    fix j assume j: "j < N"
    show "map_option sk_key (lookupKey (saved ?r') hk (c + of_nat j)) =
        (if j < h \<and> j \<notin> insert i D then Some (msgKeyAt C ck j) else None)"
      using lk j i R(3) index_eq [OF N j, of i] m(1) by (auto simp: lookupKey_drop)
  qed (use R in simp_all)
  with dec show ?thesis by blast
qed

lemma deliver_any_order:
  assumes "key_sizes C" "secretbox_authentic C" "\<not> isZeroKey hk" "unat c + N < 2 ^ 32" "N \<le> 81"
    and "receiving C hk ck c N D h r" "D \<subseteq> {0..<h}"
    and "distinct idx" "set idx \<subseteq> {0..<N}" "set idx \<inter> D = {}"
    and "\<forall>i \<in> set idx. isWire C hk ck c i (msgs ! i) (cts ! i) \<and> msgs ! i \<noteq> []"
  shows "\<exists>r'. deliver C now r (map ((!) cts) idx) = Some (map ((!) msgs) idx, r')"
  using assms(6-)
proof (induction idx arbitrary: D h r)
  case (Cons i idx)
  have "\<exists>r' h'. Decrypt C now r (cts ! i) = Some (Inr (msgs ! i), r') \<and>
      receiving C hk ck c N (insert i D) h' r' \<and> insert i D \<subseteq> {0..<h'}"
  proof (cases "h \<le> i")
    case True
    then show ?thesis
      using receiving_ahead [OF assms(1,2) Cons.prems(1) assms(3,4,5), of i "msgs ! i" "cts ! i" now] Cons.prems
      by fastforce
  next
    case False
    then show ?thesis
      using receiving_late [OF assms(1,2) Cons.prems(1) assms(4), of i "msgs ! i" "cts ! i" now] Cons.prems
      by fastforce
  qed
  then obtain r' h' where dec: "Decrypt C now r (cts ! i) = Some (Inr (msgs ! i), r')"
    and inv: "receiving C hk ck c N (insert i D) h' r'" "insert i D \<subseteq> {0..<h'}" by blast
  obtain r'' where "deliver C now r' (map ((!) cts) idx) = Some (map ((!) msgs) idx, r'')"
    using Cons.IH [OF inv] Cons.prems by auto
  with dec show ?case by simp
qed simp

section \<open>A message decrypts once\<close>

text \<open>Saved keys lie behind the counter of the current chain and never belong to the next one.\<close>

definition savedBehind :: "ratchet \<Rightarrow> bool" where
  "savedBehind r \<longleftrightarrow>
     (\<forall>n. lookupKey (saved r) (recvHeaderKey r) n \<noteq> None \<longrightarrow> n < recvCount r) \<and>
     map_of (saved r) (nextRecvHeaderKey r) = None"

lemma trySavedLoop_only:
  assumes "box_commits C sh" "secretbox_open C sh nonce hk = Some header" "length header = headerSize"
    and "wf_map rest"
  shows "trySavedLoop C sh nonce sm sv rest =
    (case map_of rest hk of
       None \<Rightarrow> None
     | Some mks \<Rightarrow> trySavedLoop C sh nonce sm sv [(hk, mks)])"
  using assms(4)
proof (induction rest)
  case (Cons x rest)
  obtain hk' mks where x: "x = (hk', mks)" by (cases x)
  show ?case
  proof (cases "hk' = hk")
    case True
    with assms(2,3) x show ?thesis by (simp add: Let_def split: option.splits)
  next
    case False
    then have "secretbox_open C sh nonce hk' = None"
      by (rule secretbox_commit_other [OF assms(1,2)])
    with False Cons x show ?thesis by (simp add: wf_map_def)
  qed
qed simp

text \<open>The parts of a ciphertext, as \<open>Decrypt\<close> slices it.\<close>

definition ctNonce :: "crypto \<Rightarrow> bytes \<Rightarrow> bytes" where
  "ctNonce C ct = take 24 (take (sealedHeaderSize C) ct)"

definition ctHeader :: "crypto \<Rightarrow> bytes \<Rightarrow> bytes" where
  "ctHeader C ct = drop 24 (take (sealedHeaderSize C) ct)"

definition ctMessage :: "crypto \<Rightarrow> bytes \<Rightarrow> bytes" where
  "ctMessage C ct = drop (sealedHeaderSize C) ct"

text \<open>Neither box of the ciphertext opens under two keys.\<close>

definition ct_commits :: "crypto \<Rightarrow> bytes \<Rightarrow> bool" where
  "ct_commits C ct \<longleftrightarrow> box_commits C (ctHeader C ct) \<and> box_commits C (ctMessage C ct)"

lemma ct_commitsD:
  "ct_commits C ct \<Longrightarrow> box_commits C (ctHeader C ct)"
  "ct_commits C ct \<Longrightarrow> box_commits C (ctMessage C ct)"
  by (simp_all add: ct_commits_def)

lemma trySavedKeys_absent:
  assumes "ct_commits C ct" "sealedHeaderSize C \<le> length ct"
    and "secretbox_open C (ctHeader C ct) (ctNonce C ct) hk = Some header" "length header = headerSize"
    and "wf_map (saved r)" "lookupKey (saved r) hk (get_u32_le (take 4 header)) = None"
  shows "trySavedKeys C r ct = (Inr None, r)"
proof (cases "map_of (saved r) hk")
  case None
  then show ?thesis
    using assms(2) trySavedLoop_only [OF ct_commitsD(1) [OF assms(1)] assms(3,4,5), of "ctMessage C ct" "saved r"]
    by (simp add: trySavedKeys_def Let_def ctHeader_def ctNonce_def ctMessage_def)
next
  case (Some mks)
  with assms(6) have "map_of mks (get_u32_le (take 4 header)) = None" by (simp add: lookupKey_def)
  with Some show ?thesis
    using assms(2,3,4) trySavedLoop_only [OF ct_commitsD(1) [OF assms(1)] assms(3,4,5), of "ctMessage C ct" "saved r"]
    by (simp add: trySavedKeys_def Let_def ctHeader_def ctNonce_def ctMessage_def)
qed

lemma trySavedKeys_found_none:
  assumes "ct_commits C ct"
    and "secretbox_open C (ctHeader C ct) (ctNonce C ct) hk = Some header" "length header = headerSize"
    and "wf_map (saved r)" "trySavedKeys C r ct = (Inr None, r1)"
    and "secretbox_open C (ctMessage C ct) (drop nonceInHeaderOffset header) mk = Some msg" "msg \<noteq> []"
  shows "r1 = r \<and> lookupKey (saved r) hk (get_u32_le (take 4 header)) = None"
proof (cases "lookupKey (saved r) hk (get_u32_le (take 4 header))")
  case None
  with assms trySavedKeys_absent [OF assms(1) trySavedKeys_long [OF assms(5)] assms(2,3,4)] show ?thesis
    by simp
next
  case (Some k)
  then obtain mks where m: "map_of (saved r) hk = Some mks" "map_of mks (get_u32_le (take 4 header)) = Some k"
    by (auto simp: lookupKey_def bind_eq_Some_conv)
  have "secretbox_open C (ctMessage C ct) (drop nonceInHeaderOffset header) (sk_key k) \<in> {None, Some msg}"
  proof (cases "secretbox_open C (ctMessage C ct) (drop nonceInHeaderOffset header) (sk_key k)")
    case (Some m)
    then have "sk_key k = mk" using ct_commitsD(2) [OF assms(1)] assms(6) unfolding box_commits_def by blast
    with assms(6) show ?thesis by simp
  qed simp
  then show ?thesis
    using assms(2,3,5,7) m trySavedLoop_only [OF ct_commitsD(1) [OF assms(1)] assms(2,3,4), of "ctMessage C ct" "saved r"]
    by (auto simp: trySavedKeys_def Let_def ctHeader_def ctNonce_def ctMessage_def nilSlice_def
        split: if_splits option.splits)
qed

text \<open>A ciphertext whose header key has been used up is refused without a trace.\<close>

lemma Decrypt_spent:
  assumes "ct_commits C ct" "sealedHeaderSize C \<le> length ct"
    and hd: "secretbox_open C (ctHeader C ct) (ctNonce C ct) hk = Some header" "length header = headerSize"
    and "wf_map (saved r)" "lookupKey (saved r) hk (get_u32_le (take 4 header)) = None"
    and behind: "recvHeaderKey r = hk \<Longrightarrow> get_u32_le (take 4 header) < recvCount r"
    and notnext: "recvHeaderKey r = hk \<and> \<not> isZeroKey hk \<or> nextRecvHeaderKey r \<noteq> hk \<or> ratchet_flag r"
  shows "\<exists>e. Decrypt C now r ct = Some (Inl e, r)"
proof -
  note miss = trySavedKeys_absent [OF assms(1-6)]
  have other: "secretbox_open C (ctHeader C ct) (ctNonce C ct) k = None" if "k \<noteq> hk" for k
    using secretbox_commit_other [OF ct_commitsD(1) [OF assms(1)] hd(1) that] .
  have cur: "decryptCurrent C now r header sm = Some (Inl EDuplicate, r)" if "recvHeaderKey r = hk" for sm
    using behind [OF that] hd(2) by (simp add: decryptCurrent_def Let_def saveKeys_def)
  have nxt: "decryptNext C now r header sm = Some (Inl ENoRatchetFlag, r)" if "ratchet_flag r" for sm
    using that hd(2) by (simp add: decryptNext_def)
  show ?thesis
    using miss other [of "recvHeaderKey r"] other [of "nextRecvHeaderKey r"] hd(1) cur nxt notnext
    by (cases "recvHeaderKey r = hk"; cases "nextRecvHeaderKey r = hk")
      (auto simp add: Decrypt_def Let_def ctHeader_def ctNonce_def)
qed

lemma replay_current:
  assumes com: "ct_commits C ct" and wm: "wf_map (saved r)" "wf_map (saved r')" and msg: "msg \<noteq> []"
    and tsk: "trySavedKeys C r ct = (Inr None, r1)" and nz: "\<not> isZeroKey (recvHeaderKey r1)"
    and op: "secretbox_open C (drop 24 (take (sealedHeaderSize C) ct)) (take 24 (take (sealedHeaderSize C) ct))
      (recvHeaderKey r1) = Some header"
    and dec: "decryptCurrent C now r1 header (drop (sealedHeaderSize C) ct) = Some (Inr msg, r')"
  shows "\<exists>e. Decrypt C now' r' ct = Some (Inl e, r')"
proof -
  obtain num d where h: "length header = headerSize" "num = get_u32_le (take 4 header)"
    "d \<le> 80" "num \<noteq> - 1" "unat num = unat (recvCount r1) + d"
    and ob: "secretbox_open C (drop (sealedHeaderSize C) ct) (drop nonceInHeaderOffset header)
      (msgKeyAt C (recvChainKey r1) d) = Some msg"
    and r': "r' = r1\<lparr>recvChainKey := chainAt C (recvChainKey r1) (Suc d),
      saved := mergeSavedKeys (skippedFor C now (recvHeaderKey r1) (recvChainKey r1) (recvCount r1) d) (saved r1),
      recvCount := num + 1, lastDecryptTime := now\<rparr>"
    using dec by (rule decryptCurrent_Inr) blast
  have op': "secretbox_open C (ctHeader C ct) (ctNonce C ct) (recvHeaderKey r1) = Some header"
    using op by (simp only: ctHeader_def ctNonce_def)
  have none: "lookupKey (saved r1) (recvHeaderKey r1) num = None"
    using trySavedKeys_found_none [OF com op' h(1) wm(1) tsk _ msg, unfolded ctMessage_def, OF ob] h(2)
    by auto
  have "\<not> unat (num - recvCount r1) < d"
    using h(5) by (simp add: unat_sub word_le_nat_alt)
  then have "lookupKey (saved r') (recvHeaderKey r') num = None"
    using none h(3) by (simp add: r' lookupKey_merge)
  moreover have "num < num + 1"
    by (rule less_Suc_word [OF h(4)])
  ultimately show ?thesis
    using Decrypt_spent [OF com trySavedKeys_long [OF tsk] op' h(1) wm(2)] h(2) nz by (simp add: r')
qed

lemma replay_ratcheted:
  assumes com: "ct_commits C ct" and wm: "wf_map (saved r)" "wf_map (saved r')"
    and nz: "\<not> isZeroKey (nextRecvHeaderKey r)" and msg: "msg \<noteq> []"
    and tsk: "trySavedKeys C r ct = (Inr None, r1)"
    and notcur: "isZeroKey (recvHeaderKey r1) \<or>
      secretbox_open C (drop 24 (take (sealedHeaderSize C) ct)) (take 24 (take (sealedHeaderSize C) ct))
      (recvHeaderKey r1) = None"
    and op: "secretbox_open C (drop 24 (take (sealedHeaderSize C) ct)) (take 24 (take (sealedHeaderSize C) ct))
      (nextRecvHeaderKey r1) = Some header"
    and dec: "decryptNext C now r1 header (drop (sealedHeaderSize C) ct) = Some (Inr msg, r')"
  shows "\<exists>e. Decrypt C now' r' ct = Some (Inl e, r')"
proof -
  obtain num d km where h: "length header = headerSize" "num = get_u32_le (take 4 header)"
    "d \<le> 80" "unat num \<le> 80" "num \<noteq> - 1"
    and ob: "secretbox_open C (drop (sealedHeaderSize C) ct) (drop nonceInHeaderOffset header)
      (msgKeyAt C (deriveKey C km chainKeyLabel) (unat num)) = Some msg"
    and r': "recvHeaderKey r' = nextRecvHeaderKey r1" "recvCount r' = num + 1"
      "saved r' = mergeSavedKeys
        (skippedFor C now (nextRecvHeaderKey r1) (deriveKey C km chainKeyLabel) 0 (unat num))
        (mergeSavedKeys (skippedFor C now (recvHeaderKey r1) (recvChainKey r1) (recvCount r1) d) (saved r1))"
    using dec by (rule decryptNext_Inr) auto
  have op': "secretbox_open C (ctHeader C ct) (ctNonce C ct) (nextRecvHeaderKey r1) = Some header"
    using op by (simp only: ctHeader_def ctNonce_def)
  have r1: "r1 = r" and none: "lookupKey (saved r1) (nextRecvHeaderKey r1) num = None"
    using trySavedKeys_found_none [OF com op' h(1) wm(1) tsk _ msg, unfolded ctMessage_def, OF ob] h(2)
    by auto
  have "recvHeaderKey r1 \<noteq> nextRecvHeaderKey r1"
    using notcur op nz r1 by auto
  then have "lookupKey (saved r') (recvHeaderKey r') num = None"
    using none h(3,4) by (simp add: r' lookupKey_merge)
  moreover have "num < num + 1"
    by (rule less_Suc_word [OF h(5)])
  ultimately show ?thesis
    using Decrypt_spent [OF com trySavedKeys_long [OF tsk] op' h(1) wm(2)] h(2) nz r1 by (simp add: r')
qed

lemma Decrypt_replay:
  assumes com: "ct_commits C ct" and wf: "wf_ratchet r" and beh: "savedBehind r"
    and nz: "\<not> isZeroKey (nextRecvHeaderKey r)"
    and dec: "Decrypt C now r ct = Some (Inr msg, r')" and msg: "msg \<noteq> []"
  shows "\<exists>e. Decrypt C now' r' ct = Some (Inl e, r')"
proof -
  have wm: "wf_map (saved r)" using wf by (simp add: wf_ratchet_def wf_saved_def)
  have wm': "wf_map (saved r')" by (rule Decrypt_nbKeys(2) [OF wm dec])
  from dec show ?thesis
  proof (cases rule: Decrypt_cases)
    case (from_saved m r1)
    then have len: "sealedHeaderSize C \<le> length ct" by (simp add: trySavedKeys_long)
    from trySavedKeys_Inr [OF from_saved(1)] obtain hk mks num m' where
      hit: "savedHit C (ctHeader C ct) (ctNonce C ct) (ctMessage C ct) (saved r) hk mks num m'"
      and r1: "r1 = r\<lparr>saved := dropSavedKey (saved r) hk mks num\<rparr>"
      by (auto simp: ctHeader_def ctNonce_def ctMessage_def)
    from hit obtain header mk where h: "secretbox_open C (ctHeader C ct) (ctNonce C ct) hk = Some header"
      "length header = headerSize" "num = get_u32_le (take 4 header)" "map_of mks num = Some mk"
      by (auto simp: savedHit_def)
    have m: "map_of (saved r) hk = Some mks"
      using hit wm by (simp add: savedHit_def wf_map_def)
    have r': "r' = r\<lparr>saved := dropSavedKey (saved r) hk mks num, lastDecryptTime := now\<rparr>"
      using from_saved(3) r1 by simp
    show ?thesis
    proof (rule Decrypt_spent [OF com len h(1,2) wm'])
      show "lookupKey (saved r') hk (get_u32_le (take 4 header)) = None"
        using m h(3) by (simp add: r' lookupKey_drop)
      show "get_u32_le (take 4 header) < recvCount r'" if "recvHeaderKey r' = hk"
        using that beh m h(3,4) by (simp add: r' savedBehind_def lookupKey_def)
      show "recvHeaderKey r' = hk \<and> \<not> isZeroKey hk \<or> nextRecvHeaderKey r' \<noteq> hk \<or> ratchet_flag r'"
        using beh m by (auto simp: r' savedBehind_def)
    qed
  next
    case (current r1 header)
    then show ?thesis by (auto intro: replay_current [OF com wm wm' msg])
  next
    case (ratcheted r1 header)
    then show ?thesis by (auto intro: replay_ratcheted [OF com wm wm' nz msg])
  qed simp_all
qed

subsection \<open>The saved keys stay behind\<close>

lemma window_less:
  assumes "unat num = unat rc + d" "unat (n - rc) < d"
  shows "n < (num :: u32)"
  using assms unsigned_less [of num, where 'a = nat] unfolding unat_sub_if' word_less_nat_alt
  by (auto split: if_splits)

lemma savedBehind_drop:
  assumes "savedBehind r" "map_of (saved r) hk = Some mks"
  shows "savedBehind (r\<lparr>saved := dropSavedKey (saved r) hk mks num\<rparr>)"
  using assms by (auto simp: savedBehind_def lookupKey_drop) (auto simp: dropSavedKey_def Let_def split: if_splits)

lemma savedBehind_trySavedKeys:
  assumes "savedBehind r" "wf_map (saved r)" "trySavedKeys C r ct = (Inr res, r1)"
  shows "savedBehind r1"
  using trySavedKeys_Inr [OF assms(3)] assms(1,2) savedBehind_drop
  by (auto simp: savedHit_def wf_map_def)

lemma savedBehind_Decrypt:
  assumes "savedBehind r" "wf_map (saved r)" "\<not> isZeroKey (nextRecvHeaderKey r)"
    and "Decrypt C now r ct = Some (res, r')"
    and fresh: "map_of (saved r') (nextRecvHeaderKey r') = None"
  shows "savedBehind r'"
  using assms(4)
proof (cases rule: Decrypt_cases)
  case (from_saved msg r1)
  then show ?thesis using savedBehind_trySavedKeys [OF assms(1,2)] by (fastforce simp: savedBehind_def)
next
  case (current r1 header)
  then have r1: "savedBehind r1" using savedBehind_trySavedKeys [OF assms(1,2)] by blast
  show ?thesis
  proof (cases res)
    case (Inl e)
    with current(4) r1 show ?thesis by (auto dest: decryptCurrent_Inl)
  next
    case (Inr msg)
    with current(4) obtain num d where h: "recvCount r1 \<le> num" "d \<le> 80" "num \<noteq> - 1"
      "unat num = unat (recvCount r1) + d"
      and r': "r' = r1\<lparr>recvChainKey := chainAt C (recvChainKey r1) (Suc d),
        saved := mergeSavedKeys (skippedFor C now (recvHeaderKey r1) (recvChainKey r1) (recvCount r1) d) (saved r1),
        recvCount := num + 1, lastDecryptTime := now\<rparr>"
      by (auto elim!: decryptCurrent_Inr)
    have "n < num + 1" if "lookupKey (saved r') (recvHeaderKey r') n \<noteq> None" for n
    proof (cases "unat (n - recvCount r1) < d")
      case True
      with window_less [OF h(4)] less_Suc_word [OF h(3)] show ?thesis by (meson less_trans)
    next
      case False
      with that h(2) r1 have "n < recvCount r1"
        by (auto simp: r' lookupKey_merge savedBehind_def)
      with h(1) less_Suc_word [OF h(3)] show ?thesis by order
    qed
    with fresh show ?thesis by (simp add: savedBehind_def r')
  qed
next
  case (ratcheted r1 header)
  then have r1: "savedBehind r1" using savedBehind_trySavedKeys [OF assms(1,2)] by blast
  have nk: "nextRecvHeaderKey r1 = nextRecvHeaderKey r"
    using trySavedKeys_Inr [OF ratcheted(1)] by auto
  show ?thesis
  proof (cases res)
    case (Inl e)
    with ratcheted(4) r1 show ?thesis by (auto dest: decryptNext_Inl)
  next
    case (Inr msg)
    with ratcheted(4) obtain num d ck where h: "unat num \<le> 80" "num \<noteq> - 1" "d \<le> 80"
      and r': "recvHeaderKey r' = nextRecvHeaderKey r1" "recvCount r' = num + 1"
        "saved r' = mergeSavedKeys (skippedFor C now (nextRecvHeaderKey r1) ck 0 (unat num))
          (mergeSavedKeys (skippedFor C now (recvHeaderKey r1) (recvChainKey r1) (recvCount r1) d) (saved r1))"
      by (auto elim!: decryptNext_Inr)
    have ne: "recvHeaderKey r1 \<noteq> nextRecvHeaderKey r1"
      using ratcheted(2,3) assms(3) nk by auto
    have "n < num + 1" if "lookupKey (saved r') (recvHeaderKey r') n \<noteq> None" for n
    proof -
      have "lookupKey (saved r1) (nextRecvHeaderKey r1) n = None"
        using r1 by (simp add: savedBehind_def lookupKey_def)
      then have "unat n < unat num"
        using that h ne by (auto simp: r' lookupKey_merge split: if_splits)
      with less_Suc_word [OF h(2)] show ?thesis by (meson less_trans word_less_nat_alt)
    qed
    with fresh show ?thesis by (simp add: savedBehind_def r')
  qed
qed (use assms(1,2) savedBehind_trySavedKeys in blast)+

end
