(* ===== verification/Ratchet_Disk.thy ===== *)
theory Ratchet_Disk
  imports Ratchet
begin

text \<open>
  The stored form of a ratchet (\<^verbatim>\<open>src/ratchet/disk/disk.go\<close>) and the functions of
  \<^verbatim>\<open>src/ratchet/ratchet.go\<close> that write and read it. Reading back gives the ratchet that was
  written, with instants cut to the stored resolution and without the saved keys that were
  older than the lifetime given to \<open>DiskState\<close>.
\<close>

record messageKeyState =
  Num :: u32
  Key :: bytes
  CreationTime :: int

record savedKeysState =
  HeaderKey :: bytes
  MessageKeys :: "messageKeyState list"

record ratchetState =
  RootKey :: bytes
  SendHeaderKey :: bytes
  RecvHeaderKey :: bytes
  NextSendHeaderKey :: bytes
  NextRecvHeaderKey :: bytes
  PrevRecvHeaderKey :: bytes
  SendChainKey :: bytes
  RecvChainKey :: bytes
  SendRatchetPrivate :: bytes
  RecvRatchetPublic :: bytes
  SendCount :: u32
  RecvCount :: u32
  PrevSendCount :: u32
  PrevRecvCount :: u32
  RatchetFlag :: bool
  KXPrivate :: bytes
  MyHalf :: bytes
  TheirHalf :: bytes
  SavedKeys :: "savedKeysState list"
  LastEncryptTime :: int
  LastDecryptTime :: int

text \<open>\<open>dup32\<close> of a nil pointer is the nil slice.\<close>

definition dup32 :: "key option \<Rightarrow> bytes" where
  "dup32 x = (case x of None \<Rightarrow> [] | Some k \<Rightarrow> k)"

definition keptKeys :: "time \<Rightarrow> duration \<Rightarrow> msg_keys \<Rightarrow> msg_keys" where
  "keptKeys now lifetime mks = filter (\<lambda>(n, k). \<not> time_sub now (timestamp k) > lifetime) mks"

definition diskSavedKeys :: "time \<Rightarrow> duration \<Rightarrow> saved_keys \<Rightarrow> savedKeysState list" where
  "diskSavedKeys now lifetime sv =
     map (\<lambda>(headerKey, messageKeys).
       \<lparr>HeaderKey = headerKey,
        MessageKeys = map (\<lambda>(messageNum, k).
            \<lparr>Num = messageNum, Key = sk_key k, CreationTime = time_unix (timestamp k)\<rparr>)
          (keptKeys now lifetime messageKeys)\<rparr>) sv"

definition DiskState :: "time \<Rightarrow> duration \<Rightarrow> ratchet \<Rightarrow> ratchetState" where
  "DiskState now lifetime r =
     \<lparr>RootKey = rootKey r, SendHeaderKey = sendHeaderKey r, RecvHeaderKey = recvHeaderKey r,
      NextSendHeaderKey = nextSendHeaderKey r, NextRecvHeaderKey = nextRecvHeaderKey r,
      PrevRecvHeaderKey = prevRecvHeaderKey r, SendChainKey = sendChainKey r,
      RecvChainKey = recvChainKey r, SendRatchetPrivate = sendRatchetPrivate r,
      RecvRatchetPublic = recvRatchetPublic r, SendCount = sendCount r, RecvCount = recvCount r,
      PrevSendCount = prevSendCount r, PrevRecvCount = prevRecvCount r,
      RatchetFlag = ratchet_flag r, KXPrivate = dup32 (kxPrivate r), MyHalf = dup32 (myHalf r),
      TheirHalf = dup32 (theirHalf r), SavedKeys = diskSavedKeys now lifetime (saved r),
      LastEncryptTime = time_unix_milli (lastEncryptTime r),
      LastDecryptTime = time_unix_milli (lastDecryptTime r)\<rparr>"

definition unmarshalKey :: "bytes \<Rightarrow> key option" where
  "unmarshalKey src = (if length src \<noteq> 32 then None else Some src)"

fun unmarshalMessageKeys :: "messageKeyState list \<Rightarrow> msg_keys \<Rightarrow> msg_keys option" where
  "unmarshalMessageKeys [] mks = Some mks"
| "unmarshalMessageKeys (k # ks) mks =
     (case unmarshalKey (Key k) of
        None \<Rightarrow> None
      | Some key \<Rightarrow>
          unmarshalMessageKeys ks
            (AList.update (Num k) \<lparr>timestamp = from_unix (CreationTime k), sk_key = key\<rparr> mks))"

fun unmarshalSaved :: "savedKeysState list \<Rightarrow> saved_keys \<Rightarrow> saved_keys option" where
  "unmarshalSaved [] sv = Some sv"
| "unmarshalSaved (s # ss) sv =
     (case unmarshalKey (HeaderKey s) of
        None \<Rightarrow> None
      | Some headerKey \<Rightarrow>
          (case unmarshalMessageKeys (MessageKeys s) [] of
             None \<Rightarrow> None
           | Some messageKeys \<Rightarrow> unmarshalSaved ss (AList.update headerKey messageKeys sv)))"

text \<open>An optional key: absent when the stored slice is empty. A key stored for a receiver whose
  pointer is nil is written through that nil pointer when \<open>alloc\<close> is false, which panics.\<close>

definition unmarshalOpt :: "bool \<Rightarrow> key option \<Rightarrow> bytes \<Rightarrow> ratchet_error + key option" where
  "unmarshalOpt alloc cur src =
     (if length src > 0 then
        (case unmarshalKey src of
           None \<Rightarrow> Inl EUnmarshal
         | Some k \<Rightarrow> if cur = None \<and> \<not> alloc then Inl EPanic else Inr (Some k))
      else Inr None)"

text \<open>After an error the receiver is partly overwritten; the model keeps only the error, as the
  callers do.\<close>

definition Unmarshal :: "ratchet \<Rightarrow> ratchetState \<Rightarrow> ratchet_error + ratchet" where
  "Unmarshal r s =
     (if \<not> list_all (\<lambda>k. unmarshalKey k \<noteq> None)
            [RootKey s, SendHeaderKey s, RecvHeaderKey s, NextSendHeaderKey s, NextRecvHeaderKey s,
             PrevRecvHeaderKey s, SendChainKey s, RecvChainKey s, SendRatchetPrivate s, RecvRatchetPublic s]
      then Inl EUnmarshal
      else
        let r = r\<lparr>rootKey := RootKey s, sendHeaderKey := SendHeaderKey s, recvHeaderKey := RecvHeaderKey s,
                 nextSendHeaderKey := NextSendHeaderKey s, nextRecvHeaderKey := NextRecvHeaderKey s,
                 prevRecvHeaderKey := PrevRecvHeaderKey s, sendChainKey := SendChainKey s,
                 recvChainKey := RecvChainKey s, sendRatchetPrivate := SendRatchetPrivate s,
                 recvRatchetPublic := RecvRatchetPublic s, sendCount := SendCount s,
                 recvCount := RecvCount s, prevSendCount := PrevSendCount s,
                 prevRecvCount := PrevRecvCount s, ratchet_flag := RatchetFlag s,
                 lastEncryptTime := from_unix_milli (LastEncryptTime s),
                 lastDecryptTime := from_unix_milli (LastDecryptTime s)\<rparr>
        in case unmarshalOpt False (kxPrivate r) (KXPrivate s) of
             Inl e \<Rightarrow> Inl e
           | Inr kxp \<Rightarrow>
             (case unmarshalOpt True (myHalf r) (MyHalf s) of
                Inl e \<Rightarrow> Inl e
              | Inr mh \<Rightarrow>
                (case unmarshalOpt True (theirHalf r) (TheirHalf s) of
                   Inl e \<Rightarrow> Inl e
                 | Inr th \<Rightarrow>
                   (case unmarshalSaved (SavedKeys s) (saved r) of
                      None \<Rightarrow> Inl EUnmarshal
                    | Some sv \<Rightarrow>
                        Inr (r\<lparr>kxPrivate := kxp, myHalf := mh, theirHalf := th, saved := sv\<rparr>)))))"

section \<open>Reading back what was written\<close>

text \<open>The saved keys that survive: unexpired, with their instants cut to seconds.\<close>

definition restoredKeys :: "time \<Rightarrow> duration \<Rightarrow> saved_keys \<Rightarrow> saved_keys" where
  "restoredKeys now lifetime sv =
     map (\<lambda>(hk, mks). (hk, map (\<lambda>(n, k). (n, k\<lparr>timestamp := from_unix (time_unix (timestamp k))\<rparr>))
       (keptKeys now lifetime mks))) sv"

definition restored :: "time \<Rightarrow> duration \<Rightarrow> ratchet \<Rightarrow> ratchet \<Rightarrow> ratchet" where
  "restored now lifetime r0 r =
     r\<lparr>MyPrivateKey := MyPrivateKey r0, TheirPublicKey := TheirPublicKey r0, rand := rand r0,
       saved := restoredKeys now lifetime (saved r),
       lastEncryptTime := from_unix_milli (time_unix_milli (lastEncryptTime r)),
       lastDecryptTime := from_unix_milli (time_unix_milli (lastDecryptTime r))\<rparr>"

lemma unmarshalKey_key32 [simp]: "key32 k \<Longrightarrow> unmarshalKey k = Some k"
  by (simp add: unmarshalKey_def key32_def)

lemma unmarshalMessageKeys_fold:
  assumes "\<forall>(n, k) \<in> set mks. key32 (sk_key k)"
  shows "unmarshalMessageKeys
      (map (\<lambda>(n, k). \<lparr>Num = n, Key = sk_key k, CreationTime = time_unix (timestamp k)\<rparr>) mks) acc =
    Some (fold (\<lambda>(n, k). AList.update n k)
      (map (\<lambda>(n, k). (n, k\<lparr>timestamp := from_unix (time_unix (timestamp k))\<rparr>)) mks) acc)"
  using assms
proof (induction mks arbitrary: acc)
  case (Cons x mks)
  obtain n t y where "x = (n, \<lparr>timestamp = t, sk_key = y\<rparr>)"
    by (metis prod.exhaust savedKey.cases)
  with Cons show ?case by simp
qed simp

lemma fst_stamped [simp]: "fst \<circ> (\<lambda>(n, k). (n, f k)) = fst"
  by (simp add: fun_eq_iff split_beta)

lemma unmarshalMessageKeys_kept:
  assumes "wf_msg_keys mks"
  shows "unmarshalMessageKeys
      (map (\<lambda>(n, k). \<lparr>Num = n, Key = sk_key k, CreationTime = time_unix (timestamp k)\<rparr>)
        (keptKeys now lifetime mks)) [] =
    Some (map (\<lambda>(n, k). (n, k\<lparr>timestamp := from_unix (time_unix (timestamp k))\<rparr>)) (keptKeys now lifetime mks))"
proof -
  have "distinct (map fst (keptKeys now lifetime mks))"
    using assms by (simp add: keptKeys_def wf_msg_keys_def wf_map_def distinct_map_filter)
  then have "fold (\<lambda>(n, k). AList.update n k)
      (map (\<lambda>(n, k). (n, k\<lparr>timestamp := from_unix (time_unix (timestamp k))\<rparr>)) (keptKeys now lifetime mks)) [] =
      map (\<lambda>(n, k). (n, k\<lparr>timestamp := from_unix (time_unix (timestamp k))\<rparr>)) (keptKeys now lifetime mks)"
    by (subst fold_update_distinct) simp_all
  moreover have "\<forall>(n, k) \<in> set (keptKeys now lifetime mks). key32 (sk_key k)"
    using assms by (auto simp: keptKeys_def wf_msg_keys_def)
  ultimately show ?thesis by (simp add: unmarshalMessageKeys_fold)
qed

lemma unmarshalSaved_disk:
  assumes "\<forall>(hk, mks) \<in> set sv. key32 hk \<and> wf_msg_keys mks"
  shows "unmarshalSaved (diskSavedKeys now lifetime sv) acc =
    Some (fold (\<lambda>(n, k). AList.update n k) (restoredKeys now lifetime sv) acc)"
  using assms
  by (induction sv arbitrary: acc)
    (auto simp: diskSavedKeys_def restoredKeys_def unmarshalMessageKeys_kept)

lemma map_fst_restoredKeys: "map fst (restoredKeys now lifetime sv) = map fst sv"
  by (induction sv) (auto simp: restoredKeys_def)

lemma unmarshalOpt_dup32:
  "pred_option key32 k \<Longrightarrow> alloc \<or> cur \<noteq> None \<Longrightarrow> unmarshalOpt alloc cur (dup32 k) = Inr k"
  by (cases k) (auto simp: unmarshalOpt_def dup32_def unmarshalKey_def key32_def)

lemma Unmarshal_DiskState:
  assumes "wf_ratchet r" "saved r0 = []" "kxPrivate r0 \<noteq> None"
  shows "Unmarshal r0 (DiskState now lifetime r) = Inr (restored now lifetime r0 r)"
proof -
  have "fold (\<lambda>(n, k). AList.update n k) (restoredKeys now lifetime (saved r)) [] =
      restoredKeys now lifetime (saved r)"
    using assms(1)
    by (subst fold_update_distinct) (simp_all add: map_fst_restoredKeys wf_ratchet_def wf_saved_def wf_map_def)
  with assms(1) have "unmarshalSaved (diskSavedKeys now lifetime (saved r)) [] =
      Some (restoredKeys now lifetime (saved r))"
    by (subst unmarshalSaved_disk) (auto simp: wf_ratchet_def wf_saved_def)
  with assms show ?thesis
    by (simp add: Unmarshal_def DiskState_def restored_def wf_ratchet_def unmarshalOpt_dup32 Let_def)
qed

lemma restored_lookup:
  assumes "lookupKey (saved r) hk n = Some k" "\<not> time_sub now (timestamp k) > lifetime" "wf_saved (saved r)"
  shows "\<exists>k'. lookupKey (saved (restored now lifetime r0 r)) hk n = Some k' \<and> sk_key k' = sk_key k"
proof -
  from assms(1) obtain mks where m: "map_of (saved r) hk = Some mks" "map_of mks n = Some k"
    by (auto simp: lookupKey_def bind_eq_Some_conv)
  have "map_of (restoredKeys now lifetime sv) hk =
      map_option (\<lambda>mks. map (\<lambda>(n, k). (n, k\<lparr>timestamp := from_unix (time_unix (timestamp k))\<rparr>))
        (keptKeys now lifetime mks)) (map_of sv hk)" for sv
    by (induction sv) (auto simp: restoredKeys_def)
  moreover have "map_of (map (\<lambda>(n, k). (n, k\<lparr>timestamp := f k\<rparr>)) xs) n =
      map_option (\<lambda>k. k\<lparr>timestamp := f k\<rparr>) (map_of xs n)" for f and xs :: msg_keys
    by (induction xs) auto
  moreover have "map_of (keptKeys now lifetime mks) n = Some k"
  proof -
    have "wf_map mks" using wf_saved_lookup [OF assms(3) m(1)] by (simp add: wf_msg_keys_def)
    then show ?thesis
      using map_of_SomeD [OF m(2)] assms(2)
      by (intro map_of_is_SomeI) (auto simp: keptKeys_def wf_map_def distinct_map_filter)
  qed
  ultimately show ?thesis using m by (simp add: lookupKey_def restored_def)
qed

end
