(* ===== verification/Ratchet_Correct.thy ===== *)
theory Ratchet_Correct
  imports Ratchet_Reorder Ratchet_Disk
begin

text \<open>
  What the ratchet promises to its callers, each statement followed by an application to concrete
  ratchets. The two example ends, \<open>ex_alice\<close> (about to ratchet) and \<open>ex_bob\<close>, are in the state a
  completed key exchange leaves.
\<close>

section \<open>Two example ends\<close>

definition ex_ratchet :: ratchet where
  "ex_ratchet =
     \<lparr>MyPrivateKey = [], TheirPublicKey = [],
      rootKey = replicate 32 1, sendHeaderKey = zeroKey, recvHeaderKey = zeroKey,
      nextSendHeaderKey = replicate 32 2, nextRecvHeaderKey = replicate 32 3,
      prevRecvHeaderKey = zeroKey, sendChainKey = zeroKey, recvChainKey = zeroKey,
      sendRatchetPrivate = zeroKey, recvRatchetPublic = zeroKey,
      sendCount = 0, recvCount = 0, prevSendCount = 0, prevRecvCount = 0,
      ratchet_flag = True, saved = [], myHalf = None, theirHalf = None,
      kxPrivate = None, lastEncryptTime = zero_time, lastDecryptTime = zero_time,
      rand = replicate 400 7\<rparr>"

definition ex_alice :: ratchet where
  "ex_alice = ex_ratchet\<lparr>recvHeaderKey := replicate 32 4, recvChainKey := replicate 32 5,
     recvRatchetPublic := replicate 32 6\<rparr>"

definition ex_bob :: ratchet where
  "ex_bob = ex_ratchet\<lparr>nextSendHeaderKey := replicate 32 3, nextRecvHeaderKey := replicate 32 2,
     sendHeaderKey := replicate 32 4, sendChainKey := replicate 32 5,
     sendRatchetPrivate := replicate 32 6, ratchet_flag := False\<rparr>"

lemmas ex_ends = ex_alice_def ex_bob_def ex_ratchet_def

lemma fit32_id [simp]: "length k = 32 \<Longrightarrow> fit32 k = k"
  by (simp add: fit32_def)

lemma fit32_Cons: "fit32 (x # xs) = x # take 31 (xs @ replicate 32 0)"
  by (simp add: fit32_def)

lemma replicate_32: "replicate 32 x = x # replicate 31 x"
  by (simp add: numeral_eq_Suc)

lemma isZeroKey_replicate [simp]: "isZeroKey (replicate 32 x) \<longleftrightarrow> x = 0"
  by (simp add: isZeroKey_iff zeroKey_def)

lemma ex_crypto_all: "crypto_laws ex_crypto"
  by (simp add: crypto_laws_def ex_crypto_laws ex_crypto_dh)

lemma ex_synced: "synced ex_crypto ex_alice ex_bob"
  by (simp add: synced_def ex_ends wf_ratchet_def key32_def freshHeaderKey_def zeroKey_def)
    (simp add: ex_crypto_def)

lemma ex_paired: "paired ex_crypto ex_alice ex_bob"
  by (simp add: paired_def ex_synced)

lemma ex_header_label: "fold (+) sendHeaderKeyLabel 0 = (123 :: byte)"
  by (simp add: sendHeaderKeyLabel_def label_def)

lemma ex_derive: "deriveKey ex_crypto k l = fold (+) l 0 # take 31 (k @ replicate 32 0)"
  by (simp add: deriveKey_def ex_crypto_def fit32_Cons)

lemma ex_derived_fresh:
  "\<not> isZeroKey (deriveKey ex_crypto k sendHeaderKeyLabel)"
  "deriveKey ex_crypto k sendHeaderKeyLabel \<noteq> replicate 32 2"
  by (simp_all add: isZeroKey_iff ex_derive ex_header_label zeroKey_def replicate_32)

section \<open>Key exchange and conversation\<close>

text \<open>C2: Two fresh ratchets whose key pairs match, each of which fills a key exchange that the other
  completes (one of them as Alice), agree: both completions succeed and, when the derived header
  keys are new, the two ends are in step, Alice about to ratchet.\<close>

theorem key_exchange_agrees:
  assumes "crypto_laws C" "kem_pair C pkA skA" "kem_pair C pkB skB"
    and "beforeKx skA pkB A" "beforeKx skB pkA B"
    and "FillKeyExchange C sysA A = (Inr kxA, A1)" "FillKeyExchange C sysB B = (Inr kxB, B1)"
    and "kxPrivate A = Some pa" "validateECDHpoint (scalar_base_mult C pa) = None"
    and "kxPrivate B = Some pb" "validateECDHpoint (scalar_base_mult C pb) = None"
  shows "\<exists>A2 B2. CompleteKeyExchange C A1 kxB True = (Inr (), A2) \<and>
    CompleteKeyExchange C B1 kxA False = (Inr (), B2) \<and>
    (\<not> isZeroKey (recvHeaderKey A2) \<longrightarrow> freshHeaderKey A2 \<longrightarrow> freshHeaderKey B2 \<longrightarrow> synced C A2 B2)"
  by (rule kx_synced [OF assms])

definition ex_point :: key where
  "ex_point = 9 # replicate 31 0"

definition ex_before :: ratchet where
  "ex_before = unsetRatchet [] [] ex_point (replicate 32 6)"

definition ex_kx :: key_exchange where
  "ex_kx = \<lparr>kx_Public = replicate 24 8 @ ex_point @ replicate 32 6, kx_Cipher = replicate 32 6 @ replicate 1015 0\<rparr>"

lemma ex_before_New: "beforeKx [] [] ex_before"
  unfolding beforeKx_def
  by (rule exI [of _ "ex_point @ replicate 32 6"])
    (simp add: New_def randBytes_def Let_def ex_before_def unsetRatchet_def ex_point_def)

lemma ex_point_valid: "validateECDHpoint (scalar_base_mult ex_crypto ex_point) = None"
proof -
  have "get_le (replicate n 0) = 0" for n by (induction n) auto
  moreover have "rev (inv32 ex_point) = ex_point"
    by (intro nth_equalityI) (auto simp: inv32_def ex_point_def rev_nth)
  ultimately show ?thesis
    by (simp add: validateECDHpoint_def nat_of_be_def ex_crypto_def) (simp add: ex_point_def)
qed

lemma ex_fill:
  "FillKeyExchange ex_crypto (replicate 24 8) ex_before =
     (Inr ex_kx, ex_before\<lparr>rand := [], myHalf := Some (replicate 32 6)\<rparr>)"
  by (simp add: FillKeyExchange_def sw_Seal_def Let_def ex_before_def unsetRatchet_def ex_kx_def ex_crypto_def)
    (simp add: ex_point_def)

lemma ex_kx_opens: "sw_Open ex_crypto (kx_Public ex_kx) (replicate 32 6) = SwOk ex_point"
  by (simp add: sw_Open_def ex_kx_def ex_crypto_def ex_point_def)

lemma ex_complete:
  defines "r \<equiv> ex_before\<lparr>rand := [], myHalf := Some (replicate 32 6)\<rparr>"
  shows "CompleteKeyExchange ex_crypto r ex_kx True = (Inr (), A) \<Longrightarrow>
      \<not> isZeroKey (recvHeaderKey A) \<and> freshHeaderKey A"
    and "CompleteKeyExchange ex_crypto r ex_kx False = (Inr (), B) \<Longrightarrow> freshHeaderKey B"
proof -
  have "sntrup_decapsulate ex_crypto (kx_Cipher ex_kx) (MyPrivateKey r) = Some (replicate 32 6)"
    by (simp add: ex_kx_def ex_crypto_def)
  moreover have "validateECDHpoint ex_point = None"
    using ex_point_valid by (simp add: ex_crypto_def ex_point_def)
  ultimately have c: "CompleteKeyExchange ex_crypto r ex_kx True = (Inr (), A) \<Longrightarrow>
      \<exists>k. recvHeaderKey A = deriveKey ex_crypto k headerKeyLabel \<and> sendHeaderKey A = zeroKey \<and>
        nextSendHeaderKey A = deriveKey ex_crypto k sendHeaderKeyLabel"
    "CompleteKeyExchange ex_crypto r ex_kx False = (Inr (), B) \<Longrightarrow>
      \<exists>k. sendHeaderKey B = deriveKey ex_crypto k headerKeyLabel \<and>
        nextSendHeaderKey B = deriveKey ex_crypto k nextRecvHeaderKeyLabel"
    by (auto simp: CompleteKeyExchange_def Let_def ex_kx_opens r_def ex_before_def unsetRatchet_def)
  have l: "fold (+) headerKeyLabel 0 = (210 :: byte)" "fold (+) nextRecvHeaderKeyLabel 0 = (180 :: byte)"
    by (simp_all add: headerKeyLabel_def nextRecvHeaderKeyLabel_def label_def)
  show "CompleteKeyExchange ex_crypto r ex_kx True = (Inr (), A) \<Longrightarrow>
      \<not> isZeroKey (recvHeaderKey A) \<and> freshHeaderKey A"
    and "CompleteKeyExchange ex_crypto r ex_kx False = (Inr (), B) \<Longrightarrow> freshHeaderKey B"
    by (auto dest!: c simp: freshHeaderKey_def isZeroKey_iff ex_derive l ex_header_label zeroKey_def replicate_32)
qed

theorem key_exchange_agrees_witness:
  "\<exists>A2 B2. CompleteKeyExchange ex_crypto (snd (FillKeyExchange ex_crypto (replicate 24 8) ex_before)) ex_kx True =
      (Inr (), A2) \<and>
    CompleteKeyExchange ex_crypto (snd (FillKeyExchange ex_crypto (replicate 24 8) ex_before)) ex_kx False =
      (Inr (), B2) \<and> synced ex_crypto A2 B2"
proof -
  have "kxPrivate ex_before = Some ex_point" by (simp add: ex_before_def unsetRatchet_def)
  from key_exchange_agrees [OF ex_crypto_all ex_crypto_laws(6) ex_crypto_laws(6) ex_before_New ex_before_New
      ex_fill ex_fill this ex_point_valid this ex_point_valid] ex_complete
  show ?thesis unfolding ex_fill snd_conv by blast
qed

text \<open>C1: Every message of a conversation arrives. Two ends in step send in any order of turns, each
  message handed over before the next is sent; \<open>Decrypt\<close> returns each plaintext that was given to
  \<open>Encrypt\<close>, and the ends stay in step, so that both compute the same rendezvous points.\<close>

theorem conversation_delivered:
  assumes "crypto_laws C" "paired C a b" "undisturbed C xs a b"
  shows "\<exists>a' b'. converse C xs a b = Some (map (\<lambda>(_, _, _, msg). msg) xs, a', b') \<and>
    SendRendezvous C a' = fst (RecvRendezvous C b') \<and> SendRendezvous C b' = fst (RecvRendezvous C a')"
proof -
  obtain a' b' where "converse C xs a b = Some (map (\<lambda>(_, _, _, msg). msg) xs, a', b')" "paired C a' b'"
    using converse_delivers [OF assms] by blast
  then show ?thesis
    using paired_rendezvous [of C a' b'] paired_rendezvous [of C b' a'] by (auto simp: paired_commute)
qed

lemma ex_ratchet_sends:
  assumes "ratchet_flag r" "80 \<le> length (rand r)" "nextSendHeaderKey r = replicate 32 2" "sendCount r \<noteq> - 1"
  shows "can_send ex_crypto now r msg"
proof -
  have "x25519 ex_crypto a p = Some (map2 (+) (fit32 a) p)" for a p by (simp add: ex_crypto_def)
  with assms show ?thesis
    by (simp add: can_send_def Encrypt_def ratchetStep_def encryptMessage_def randBytes_def Let_def
        freshHeaderKey_def ex_derived_fresh) arith
qed

lemma ex_alice_sends: "can_send ex_crypto 1 ex_alice [5]"
  by (rule ex_ratchet_sends) (simp_all add: ex_ends)

lemma ex_undisturbed: "undisturbed ex_crypto [(True, 1, 2, [5])] ex_alice ex_bob"
  using ex_alice_sends by (auto split: option.split prod.split sum.split)

theorem conversation_delivered_witness:
  "\<exists>a' b'. converse ex_crypto [(True, 1, 2, [5])] ex_alice ex_bob = Some ([[5]], a', b') \<and>
    SendRendezvous ex_crypto a' = fst (RecvRendezvous ex_crypto b')"
  using conversation_delivered [OF ex_crypto_all ex_paired ex_undisturbed] by auto


section \<open>Late, repeated and refused messages\<close>

text \<open>C3: Messages may arrive in any order. Of up to 81 messages that one end sends in a row, the
  other end decrypts any selection, in any order, each to the plaintext that was sent (messages are
  not empty and the counter does not wrap).\<close>

theorem reordered_delivery:
  assumes "crypto_laws C" "synced C X Y" "sendAll C now Y msgs = Some (cts, Y')"
    and "length msgs \<le> 81" "unat (sendCount Y) + length msgs < 2 ^ 32" "[] \<notin> set msgs"
    and "distinct idx" "set idx \<subseteq> {0..<length msgs}"
  shows "\<exists>X'. deliver C now' X (map ((!) cts) idx) = Some (map ((!) msgs) idx, X')"
proof -
  have laws: "key_sizes C" "secretbox_correct C" "secretbox_authentic C"
    using assms(1) by (simp_all add: crypto_laws_def)
  have rc: "receiving C (sendHeaderKey Y) (sendChainKey Y) (sendCount Y) (length msgs) {} 0 X"
    using assms(2) by (simp add: synced_def receiving_def lookupKey_def)
  have "\<forall>i < length msgs. isWire C (sendHeaderKey Y) (sendChainKey Y) (sendCount Y) i (msgs ! i) (cts ! i)"
    using sendAll_wire [OF laws(1,2) _ _ assms(3)] assms(2) by (simp add: synced_def wf_ratchet_def)
  then have w: "\<forall>i \<in> set idx. isWire C (sendHeaderKey Y) (sendChainKey Y) (sendCount Y) i (msgs ! i) (cts ! i) \<and>
      msgs ! i \<noteq> []"
    using assms(6,8) by (metis atLeastLessThan_iff nth_mem subset_iff)
  have nz: "\<not> isZeroKey (sendHeaderKey Y)" using assms(2) by (simp add: synced_def)
  show ?thesis
    by (rule deliver_any_order [OF laws(1,3) nz assms(5,4) rc _ assms(7,8) _ w]) simp_all
qed

lemma ex_bob_sends_all:
  assumes "\<not> ratchet_flag r" "48 * length msgs \<le> length (rand r)"
  shows "\<exists>cts r'. sendAll ex_crypto now r msgs = Some (cts, r')"
  using assms
proof (induction msgs arbitrary: r)
  case (Cons msg msgs)
  then have "\<not> length (rand r) < 24" "\<not> length (rand r) - 24 < 24" by simp_all
  with Cons.prems(1) obtain ct r1 where enc: "Encrypt ex_crypto now r [] msg = (Inr ct, r1)"
    and r1: "\<not> ratchet_flag r1" "rand r1 = drop 48 (rand r)"
    by (simp add: Encrypt_def encryptMessage_def randBytes_def Let_def)
  have "48 * length msgs \<le> length (rand r1)" using Cons.prems(2) r1(2) by simp
  with Cons.IH [of r1] r1(1) obtain cts r' where "sendAll ex_crypto now r1 msgs = Some (cts, r')"
    by blast
  with enc show ?case by simp
qed simp

theorem reordered_delivery_witness:
  "\<exists>cts Y' X'. sendAll ex_crypto 1 ex_bob [[5], [6], [7]] = Some (cts, Y') \<and>
    deliver ex_crypto 2 ex_alice [cts ! 2, cts ! 0] = Some ([[7], [5]], X')"
proof -
  obtain cts Y' where s: "sendAll ex_crypto 1 ex_bob [[5], [6], [7]] = Some (cts, Y')"
    using ex_bob_sends_all [of ex_bob "[[5], [6], [7]]" 1] by (auto simp: ex_ends)
  with reordered_delivery [OF ex_crypto_all ex_synced s, of "[2, 0]" 2] show ?thesis
    by (auto simp: ex_ends)
qed

text \<open>C4: A message decrypts once. After \<open>Decrypt\<close> has returned a (non-empty) message, the same
  ciphertext is refused and leaves the ratchet as it is, whether the key was the current one, a
  saved one or the first of a new chain.\<close>

theorem replay_refused:
  assumes "ct_commits C ct" "wf_ratchet r" "savedBehind r" "\<not> isZeroKey (nextRecvHeaderKey r)"
    and "Decrypt C now r ct = Some (Inr msg, r')" "msg \<noteq> []"
  shows "\<exists>e. Decrypt C now' r' ct = Some (Inl e, r')"
  by (rule Decrypt_replay [OF assms])

lemma ex_alice_ready: "wf_ratchet ex_alice" "savedBehind ex_alice" "\<not> isZeroKey (nextRecvHeaderKey ex_alice)"
  using ex_synced by (simp_all add: synced_def savedBehind_def lookupKey_def) (simp add: ex_ends)

lemma ex_bob_sends: "\<exists>ct r'. Encrypt ex_crypto 1 ex_bob [] [5] = (Inr ct, r')"
  by (simp add: Encrypt_def encryptMessage_def randBytes_def Let_def ex_ends)

theorem replay_refused_witness:
  "\<exists>ct X'. Decrypt ex_crypto 2 ex_alice ct = Some (Inr [5], X') \<and>
    (\<exists>e. Decrypt ex_crypto 3 X' ct = Some (Inl e, X'))"
proof -
  obtain ct Y' where e: "Encrypt ex_crypto 1 ex_bob [] [5] = (Inr ct, Y')" using ex_bob_sends by blast
  have "sendCount ex_bob \<noteq> - 1" by (simp add: ex_ends)
  from synced_send_plain [OF ex_crypto_all ex_synced this e]
  obtain X' where d: "Decrypt ex_crypto 2 ex_alice ct = Some (Inr [5], X')" by blast
  have "ct_commits ex_crypto ct" by (simp add: ct_commits_def ex_crypto_laws)
  from replay_refused [OF this ex_alice_ready d] d show ?thesis by blast
qed

text \<open>C26: A \<open>Decrypt\<close> that fails leaves the ratchet unchanged, which \<^verbatim>\<open>client/remoteuser.go\<close> relies on
  when it does not store the ratchet after an error. A ciphertext whose plaintext is empty is
  excluded: its saved key is dropped before the error.\<close>

theorem decrypt_error_keeps_state:
  assumes "secretbox_sized C" "length ct \<noteq> EncryptedSize C 0" "Decrypt C now r ct = Some (Inl e, r')"
  shows "r' = r"
  by (rule Decrypt_Inl_state [OF assms(1) _ assms(3)])
    (use assms(2) in \<open>simp add: EncryptedSize_def sealedHeaderSize_def\<close>)

theorem decrypt_error_keeps_state_witness:
  "\<exists>e r'. Decrypt ex_crypto 1 ex_alice [1, 2, 3] = Some (Inl e, r') \<and> r' = ex_alice"
proof -
  have d: "Decrypt ex_crypto 1 ex_alice [1, 2, 3] = Some (Inl EHeaderTooSmall, ex_alice)"
    by (simp add: Decrypt_def trySavedKeys_def sealedHeaderSize_def)
  have "length [1, 2, 3 :: byte] \<noteq> EncryptedSize ex_crypto 0" by (simp add: EncryptedSize_def)
  from decrypt_error_keeps_state [OF ex_crypto_laws(4) this d] d show ?thesis by blast
qed

text \<open>C27: \<open>Decrypt\<close> returns, with a message or an error, as long as the receive counter is at least 81
  below the end of its 32-bit range.\<close>

theorem decrypt_returns:
  assumes "unat (recvCount r) < 2 ^ 32 - 81"
  shows "\<exists>res r'. Decrypt C now r ct = Some (res, r')"
  using Decrypt_total [OF assms] by auto

theorem decrypt_returns_witness: "\<exists>res r'. Decrypt ex_crypto 1 ex_alice [] = Some (res, r')"
  using decrypt_returns [of ex_alice] by (simp add: ex_ends)

text \<open>C28: The key loop of \<open>saveKeys\<close> is the reference computation on the chain of keys. For a message
  number at most 80 ahead it returns the chain key after the message, the message's key and the
  keys of exactly the messages skipped; a smaller number is a duplicate and a larger one is over
  the limit.\<close>

theorem saveKeys_reference:
  assumes "num \<noteq> - 1"
  shows "saveKeys C now hk ck num rc =
    (let d = unat num - unat rc in
     if num < rc then Some (Inl EDuplicate)
     else if 80 < d then Some (Inl EReorderLimit)
     else Some (Inr (chainAt C ck (Suc d), msgKeyAt C ck d, skippedFor C now hk ck rc d)))"
proof (cases "rc \<le> num")
  case True
  then have "unat (num - rc) = unat num - unat rc" by (simp add: unat_sub)
  then have over: "maxMissingMessages < num - rc \<longleftrightarrow> 80 < unat num - unat rc"
    by (simp add: word_less_nat_alt maxMissingMessages_def)
  show ?thesis
  proof (cases "maxMissingMessages < num - rc")
    case True
    with over \<open>rc \<le> num\<close> show ?thesis by (auto simp: saveKeys_def Let_def)
  next
    case False
    with over \<open>rc \<le> num\<close> show ?thesis
      using saveKeys_ok [OF \<open>rc \<le> num\<close> _ assms, of C now hk ck] by (simp add: not_less Let_def)
  qed
qed (simp add: saveKeys_def not_le Let_def)

theorem saveKeys_reference_witness:
  "saveKeys ex_crypto 1 zeroKey zeroKey 2 0 =
    Some (Inr (chainAt ex_crypto zeroKey 3, msgKeyAt ex_crypto zeroKey 2, skippedFor ex_crypto 1 zeroKey zeroKey 0 2))"
  using saveKeys_reference [of 2 ex_crypto 1 zeroKey zeroKey 0] by (simp add: numeral_3_eq_3)

text \<open>C30: A message adds at most 160 saved keys: 80 of the chain that ends and 80 of the one that
  begins.\<close>

theorem saved_keys_bound:
  assumes "wf_map (saved r)" "Decrypt C now r ct = Some (res, r')"
  shows "NbSavedKeys r' \<le> NbSavedKeys r + 160"
  using Decrypt_nbKeys(1) [OF assms] by (simp add: NbSavedKeys_def nbKeys_def)

theorem saved_keys_bound_witness:
  "\<exists>res r'. Decrypt ex_crypto 1 ex_alice [] = Some (res, r') \<and> NbSavedKeys r' \<le> 160"
proof -
  obtain res r' where d: "Decrypt ex_crypto 1 ex_alice [] = Some (res, r')"
    using Decrypt_total [of ex_alice ex_crypto 1 "[]"] by (auto simp: ex_ends)
  from saved_keys_bound [OF _ d] d show ?thesis by (simp add: ex_ends NbSavedKeys_def)
qed

section \<open>Sizes, well-formedness and storage\<close>

text \<open>\<open>EncryptedSize\<close> is the exact length of what \<open>Encrypt\<close> appends to its output buffer.\<close>

theorem encrypted_size_exact:
  assumes "key_sizes C" "secretbox_correct C" "wf_ratchet r" "Encrypt C now r out msg = (Inr ct, r')"
  shows "length ct = length out + EncryptedSize C (length msg)"
proof -
  obtain r1 where r1: "wf_ratchet r1" "encryptMessage C now r1 out msg = (Inr ct, r')"
    using assms(3,4) wf_ratchet_step [OF assms(1,3)]
    by (auto simp: Encrypt_def split: if_splits prod.splits sum.splits)
  from r1(2) obtain hn mn where "length hn = 24" "length mn = 24"
    "ct = out @ wire C hn mn (sendHeaderKey r1) (deriveKey C (sendChainKey r1) messageKeyLabel)
        (sendCount r1) (prevSendCount r1) (scalar_base_mult C (sendRatchetPrivate r1)) msg"
    by (rule encryptMessage_Inr)
  moreover have "wire_ok C hn mn (sendHeaderKey r1) (deriveKey C (sendChainKey r1) messageKeyLabel)
      (scalar_base_mult C (sendRatchetPrivate r1))"
    using calculation(1,2) assms(1,2) r1(1) by (simp add: wire_ok_def wf_ratchet_def)
  ultimately show ?thesis by (simp add: length_wire)
qed

theorem encrypted_size_exact_witness:
  "\<exists>ct r'. Encrypt ex_crypto 1 ex_bob [] [5] = (Inr ct, r') \<and> length ct = EncryptedSize ex_crypto 1"
proof -
  have "wf_ratchet ex_bob" using ex_synced by (simp add: synced_def)
  with ex_bob_sends encrypted_size_exact [OF ex_crypto_laws(1,2)] show ?thesis by fastforce
qed



text \<open>C32: A ratchet read back from its stored form is the one that was written: the same keys, counters
  and flag, the saved keys that had not expired, and instants cut to the stored resolution.\<close>

theorem disk_roundtrip:
  assumes "wf_ratchet r" "saved r0 = []" "kxPrivate r0 \<noteq> None"
  shows "Unmarshal r0 (DiskState now lifetime r) = Inr (restored now lifetime r0 r)"
  by (rule Unmarshal_DiskState [OF assms])

theorem disk_roundtrip_witness:
  "Unmarshal (ex_alice\<lparr>kxPrivate := Some zeroKey\<rparr>) (DiskState 5 1 ex_alice) =
    Inr (restored 5 1 (ex_alice\<lparr>kxPrivate := Some zeroKey\<rparr>) ex_alice)"
  using disk_roundtrip [OF ex_alice_ready(1), of "ex_alice\<lparr>kxPrivate := Some zeroKey\<rparr>" 5 1]
  by (simp add: ex_ends)

end
