(* ===== verification/Tagstack.thy ===== *)
theory Tagstack
  imports BR_Prelude
begin

text \<open>
  The tag stack of the server's sessions (\<^verbatim>\<open>src/server/internal/tagstack/tagstack.go\<close>): a pool of
  32-bit tags kept in an array (\<open>New\<close>) or in a buffered channel (\<open>NewBlocking\<close>). The locale
  \<open>tag_pool\<close> is what a session relies on: taking a tag removes it from the pool and giving it back
  returns it. Its lemmas (a tag is never held twice, a tag that is held can always be given back)
  hold for both kinds of pool.
\<close>

section \<open>The stack\<close>

datatype tag_error = ErrOverflow | ErrUnderflow

text \<open>The channel is the list of its buffered values, oldest first, with its capacity.\<close>

record tag_stack =
  stackC :: "u32 list"
  stackC_cap :: nat
  stack :: "u32 list"
  at :: nat
  blocking :: bool

text \<open>An operation returns, fails, or blocks until another goroutine acts on the channel.\<close>

datatype 'a tag_result = TagOk 'a | TagErr tag_error | TagBlocks

definition NewBlocking :: "nat \<Rightarrow> tag_stack" where
  "NewBlocking depth =
     \<lparr>stackC = map of_nat [0..<depth], stackC_cap = depth, stack = [], at = 0, blocking = True\<rparr>"

definition NewStack :: "nat \<Rightarrow> tag_stack" where
  "NewStack depth =
     \<lparr>stackC = [], stackC_cap = 0, stack = map of_nat [0..<depth], at = depth, blocking = False\<rparr>"

definition PushTag :: "u32 \<Rightarrow> tag_stack \<Rightarrow> unit tag_result \<times> tag_stack" where
  "PushTag x s =
     (if blocking s then
        (if length (stackC s) < stackC_cap s then (TagOk (), s\<lparr>stackC := stackC s @ [x]\<rparr>)
         else (TagBlocks, s))
      else if at s < length (stack s) then
        (TagOk (), s\<lparr>stack := (stack s)[at s := x], at := at s + 1\<rparr>)
      else (TagErr ErrOverflow, s))"

definition PopTag :: "tag_stack \<Rightarrow> u32 tag_result \<times> tag_stack" where
  "PopTag s =
     (if blocking s then
        (case stackC s of
           [] \<Rightarrow> (TagBlocks, s)
         | tag # rest \<Rightarrow> (TagOk tag, s\<lparr>stackC := rest\<rparr>))
      else if at s > 0 then
        (TagOk (stack s ! (at s - 1)), s\<lparr>at := at s - 1\<rparr>)
      else (TagErr ErrUnderflow, s))"

definition DepthTag :: "tag_stack \<Rightarrow> nat" where
  "DepthTag s = (if blocking s then length (stackC s) else length (stack s))"

section \<open>The pool a session relies on\<close>

datatype tag_op = Take | Give u32

text \<open>A session takes tags and gives back tags it holds. \<open>None\<close> is an operation that fails or blocks,
  or one that gives back a tag it does not hold.\<close>

fun use_tags ::
    "('s \<Rightarrow> (u32 \<times> 's) option) \<Rightarrow> (u32 \<Rightarrow> 's \<Rightarrow> 's option) \<Rightarrow> tag_op list \<Rightarrow> u32 list \<Rightarrow> 's \<Rightarrow>
     (u32 list \<times> 's) option" where
  "use_tags pop push [] held s = Some (held, s)"
| "use_tags pop push (Take # ops) held s =
     (case pop s of None \<Rightarrow> None | Some (t, s') \<Rightarrow> use_tags pop push ops (t # held) s')"
| "use_tags pop push (Give t # ops) held s =
     (if t \<in> set held then
        (case push t s of None \<Rightarrow> None | Some s' \<Rightarrow> use_tags pop push ops (remove1 t held) s')
      else None)"

locale tag_pool =
  fixes ok :: "'s \<Rightarrow> bool"
    and free :: "'s \<Rightarrow> u32 multiset"
    and cap :: "'s \<Rightarrow> nat"
    and pop :: "'s \<Rightarrow> (u32 \<times> 's) option"
    and push :: "u32 \<Rightarrow> 's \<Rightarrow> 's option"
  assumes pop_law: "ok s \<Longrightarrow> pop s = Some (t, s') \<Longrightarrow> ok s' \<and> free s = add_mset t (free s') \<and> cap s' = cap s"
    and pop_none: "ok s \<Longrightarrow> pop s = None \<longleftrightarrow> free s = {#}"
    and push_law: "ok s \<Longrightarrow> push t s = Some s' \<Longrightarrow> ok s' \<and> free s' = add_mset t (free s) \<and> cap s' = cap s"
    and push_none: "ok s \<Longrightarrow> push t s = None \<longleftrightarrow> cap s \<le> size (free s)"
begin

lemma use_tags_conserves:
  "use_tags pop push ops held s = Some (held', s') \<Longrightarrow> ok s \<Longrightarrow>
   ok s' \<and> cap s' = cap s \<and> mset held' + free s' = mset held + free s"
proof (induction ops arbitrary: held s)
  case (Cons op ops)
  show ?case
  proof (cases op)
    case Take
    with Cons.prems(1) obtain t s1 where p: "pop s = Some (t, s1)"
      and u: "use_tags pop push ops (t # held) s1 = Some (held', s')"
      by (auto split: option.splits)
    note l = pop_law [OF Cons.prems(2) p]
    with Cons.IH [OF u] show ?thesis by simp
  next
    case (Give t)
    with Cons.prems(1) obtain s1 where t: "t \<in> set held" and p: "push t s = Some s1"
      and u: "use_tags pop push ops (remove1 t held) s1 = Some (held', s')"
      by (auto split: option.splits if_splits)
    note l = push_law [OF Cons.prems(2) p]
    have "add_mset t (mset (remove1 t held)) = mset held" using t by simp
    with Cons.IH [OF u] l show ?thesis by (metis add_mset_add_single union_mset_add_mset_left union_mset_add_mset_right)
  qed
qed simp

lemma held_distinct:
  assumes "use_tags pop push ops [] s = Some (held, s')" "ok s" "\<forall>t. count (free s) t \<le> 1"
  shows "distinct held"
proof -
  have "mset held + free s' = free s"
    using use_tags_conserves [OF assms(1,2)] by simp
  then have "count (mset held) t \<le> 1" for t
    using assms(3) by (metis count_union le_add1 le_trans)
  then have "count (mset held) t = (if t \<in> set held then 1 else 0)" for t
    by (metis One_nat_def Suc_leI count_greater_zero_iff count_mset_0_iff le_antisym set_mset_mset)
  then show ?thesis by (simp add: distinct_count_atmost_1)
qed

lemma give_succeeds:
  assumes "use_tags pop push ops [] s = Some (held, s')" "ok s" "size (free s) \<le> cap s" "t \<in> set held"
  shows "\<exists>s''. push t s' = Some s''"
proof -
  have c: "ok s'" "cap s' = cap s" "mset held + free s' = free s"
    using use_tags_conserves [OF assms(1,2)] by simp_all
  have "size (mset held) + size (free s') = size (free s)" by (simp flip: c(3) add: size_union)
  moreover have "0 < length held" using assms(4) by (cases held) auto
  ultimately have "\<not> cap s' \<le> size (free s')" using assms(3) c(2) by (simp del: length_greater_0_conv)
  with push_none [OF c(1)] show ?thesis by auto
qed

end

section \<open>Both stacks are pools\<close>

definition wf_stack :: "tag_stack \<Rightarrow> bool" where
  "wf_stack s \<longleftrightarrow> (if blocking s then length (stackC s) \<le> stackC_cap s else at s \<le> length (stack s))"

definition stack_free :: "tag_stack \<Rightarrow> u32 multiset" where
  "stack_free s = (if blocking s then mset (stackC s) else mset (take (at s) (stack s)))"

definition stack_cap :: "tag_stack \<Rightarrow> nat" where
  "stack_cap s = (if blocking s then stackC_cap s else length (stack s))"

definition pop_tag :: "tag_stack \<Rightarrow> (u32 \<times> tag_stack) option" where
  "pop_tag s = (case PopTag s of (TagOk t, s') \<Rightarrow> Some (t, s') | _ \<Rightarrow> None)"

definition push_tag :: "u32 \<Rightarrow> tag_stack \<Rightarrow> tag_stack option" where
  "push_tag t s = (case PushTag t s of (TagOk _, s') \<Rightarrow> Some s' | _ \<Rightarrow> None)"

lemma take_pred:
  assumes "0 < n" "n \<le> length xs"
  shows "mset (take n xs) = add_mset (xs ! (n - 1)) (mset (take (n - 1) xs))"
  using assms by (cases n) (auto simp: take_Suc_conv_app_nth)

interpretation tag: tag_pool wf_stack stack_free stack_cap pop_tag push_tag
proof (unfold_locales, goal_cases)
  case (1 s t s')
  then show ?case
    by (auto simp: pop_tag_def PopTag_def wf_stack_def stack_free_def stack_cap_def take_pred
        split: if_splits list.splits)
next
  case (2 s)
  then show ?case
    by (auto simp: pop_tag_def PopTag_def wf_stack_def stack_free_def split: list.splits)
next
  case (3 s t s')
  then show ?case
    by (auto simp: push_tag_def PushTag_def wf_stack_def stack_free_def stack_cap_def take_Suc_conv_app_nth
        split: if_splits)
next
  case (4 s t)
  then show ?case
    by (auto simp: push_tag_def PushTag_def wf_stack_def stack_free_def stack_cap_def)
qed

section \<open>Properties\<close>

lemma new_stack_free:
  assumes "depth \<le> 2 ^ 32" "s \<in> {NewStack depth, NewBlocking depth}"
  shows "wf_stack s" and "\<forall>t. count (stack_free s) t \<le> 1" and "size (stack_free s) \<le> stack_cap s"
proof -
  have "inj_on (of_nat :: nat \<Rightarrow> u32) {0..<depth}"
    by (rule inj_onI) (use assms(1) in \<open>simp add: of_nat_eq_iff take_bit_nat_eq_self unsigned_of_nat word_unat_eq_iff\<close>)
  then have "distinct (map of_nat [0..<depth] :: u32 list)" by (simp add: distinct_map)
  then show "\<forall>t. count (stack_free s) t \<le> 1"
    using assms(2) by (auto simp: NewStack_def NewBlocking_def stack_free_def distinct_count_atmost_1)
  show "wf_stack s" "size (stack_free s) \<le> stack_cap s"
    using assms(2) by (auto simp: NewStack_def NewBlocking_def stack_free_def stack_cap_def wf_stack_def)
qed

text \<open>No tag is held twice, and a held tag can always be given back. A session that takes tags from
  a new stack of either kind and gives back only tags it holds never holds two equal tags, and
  \<open>Push\<close> of a held tag neither overflows nor blocks.\<close>

theorem tags_unique:
  assumes "depth \<le> 2 ^ 32" "s \<in> {NewStack depth, NewBlocking depth}"
    and "use_tags pop_tag push_tag ops [] s = Some (held, s')"
  shows "distinct held \<and> (\<forall>t \<in> set held. \<exists>s''. PushTag t s' = (TagOk (), s''))"
proof -
  note new = new_stack_free [OF assms(1,2)]
  have "\<exists>s''. PushTag t s' = (TagOk (), s'')" if "t \<in> set held" for t
    using tag.give_succeeds [OF assms(3) new(1,3) that]
    by (auto simp: push_tag_def split: prod.splits tag_result.splits)
  with tag.held_distinct [OF assms(3) new(1,2)] show ?thesis by blast
qed

theorem tags_unique_witness:
  "\<exists>held s'. use_tags pop_tag push_tag [Take, Take, Give 1, Take] [] (NewStack 2) = Some (held, s') \<and>
     distinct held \<and> (\<forall>t \<in> set held. \<exists>s''. PushTag t s' = (TagOk (), s''))"
proof -
  obtain held s' where u: "use_tags pop_tag push_tag [Take, Take, Give 1, Take] [] (NewStack 2) = Some (held, s')"
    by (simp add: pop_tag_def push_tag_def PopTag_def PushTag_def NewStack_def upt_rec)
  show ?thesis using tags_unique [of 2, OF _ _ u] u by auto
qed

end
