(* ===== verification/Seqtracker.thy ===== *)
theory Seqtracker
  imports BR_Prelude
begin

unbundle bit_operations_syntax

text \<open>
  The sequence tracker of the real-time datagram server
  (\<^verbatim>\<open>src/rtdt/internal/seqtracker/seqtracking.go\<close>): the highest number received and a 16-bit bitmap
  of the numbers behind it. The bitmap refines a set of numbers (\<open>track\<close>), and a number is
  accepted at most once as long as the counter has not come near its wrap-around.
\<close>

record tracker =
  seq :: int
  win :: "16 word"

definition winSize :: int where
  "winSize = 16"

definition wrapSeq :: int where
  "wrapSeq = 2 ^ 32 - 1 - winSize"

definition wrapAcceptSeq :: int where
  "wrapAcceptSeq = 2 ^ 31"

definition newTracker :: tracker where
  "newTracker = \<lparr>seq = 0, win = 0\<rparr>"

definition MayAccept :: "u32 \<Rightarrow> tracker \<Rightarrow> bool \<times> tracker" where
  "MayAccept s st =
     (let is = uint s; d = is - seq st in
      if d > 0 then
        (True, st\<lparr>seq := is,
                  win := (if d > winSize then 1 else push_bit (nat d) (win st) OR 1)\<rparr>)
      else if d > - winSize then
        (let mask = push_bit (nat (- d)) 1
         in (win st AND mask = 0, st\<lparr>win := win st OR mask\<rparr>))
      else if seq st > wrapSeq \<and> is < wrapAcceptSeq then (True, st\<lparr>seq := is, win := 1\<rparr>)
      else (False, st))"

text \<open>The answers to a run of packets.\<close>

fun accepts :: "u32 list \<Rightarrow> tracker \<Rightarrow> bool list \<times> tracker" where
  "accepts [] st = ([], st)"
| "accepts (s # ss) st =
     (let (a, st) = MayAccept s st; (bs, st) = accepts ss st in (a # bs, st))"

section \<open>The set the bitmap stands for\<close>

text \<open>The numbers within the window that have been received.\<close>

definition received :: "tracker \<Rightarrow> int set" where
  "received st = {n. seq st - winSize < n \<and> n \<le> seq st \<and> bit (win st) (nat (seq st - n))}"

text \<open>The abstract tracker: the highest number and the set of numbers received in the window.\<close>

definition track :: "int \<Rightarrow> int \<times> int set \<Rightarrow> bool \<times> (int \<times> int set)" where
  "track n = (\<lambda>(hi, seen).
     if n > hi then (True, (n, insert n {m \<in> seen. n - winSize < m}))
     else if n > hi - winSize then (n \<notin> seen, (hi, insert n seen))
     else (False, (hi, seen)))"

definition wf_tracker :: "tracker \<Rightarrow> bool" where
  "wf_tracker st \<longleftrightarrow> 0 \<le> seq st \<and> seq st < 2 ^ 32"

lemma wf_newTracker: "wf_tracker newTracker"
  by (simp add: wf_tracker_def newTracker_def)

lemma uint_range: "0 \<le> uint (s :: u32)" "uint (s :: u32) < 2 ^ 32"
  using uint_bounded [of s] by simp_all

lemma wf_MayAccept: "wf_tracker st \<Longrightarrow> wf_tracker (snd (MayAccept s st))"
  using uint_range [of s] by (auto simp: MayAccept_def Let_def wf_tracker_def)

lemma bit_shifted:
  assumes "0 < d" "k < 16"
  shows "bit (push_bit d w OR (1 :: 16 word)) k \<longleftrightarrow> k = 0 \<or> d \<le> k \<and> bit w (k - d)"
  using assms by (auto simp: bit_or_iff bit_push_bit_iff bit_1_iff)

lemma received_forward:
  assumes "n > seq st"
  shows "received (st\<lparr>seq := n, win := (if n - seq st > winSize then 1 else push_bit (nat (n - seq st)) (win st) OR 1)\<rparr>) =
    insert n {m \<in> received st. n - winSize < m}"
proof (rule set_eqI)
  fix m
  let ?d = "n - seq st"
  show "m \<in> received (st\<lparr>seq := n, win := (if ?d > winSize then 1 else push_bit (nat ?d) (win st) OR 1)\<rparr>) \<longleftrightarrow>
      m \<in> insert n {m \<in> received st. n - winSize < m}"
  proof (cases "n - winSize < m \<and> m \<le> n")
    case True
    have "nat (n - m) < 16" using True unfolding winSize_def by linarith
    moreover have "nat ?d \<le> nat (n - m) \<longleftrightarrow> m \<le> seq st" "nat (n - m) - nat ?d = nat (seq st - m)"
      using assms by auto
    ultimately show ?thesis
      using True assms bit_shifted [of "nat ?d" "nat (n - m)" "win st"]
      by (auto simp: received_def winSize_def bit_1_iff)
  qed (use assms in \<open>auto simp: received_def winSize_def\<close>)
qed

lemma received_within:
  assumes "seq st - winSize < n" "n \<le> seq st"
  shows "received (st\<lparr>win := win st OR push_bit (nat (seq st - n)) 1\<rparr>) = insert n (received st)"
    and "win st AND push_bit (nat (seq st - n)) 1 = 0 \<longleftrightarrow> n \<notin> received st"
proof -
  have k: "nat (seq st - n) < 16" using assms unfolding winSize_def by linarith
  have b: "bit (2 ^ nat (seq st - n) :: 16 word) j \<longleftrightarrow> j = nat (seq st - n)" for j
    using k by (auto simp: bit_exp_iff)
  show "received (st\<lparr>win := win st OR push_bit (nat (seq st - n)) 1\<rparr>) = insert n (received st)"
    using assms by (auto simp: received_def bit_or_iff b)
  have "win st AND push_bit (nat (seq st - n)) 1 = 0 \<longleftrightarrow> \<not> bit (win st) (nat (seq st - n))"
    using k by (auto simp: bit_eq_iff [where a = "win st AND _"] bit_and_iff b)
  then show "win st AND push_bit (nat (seq st - n)) 1 = 0 \<longleftrightarrow> n \<notin> received st"
    using assms by (simp add: received_def)
qed

lemma MayAccept_track:
  assumes "seq st \<le> wrapSeq"
  shows "fst (MayAccept s st) = fst (track (uint s) (seq st, received st))"
    and "seq (snd (MayAccept s st)) = fst (snd (track (uint s) (seq st, received st)))"
    and "received (snd (MayAccept s st)) = snd (snd (track (uint s) (seq st, received st)))"
proof -
  have "(fst (MayAccept s st), seq (snd (MayAccept s st)), received (snd (MayAccept s st))) =
      track (uint s) (seq st, received st)"
    if "uint s > seq st \<or> seq st - winSize < uint s \<and> uint s \<le> seq st \<or> uint s \<le> seq st - winSize"
    using that received_forward [of st "uint s"] received_within [of st "uint s"] assms
    by (auto simp: MayAccept_def track_def Let_def winSize_def)
  then have "(fst (MayAccept s st), seq (snd (MayAccept s st)), received (snd (MayAccept s st))) =
      track (uint s) (seq st, received st)" by linarith
  then show "fst (MayAccept s st) = fst (track (uint s) (seq st, received st))"
    "seq (snd (MayAccept s st)) = fst (snd (track (uint s) (seq st, received st)))"
    "received (snd (MayAccept s st)) = snd (snd (track (uint s) (seq st, received st)))"
    by (metis fst_conv, metis fst_conv snd_conv, metis snd_conv)
qed

section \<open>Properties\<close>

text \<open>C40: The bitmap refines the abstract tracker. While the highest number is at most the wrap
  threshold, \<open>MayAccept\<close> answers as the set-based tracker does and its new state stands for the
  set the abstract tracker reaches.\<close>

theorem tracker_refines:
  assumes "wf_tracker st" "seq st \<le> wrapSeq"
  shows "(let (a, st') = MayAccept s st in (a, (seq st', received st'))) = track (uint s) (seq st, received st)"
  using MayAccept_track [OF assms(2), of s] by (simp add: split_beta Let_def prod_eq_iff)

theorem tracker_refines_witness:
  "(let (a, st') = MayAccept 7 newTracker in (a, (seq st', received st'))) = track 7 (0, received newTracker)"
  using tracker_refines [OF wf_newTracker, of 7] by (simp add: newTracker_def wrapSeq_def winSize_def)

text \<open>Every number in \<open>seen\<close> that could still be accepted is in the received set.\<close>

definition remembers :: "u32 set \<Rightarrow> tracker \<Rightarrow> bool" where
  "remembers A st \<longleftrightarrow> (\<forall>s \<in> A. uint s \<le> seq st \<and> (seq st - winSize < uint s \<longrightarrow> uint s \<in> received st))"

lemma remembers_accept:
  assumes "remembers A st" "seq st \<le> wrapSeq"
  shows "fst (MayAccept s st) \<Longrightarrow> s \<notin> A"
    and "remembers (if fst (MayAccept s st) then insert s A else A) (snd (MayAccept s st))"
  using assms MayAccept_track [OF assms(2), of s]
  by (auto simp: remembers_def track_def split: if_splits)

definition accepted :: "u32 list \<Rightarrow> tracker \<Rightarrow> u32 list" where
  "accepted ss st = map fst (filter snd (zip ss (fst (accepts ss st))))"

lemma accepted_Cons:
  "accepted (s # ss) st =
    (if fst (MayAccept s st) then s # accepted ss (snd (MayAccept s st)) else accepted ss (snd (MayAccept s st)))"
  by (simp add: accepted_def split_beta Let_def)

lemma accepted_fresh:
  assumes "\<forall>s \<in> set ss. uint s \<le> wrapSeq" "remembers A st" "seq st \<le> wrapSeq"
  shows "distinct (accepted ss st) \<and> set (accepted ss st) \<inter> A = {}"
  using assms
proof (induction ss arbitrary: A st)
  case (Cons s ss)
  let ?st = "snd (MayAccept s st)"
  have le: "seq ?st \<le> wrapSeq"
    using Cons.prems(1,3) MayAccept_track(2) [OF Cons.prems(3), of s]
    by (auto simp: track_def split: if_splits)
  note IH = Cons.IH [OF _ remembers_accept(2) [OF Cons.prems(2,3)] le]
  from IH Cons.prems(1) remembers_accept(1) [OF Cons.prems(2,3)] show ?case
    by (auto simp: accepted_Cons split: if_splits)
qed (simp add: accepted_def)

text \<open>A packet number is accepted at most once. Of any run of packets whose numbers stay at or
  below the wrap threshold, in any order and with any repetitions, the accepted ones are distinct.\<close>

theorem accepted_once:
  assumes "\<forall>s \<in> set ss. uint s \<le> wrapSeq"
  shows "distinct (accepted ss newTracker)"
proof -
  have "remembers {} newTracker" "seq newTracker \<le> wrapSeq"
    by (simp_all add: remembers_def newTracker_def wrapSeq_def winSize_def)
  with accepted_fresh [OF assms] show ?thesis by blast
qed

theorem accepted_once_witness: "distinct (accepted [0, 5, 3, 5, 0, 3, 30, 5] newTracker)"
  by (rule accepted_once) (simp add: wrapSeq_def winSize_def)

end
