(* ===== verification/Session.thy ===== *)
theory Session
  imports Crypto
begin

text \<open>
  The encrypted transport between client and server: the nonce sequences of
  \<^verbatim>\<open>src/session/sequence.go\<close> and the key exchange and message framing of \<^verbatim>\<open>src/session/kx.go\<close>.

  A connection holds the chunks in which its incoming bytes will arrive, the bytes written to it
  and the number of bytes it will still take before a write fails. \<open>Respond\<close> calls \<^verbatim>\<open>Conn.Read\<close>
  once per field, so a chunk shorter than the field leaves the rest of the buffer zero; \<open>Read\<close>
  uses \<^verbatim>\<open>io.ReadFull\<close> and does not depend on the chunks.
\<close>

section \<open>Connections\<close>

record conn =
  inp :: "bytes list"
  outp :: bytes
  room :: nat

definition connWrite :: "bytes \<Rightarrow> conn \<Rightarrow> bool \<times> conn" where
  "connWrite bs c =
     (if length bs \<le> room c then (True, c\<lparr>outp := outp c @ bs, room := room c - length bs\<rparr>)
      else (False, c\<lparr>outp := outp c @ take (room c) bs, room := 0\<rparr>))"

text \<open>One \<^verbatim>\<open>Read\<close> into a zeroed buffer of \<open>n\<close> bytes: the buffer afterwards.\<close>

definition connRead :: "nat \<Rightarrow> conn \<Rightarrow> bytes option \<times> conn" where
  "connRead n c =
     (case inp c of
        [] \<Rightarrow> (None, c)
      | ch # rest \<Rightarrow>
          if length ch \<le> n then (Some (ch @ replicate (n - length ch) 0), c\<lparr>inp := rest\<rparr>)
          else (Some (take n ch), c\<lparr>inp := drop n ch # rest\<rparr>))"

fun readFull :: "nat \<Rightarrow> bytes list \<Rightarrow> (bytes \<times> bytes list) option" where
  "readFull n [] = (if n = 0 then Some ([], []) else None)"
| "readFull n (ch # rest) =
     (if n = 0 then Some ([], ch # rest)
      else if length ch \<le> n then map_option (apfst ((@) ch)) (readFull (n - length ch) rest)
      else Some (take n ch, drop n ch # rest))"

lemma readFull_concat:
  "n \<le> length (concat cs) \<Longrightarrow>
   \<exists>cs'. readFull n cs = Some (take n (concat cs), cs') \<and> concat cs' = drop n (concat cs)"
proof (induction n cs rule: readFull.induct)
  case (2 n ch rest)
  show ?case
  proof (cases "n = 0 \<or> \<not> length ch \<le> n")
    case True
    then show ?thesis by auto
  next
    case False
    with 2(2) have "n - length ch \<le> length (concat rest)" by simp
    from 2(1) [OF _ _ this] False obtain cs' where "readFull (n - length ch) rest = Some (take (n - length ch) (concat rest), cs')"
      "concat cs' = drop (n - length ch) (concat rest)" by auto
    with False show ?thesis by simp
  qed
qed simp

section \<open>Nonce sequences\<close>

fun le_bytes :: "nat \<Rightarrow> int \<Rightarrow> bytes" where
  "le_bytes 0 x = []"
| "le_bytes (Suc n) x = of_int x # le_bytes n (x div 256)"

text \<open>\<^verbatim>\<open>big.Int.Bytes\<close> drops leading zero bytes, so below \<open>2 ^ 184\<close> the slice has fewer than the 24
  bytes that \<open>Nonce\<close> reads through its pointer: \<open>None\<close>.\<close>

definition Nonce :: "int \<Rightarrow> bytes option" where
  "Nonce x = (if x < 2 ^ 184 then None else Some (rev (le_bytes 24 x)))"

definition Decrease :: "int \<Rightarrow> int" where
  "Decrease x = x - 1"

definition newSequence :: "bool \<Rightarrow> int" where
  "newSequence half = (if half then (2 ^ 192 - 1) div 2 else 2 ^ 192 - 1)"

definition halfForClient :: bool where
  "halfForClient = True"

definition halfForServer :: bool where
  "halfForServer = (\<not> halfForClient)"

lemma length_le_bytes [simp]: "length (le_bytes n x) = n"
  by (induction n arbitrary: x) auto

lemma length_Nonce: "Nonce x = Some n \<Longrightarrow> length n = 24"
  by (auto simp: Nonce_def split: if_splits)

lemma get_le_le_bytes: "int (get_le (le_bytes n x)) = x mod 256 ^ n"
proof (induction n arbitrary: x)
  case (Suc n)
  have "int (unat (of_int x :: byte)) = x mod 256"
    by (simp add: unsigned_of_int take_bit_eq_mod)
  with Suc show ?case by (simp add: zmod_zmult2_eq)
qed simp

lemma Nonce_inj:
  assumes "Nonce x = Some n" "Nonce y = Some n" "x < 2 ^ 192" "y < 2 ^ 192"
  shows "x = y"
proof -
  have "le_bytes 24 x = le_bytes 24 y" and nn: "0 \<le> x" "0 \<le> y"
    using assms by (auto simp: Nonce_def split: if_splits)
  then have "x mod 256 ^ 24 = y mod 256 ^ 24" by (metis get_le_le_bytes)
  with nn assms(3,4) show ?thesis by simp
qed

section \<open>Key exchange\<close>

datatype kx_error =
    KxEncrypt | KxDecrypt bytes | KxOverflow | KxInvalid | KxNilTheirPubKey
  | KxConn | KxCiphertextSize | KxTooLong | KxPanic

record kx =
  Conn :: conn
  MaxMessageSize :: u64
  OurPrivateKey :: bytes
  TheirKey :: "bytes option"
  writeKey :: "key option"
  readKey :: "key option"
  writeSeq :: "int option"
  readSeq :: "int option"

definition Initiate :: "crypto \<Rightarrow> bytes \<Rightarrow> kx \<Rightarrow> (kx_error + unit) \<times> kx" where
  "Initiate C rnd k =
     (case TheirKey k of
        None \<Rightarrow> (Inl KxNilTheirPubKey, k)
      | Some pk \<Rightarrow>
        (case sntrup_encapsulate C rnd pk of
           None \<Rightarrow> (Inl KxEncrypt, k)
         | Some (c, k1, _) \<Rightarrow>
           (case connWrite (put_u32_le (of_nat (length c))) (Conn k) of
              (False, cn) \<Rightarrow> (Inl KxConn, k\<lparr>Conn := cn\<rparr>)
            | (True, cn) \<Rightarrow>
              (case connWrite c cn of
                 (False, cn) \<Rightarrow> (Inl KxConn, k\<lparr>Conn := cn\<rparr>)
               | (True, cn) \<Rightarrow>
                   (Inr (), k\<lparr>Conn := cn, writeKey := Some k1, readKey := Some k1,
                              writeSeq := Some (newSequence halfForClient),
                              readSeq := Some (newSequence halfForServer)\<rparr>)))))"

definition Respond :: "crypto \<Rightarrow> kx \<Rightarrow> (kx_error + unit) \<times> kx" where
  "Respond C k =
     (case connRead 4 (Conn k) of
        (None, cn) \<Rightarrow> (Inl KxConn, k\<lparr>Conn := cn\<rparr>)
      | (Some lenBytes, cn) \<Rightarrow>
          if get_u32_le lenBytes \<noteq> of_nat sntrup_CiphertextSize
          then (Inl KxCiphertextSize, k\<lparr>Conn := cn\<rparr>)
          else
            (case connRead sntrup_CiphertextSize cn of
               (None, cn) \<Rightarrow> (Inl KxConn, k\<lparr>Conn := cn\<rparr>)
             | (Some c, cn) \<Rightarrow>
               (case sntrup_decapsulate C c (OurPrivateKey k) of
                  None \<Rightarrow> (Inl KxInvalid, k\<lparr>Conn := cn\<rparr>)
                | Some k1 \<Rightarrow>
                    (Inr (), k\<lparr>Conn := cn, writeKey := Some k1, readKey := Some k1,
                               writeSeq := Some (newSequence halfForServer),
                               readSeq := Some (newSequence halfForClient)\<rparr>))))"

text \<open>A message is the box preceded by its length. A use before the key exchange dereferences nil.\<close>

definition ReadMsg :: "crypto \<Rightarrow> kx \<Rightarrow> (kx_error + bytes) \<times> kx" where
  "ReadMsg C k =
     (case readFull 4 (inp (Conn k)) of
        None \<Rightarrow> (Inl KxConn, k\<lparr>Conn := (Conn k)\<lparr>inp := []\<rparr>\<rparr>)
      | Some (lenBytes, cs) \<Rightarrow>
        let k = k\<lparr>Conn := (Conn k)\<lparr>inp := cs\<rparr>\<rparr>; n = get_u32_le lenBytes in
        if n > ucast (MaxMessageSize k) then (Inl KxTooLong, k)
        else
          (case readFull (unat n) cs of
             None \<Rightarrow> (Inl KxConn, k\<lparr>Conn := (Conn k)\<lparr>inp := []\<rparr>\<rparr>)
           | Some (payload, cs) \<Rightarrow>
             let k = k\<lparr>Conn := (Conn k)\<lparr>inp := cs\<rparr>\<rparr> in
             (case (Option.bind (readSeq k) Nonce, readSeq k, readKey k) of
                (Some nonce, Some x, Some key) \<Rightarrow>
                  let k = k\<lparr>readSeq := Some (Decrease x)\<rparr> in
                  (case secretbox_open C payload nonce key of
                     None \<Rightarrow> (Inl (KxDecrypt payload), k)
                   | Some data \<Rightarrow> (Inr data, k))
              | _ \<Rightarrow> (Inl KxPanic, k))))"

definition WriteMsg :: "crypto \<Rightarrow> bytes \<Rightarrow> kx \<Rightarrow> (kx_error + unit) \<times> kx" where
  "WriteMsg C data k =
     (case (Option.bind (writeSeq k) Nonce, writeSeq k, writeKey k) of
        (Some nonce, Some x, Some key) \<Rightarrow>
          let payload = secretbox_seal C data nonce key;
              k = k\<lparr>writeSeq := Some (Decrease x)\<rparr> in
          if (of_nat (length payload) :: u64) > MaxMessageSize k then (Inl KxOverflow, k)
          else
            (case connWrite (put_u32_le (of_nat (length payload))) (Conn k) of
               (False, cn) \<Rightarrow> (Inl KxConn, k\<lparr>Conn := cn\<rparr>)
             | (True, cn) \<Rightarrow>
               (case connWrite payload cn of
                  (False, cn) \<Rightarrow> (Inl KxConn, k\<lparr>Conn := cn\<rparr>)
                | (True, cn) \<Rightarrow> (Inr (), k\<lparr>Conn := cn\<rparr>)))
      | _ \<Rightarrow> (Inl KxPanic, k))"

fun writeAll :: "crypto \<Rightarrow> bytes list \<Rightarrow> kx \<Rightarrow> kx option" where
  "writeAll C [] k = Some k"
| "writeAll C (d # ds) k = (case WriteMsg C d k of (Inr _, k) \<Rightarrow> writeAll C ds k | _ \<Rightarrow> None)"

fun readAll :: "crypto \<Rightarrow> nat \<Rightarrow> kx \<Rightarrow> (bytes list \<times> kx) option" where
  "readAll C 0 k = Some ([], k)"
| "readAll C (Suc n) k =
     (case ReadMsg C k of (Inr d, k) \<Rightarrow> map_option (apfst (Cons d)) (readAll C n k) | _ \<Rightarrow> None)"

section \<open>Lemmas\<close>

text \<open>One direction of a session: what \<open>a\<close> writes next is what \<open>b\<close> reads next.\<close>

definition linked :: "kx \<Rightarrow> kx \<Rightarrow> bool" where
  "linked a b \<longleftrightarrow>
     (\<exists>k x. length k = 32 \<and> writeKey a = Some k \<and> readKey b = Some k \<and>
        writeSeq a = Some x \<and> readSeq b = Some x) \<and>
     MaxMessageSize a = MaxMessageSize b \<and> MaxMessageSize b < 2 ^ 32"

definition frame :: "bytes \<Rightarrow> bytes" where
  "frame payload = put_u32_le (of_nat (length payload)) @ payload"

lemma connWrite_True: "connWrite bs c = (True, c') \<Longrightarrow> outp c' = outp c @ bs \<and> inp c' = inp c"
  by (auto simp: connWrite_def split: if_splits)

lemma WriteMsg_Inr:
  assumes "WriteMsg C data k = (Inr u, k')"
  obtains nonce x key cn where "Nonce x = Some nonce" "writeSeq k = Some x" "writeKey k = Some key"
    "of_nat (length (secretbox_seal C data nonce key)) \<le> MaxMessageSize k"
    "outp cn = outp (Conn k) @ frame (secretbox_seal C data nonce key)" "inp cn = inp (Conn k)"
    "k' = k\<lparr>writeSeq := Some (x - 1), Conn := cn\<rparr>"
  using assms
  by (auto simp: WriteMsg_def Let_def Decrease_def frame_def not_less split: option.splits if_splits prod.splits bool.splits
      dest!: connWrite_True)

lemma get_le_take_put: "get_u32_le (take 4 (put_u32_le w @ bs)) = w"
  using get_put_u32_le [of w "[]"] by simp

lemma unat_small_u64:
  assumes "of_nat n \<le> (m :: u64)" "m < 2 ^ 32" "n < 2 ^ 64"
  shows "n < 2 ^ 32" and "(of_nat n :: u32) \<le> ucast m" and "unat (of_nat n :: u32) = n"
proof -
  have u: "unat (of_nat n :: u64) = n" using assms(3) by (simp add: unat_of_nat)
  have m: "unat m < 2 ^ 32" using assms(2) by (simp add: word_less_nat_alt)
  have le: "n \<le> unat m" using assms(1) u by (simp add: word_le_nat_alt)
  with m show n: "n < 2 ^ 32" by simp
  then show un: "unat (of_nat n :: u32) = n" by (simp add: unat_of_nat)
  have "unat (ucast m :: u32) = unat m" using m by (simp add: unsigned_ucast_eq take_bit_nat_eq_self)
  then show "(of_nat n :: u32) \<le> ucast m" using le un by (simp add: word_le_nat_alt)
qed

lemma ReadMsg_frame:
  assumes "secretbox_correct C" "length key = 32" "Nonce x = Some nonce" "readSeq k = Some x" "readKey k = Some key"
    and "concat (inp (Conn k)) = frame (secretbox_seal C data nonce key) @ rest"
    and "of_nat (length (secretbox_seal C data nonce key)) \<le> MaxMessageSize k" "MaxMessageSize k < 2 ^ 32"
    and "length (secretbox_seal C data nonce key) < 2 ^ 64"
  obtains k' where "ReadMsg C k = (Inr data, k')" "concat (inp (Conn k')) = rest"
    "readKey k' = readKey k" "readSeq k' = Some (x - 1)" "MaxMessageSize k' = MaxMessageSize k"
proof -
  let ?p = "secretbox_seal C data nonce key"
  note n = unat_small_u64 [OF assms(7,8,9)]
  obtain cs where cs: "readFull 4 (inp (Conn k)) = Some (put_u32_le (of_nat (length ?p)), cs)" "concat cs = ?p @ rest"
    using readFull_concat [of 4 "inp (Conn k)"] assms(6) by (auto simp: frame_def)
  obtain cs' where cs': "readFull (length ?p) cs = Some (?p, cs')" "concat cs' = rest"
    using readFull_concat [of "length ?p" cs] cs(2) by auto
  have "get_u32_le (put_u32_le (of_nat (length ?p))) = of_nat (length ?p)"
    using get_put_u32_le [of "of_nat (length ?p)" "[]"] by simp
  then have "ReadMsg C k = (Inr data, k\<lparr>readSeq := Some (x - 1), Conn := (Conn k)\<lparr>inp := cs'\<rparr>\<rparr>)"
    using cs cs' n assms(3,4,5) secretbox_open_seal [OF assms(1) length_Nonce [OF assms(3)] assms(2)]
    by (simp add: ReadMsg_def Let_def Decrease_def not_less)
  from that [OF this] cs'(2) show thesis by simp
qed

lemma linked_message:
  assumes C: "secretbox_correct C" and lk: "linked a b" and w: "WriteMsg C d a = (Inr u, a')"
    and "length d + secretbox_overhead C < 2 ^ 64"
    and inp: "concat (inp (Conn b)) = drop (length (outp (Conn a))) (outp (Conn a')) @ rest"
  obtains b' where "ReadMsg C b = (Inr d, b')" "linked a' b'" "concat (inp (Conn b')) = rest"
proof -
  from w obtain nonce x key cn where a: "Nonce x = Some nonce" "writeSeq a = Some x" "writeKey a = Some key"
    "of_nat (length (secretbox_seal C d nonce key)) \<le> MaxMessageSize a"
    "outp cn = outp (Conn a) @ frame (secretbox_seal C d nonce key)"
    and a': "a' = a\<lparr>writeSeq := Some (x - 1), Conn := cn\<rparr>"
    by (rule WriteMsg_Inr)
  from lk a(2,3) have b: "length key = 32" "readKey b = Some key" "readSeq b = Some x"
    "MaxMessageSize a = MaxMessageSize b" "MaxMessageSize b < 2 ^ 32"
    by (auto simp: linked_def)
  have "length (secretbox_seal C d nonce key) < 2 ^ 64"
    using length_secretbox_seal [OF C length_Nonce [OF a(1)] b(1), of d] assms(4) by simp
  moreover have "concat (inp (Conn b)) = frame (secretbox_seal C d nonce key) @ rest"
    using inp a(5) a' by simp
  ultimately obtain b' where b': "ReadMsg C b = (Inr d, b')" "concat (inp (Conn b')) = rest"
    "readKey b' = readKey b" "readSeq b' = Some (x - 1)" "MaxMessageSize b' = MaxMessageSize b"
    using ReadMsg_frame [OF C b(1) a(1) b(3,2)] a(4) b(4,5) by metis
  with a' a(3) b have "linked a' b'" by (simp add: linked_def)
  with b' show thesis by (intro that)
qed

lemma writeAll_outp:
  "writeAll C ds a = Some a' \<Longrightarrow> \<exists>w. outp (Conn a') = outp (Conn a) @ w"
proof (induction ds arbitrary: a)
  case (Cons d ds)
  then obtain a1 where w: "WriteMsg C d a = (Inr (), a1)" and r: "writeAll C ds a1 = Some a'"
    by (auto split: prod.splits sum.splits)
  from w have "\<exists>w. outp (Conn a1) = outp (Conn a) @ w" by (rule WriteMsg_Inr) auto
  with Cons.IH [OF r] show ?case by auto
qed simp

lemma linked_run:
  assumes C: "secretbox_correct C"
  shows "linked a b \<Longrightarrow> writeAll C ds a = Some a' \<Longrightarrow>
    \<forall>d \<in> set ds. length d + secretbox_overhead C < 2 ^ 64 \<Longrightarrow>
    concat (inp (Conn b)) = drop (length (outp (Conn a))) (outp (Conn a')) \<Longrightarrow>
    \<exists>b'. readAll C (length ds) b = Some (ds, b') \<and> linked a' b'"
proof (induction ds arbitrary: a b)
  case (Cons d ds)
  then obtain a1 where w: "WriteMsg C d a = (Inr (), a1)" and r: "writeAll C ds a1 = Some a'"
    by (auto split: prod.splits sum.splits)
  from w have "\<exists>w. outp (Conn a1) = outp (Conn a) @ w" by (rule WriteMsg_Inr) auto
  with writeAll_outp [OF r] Cons.prems(4)
  have "concat (inp (Conn b)) =
      drop (length (outp (Conn a))) (outp (Conn a1)) @ drop (length (outp (Conn a1))) (outp (Conn a'))"
    by auto
  moreover have "length d + secretbox_overhead C < 2 ^ 64" using Cons.prems(3) by simp
  ultimately obtain b1 where b1: "ReadMsg C b = (Inr d, b1)" "linked a1 b1"
    "concat (inp (Conn b1)) = drop (length (outp (Conn a1))) (outp (Conn a'))"
    by (metis linked_message [OF C Cons.prems(1) w])
  from Cons.IH [OF b1(2) r _ b1(3)] Cons.prems(3) b1(1) show ?case by auto
qed simp

lemma nonces_available: "x < 2 ^ 192 \<Longrightarrow> 2 ^ 184 \<le> x \<Longrightarrow> \<exists>n. Nonce x = Some n"
  by (simp add: Nonce_def)

lemma distinct_nonces:
  assumes "distinct xs" "\<forall>x \<in> set xs. 2 ^ 184 \<le> x \<and> x < 2 ^ 192"
  shows "distinct (map Nonce xs)"
  unfolding distinct_map
proof (intro conjI inj_onI)
  fix x y assume xy: "x \<in> set xs" "y \<in> set xs" "Nonce x = Nonce y"
  then have r: "x < 2 ^ 192" "y < 2 ^ 192" "2 ^ 184 \<le> x" using assms(2) by blast+
  obtain n where n: "Nonce x = Some n" using nonces_available [OF r(1,3)] by blast
  show "x = y" by (rule Nonce_inj [OF n _ r(1,2)]) (simp only: n [symmetric] xy(3))
qed (rule assms(1))

section \<open>Properties\<close>

text \<open>C12: Messages written to a session are read from it. Whatever one end writes with success is read
  by the other in the same order and unchanged, however the connection cuts the bytes into chunks,
  and the ends stay linked for further messages.\<close>

theorem session_delivers:
  assumes "secretbox_correct C" "linked a b" "writeAll C ds a = Some a'"
    and "\<forall>d \<in> set ds. length d + secretbox_overhead C < 2 ^ 64"
    and "concat (inp (Conn b)) = drop (length (outp (Conn a))) (outp (Conn a'))"
  shows "\<exists>b'. readAll C (length ds) b = Some (ds, b') \<and> linked a' b'"
  by (rule linked_run [OF assms])

definition ex_kx_end :: kx where
  "ex_kx_end =
     \<lparr>Conn = \<lparr>inp = [], outp = [], room = 1000\<rparr>, MaxMessageSize = 100, OurPrivateKey = [], TheirKey = None,
      writeKey = Some (replicate 32 1), readKey = Some (replicate 32 1),
      writeSeq = Some (2 ^ 191), readSeq = Some (2 ^ 191)\<rparr>"

theorem session_delivers_witness:
  "\<exists>a' b'. writeAll ex_crypto [[5]] ex_kx_end = Some a' \<and>
    readAll ex_crypto 1 (ex_kx_end\<lparr>Conn := \<lparr>inp = [outp (Conn a')], outp = [], room = 0\<rparr>\<rparr>) = Some ([[5]], b')"
proof -
  obtain a' where w: "writeAll ex_crypto [[5]] ex_kx_end = Some a'"
    by (simp add: WriteMsg_def Let_def Nonce_def connWrite_def ex_kx_end_def ex_crypto_def)
  moreover have "linked ex_kx_end (ex_kx_end\<lparr>Conn := \<lparr>inp = [outp (Conn a')], outp = [], room = 0\<rparr>\<rparr>)"
    by (simp add: linked_def ex_kx_end_def)
  moreover have "outp (Conn ex_kx_end) = []" by (simp add: ex_kx_end_def)
  ultimately show ?thesis
    using session_delivers [OF ex_crypto_laws(2) _ w, of "ex_kx_end\<lparr>Conn := \<lparr>inp = [outp (Conn a')], outp = [], room = 0\<rparr>\<rparr>"]
    by (auto simp: ex_crypto_def)
qed



text \<open>The key exchange links the two ends in both directions: after the client's \<open>Initiate\<close> and the
  server's \<open>Respond\<close>, each end reads what the other writes. The two fields arrive together or
  one by one.\<close>

theorem handshake_links:
  assumes "Initiate C rnd a = (Inr (), a')" "TheirKey a = Some pk" "kem_pair C pk (OurPrivateKey b)" "kem_sized C"
    and "outp (Conn a) = []" "inp (Conn b) \<in> {[outp (Conn a')], [take 4 (outp (Conn a')), drop 4 (outp (Conn a'))]}"
    and "MaxMessageSize a = MaxMessageSize b" "MaxMessageSize b < 2 ^ 32"
  shows "\<exists>b'. Respond C b = (Inr (), b') \<and> linked a' b' \<and> linked b' a'"
proof -
  from assms(1,2) obtain c k1 r cn cn' where e: "sntrup_encapsulate C rnd pk = Some (c, k1, r)"
    and w: "connWrite (put_u32_le (of_nat (length c))) (Conn a) = (True, cn)" "connWrite c cn = (True, cn')"
    and a': "a' = a\<lparr>Conn := cn', writeKey := Some k1, readKey := Some k1,
      writeSeq := Some (newSequence halfForClient), readSeq := Some (newSequence halfForServer)\<rparr>"
    by (auto simp: Initiate_def split: option.splits prod.splits bool.splits)
  have k: "sntrup_decapsulate C c (OurPrivateKey b) = Some k1" "length k1 = 32"
    using assms(3) e by (auto simp: kem_pair_def)
  have c: "length c = sntrup_CiphertextSize" using assms(4) e unfolding kem_sized_def by blast
  have out: "outp (Conn a') = put_u32_le (of_nat sntrup_CiphertextSize) @ c"
    using connWrite_True [OF w(1)] connWrite_True [OF w(2)] a' assms(5) c by simp
  have "get_u32_le (put_u32_le (of_nat sntrup_CiphertextSize)) = of_nat sntrup_CiphertextSize"
    using get_put_u32_le [of _ "[]"] by simp
  then have "\<exists>cn. Respond C b = (Inr (), b\<lparr>Conn := cn, writeKey := Some k1, readKey := Some k1,
      writeSeq := Some (newSequence halfForServer), readSeq := Some (newSequence halfForClient)\<rparr>)"
    using assms(6) out c k(1) by (auto simp: Respond_def connRead_def sntrup_CiphertextSize_def)
  with k(2) assms(7,8) show ?thesis by (auto simp: linked_def a')
qed

definition ex_client :: kx where
  "ex_client = ex_kx_end\<lparr>Conn := \<lparr>inp = [], outp = [], room = 2000\<rparr>, TheirKey := Some []\<rparr>"

theorem handshake_links_witness:
  "\<exists>a' b'. Initiate ex_crypto (replicate 32 6) ex_client = (Inr (), a') \<and>
    Respond ex_crypto (ex_kx_end\<lparr>Conn := \<lparr>inp = [outp (Conn a')], outp = [], room = 0\<rparr>\<rparr>) = (Inr (), b') \<and>
    linked a' b'"
proof -
  obtain a' where i: "Initiate ex_crypto (replicate 32 6) ex_client = (Inr (), a')"
    by (simp add: Initiate_def ex_client_def ex_kx_end_def ex_crypto_def connWrite_def)
  have f: "TheirKey ex_client = Some []" "outp (Conn ex_client) = []" "MaxMessageSize ex_client = 100"
    "MaxMessageSize ex_kx_end = 100"
    by (simp_all add: ex_client_def ex_kx_end_def)
  show ?thesis
    using handshake_links [OF i f(1) ex_crypto_laws(6) ex_crypto_kem_sized f(2),
        of "ex_kx_end\<lparr>Conn := \<lparr>inp = [outp (Conn a')], outp = [], room = 0\<rparr>\<rparr>"] i f(3,4)
    by auto
qed

text \<open>A message that is too large unlinks the session: \<open>Write\<close> returns \<^verbatim>\<open>ErrOverflow\<close> and sends
  nothing, but it has moved its nonce sequence on, so the reader no longer holds the writer's
  next nonce.\<close>

theorem overflow_unlinks:
  assumes "linked a b" "WriteMsg C data a = (Inl KxOverflow, a')"
  shows "Conn a' = Conn a \<and> \<not> linked a' b"
  using assms
  by (auto simp: WriteMsg_def Let_def Decrease_def linked_def split: option.splits if_splits prod.splits bool.splits)

theorem overflow_unlinks_witness:
  "\<exists>a'. WriteMsg ex_crypto (replicate 200 0) ex_kx_end = (Inl KxOverflow, a') \<and> \<not> linked a' ex_kx_end"
proof -
  obtain a' where w: "WriteMsg ex_crypto (replicate 200 0) ex_kx_end = (Inl KxOverflow, a')"
    by (simp add: WriteMsg_def Let_def Nonce_def ex_kx_end_def ex_crypto_def)
  have "linked ex_kx_end ex_kx_end" by (simp add: linked_def ex_kx_end_def)
  from overflow_unlinks [OF this w] w show ?thesis by blast
qed

end
