(* ===== verification/Go_Heap.thy ===== *)
theory Go_Heap
  imports BR_Prelude
begin

text \<open>
  Go's \<^verbatim>\<open>container/heap\<close> on a slice ordered by an integer key (\<open>Less\<close> compares instants in every
  heap of the sources): the sifting loops \<open>up\<close> and \<open>down\<close>, \<open>Push\<close>, \<open>Pop\<close>, \<open>Remove\<close> and \<open>Fix\<close>.
  The locale \<open>min_queue\<close> is the contract a user of the heap relies on; it is interpreted on these
  functions at the end.
\<close>

section \<open>The functions\<close>

definition parent :: "nat \<Rightarrow> nat" where
  "parent j = (j - 1) div 2"

definition swap :: "'a list \<Rightarrow> nat \<Rightarrow> nat \<Rightarrow> 'a list" where
  "swap h a b = h[a := h ! b, b := h ! a]"

function heap_up :: "('a \<Rightarrow> int) \<Rightarrow> 'a list \<Rightarrow> nat \<Rightarrow> 'a list" where
  "heap_up key h j =
     (if j = 0 \<or> \<not> key (h ! j) < key (h ! parent j) then h
      else heap_up key (swap h (parent j) j) (parent j))"
  by auto
termination by (relation "measure (\<lambda>(key, h, j). j)") (auto simp: parent_def)

definition least_child :: "('a \<Rightarrow> int) \<Rightarrow> 'a list \<Rightarrow> nat \<Rightarrow> nat \<Rightarrow> nat" where
  "least_child key h a n =
     (let j1 = 2 * a + 1 in
      if j1 + 1 < n \<and> key (h ! (j1 + 1)) < key (h ! j1) then j1 + 1 else j1)"

text \<open>\<open>down\<close> returns the slice and the index it stopped at.\<close>

function heap_down :: "('a \<Rightarrow> int) \<Rightarrow> 'a list \<Rightarrow> nat \<Rightarrow> nat \<Rightarrow> 'a list \<times> nat" where
  "heap_down key h a n =
     (if 2 * a + 1 \<ge> n then (h, a)
      else let j = least_child key h a n in
        if \<not> key (h ! j) < key (h ! a) then (h, a)
        else heap_down key (swap h a j) j n)"
  by auto
termination
  by (relation "measure (\<lambda>(key, h, a, n). n - a)") (auto simp: least_child_def Let_def)

declare heap_up.simps [simp del] heap_down.simps [simp del]

definition heap_push :: "('a \<Rightarrow> int) \<Rightarrow> 'a \<Rightarrow> 'a list \<Rightarrow> 'a list" where
  "heap_push key x h = heap_up key (h @ [x]) (length h)"

text \<open>The sift of \<open>Fix\<close> and \<open>Remove\<close>: down, and up when that did not move the element.\<close>

definition heap_sift :: "('a \<Rightarrow> int) \<Rightarrow> 'a list \<Rightarrow> nat \<Rightarrow> nat \<Rightarrow> 'a list" where
  "heap_sift key h a n =
     (case heap_down key h a n of (h', a') \<Rightarrow> if a' > a then h' else heap_up key h' a)"

definition heap_fix :: "('a \<Rightarrow> int) \<Rightarrow> 'a list \<Rightarrow> nat \<Rightarrow> 'a list" where
  "heap_fix key h a = heap_sift key h a (length h)"

text \<open>\<open>Pop\<close> and \<open>Remove\<close> move the element to the end of the slice, sift the rest and cut it off.\<close>

definition heap_pop :: "('a \<Rightarrow> int) \<Rightarrow> 'a list \<Rightarrow> 'a \<times> 'a list" where
  "heap_pop key h =
     (let n = length h - 1; h' = fst (heap_down key (swap h 0 n) 0 n)
      in (last h', butlast h'))"

definition heap_remove :: "('a \<Rightarrow> int) \<Rightarrow> 'a list \<Rightarrow> nat \<Rightarrow> 'a \<times> 'a list" where
  "heap_remove key h a =
     (let n = length h - 1;
          h' = (if n \<noteq> a then heap_sift key (swap h a n) a n else h)
      in (last h', butlast h'))"

section \<open>Contents\<close>

lemma length_swap [simp]: "length (swap h a b) = length h"
  by (simp add: swap_def)

lemma mset_swap_list: "a < length h \<Longrightarrow> b < length h \<Longrightarrow> mset (swap h a b) = mset h"
  by (simp add: swap_def mset_swap)

lemma nth_swap:
  "a < length h \<Longrightarrow> b < length h \<Longrightarrow> k < length h \<Longrightarrow>
   swap h a b ! k = (if k = b then h ! a else if k = a then h ! b else h ! k)"
  by (auto simp: swap_def nth_list_update)

lemma parent_less: "0 < j \<Longrightarrow> parent j < j"
  by (auto simp: parent_def)

lemma parent_iff: "0 < k \<Longrightarrow> parent k = a \<longleftrightarrow> k = 2 * a + 1 \<or> k = 2 * a + 2"
  by (auto simp: parent_def)

lemma heap_up_contents:
  "j < length h \<Longrightarrow> mset (heap_up key h j) = mset h \<and> length (heap_up key h j) = length h \<and>
     (\<forall>k. j < k \<longrightarrow> heap_up key h j ! k = h ! k)"
proof (induction key h j rule: heap_up.induct)
  case (1 key h j)
  show ?case
  proof (cases "j = 0 \<or> \<not> key (h ! j) < key (h ! parent j)")
    case True
    then show ?thesis by (simp add: heap_up.simps [of key h j])
  next
    case False
    then have p: "parent j < j" by (simp add: parent_less)
    have "heap_up key h j = heap_up key (swap h (parent j) j) (parent j)"
      using False by (simp add: heap_up.simps [of key h j])
    with 1(1) [OF False] 1(2) p show ?thesis
      by (auto simp: mset_swap_list) (auto simp: swap_def)
  qed
qed

lemma least_child_range:
  "2 * a + 1 < n \<Longrightarrow> least_child key h a n = 2 * a + 1 \<or> least_child key h a n = 2 * a + 2"
  "2 * a + 1 < n \<Longrightarrow> a < least_child key h a n \<and> least_child key h a n < n"
  by (auto simp: least_child_def Let_def)

lemma least_child_least:
  "2 * a + 1 < n \<Longrightarrow> 0 < c \<Longrightarrow> c < n \<Longrightarrow> parent c = a \<Longrightarrow> key (h ! least_child key h a n) \<le> key (h ! c)"
  by (auto simp: least_child_def Let_def parent_iff)

lemma heap_down_contents:
  "n \<le> length h \<Longrightarrow> a < length h \<Longrightarrow> heap_down key h a n = (h', a') \<Longrightarrow>
   mset h' = mset h \<and> length h' = length h \<and> a \<le> a' \<and> (a' = a \<longrightarrow> h' = h) \<and> (\<forall>k. n \<le> k \<longrightarrow> h' ! k = h ! k)"
proof (induction key h a n arbitrary: h' a' rule: heap_down.induct)
  case (1 key h a n)
  define j where "j = least_child key h a n"
  show ?case
  proof (cases "n \<le> 2 * a + 1 \<or> \<not> key (h ! j) < key (h ! a)")
    case True
    with 1(4) show ?thesis by (auto simp: heap_down.simps [of key h a n] j_def Let_def split: if_splits)
  next
    case False
    then have c: "\<not> n \<le> 2 * a + 1" "key (h ! j) < key (h ! a)" by auto
    have j: "a < j" "j < n" using least_child_range(2) [of a n key h] c(1) by (auto simp: j_def)
    have "heap_down key (swap h a j) j n = (h', a')"
      using 1(4) c by (simp add: heap_down.simps [of key h a n] j_def [symmetric] Let_def)
    from 1(1) [OF c(1) j_def _ _ _ this] c(2) 1(2,3) j
    have "mset h' = mset (swap h a j) \<and> length h' = length (swap h a j) \<and> j \<le> a' \<and>
        (\<forall>k. n \<le> k \<longrightarrow> h' ! k = swap h a j ! k)" by auto
    with j 1(2,3) show ?thesis by (auto simp: mset_swap_list) (auto simp: swap_def)
  qed
qed

section \<open>Heap order\<close>

text \<open>The order between a position and its parent, and the heap property of the first \<open>n\<close> positions.\<close>

definition ord_at :: "('a \<Rightarrow> int) \<Rightarrow> 'a list \<Rightarrow> nat \<Rightarrow> bool" where
  "ord_at key h k \<longleftrightarrow> key (h ! parent k) \<le> key (h ! k)"

definition is_heap :: "('a \<Rightarrow> int) \<Rightarrow> 'a list \<Rightarrow> nat \<Rightarrow> bool" where
  "is_heap key h n \<longleftrightarrow> (\<forall>k. 0 < k \<longrightarrow> k < n \<longrightarrow> ord_at key h k)"

text \<open>A heap but for the element at \<open>a\<close>, which may be too small (\<open>up\<close>) or too large (\<open>down\<close>); the
  children of \<open>a\<close> are in order with the parent of \<open>a\<close>.\<close>

definition heap_but :: "bool \<Rightarrow> bool \<Rightarrow> ('a \<Rightarrow> int) \<Rightarrow> 'a list \<Rightarrow> nat \<Rightarrow> nat \<Rightarrow> bool" where
  "heap_but small large key h a n \<longleftrightarrow>
     (\<forall>k. 0 < k \<longrightarrow> k < n \<longrightarrow> (k = a \<and> small) \<or> (parent k = a \<and> large) \<or> ord_at key h k) \<and>
     (\<forall>k. 0 < k \<longrightarrow> k < n \<longrightarrow> parent k = a \<longrightarrow> 0 < a \<longrightarrow> key (h ! parent a) \<le> key (h ! k))"

lemma heap_but_none: "heap_but False False key h a n \<Longrightarrow> is_heap key h n"
  by (simp add: heap_but_def is_heap_def)

lemma heap_up_heap:
  "j < n \<Longrightarrow> n \<le> length h \<Longrightarrow> heap_but True False key h j n \<Longrightarrow> is_heap key (heap_up key h j) n"
proof (induction key h j rule: heap_up.induct)
  case (1 key h j)
  show ?case
  proof (cases "j = 0 \<or> \<not> key (h ! j) < key (h ! parent j)")
    case True
    with 1(4) show ?thesis
      by (auto simp: heap_up.simps [of key h j] heap_but_def is_heap_def ord_at_def not_less)
  next
    case False
    then have p: "parent j < j" "0 < j" and lt: "key (h ! j) < key (h ! parent j)" by (auto simp: parent_less)
    let ?h = "swap h (parent j) j"
    note nth = nth_swap [of "parent j" h j]
    have b: "\<And>k. 0 < k \<Longrightarrow> k < n \<Longrightarrow> k \<noteq> j \<Longrightarrow> key (h ! parent k) \<le> key (h ! k)"
      "\<And>k. 0 < k \<Longrightarrow> k < n \<Longrightarrow> parent k = j \<Longrightarrow> key (h ! parent j) \<le> key (h ! k)"
      using 1(4) p by (auto simp: heap_but_def ord_at_def)
    have len: "j < length h" "parent j < length h" using p 1(2,3) by auto
    have "heap_but True False key ?h (parent j) n"
      unfolding heap_but_def
    proof (intro conjI allI impI)
      fix k assume k: "0 < k" "k < n"
      have pk: "parent k < length h" "k < length h" using k 1(3) parent_less [of k] by auto
      show "k = parent j \<and> True \<or> parent k = parent j \<and> False \<or> ord_at key ?h k"
      proof (cases "k = parent j")
        case False
        have "key (?h ! parent k) \<le> key (?h ! k)"
        proof (cases "k = j")
          case True
          then show ?thesis using lt len p by (simp add: nth)
        next
          case kj: False
          consider "parent k = parent j" | "parent k = j" | "parent k \<noteq> parent j" "parent k \<noteq> j" by blast
          then show ?thesis
          proof cases
            case 1
            then show ?thesis using b(1) [OF k kj] lt len p pk kj False by (simp add: nth)
          next
            case 2
            then show ?thesis using b(2) [OF k 2] len pk kj False by (simp add: nth)
          next
            case 3
            then show ?thesis using b(1) [OF k kj] len pk kj False by (simp add: nth)
          qed
        qed
        then show ?thesis by (simp add: ord_at_def)
      qed simp
      assume pp: "parent k = parent j" "0 < parent j"
      have gp: "parent (parent j) < parent j" using pp(2) by (rule parent_less)
      have "key (h ! parent (parent j)) \<le> key (h ! parent j)"
        using b(1) [OF pp(2)] p 1(2) by simp
      moreover have "k \<noteq> j \<Longrightarrow> key (h ! parent j) \<le> key (h ! k)" using b(1) [OF k] pp(1) by simp
      moreover have "k \<noteq> parent j" using pp(1) parent_less [OF k(1)] by auto
      ultimately show "key (?h ! parent (parent j)) \<le> key (?h ! k)"
        using gp p len pk by (cases "k = j") (auto simp: nth)
    qed
    from 1(1) [OF False _ _ this] 1(2,3) p False show ?thesis
      by (simp add: heap_up.simps [of key h j])
  qed
qed

text \<open>One step of \<open>down\<close>: after the swap only the children of the new position may be out of order.\<close>

lemma heap_down_step:
  assumes n: "n \<le> length h" "2 * a + 1 < n" and but: "heap_but small True key h a n"
    and lt: "key (h ! least_child key h a n) < key (h ! a)"
  defines "j \<equiv> least_child key h a n"
  shows "heap_but False True key (swap h a j) j n"
proof -
  have j: "a < j" "j < n" "parent j = a"
    using least_child_range [OF n(2), of key h] by (auto simp: j_def parent_iff)
  have len: "a < length h" "j < length h" using j n by auto
  note nth = nth_swap [OF len]
  have b: "\<And>k. 0 < k \<Longrightarrow> k < n \<Longrightarrow> k \<noteq> a \<Longrightarrow> parent k \<noteq> a \<Longrightarrow> key (h ! parent k) \<le> key (h ! k)"
    "\<And>k. 0 < k \<Longrightarrow> k < n \<Longrightarrow> parent k = a \<Longrightarrow> 0 < a \<Longrightarrow> key (h ! parent a) \<le> key (h ! k)"
    using but by (auto simp: heap_but_def ord_at_def)
  have least: "\<And>k. 0 < k \<Longrightarrow> k < n \<Longrightarrow> parent k = a \<Longrightarrow> key (h ! j) \<le> key (h ! k)"
    unfolding j_def using least_child_least [OF n(2)] by blast
  show ?thesis unfolding heap_but_def
  proof (intro conjI allI impI)
    fix k assume k: "0 < k" "k < n"
    have pk: "parent k < length h" "k < length h" "parent k < k" using k n parent_less [of k] by auto
    show "k = j \<and> False \<or> parent k = j \<and> True \<or> ord_at key (swap h a j) k"
    proof (cases "parent k = j")
      case False
      have "key (swap h a j ! parent k) \<le> key (swap h a j ! k)"
      proof (cases "parent k = a")
        case True
        then show ?thesis
          using least [OF k True] lt pk j by (auto simp: nth j_def [symmetric])
      next
        case pa: False
        then have "k \<noteq> j" using j(3) by auto
        moreover have "k = a \<Longrightarrow> key (h ! parent a) \<le> key (h ! j)" using b(2) [of j] j k by auto
        ultimately show ?thesis using b(1) [OF k _ pa] pa False pk by (auto simp: nth)
      qed
      then show ?thesis by (simp add: ord_at_def)
    qed simp
    assume pj: "parent k = j" "0 < j"
    then have "k \<noteq> a" "k \<noteq> j" using pk(3) j(1) by auto
    moreover have "key (h ! j) \<le> key (h ! k)" using b(1) [OF k \<open>k \<noteq> a\<close>] pj(1) j(1) by auto
    ultimately show "key (swap h a j ! parent j) \<le> key (swap h a j ! k)"
      using pk len j by (simp add: nth)
  qed
qed

lemma heap_down_heap:
  "n \<le> length h \<Longrightarrow> a < n \<Longrightarrow> heap_but False True key h a n \<Longrightarrow> is_heap key (fst (heap_down key h a n)) n"
proof (induction key h a n rule: heap_down.induct)
  case (1 key h a n)
  define j where "j = least_child key h a n"
  show ?case
  proof (cases "n \<le> 2 * a + 1 \<or> \<not> key (h ! j) < key (h ! a)")
    case True
    have "ord_at key h k" if k: "0 < k" "k < n" for k
    proof (cases "parent k = a")
      case pa: True
      then have "2 * a + 1 < n" using k by (auto simp: parent_iff)
      with True least_child_least [OF this k pa, of key h] pa show ?thesis by (auto simp: ord_at_def j_def not_less)
    qed (use 1(4) k in \<open>auto simp: heap_but_def\<close>)
    then have "is_heap key h n" by (simp add: is_heap_def)
    with True show ?thesis by (auto simp: heap_down.simps [of key h a n] j_def Let_def)
  next
    case False
    then have c: "\<not> n \<le> 2 * a + 1" "key (h ! j) < key (h ! a)" by auto
    have j: "j < n" using least_child_range(2) [of a n key h] c(1) by (auto simp: j_def)
    have "heap_but False True key (swap h a j) j n"
      using heap_down_step [OF 1(2) _ 1(4)] c by (simp add: j_def not_le)
    from 1(1) [OF c(1) j_def _ _ j this] c(2) 1(2) show ?thesis
      using c by (simp add: heap_down.simps [of key h a n] j_def [symmetric] Let_def)
  qed
qed

lemma heap_sift_heap:
  assumes "n \<le> length h" "a < n" "heap_but True True key h a n"
  shows "is_heap key (heap_sift key h a n) n"
proof -
  define j where "j = least_child key h a n"
  obtain h' a' where d: "heap_down key h a n = (h', a')" by (cases "heap_down key h a n")
  show ?thesis
  proof (cases "n \<le> 2 * a + 1 \<or> \<not> key (h ! j) < key (h ! a)")
    case True
    then have st: "heap_down key h a n = (h, a)" by (auto simp: heap_down.simps [of key h a n] j_def Let_def)
    have "heap_but True False key h a n"
      unfolding heap_but_def
    proof (intro conjI allI impI)
      fix k assume k: "0 < k" "k < n"
      show "k = a \<and> True \<or> parent k = a \<and> False \<or> ord_at key h k"
      proof (cases "parent k = a")
        case pa: True
        then have "2 * a + 1 < n" using k by (auto simp: parent_iff)
        with True least_child_least [OF this k pa, of key h] pa show ?thesis by (auto simp: ord_at_def j_def not_less)
      qed (use assms(3) k in \<open>auto simp: heap_but_def\<close>)
    qed (use assms(3) in \<open>auto simp: heap_but_def\<close>)
    from heap_up_heap [OF assms(2,1) this] st show ?thesis by (simp add: heap_sift_def)
  next
    case False
    then have c: "\<not> n \<le> 2 * a + 1" "key (h ! j) < key (h ! a)" by auto
    have j: "a < j" "j < n" using least_child_range(2) [of a n key h] c(1) by (auto simp: j_def)
    have st: "heap_down key h a n = heap_down key (swap h a j) j n"
      using c by (simp add: heap_down.simps [of key h a n] j_def [symmetric] Let_def)
    have b: "heap_but False True key (swap h a j) j n"
      using heap_down_step [OF assms(1) _ assms(3)] c by (simp add: j_def not_le)
    have "is_heap key h' n"
      using heap_down_heap [OF _ j(2) b] assms(1) d unfolding st by simp
    moreover have "a < a'"
      using heap_down_contents [of n "swap h a j" j key h' a'] assms(1) j st d by simp
    ultimately show ?thesis by (simp add: heap_sift_def d)
  qed
qed

lemma heap_sift_contents:
  assumes "n \<le> length h" "a < n"
  shows "mset (heap_sift key h a n) = mset h" and "length (heap_sift key h a n) = length h"
    and "n \<le> k \<Longrightarrow> heap_sift key h a n ! k = h ! k"
proof -
  obtain h' a' where d: "heap_down key h a n = (h', a')" by (cases "heap_down key h a n")
  from heap_down_contents [OF assms(1) _ d] assms
  have h': "mset h' = mset h" "length h' = length h" "n \<le> k \<Longrightarrow> h' ! k = h ! k" by auto
  then show "mset (heap_sift key h a n) = mset h" "length (heap_sift key h a n) = length h"
    "n \<le> k \<Longrightarrow> heap_sift key h a n ! k = h ! k"
    using heap_up_contents [of a h' key] assms d by (auto simp: heap_sift_def)
qed

lemma heap_root_least: "is_heap key h n \<Longrightarrow> k < n \<Longrightarrow> key (h ! 0) \<le> key (h ! k)"
proof (induction k rule: less_induct)
  case (less k)
  show ?case
  proof (cases "k = 0")
    case False
    then have "key (h ! 0) \<le> key (h ! parent k)" using less parent_less [of k] by auto
    also have "\<dots> \<le> key (h ! k)" using less.prems False by (simp add: is_heap_def ord_at_def)
    finally show ?thesis .
  qed simp
qed

section \<open>The operations\<close>

lemma is_heap_cong:
  assumes "\<And>k. k < n \<Longrightarrow> h ! k = h' ! k" "is_heap key h n"
  shows "is_heap key h' n"
  unfolding is_heap_def ord_at_def
proof (intro allI impI)
  fix k assume k: "0 < k" "k < n"
  then have "parent k < n" using parent_less [of k] by simp
  moreover have "key (h ! parent k) \<le> key (h ! k)" using k assms(2) by (simp add: is_heap_def ord_at_def)
  ultimately show "key (h' ! parent k) \<le> key (h' ! k)" using k assms(1) by metis
qed

lemma is_heap_butlast: "is_heap key h (length h - 1) \<Longrightarrow> is_heap key (butlast h) (length (butlast h))"
  by (rule is_heap_cong [of _ h]) (simp_all add: nth_butlast)

lemma heap_push_ok:
  assumes "is_heap key h (length h)"
  shows "is_heap key (heap_push key x h) (length (heap_push key x h))"
    and "mset (heap_push key x h) = add_mset x (mset h)"
proof -
  have "heap_but True False key (h @ [x]) (length h) (length (h @ [x]))"
    unfolding heap_but_def
  proof (intro conjI allI impI)
    have h: "is_heap key (h @ [x]) (length h)" by (rule is_heap_cong [OF _ assms]) (simp add: nth_append)
    fix k assume k: "0 < k" "k < length (h @ [x])"
    show "k = length h \<and> True \<or> parent k = length h \<and> False \<or> ord_at key (h @ [x]) k"
      using k h by (cases "k = length h") (auto simp: is_heap_def)
    show "key ((h @ [x]) ! parent (length h)) \<le> key ((h @ [x]) ! k)" if "parent k = length h"
      using that k parent_less [of k] by simp
  qed
  from heap_up_heap [OF _ _ this]
  show "is_heap key (heap_push key x h) (length (heap_push key x h))"
    using heap_up_contents [of "length h" "h @ [x]" key] by (simp add: heap_push_def)
  show "mset (heap_push key x h) = add_mset x (mset h)"
    using heap_up_contents [of "length h" "h @ [x]" key] by (simp add: heap_push_def)
qed

text \<open>Moving the last element to \<open>a\<close> leaves a heap of the others but for \<open>a\<close>.\<close>

lemma heap_but_swap:
  assumes "is_heap key h (length h)" "length h = Suc n" "a < n"
  shows "heap_but (0 < a) True key (swap h a n) a n"
proof -
  have nth: "swap h a n ! k = (if k = a then h ! n else h ! k)" if "k < n" for k
    using assms(2,3) that by (simp add: nth_swap)
  have o: "\<And>k. 0 < k \<Longrightarrow> k < n \<Longrightarrow> key (h ! parent k) \<le> key (h ! k)"
    using assms(1,2) by (simp add: is_heap_def ord_at_def)
  show ?thesis unfolding heap_but_def
  proof (intro conjI allI impI)
    fix k assume k: "0 < k" "k < n"
    have p: "parent k < n" using k parent_less [of k] by simp
    show "k = a \<and> 0 < a \<or> parent k = a \<and> True \<or> ord_at key (swap h a n) k"
      using o [OF k] k p by (auto simp: ord_at_def nth)
    assume pa: "parent k = a" "0 < a"
    then have "key (h ! parent a) \<le> key (h ! a)" "key (h ! a) \<le> key (h ! k)"
      using o [OF k] o [OF pa(2) assms(3)] by auto
    moreover have "parent a < a" "a < k" using pa parent_less [of k] parent_less [of a] k by auto
    ultimately show "key (swap h a n ! parent a) \<le> key (swap h a n ! k)"
      using k assms(3) by (simp add: nth)
  qed
qed

lemma heap_but_weaken: "heap_but s l key h a n \<Longrightarrow> heap_but True l key h a n"
  by (auto simp: heap_but_def)

lemma cut_last:
  assumes "length h' = Suc n" "mset h' = mset h" "h' ! n = x"
  shows "last h' = x" and "mset h = add_mset x (mset (butlast h'))"
proof -
  have ne: "h' \<noteq> []" using assms(1) by auto
  with assms(1,3) show l: "last h' = x" by (simp add: last_conv_nth)
  have "mset h' = mset (butlast h' @ [last h'])" using ne by simp
  with l assms(2) show "mset h = add_mset x (mset (butlast h'))" by simp
qed

lemma heap_pop_ok:
  assumes "is_heap key h (length h)" "h \<noteq> []" "heap_pop key h = (x, h')"
  shows "is_heap key h' (length h')" and "mset h = add_mset x (mset h')" and "x = h ! 0"
proof -
  obtain n where n: "length h = Suc n" using assms(2) by (cases h) auto
  obtain d a' where d: "heap_down key (swap h 0 n) 0 n = (d, a')" by (cases "heap_down key (swap h 0 n) 0 n")
  from heap_down_contents [OF _ _ d] n
  have c: "length d = Suc n" "mset d = mset h" "d ! n = h ! 0"
    by (auto simp: mset_swap_list nth_swap)
  have x: "x = last d" "h' = butlast d" using assms(3) d n by (simp_all add: heap_pop_def Let_def)
  from cut_last [OF c] x show "mset h = add_mset x (mset h')" "x = h ! 0" by simp_all
  have "is_heap key d n"
  proof (cases "n = 0")
    case False
    then have "heap_but False True key (swap h 0 n) 0 n"
      using heap_but_swap [OF assms(1) n, of 0] by simp
    from heap_down_heap [OF _ _ this] False d n show ?thesis by simp
  qed (simp add: is_heap_def)
  then show "is_heap key h' (length h')" using is_heap_butlast [of key d] c(1) x(2) by simp
qed

lemma heap_remove_ok:
  assumes "is_heap key h (length h)" "a < length h" "heap_remove key h a = (x, h')"
  shows "is_heap key h' (length h')" and "mset h = add_mset x (mset h')" and "x = h ! a"
proof -
  obtain n where n: "length h = Suc n" using assms(2) by (cases h) auto
  define d where "d = (if n \<noteq> a then heap_sift key (swap h a n) a n else h)"
  have x: "x = last d" "h' = butlast d"
    using assms(3) n unfolding heap_remove_def d_def Let_def by (auto split: if_splits)
  have c: "length d = Suc n" "mset d = mset h" "d ! n = h ! a"
    using assms(2) n heap_sift_contents [of n "swap h a n" a, where key = key]
    by (auto simp: d_def mset_swap_list nth_swap)
  from cut_last [OF c] x show "mset h = add_mset x (mset h')" "x = h ! a" by simp_all
  have "is_heap key d n"
  proof (cases "n = a")
    case True
    with assms(1) n show ?thesis by (auto simp: d_def is_heap_def)
  next
    case False
    with assms(2) n have a: "a < n" by simp
    from heap_sift_heap [OF _ a heap_but_weaken [OF heap_but_swap [OF assms(1) n a]]] False n show ?thesis
      by (simp add: d_def)
  qed
  then show "is_heap key h' (length h')" using is_heap_butlast [of key d] c(1) x(2) by simp
qed

text \<open>\<open>Fix\<close> after the element at \<open>a\<close> was replaced.\<close>

lemma heap_fix_ok:
  assumes "is_heap key h (length h)" "a < length h"
  shows "is_heap key (heap_fix key (h[a := x]) a) (length (heap_fix key (h[a := x]) a))"
    and "mset (heap_fix key (h[a := x]) a) = mset (h[a := x])"
proof -
  let ?h = "h[a := x]"
  have o: "\<And>k. 0 < k \<Longrightarrow> k < length h \<Longrightarrow> key (h ! parent k) \<le> key (h ! k)"
    using assms(1) by (simp add: is_heap_def ord_at_def)
  have "heap_but True True key ?h a (length ?h)"
    unfolding heap_but_def
  proof (intro conjI allI impI)
    fix k assume k: "0 < k" "k < length ?h"
    show "k = a \<and> True \<or> parent k = a \<and> True \<or> ord_at key ?h k"
      using o [of k] k by (cases "k = a \<or> parent k = a") (auto simp: ord_at_def)
    assume pa: "parent k = a" "0 < a"
    then have "key (h ! parent a) \<le> key (h ! a)" "key (h ! a) \<le> key (h ! k)"
      using o [of k] o [OF pa(2) assms(2)] k by auto
    moreover have "parent a < a" "a < k" using pa parent_less [of k] parent_less [of a] k by auto
    ultimately show "key (?h ! parent a) \<le> key (?h ! k)" by simp
  qed
  from heap_sift_heap [OF _ _ this] heap_sift_contents [of "length ?h" ?h a, where key = key] assms(2)
  show "is_heap key (heap_fix key ?h a) (length (heap_fix key ?h a))" "mset (heap_fix key ?h a) = mset ?h"
    by (simp_all add: heap_fix_def)
qed

section \<open>The contract\<close>

text \<open>Taking elements while a condition on the queue holds, at most \<open>n\<close> of them.\<close>

fun drain :: "nat \<Rightarrow> ('q \<Rightarrow> bool) \<Rightarrow> ('q \<Rightarrow> 'a \<times> 'q) \<Rightarrow> 'q \<Rightarrow> 'a list \<times> 'q" where
  "drain 0 go pop q = ([], q)"
| "drain (Suc n) go pop q =
     (if go q then (let (x, q) = pop q; (xs, q) = drain n go pop q in (x # xs, q)) else ([], q))"

locale min_queue =
  fixes key :: "'a \<Rightarrow> int"
    and ok :: "'q \<Rightarrow> bool"
    and contents :: "'q \<Rightarrow> 'a multiset"
    and push :: "'a \<Rightarrow> 'q \<Rightarrow> 'q"
    and pop :: "'q \<Rightarrow> 'a \<times> 'q"
    and top :: "'q \<Rightarrow> 'a"
  assumes push_ok: "ok q \<Longrightarrow> ok (push x q)"
    and push_contents: "ok q \<Longrightarrow> contents (push x q) = add_mset x (contents q)"
    and pop_law: "ok q \<Longrightarrow> contents q \<noteq> {#} \<Longrightarrow> pop q = (x, q') \<Longrightarrow>
      ok q' \<and> contents q = add_mset x (contents q') \<and> x = top q"
    and top_least: "ok q \<Longrightarrow> y \<in># contents q \<Longrightarrow> key (top q) \<le> key y"
begin

lemma push_all:
  "ok q \<Longrightarrow> ok (fold push xs q) \<and> contents (fold push xs q) = mset xs + contents q"
proof (induction xs arbitrary: q)
  case (Cons x xs)
  from Cons.IH [OF push_ok [OF Cons.prems, of x]] push_contents [OF Cons.prems, of x] show ?case by simp
qed simp

lemma drain_laws:
  assumes "ok q" "\<And>q. go q \<Longrightarrow> contents q \<noteq> {#}" "drain n go pop q = (xs, q')"
  shows "ok q' \<and> contents q = mset xs + contents q' \<and> sorted (map key xs) \<and>
    (\<forall>x \<in> set xs. \<forall>y \<in># contents q'. key x \<le> key y)"
  using assms(1,3)
proof (induction n arbitrary: q xs)
  case (Suc n)
  show ?case
  proof (cases "go q")
    case True
    obtain x q1 where p: "pop q = (x, q1)" by (cases "pop q")
    from Suc.prems(2) True p obtain ys where d: "drain n go pop q1 = (ys, q')" and xs: "xs = x # ys"
      by (auto split: prod.splits)
    have l: "ok q1" "contents q = add_mset x (contents q1)" "x = top q"
      using pop_law [OF Suc.prems(1) assms(2) [OF True] p] by auto
    note IH = Suc.IH [OF l(1) d]
    have "key x \<le> key y" if "y \<in># contents q" for y using top_least [OF Suc.prems(1) that] l(3) by simp
    then show ?thesis using IH l(2) xs d by auto
  qed (use Suc.prems in auto)
qed simp

lemma drain_done:
  assumes "ok q" "\<And>q. go q \<Longrightarrow> contents q \<noteq> {#}" "drain n go pop q = (xs, q')" "size (contents q) \<le> n"
  shows "\<not> go q'"
  using assms(1,3,4)
proof (induction n arbitrary: q xs)
  case 0
  then show ?case using assms(2) [of q] by auto
next
  case (Suc n)
  show ?case
  proof (cases "go q")
    case True
    obtain x q1 where p: "pop q = (x, q1)" by (cases "pop q")
    from Suc.prems(2) True p obtain ys where d: "drain n go pop q1 = (ys, q')"
      by (auto split: prod.splits)
    have l: "ok q1" "contents q = add_mset x (contents q1)"
      using pop_law [OF Suc.prems(1) assms(2) [OF True] p] by auto
    from Suc.IH [OF l(1) d] Suc.prems(2,3) True p d l(2) show ?thesis by simp
  qed (use Suc.prems in auto)
qed

end

definition heap_ok :: "('a \<Rightarrow> int) \<Rightarrow> 'a list \<Rightarrow> bool" where
  "heap_ok key h \<longleftrightarrow> is_heap key h (length h)"

lemma heap_ok_code [code]: "heap_ok key h \<longleftrightarrow> list_all (ord_at key h) [1..<length h]"
  by (auto simp: heap_ok_def is_heap_def list_all_iff)

interpretation go_heap: min_queue key "heap_ok key" mset "heap_push key" "heap_pop key" "\<lambda>h. h ! 0"
  for key :: "'a \<Rightarrow> int"
proof (unfold_locales, goal_cases)
  case (3 q x q')
  then have h: "is_heap key q (length q)" "q \<noteq> []" by (simp_all add: heap_ok_def)
  from heap_pop_ok [OF this 3(3)] show ?case by (simp add: heap_ok_def)
next
  case (4 q y)
  then show ?case by (auto simp: heap_ok_def in_set_conv_nth heap_root_least)
qed (auto simp: heap_ok_def heap_push_ok)

end
