(* ===== verification/Gcmcacher.thy ===== *)
theory Gcmcacher
  imports Go_Heap
begin

text \<open>
  The group-chat message cacher (\<^verbatim>\<open>src/client/internal/gcmcacher/gcmcacher.go\<close>). After a connection
  it holds back messages in a heap ordered by timestamp and the remote users in a heap ordered by
  the timestamp of their last routed message, and hands a message to the handler once no tracked
  user could still send an older one. The goroutine's loop is \<open>cacherStep\<close>, one iteration of its
  \<^verbatim>\<open>select\<close> for each kind of event; the clock reading is an argument.
\<close>

section \<open>The queues\<close>

record 'm rgcm =
  TS :: time
  body :: 'm

type_synonym user_id = bytes

record remoteUser =
  uid :: user_id
  rmts :: time
  updtts :: time

definition nextGCM :: "'m rgcm list \<Rightarrow> 'm rgcm \<times> 'm rgcm list" where
  "nextGCM msgs = heap_pop TS msgs"

text \<open>The index of the first user with this id.\<close>

fun findUser :: "user_id \<Rightarrow> remoteUser list \<Rightarrow> nat option" where
  "findUser x [] = None"
| "findUser x (u # us) = (if uid u = x then Some 0 else map_option Suc (findUser x us))"

definition ruq_update :: "user_id \<Rightarrow> time \<Rightarrow> time \<Rightarrow> remoteUser list \<Rightarrow> remoteUser list" where
  "ruq_update x ts now users =
     (case findUser x users of
        Some k \<Rightarrow> heap_fix rmts (users[k := (users ! k)\<lparr>rmts := ts, updtts := now\<rparr>]) k
      | None \<Rightarrow> heap_push rmts \<lparr>uid = x, rmts = ts, updtts = now\<rparr> users)"

lemma length_heap_remove: "a < length h \<Longrightarrow> length (snd (heap_remove key h a)) < length h"
  using heap_sift_contents(2) [of "length h - 1" "swap h a (length h - 1)" a key]
  by (auto simp: heap_remove_def Let_def)

function dropStaleLoop :: "time \<Rightarrow> remoteUser list \<Rightarrow> nat \<Rightarrow> nat \<Rightarrow> nat \<times> remoteUser list" where
  "dropStaleLoop deadline users k nb =
     (if k < length users then
        (if updtts (users ! k) < deadline
         then dropStaleLoop deadline (snd (heap_remove rmts users k)) k (nb + 1)
         else dropStaleLoop deadline users (k + 1) nb)
      else (nb, users))"
  by auto
termination
proof (relation "measure (\<lambda>(d, us, k, nb). 2 * length us - k)", goal_cases)
  case (2 d us k nb)
  then show ?case using length_heap_remove [of k us rmts] by simp
qed auto

declare dropStaleLoop.simps [simp del]

definition dropStale :: "duration \<Rightarrow> time \<Rightarrow> remoteUser list \<Rightarrow> nat \<times> remoteUser list" where
  "dropStale maxLifetime now users = dropStaleLoop (now - maxLifetime) users 0 0"

definition canEmitGCM :: "time \<Rightarrow> remoteUser list \<Rightarrow> bool" where
  "canEmitGCM gcmTS users = (if users = [] then True else \<not> rmts (users ! 0) < gcmTS)"

section \<open>The loop\<close>

record cacher_cfg =
  maxLifetime :: duration
  has_handler :: bool

text \<open>The locals of \<open>Run\<close>: \<open>initialDelay\<close> tells whether \<^verbatim>\<open>initialDelayChan\<close> is set and
  \<open>ticking\<close> whether the update ticker runs.\<close>

record 'm cacher =
  msgs :: "'m rgcm list"
  users :: "remoteUser list"
  ticking :: bool
  initialDelay :: bool
  doneCaching :: bool
  wasOnline :: bool

definition newCacher :: "'m cacher" where
  "newCacher = \<lparr>msgs = [], users = [], ticking = False, initialDelay = False, doneCaching = False, wasOnline = False\<rparr>"

datatype 'm cacher_event =
    EvRM user_id time
  | EvMsg "'m rgcm"
  | EvConnected bool
  | EvReload "'m rgcm list"
  | EvInitialDelay
  | EvTick

definition callHandler :: "cacher_cfg \<Rightarrow> 'm rgcm list \<Rightarrow> 'm rgcm list" where
  "callHandler cfg out = (if has_handler cfg then out else [])"

text \<open>The end of an iteration: emit what can be emitted, and note whether caching is done.\<close>

definition emitAll :: "cacher_cfg \<Rightarrow> 'm cacher \<Rightarrow> 'm rgcm list \<times> 'm cacher" where
  "emitAll cfg c =
     (case drain (length (msgs c)) (\<lambda>ms. length ms > 0 \<and> canEmitGCM (TS (ms ! 0)) (users c)) nextGCM (msgs c) of
        (out, ms) \<Rightarrow>
          (callHandler cfg out,
           c\<lparr>msgs := ms, doneCaching := ms = [], ticking := ticking c \<and> ms \<noteq> []\<rparr>))"

text \<open>One iteration. An iteration that ends with \<^verbatim>\<open>continue loop\<close> emits nothing more. The event of a
  channel that is nil never arrives.\<close>

definition cacherStep ::
    "cacher_cfg \<Rightarrow> time \<Rightarrow> 'm cacher_event \<Rightarrow> 'm cacher \<Rightarrow> 'm rgcm list \<times> 'm cacher" where
  "cacherStep cfg now ev c =
     (case ev of
        EvRM x ts \<Rightarrow>
          if doneCaching c then ([], c)
          else let c = c\<lparr>users := ruq_update x ts now (users c)\<rparr> in
               if initialDelay c then ([], c) else emitAll cfg c
      | EvMsg msg \<Rightarrow>
          if doneCaching c then (callHandler cfg [msg], c)
          else let c = c\<lparr>msgs := heap_push TS msg (msgs c)\<rparr> in
               if initialDelay c then ([], c) else emitAll cfg c
      | EvConnected online \<Rightarrow>
          if wasOnline c = online then ([], c)
          else if \<not> online then
            emitAll cfg (c\<lparr>users := snd (dropStale 0 now (users c)), initialDelay := False, wasOnline := online\<rparr>)
          else ([], c\<lparr>doneCaching := False, initialDelay := True, wasOnline := online\<rparr>)
      | EvReload rs \<Rightarrow>
          let c = c\<lparr>msgs := fold (heap_push TS) rs (msgs c)\<rparr> in
          if \<not> doneCaching c then ([], c) else emitAll cfg c
      | EvInitialDelay \<Rightarrow>
          if initialDelay c then emitAll cfg (c\<lparr>initialDelay := False, ticking := True\<rparr>)
          else ([], c)
      | EvTick \<Rightarrow>
          if doneCaching c then ([], c)
          else emitAll cfg (c\<lparr>users := snd (dropStale (maxLifetime cfg) now (users c))\<rparr>))"

fun cacherRun ::
    "cacher_cfg \<Rightarrow> (time \<times> 'm cacher_event) list \<Rightarrow> 'm cacher \<Rightarrow> 'm rgcm list \<times> 'm cacher" where
  "cacherRun cfg [] c = ([], c)"
| "cacherRun cfg ((now, ev) # evs) c =
     (let (out, c) = cacherStep cfg now ev c; (outs, c) = cacherRun cfg evs c in (out @ outs, c))"

section \<open>The queues keep their order\<close>

definition wf_cacher :: "'m cacher \<Rightarrow> bool" where
  "wf_cacher c \<longleftrightarrow> heap_ok TS (msgs c) \<and> heap_ok rmts (users c)"

lemma wf_newCacher: "wf_cacher newCacher"
  by (simp add: wf_cacher_def newCacher_def heap_ok_def is_heap_def)

lemma findUser_Some: "findUser x us = Some k \<Longrightarrow> k < length us \<and> uid (us ! k) = x"
  by (induction us arbitrary: k) (auto split: if_splits)

lemma heap_ok_ruq_update: "heap_ok rmts us \<Longrightarrow> heap_ok rmts (ruq_update x ts now us)"
  by (auto simp: ruq_update_def heap_ok_def heap_fix_ok heap_push_ok dest: findUser_Some split: option.split)

lemma dropStaleLoop_laws:
  "heap_ok rmts us \<Longrightarrow> dropStaleLoop d us k nb = (nb', us') \<Longrightarrow>
   heap_ok rmts us' \<and> mset us' \<subseteq># mset us \<and> nb' + length us' = nb + length us \<and>
   (\<forall>u \<in># mset us - mset us'. updtts u < d)"
proof (induction d us k nb arbitrary: nb' us' rule: dropStaleLoop.induct)
  case (1 d us k nb)
  show ?case
  proof (cases "k < length us \<and> updtts (us ! k) < d")
    case True
    obtain x us1 where r: "heap_remove rmts us k = (x, us1)" by (cases "heap_remove rmts us k")
    have h: "is_heap rmts us (length us)" using 1(3) by (simp add: heap_ok_def)
    note ok = heap_remove_ok [OF h conjunct1 [OF True] r]
    have d1: "dropStaleLoop d us1 k (nb + 1) = (nb', us')"
      using 1(4) True r by (simp add: dropStaleLoop.simps [of d us])
    from 1(1) [of nb' us'] True r ok(1) d1
    have IH: "heap_ok rmts us'" "mset us' \<subseteq># mset us1" "nb' + length us' = nb + 1 + length us1"
      "\<forall>u \<in># mset us1 - mset us'. updtts u < d"
      by (simp_all add: heap_ok_def)
    have "length us = Suc (length us1)" using arg_cong [OF ok(2), of size] by simp
    moreover have "mset us - mset us' = add_mset x (mset us1 - mset us')"
      unfolding ok(2) using subset_mset.add_diff_assoc2 [OF IH(2), of "{#x#}"] by simp
    ultimately show ?thesis
      using IH True ok(2,3) by (auto simp: subset_mset.order_trans [OF IH(2)])
  next
    case False
    with 1(2) [of nb' us'] 1(3,4) show ?thesis
      by (cases "k < length us") (simp_all add: dropStaleLoop.simps [of d us])
  qed
qed

lemma dropStale_laws:
  assumes "heap_ok rmts us" "dropStale life now us = (nb, us')"
  shows "heap_ok rmts us' \<and> mset us' \<subseteq># mset us \<and> nb + length us' = length us \<and>
    (\<forall>u \<in># mset us - mset us'. updtts u < now - life)"
  using dropStaleLoop_laws [OF assms(1), of "now - life" 0 0 nb us'] assms(2) by (simp add: dropStale_def)

lemma dropStale_all:
  "\<forall>u \<in> set us. updtts u < d \<Longrightarrow> heap_ok rmts us \<Longrightarrow> snd (dropStaleLoop d us 0 nb) = []"
proof (induction "length us" arbitrary: us nb)
  case (Suc n)
  then have k: "0 < length us" by linarith
  obtain x us1 where r: "heap_remove rmts us 0 = (x, us1)" by (cases "heap_remove rmts us 0")
  have h: "is_heap rmts us (length us)" using Suc.prems(2) by (simp add: heap_ok_def)
  note ok = heap_remove_ok [OF h k r]
  have "n = length us1" using ok(2) Suc.hyps(2) by (metis size_mset size_add_mset nat.inject)
  moreover have "set us1 \<subseteq> set us" using ok(2) by (metis set_mset_mset set_mset_add_mset_insert subset_insertI)
  moreover have "updtts (us ! 0) < d" using Suc.prems(1) k by simp
  ultimately show ?case
    using Suc.hyps(1) [of us1 "nb + 1"] Suc.prems ok(1) r k
    by (auto simp: dropStaleLoop.simps [of d us] heap_ok_def)
qed (simp add: dropStaleLoop.simps)

section \<open>Emission\<close>

lemma emitAll_laws:
  assumes "wf_cacher c" "has_handler cfg" "emitAll cfg c = (out, c')"
  shows "wf_cacher c'" and "mset (msgs c) = mset out + mset (msgs c')" and "sorted (map TS out)"
    and "\<forall>m \<in> set out. \<forall>m' \<in> set (msgs c'). TS m \<le> TS m'"
    and "msgs c' = [] \<or> \<not> canEmitGCM (TS (msgs c' ! 0)) (users c')"
    and "users c' = users c"
proof -
  let ?go = "\<lambda>ms. length ms > 0 \<and> canEmitGCM (TS (ms ! 0)) (users c)"
  obtain xs ms where d: "drain (length (msgs c)) ?go (heap_pop TS) (msgs c) = (xs, ms)"
    by (cases "drain (length (msgs c)) ?go (heap_pop TS) (msgs c)")
  have e: "out = xs" "msgs c' = ms" "users c' = users c"
    using assms(2,3) d unfolding nextGCM_def emitAll_def callHandler_def
    by (auto simp: nextGCM_def [abs_def] split: prod.splits)
  have ok: "heap_ok TS (msgs c)" using assms(1) by (simp add: wf_cacher_def)
  have ne: "\<And>ms. ?go ms \<Longrightarrow> mset ms \<noteq> {#}" by auto
  from go_heap.drain_laws [OF ok ne d] e assms(1)
  show "wf_cacher c'" "mset (msgs c) = mset out + mset (msgs c')" "sorted (map TS out)"
    "\<forall>m \<in> set out. \<forall>m' \<in> set (msgs c'). TS m \<le> TS m'" "users c' = users c"
    by (auto simp: wf_cacher_def)
  from go_heap.drain_done [OF ok ne d] e
  show "msgs c' = [] \<or> \<not> canEmitGCM (TS (msgs c' ! 0)) (users c')" by auto
qed

text \<open>Every message emitted at the end of an iteration is at most as old as the last message of
  every tracked user.\<close>

lemma drain_emittable:
  assumes "heap_ok rmts us" "heap_ok TS ms"
    and "drain n (\<lambda>ms. length ms > 0 \<and> canEmitGCM (TS (ms ! 0)) us) (heap_pop TS) ms = (xs, ms')"
    and "m \<in> set xs" "u \<in> set us"
  shows "TS m \<le> rmts u"
  using assms(2-4)
proof (induction n arbitrary: ms xs)
  case (Suc n)
  show ?case
  proof (cases "length ms > 0 \<and> canEmitGCM (TS (ms ! 0)) us")
    case True
    obtain x ms1 where p: "heap_pop TS ms = (x, ms1)" by (cases "heap_pop TS ms")
    from Suc.prems(2) True p obtain ys where
      d: "drain n (\<lambda>ms. length ms > 0 \<and> canEmitGCM (TS (ms ! 0)) us) (heap_pop TS) ms1 = (ys, ms')"
      and xs: "xs = x # ys"
      by (auto split: prod.splits)
    have l: "heap_ok TS ms1" "x = ms ! 0"
      using go_heap.pop_law [OF Suc.prems(1) _ p] True by auto
    have "us \<noteq> []" using assms(5) by auto
    then have "TS x \<le> rmts (us ! 0)" using True l(2) by (auto simp: canEmitGCM_def)
    also have "\<dots> \<le> rmts u" using go_heap.top_least [OF assms(1), of u] assms(5) by simp
    finally show ?thesis using Suc.IH [OF l(1) d] Suc.prems(3) xs by auto
  next
    case False
    with Suc.prems(2,3) show ?thesis by auto
  qed
qed simp

lemma emitAll_safe:
  assumes "wf_cacher c" "emitAll cfg c = (out, c')" "m \<in> set out" "u \<in> set (users c')"
  shows "TS m \<le> rmts u"
proof -
  let ?go = "\<lambda>ms. length ms > 0 \<and> canEmitGCM (TS (ms ! 0)) (users c)"
  obtain xs ms where d: "drain (length (msgs c)) ?go (heap_pop TS) (msgs c) = (xs, ms)"
    by (cases "drain (length (msgs c)) ?go (heap_pop TS) (msgs c)")
  have e: "set out \<subseteq> set xs" "users c' = users c"
    using assms(2) d unfolding nextGCM_def emitAll_def callHandler_def
    by (auto simp: nextGCM_def [abs_def] split: prod.splits if_splits)
  from drain_emittable [OF _ _ d] assms e show ?thesis by (auto simp: wf_cacher_def)
qed

section \<open>Iterations\<close>

definition arrivals :: "'m cacher_event \<Rightarrow> 'm rgcm multiset" where
  "arrivals ev = (case ev of EvMsg m \<Rightarrow> {#m#} | EvReload rs \<Rightarrow> mset rs | _ \<Rightarrow> {#})"

text \<open>An iteration either passes a message on, or changes the queues without emitting, or changes
  them and ends with \<open>emitAll\<close>.\<close>

lemma cacherStep_cases:
  assumes "wf_cacher c" "cacherStep cfg now ev c = (out, c')"
  obtains (direct) msg where "doneCaching c" "ev = EvMsg msg" "out = callHandler cfg [msg]" "c' = c"
  | (quiet) "wf_cacher c'" "out = []" "mset (msgs c') = arrivals ev + mset (msgs c)"
  | (emit) c1 where "wf_cacher c1" "mset (msgs c1) = arrivals ev + mset (msgs c)" "emitAll cfg c1 = (out, c')"
proof -
  have ok: "heap_ok TS (msgs c)" "heap_ok rmts (users c)" using assms(1) by (simp_all add: wf_cacher_def)
  note push = go_heap.push_ok [OF ok(1)] go_heap.push_contents [OF ok(1)] go_heap.push_all [OF ok(1)]
  have drop: "heap_ok rmts (snd (dropStale life now (users c)))" for life
    using dropStale_laws [OF ok(2)] by (metis prod.collapse)
  define c1 where "c1 = (case ev of
      EvRM x ts \<Rightarrow> c\<lparr>users := ruq_update x ts now (users c)\<rparr>
    | EvMsg m \<Rightarrow> c\<lparr>msgs := heap_push TS m (msgs c)\<rparr>
    | EvConnected b \<Rightarrow> c\<lparr>users := snd (dropStale 0 now (users c)), initialDelay := False, wasOnline := b\<rparr>
    | EvReload rs \<Rightarrow> c\<lparr>msgs := fold (heap_push TS) rs (msgs c)\<rparr>
    | EvInitialDelay \<Rightarrow> c\<lparr>initialDelay := False, ticking := True\<rparr>
    | EvTick \<Rightarrow> c\<lparr>users := snd (dropStale (maxLifetime cfg) now (users c))\<rparr>)"
  have c1: "wf_cacher c1" "mset (msgs c1) = arrivals ev + mset (msgs c)"
    using ok push drop heap_ok_ruq_update [OF ok(2)]
    by (auto simp: c1_def wf_cacher_def arrivals_def split: cacher_event.split)
  have "(\<exists>msg. doneCaching c \<and> ev = EvMsg msg \<and> out = callHandler cfg [msg] \<and> c' = c) \<or>
      out = [] \<and> (c' = c1 \<or> (c' = c \<or> c' = c\<lparr>doneCaching := False, initialDelay := True, wasOnline := True\<rparr>) \<and>
        arrivals ev = {#}) \<or> emitAll cfg c1 = (out, c')"
    using assms(2) by (cases ev) (auto simp: cacherStep_def c1_def arrivals_def Let_def split: if_splits)
  then show thesis
    using direct quiet emit [OF c1] c1 assms(1) by (auto simp: wf_cacher_def)
qed

lemma cacherStep_conserves:
  assumes "wf_cacher c" "has_handler cfg" "cacherStep cfg now ev c = (out, c')"
  shows "wf_cacher c' \<and> mset out + mset (msgs c') = arrivals ev + mset (msgs c)"
  using assms(1,3)
proof (cases rule: cacherStep_cases)
  case (emit c1)
  with emitAll_laws(1,2) [OF emit(1) assms(2) emit(3)] show ?thesis by simp
qed (use assms in \<open>simp_all add: callHandler_def arrivals_def\<close>)

lemma cacherRun_conserves:
  assumes "wf_cacher c" "has_handler cfg" "cacherRun cfg evs c = (out, c')"
  shows "wf_cacher c' \<and> mset out + mset (msgs c') = (\<Sum>(now, ev)\<leftarrow>evs. arrivals ev) + mset (msgs c)"
  using assms(1,3)
proof (induction evs arbitrary: c out)
  case (Cons e evs)
  obtain now ev where e: "e = (now, ev)" by (cases e)
  obtain o1 c1 where s: "cacherStep cfg now ev c = (o1, c1)" by (cases "cacherStep cfg now ev c")
  obtain o2 c2 where r: "cacherRun cfg evs c1 = (o2, c2)" by (cases "cacherRun cfg evs c1")
  have o: "out = o1 @ o2" "c' = c2" using Cons.prems(2) e s r by simp_all
  have w: "wf_cacher c1" "mset o1 + mset (msgs c1) = arrivals ev + mset (msgs c)"
    using cacherStep_conserves [OF Cons.prems(1) assms(2) s] by simp_all
  have "wf_cacher c2 \<and> mset o2 + mset (msgs c2) = (\<Sum>(now, ev)\<leftarrow>evs. arrivals ev) + mset (msgs c1)"
    using Cons.IH [OF w(1)] r o(2) by simp
  with w(2) o e show ?case by (simp add: add.assoc)
qed simp

section \<open>Properties\<close>

text \<open>C38: The cacher neither loses nor repeats a message. Over any run of events from any well-formed
  state, the messages handed to the handler together with those still cached are exactly those
  that were received or reloaded and those cached before.\<close>

theorem cacher_conserves:
  assumes "wf_cacher c" "has_handler cfg" "cacherRun cfg evs c = (out, c')"
  shows "mset out + mset (msgs c') = (\<Sum>(now, ev)\<leftarrow>evs. arrivals ev) + mset (msgs c)"
  using cacherRun_conserves [OF assms] by blast

definition ex_cfg :: cacher_cfg where
  "ex_cfg = \<lparr>maxLifetime = 5, has_handler = True\<rparr>"

theorem cacher_conserves_witness:
  "\<exists>out c'. cacherRun ex_cfg [(1, EvConnected True), (2, EvMsg \<lparr>TS = 9, body = ()\<rparr>), (3, EvInitialDelay)] newCacher =
     (out, c') \<and> mset out + mset (msgs c') = {#\<lparr>TS = 9, body = ()\<rparr>#}"
proof -
  let ?evs = "[(1, EvConnected True), (2, EvMsg \<lparr>TS = 9, body = ()\<rparr>), (3, EvInitialDelay)]"
  obtain out c' where r: "cacherRun ex_cfg ?evs newCacher = (out, c')" by (cases "cacherRun ex_cfg ?evs newCacher")
  have h: "has_handler ex_cfg" by (simp add: ex_cfg_def)
  have "mset out + mset (msgs c') = {#\<lparr>TS = 9, body = ()\<rparr>#}"
    using cacher_conserves [OF wf_newCacher h r] by (simp add: arrivals_def newCacher_def)
  with r show ?thesis by blast
qed

text \<open>Messages come out in order. While the cacher caches, what one iteration hands to the handler
  is sorted by timestamp, no message that stays cached is older, no tracked user has sent its last
  message before any of them, and the iteration stops only when nothing more can be emitted.\<close>

theorem cacher_ordered:
  assumes "wf_cacher c" "has_handler cfg" "\<not> doneCaching c" "cacherStep cfg now ev c = (out, c')"
  shows "sorted (map TS out) \<and> (\<forall>m \<in> set out. \<forall>m' \<in> set (msgs c'). TS m \<le> TS m') \<and>
    (\<forall>m \<in> set out. \<forall>u \<in> set (users c'). TS m \<le> rmts u) \<and>
    (out \<noteq> [] \<longrightarrow> msgs c' = [] \<or> \<not> canEmitGCM (TS (msgs c' ! 0)) (users c'))"
  using assms(1,4)
proof (cases rule: cacherStep_cases)
  case (emit c1)
  with emitAll_laws [OF emit(1) assms(2) emit(3)] emitAll_safe [OF emit(1,3)] show ?thesis by blast
qed (use assms(3) in auto)

definition ex_caching :: "unit cacher" where
  "ex_caching = newCacher\<lparr>msgs := [\<lparr>TS = 3, body = ()\<rparr>, \<lparr>TS = 7, body = ()\<rparr>],
     users := [\<lparr>uid = [], rmts = 5, updtts = 0\<rparr>], initialDelay := True\<rparr>"

theorem cacher_ordered_witness:
  "\<exists>out c'. cacherStep ex_cfg 1 EvInitialDelay ex_caching = (out, c') \<and>
    (\<forall>m \<in> set out. \<forall>u \<in> set (users c'). TS m \<le> rmts u)"
proof -
  obtain out c' where s: "cacherStep ex_cfg 1 EvInitialDelay ex_caching = (out, c')"
    by (cases "cacherStep ex_cfg 1 EvInitialDelay ex_caching")
  have "wf_cacher ex_caching" "has_handler ex_cfg" "\<not> doneCaching ex_caching"
    by (auto simp: ex_caching_def newCacher_def ex_cfg_def wf_cacher_def heap_ok_def is_heap_def ord_at_def
        parent_def less_Suc_eq)
  from cacher_ordered [OF this s] s show ?thesis by blast
qed

text \<open>\<open>dropStale\<close> drops only users whose last message was received before the deadline, counts
  them, and keeps the heap; when every user is stale none stays.\<close>

theorem dropStale_only_stale:
  assumes "heap_ok rmts us" "dropStale life now us = (nb, us')"
  shows "heap_ok rmts us' \<and> mset us' \<subseteq># mset us \<and> nb + length us' = length us \<and>
    (\<forall>u \<in># mset us - mset us'. updtts u < now - life) \<and>
    ((\<forall>u \<in> set us. updtts u < now - life) \<longrightarrow> us' = [])"
  using dropStale_laws [OF assms] dropStale_all [of us "now - life" 0] assms
  by (simp add: dropStale_def)

theorem dropStale_only_stale_witness:
  "\<exists>nb us'. dropStale 5 10 [\<lparr>uid = [], rmts = 1, updtts = 2\<rparr>] = (nb, us') \<and> us' = []"
proof -
  let ?us = "[\<lparr>uid = [], rmts = 1, updtts = 2\<rparr>]"
  obtain nb us' where d: "dropStale 5 10 ?us = (nb, us')" by (cases "dropStale 5 10 ?us")
  have "heap_ok rmts ?us" by (simp add: heap_ok_def is_heap_def)
  from dropStale_only_stale [OF this d] d show ?thesis by simp
qed

definition ex_users :: "remoteUser list" where
  "ex_users = map (\<lambda>(r, t). \<lparr>uid = [], rmts = r, updtts = t\<rparr>)
     [(1, 9), (10, 9), (2, 9), (11, 0), (12, 9), (3, 9), (4, 0)]"

text \<open>\<open>dropStale\<close> may leave a stale user behind: removing an element can sift the one that takes
  its place up past the loop's index, and that one is not looked at.\<close>

theorem dropStale_misses:
  "heap_ok rmts ex_users \<and> (\<exists>u \<in> set (snd (dropStale 5 10 ex_users)). updtts u < 10 - 5)"
  by code_simp

end
