(* ===== verification/Multipriq.thy ===== *)
theory Multipriq
  imports BR_Prelude
begin

text \<open>
  The multi-priority queue of the client's send loop
  (\<^verbatim>\<open>src/client/internal/multipriq/multipriq.go\<close>): five lanes, a pointer to the lane the next value
  comes from, and a 64-bit counter that decides which lane is next. A lane that is nil and a lane
  that is empty behave alike and are both the empty list. The search for the next lane is a loop
  that ends when some lane has a value; \<open>None\<close> is the loop that never ends.

  The lanes are first-in first-out queues, and no value waits forever: it is popped after at most
  129 pops per value that stands in its lane up to and including itself.
\<close>

definition revPriorities :: "nat list" where
  "revPriorities = [128, 32, 8, 2, 1]"

record 'a mpq =
  lanes :: "'a list list"
  l :: nat
  len :: nat
  i :: u64

definition emptyQ :: "'a mpq" where
  "emptyQ = \<lparr>lanes = replicate 5 [], l = 0, len = 0, i = 0\<rparr>"

text \<open>\<open>None\<close> is the panic on a priority of 5 or more.\<close>

definition PushQ :: "'a \<Rightarrow> nat \<Rightarrow> 'a mpq \<Rightarrow> 'a mpq option" where
  "PushQ v pri q =
     (if pri \<ge> length revPriorities then None
      else
        let q = q\<lparr>lanes := (lanes q)[pri := lanes q ! pri @ [v]]\<rparr>;
            q = (if len q = 0 then q\<lparr>i := 0, l := pri\<rparr> else q)
        in Some (q\<lparr>len := len q + 1\<rparr>))"

definition PeekQ :: "'a mpq \<Rightarrow> 'a option" where
  "PeekQ q = (if len q = 0 then None else Some (hd (lanes q ! l q)))"

text \<open>The inner loop of \<open>advance\<close>, over \<open>revPriorities\<close> with its index.\<close>

fun pickLane :: "'a list list \<Rightarrow> u64 \<Rightarrow> (nat \<times> nat) list \<Rightarrow> nat option" where
  "pickLane ls c [] = None"
| "pickLane ls c ((k, pri) # rest) =
     (let lane = length revPriorities - k - 1 in
      if ls ! lane = [] then pickLane ls c rest
      else if unat c mod pri = 0 then Some lane
      else pickLane ls c rest)"

partial_function (option) advance :: "'a mpq \<Rightarrow> 'a mpq option" where
  "advance q =
     (let q = q\<lparr>i := i q + 1\<rparr> in
      case pickLane (lanes q) (i q) (enumerate 0 revPriorities) of
        Some lane \<Rightarrow> Some (q\<lparr>l := lane\<rparr>)
      | None \<Rightarrow> advance q)"

definition PopQ :: "'a mpq \<Rightarrow> ('a option \<times> 'a mpq) option" where
  "PopQ q =
     (if len q = 0 then Some (None, q)
      else
        let v = hd (lanes q ! l q);
            q = q\<lparr>lanes := (lanes q)[l q := tl (lanes q ! l q)], len := len q - 1\<rparr>
        in if len q \<noteq> 0
           then (case advance q of None \<Rightarrow> None | Some q \<Rightarrow> Some (Some v, q))
           else Some (Some v, q))"

definition LenQ :: "'a mpq \<Rightarrow> nat" where
  "LenQ q = len q"

section \<open>Invariant\<close>

definition wf_mpq :: "'a mpq \<Rightarrow> bool" where
  "wf_mpq q \<longleftrightarrow>
     length (lanes q) = 5 \<and> len q = sum_list (map length (lanes q)) \<and> l q < 5 \<and>
     (len q \<noteq> 0 \<longrightarrow> lanes q ! l q \<noteq> [])"

lemma wf_emptyQ: "wf_mpq emptyQ"
  by (simp add: wf_mpq_def emptyQ_def)

lemma sum_lanes_zero: "sum_list (map length ls) = (0 :: nat) \<longleftrightarrow> (\<forall>x \<in> set ls. x = [])"
  by (induction ls) auto

lemma sum_lanes_update:
  assumes "k < length ls"
  shows "sum_list (map length (ls[k := x])) + length (ls ! k) = sum_list (map length ls) + (length x :: nat)"
  using assms
proof (induction ls arbitrary: k)
  case (Cons a ls)
  then show ?case by (cases k) auto
qed simp

text \<open>The weight of a lane.\<close>

definition weight :: "nat \<Rightarrow> nat" where
  "weight lane = revPriorities ! (4 - lane)"

lemma enumerate_priorities:
  "enumerate 0 revPriorities = [(0, 128), (1, 32), (2, 8), (3, 2), (4, 1)]"
  by (simp add: revPriorities_def numeral_eq_Suc)

lemma length_revPriorities: "length revPriorities = 5"
  by (simp add: revPriorities_def)

lemma pickLane_eq:
  "pickLane ls c (enumerate 0 revPriorities) =
     (if ls ! 4 \<noteq> [] \<and> unat c mod 128 = 0 then Some 4
      else if ls ! 3 \<noteq> [] \<and> unat c mod 32 = 0 then Some 3
      else if ls ! 2 \<noteq> [] \<and> unat c mod 8 = 0 then Some 2
      else if ls ! 1 \<noteq> [] \<and> unat c mod 2 = 0 then Some 1
      else if ls ! 0 \<noteq> [] then Some 0 else None)"
  unfolding enumerate_priorities by (simp add: length_revPriorities Let_def)

lemma pickLane_nonempty:
  assumes "pickLane ls c (enumerate 0 revPriorities) = Some lane"
  shows "lane < 5" and "ls ! lane \<noteq> []"
  using assms by (auto simp: pickLane_eq split: if_splits)

lemma lane_cases: "(lane :: nat) < 5 \<Longrightarrow> lane = 0 \<or> lane = 1 \<or> lane = 2 \<or> lane = 3 \<or> lane = 4"
  by auto

text \<open>When the counter is congruent to a lane's weight modulo 128, that lane is picked if it has a
  value.\<close>

lemma mod_of_mod128:
  fixes n :: nat
  assumes "n mod 128 = w mod 128" "p dvd 128"
  shows "n mod p = w mod p"
  using assms by (metis mod_mod_cancel)

lemma pickLane_turn:
  assumes "lane < 5" "ls ! lane \<noteq> []" "unat c mod 128 = weight lane mod 128"
  shows "pickLane ls c (enumerate 0 revPriorities) = Some lane"
proof -
  have m: "unat c mod 32 = weight lane mod 32" "unat c mod 8 = weight lane mod 8" "unat c mod 2 = weight lane mod 2"
    using assms(3) by (auto intro: mod_of_mod128)
  from lane_cases [OF assms(1)] assms(2,3) m show ?thesis
    unfolding pickLane_eq by (elim disjE) (simp_all add: weight_def revPriorities_def)
qed

section \<open>The search ends\<close>

text \<open>The counts until the counter is next congruent to the weight of the lane.\<close>

definition turns :: "nat \<Rightarrow> u64 \<Rightarrow> nat" where
  "turns lane c = (weight lane + 127 - unat c mod 128) mod 128 + 1"

lemma turns_bounds: "1 \<le> turns lane c" "turns lane c \<le> 128"
  by (simp_all add: turns_def)

lemma unat_Suc_mod128: "unat (c + 1 :: u64) mod 128 = (unat c mod 128 + 1) mod 128"
proof -
  have "unat (c + 1) = (unat c + 1) mod 2 ^ 64" by (simp add: unat_word_ariths)
  then have "unat (c + 1) mod 128 = (unat c + 1) mod 128"
    using mod_mod_cancel [of 128 "2 ^ 64" "unat c + 1"] by simp
  then show ?thesis by (simp add: mod_simps)
qed

lemma turns_step:
  assumes "lane < 5"
  shows "unat (c + 1) mod 128 = weight lane mod 128 \<or> turns lane (c + 1) + 1 = turns lane c"
proof -
  define m where "m = unat c mod 128"
  have m: "m < 128" by (simp add: m_def)
  have s: "unat (c + 1) mod 128 = (m + 1) mod 128" by (simp add: unat_Suc_mod128 m_def)
  have w: "1 \<le> weight lane" "weight lane \<le> 128"
    using lane_cases [OF assms] by (auto simp: weight_def revPriorities_def)
  show ?thesis
  proof (cases "(m + 1) mod 128 = weight lane mod 128")
    case False
    have "(weight lane + 127 - (m + 1) mod 128) mod 128 + 1 = (weight lane + 127 - m) mod 128"
    proof (cases "m = 127")
      case True
      with False w have "weight lane < 128" by (cases "weight lane = 128") auto
      with True w show ?thesis by (simp add: mod_if) linarith
    next
      case ne: False
      with m have m1: "(m + 1) mod 128 = m + 1" by simp
      have "weight lane \<noteq> m + 1" using False m1 by (auto simp: mod_if split: if_splits)
      with ne m m1 w show ?thesis by (cases "m < weight lane") (auto simp: mod_if)
    qed
    then show ?thesis by (simp add: turns_def s m_def [symmetric])
  qed (simp add: s)
qed

lemma advance_lane:
  assumes "lane < 5" "lanes q ! lane \<noteq> []"
  shows "\<exists>q'. advance q = Some q' \<and> lanes q' = lanes q \<and> len q' = len q \<and> l q' < 5 \<and>
    lanes q ! l q' \<noteq> [] \<and> (l q' = lane \<or> turns lane (i q') < turns lane (i q))"
  using assms(2)
proof (induction "turns lane (i q)" arbitrary: q rule: less_induct)
  case less
  let ?q = "q\<lparr>i := i q + 1\<rparr>"
  show ?case
  proof (cases "pickLane (lanes q) (i q + 1) (enumerate 0 revPriorities)")
    case (Some k)
    have adv: "advance q = Some (?q\<lparr>l := k\<rparr>)" by (simp add: advance.simps [of q] Some)
    have "k = lane \<or> turns lane (i q + 1) < turns lane (i q)"
      using turns_step [OF assms(1), of "i q"] pickLane_turn [OF assms(1) less.prems, of "i q + 1"] Some by auto
    with adv pickLane_nonempty [OF Some] show ?thesis by simp
  next
    case None
    have adv: "advance q = advance ?q" by (simp add: advance.simps [of q] None)
    have lt: "turns lane (i ?q) < turns lane (i q)"
      using turns_step [OF assms(1), of "i q"] pickLane_turn [OF assms(1) less.prems, of "i q + 1"] None by auto
    from less.hyps [OF this] less.prems adv lt show ?thesis by fastforce
  qed
qed

section \<open>The operations\<close>

lemma PushQ_ok:
  assumes "wf_mpq q" "pri < 5"
  obtains q' where "PushQ v pri q = Some q'" "wf_mpq q'" "lanes q' = (lanes q)[pri := lanes q ! pri @ [v]]"
    "len q' = len q + 1" "len q \<noteq> 0 \<Longrightarrow> l q' = l q \<and> i q' = i q"
proof
  have p: "pri < length revPriorities" using assms(2) by (simp add: revPriorities_def)
  let ?q = "(if len q = 0 then q\<lparr>i := 0, l := pri\<rparr> else q)
      \<lparr>lanes := (lanes q)[pri := lanes q ! pri @ [v]], len := len q + 1\<rparr>"
  show "PushQ v pri q = Some ?q" using p by (simp add: PushQ_def Let_def)
  show "wf_mpq ?q"
    using assms sum_lanes_update [of pri "lanes q" "lanes q ! pri @ [v]"]
    by (auto simp: wf_mpq_def nth_list_update)
qed (use assms in auto)

lemma PopQ_ok:
  assumes "wf_mpq q" "len q \<noteq> 0"
  obtains q' where "PopQ q = Some (Some (hd (lanes q ! l q)), q')" "wf_mpq q'"
    "lanes q' = (lanes q)[l q := tl (lanes q ! l q)]" "len q' = len q - 1"
    "\<And>lane. lane < 5 \<Longrightarrow> lanes q' ! lane \<noteq> [] \<Longrightarrow> l q' = lane \<or> turns lane (i q') < turns lane (i q)"
proof -
  let ?q = "q\<lparr>lanes := (lanes q)[l q := tl (lanes q ! l q)], len := len q - 1\<rparr>"
  have ne: "lanes q ! l q \<noteq> []" and lq: "l q < length (lanes q)" using assms by (auto simp: wf_mpq_def)
  have sum: "len q - 1 = sum_list (map length (lanes ?q))"
    using sum_lanes_update [OF lq, of "tl (lanes q ! l q)"] ne assms(1) by (simp add: wf_mpq_def) (cases "lanes q ! l q", auto)
  show thesis
  proof (cases "len q = 1")
    case True
    then have "\<forall>x \<in> set (lanes ?q). x = []" using sum by (simp add: sum_lanes_zero)
    then have "lane < 5 \<Longrightarrow> lanes ?q ! lane = []" for lane using assms(1) by (auto simp: wf_mpq_def)
    with True sum assms(1) show ?thesis
      by (intro that [of ?q]) (auto simp: PopQ_def wf_mpq_def Let_def)
  next
    case False
    then have "sum_list (map length (lanes ?q)) \<noteq> 0" using assms(2) sum by linarith
    then obtain x where "x \<in> set (lanes ?q)" "x \<noteq> []" unfolding sum_lanes_zero by blast
    then obtain k where k: "k < 5" "lanes ?q ! k \<noteq> []"
      using assms(1) by (auto simp: in_set_conv_nth wf_mpq_def)
    from advance_lane [OF k] obtain q' where q': "advance ?q = Some q'" "lanes q' = lanes ?q" "len q' = len ?q"
      "l q' < 5" "lanes q' ! l q' \<noteq> []" by auto
    have turn: "l q' = lane \<or> turns lane (i q') < turns lane (i q)" if "lane < 5" "lanes q' ! lane \<noteq> []" for lane
      using advance_lane [OF that(1), of ?q] that(2) q'(1,2) by auto
    have "PopQ q = Some (Some (hd (lanes q ! l q)), q')"
      using False assms(2) q'(1) by (simp add: PopQ_def Let_def)
    moreover have "wf_mpq q'" using q' sum assms(1) by (simp add: wf_mpq_def)
    ultimately show ?thesis using q'(2,3) turn by (intro that [of q']) auto
  qed
qed

section \<open>Runs\<close>

datatype 'a mpq_op = OpPush 'a nat | OpPop

text \<open>A run of operations, with the values popped and the lane each came from.\<close>

fun runQ :: "'a mpq_op list \<Rightarrow> 'a mpq \<Rightarrow> ((nat \<times> 'a) list \<times> 'a mpq) option" where
  "runQ [] q = Some ([], q)"
| "runQ (OpPush v pri # ops) q =
     (case PushQ v pri q of None \<Rightarrow> None | Some q \<Rightarrow> runQ ops q)"
| "runQ (OpPop # ops) q =
     (case PopQ q of
        None \<Rightarrow> None
      | Some (None, q') \<Rightarrow> runQ ops q'
      | Some (Some v, q') \<Rightarrow> map_option (apfst (Cons (l q, v))) (runQ ops q'))"

definition pushedTo :: "nat \<Rightarrow> 'a mpq_op list \<Rightarrow> 'a list" where
  "pushedTo lane ops = concat (map (\<lambda>op. case op of OpPush v pri \<Rightarrow> if pri = lane then [v] else [] | OpPop \<Rightarrow> []) ops)"

definition poppedFrom :: "nat \<Rightarrow> (nat \<times> 'a) list \<Rightarrow> 'a list" where
  "poppedFrom lane outs = map snd (filter (\<lambda>(k, v). k = lane) outs)"

definition allowed :: "'a mpq_op \<Rightarrow> bool" where
  "allowed op = (case op of OpPush v pri \<Rightarrow> pri < 5 | OpPop \<Rightarrow> True)"

definition nPops :: "'a mpq_op list \<Rightarrow> nat" where
  "nPops ops = length (filter (\<lambda>op. case op of OpPop \<Rightarrow> True | _ \<Rightarrow> False) ops)"

lemma PopQ_empty: "len q = 0 \<Longrightarrow> PopQ q = Some (None, q)"
  by (simp add: PopQ_def)

lemma runQ_lanes:
  assumes "wf_mpq q" "\<forall>op \<in> set ops. allowed op"
  shows "\<exists>outs q'. runQ ops q = Some (outs, q') \<and> wf_mpq q' \<and>
    (\<forall>lane < 5. poppedFrom lane outs @ lanes q' ! lane = lanes q ! lane @ pushedTo lane ops)"
  using assms
proof (induction ops arbitrary: q)
  case (Cons op ops)
  have len5: "length (lanes q) = 5" and l5: "l q < 5" using Cons.prems(1) by (simp_all add: wf_mpq_def)
  show ?case
  proof (cases op)
    case (OpPush v pri)
    then have "pri < 5" using Cons.prems(2) by (simp add: allowed_def)
    then obtain q1 where q1: "PushQ v pri q = Some q1" "wf_mpq q1" "lanes q1 = (lanes q)[pri := lanes q ! pri @ [v]]"
      by (rule PushQ_ok [OF Cons.prems(1)])
    with Cons.IH [OF q1(2)] Cons.prems(2) OpPush len5 show ?thesis
      by (auto simp: pushedTo_def nth_list_update)
  next
    case OpPop
    show ?thesis
    proof (cases "len q = 0")
      case True
      with Cons.IH [OF Cons.prems(1)] Cons.prems(2) OpPop show ?thesis by (auto simp: PopQ_empty pushedTo_def)
    next
      case False
      then obtain q1 where q1: "PopQ q = Some (Some (hd (lanes q ! l q)), q1)" "wf_mpq q1"
        "lanes q1 = (lanes q)[l q := tl (lanes q ! l q)]"
        by (rule PopQ_ok [OF Cons.prems(1)])
      have "lanes q ! l q \<noteq> []" using False Cons.prems(1) by (simp add: wf_mpq_def)
      with Cons.IH [OF q1(2)] Cons.prems(2) OpPop len5 l5 q1(1,3) show ?thesis
        by (auto simp: pushedTo_def poppedFrom_def nth_list_update split: if_splits)
    qed
  qed
qed (simp add: poppedFrom_def pushedTo_def)

text \<open>A bound on the pops before a value at position \<open>p\<close> of a lane is reached.\<close>

definition patience :: "nat \<Rightarrow> nat \<Rightarrow> 'a mpq \<Rightarrow> nat" where
  "patience lane p q = (if l q = lane then 0 else turns lane (i q)) + 129 * p"

lemma patience_le: "patience lane p q \<le> 128 + 129 * p"
  using turns_bounds(2) [of lane "i q"] by (simp add: patience_def)

lemma runQ_reaches:
  assumes "wf_mpq q" "\<forall>op \<in> set ops. allowed op" "lane < 5" "p < length (lanes q ! lane)"
    and "patience lane p q < nPops ops" "runQ ops q = Some (outs, q')"
  shows "p < length (poppedFrom lane outs)"
  using assms
proof (induction ops arbitrary: q p outs)
  case (Cons op ops)
  have len5: "length (lanes q) = 5" using Cons.prems(1) by (simp add: wf_mpq_def)
  have ne: "len q \<noteq> 0"
  proof
    assume "len q = 0"
    then have "\<forall>x \<in> set (lanes q). x = []" using Cons.prems(1) by (simp add: wf_mpq_def sum_lanes_zero)
    then have "lanes q ! lane = []" using Cons.prems(3) len5 by simp
    with Cons.prems(4) show False by simp
  qed
  show ?case
  proof (cases op)
    case (OpPush v pri)
    then have "pri < 5" using Cons.prems(2) by (simp add: allowed_def)
    then obtain q1 where q1: "PushQ v pri q = Some q1" "wf_mpq q1" "lanes q1 = (lanes q)[pri := lanes q ! pri @ [v]]"
      "l q1 = l q \<and> i q1 = i q"
      using PushQ_ok [OF Cons.prems(1), of pri v] ne by metis
    have "p < length (lanes q1 ! lane)"
      using q1(3) Cons.prems(3,4) len5 by (cases "lane = pri") simp_all
    moreover have "patience lane p q1 = patience lane p q" using q1(4) by (simp add: patience_def)
    ultimately show ?thesis
      using Cons.IH [OF q1(2) _ Cons.prems(3)] Cons.prems(2,5,6) OpPush q1(1) by (simp add: nPops_def)
  next
    case OpPop
    obtain q1 where q1: "PopQ q = Some (Some (hd (lanes q ! l q)), q1)" "wf_mpq q1"
      "lanes q1 = (lanes q)[l q := tl (lanes q ! l q)]"
      "\<And>lane. lane < 5 \<Longrightarrow> lanes q1 ! lane \<noteq> [] \<Longrightarrow> l q1 = lane \<or> turns lane (i q1) < turns lane (i q)"
      by (rule PopQ_ok [OF Cons.prems(1) ne]) blast
    from Cons.prems(6) OpPop q1(1) obtain outs1 where
      r: "runQ ops q1 = Some (outs1, q')" and outs: "outs = (l q, hd (lanes q ! l q)) # outs1"
      by auto
    have n: "nPops (op # ops) = Suc (nPops ops)" using OpPop by (simp add: nPops_def)
    have ops: "\<forall>op \<in> set ops. allowed op" using Cons.prems(2) by simp
    show ?thesis
    proof (cases "l q = lane")
      case True
      show ?thesis
      proof (cases p)
        case 0
        then show ?thesis using True outs by (simp add: poppedFrom_def)
      next
        case (Suc p')
        then have "p' < length (lanes q1 ! lane)"
          using Cons.prems(3,4) True len5 q1(3) by auto
        moreover have "patience lane p' q1 < nPops ops"
          using patience_le [of lane p' q1] Cons.prems(5) n True Suc by (simp add: patience_def)
        ultimately have "p' < length (poppedFrom lane outs1)"
          using Cons.IH [OF q1(2) ops Cons.prems(3) _ _ r] by blast
        then show ?thesis using Suc True outs by (simp add: poppedFrom_def)
      qed
    next
      case False
      then have p: "p < length (lanes q1 ! lane)" using Cons.prems(4) q1(3) by simp
      then have "l q1 = lane \<or> turns lane (i q1) < turns lane (i q)"
        using q1(4) [OF Cons.prems(3)] by (cases "lanes q1 ! lane") auto
      then have "patience lane p q1 < nPops ops"
        using Cons.prems(5) n False turns_bounds(1) [of lane "i q"] by (auto simp: patience_def)
      from Cons.IH [OF q1(2) ops Cons.prems(3) p this r] show ?thesis
        using outs False by (simp add: poppedFrom_def)
    qed
  qed
qed (simp add: nPops_def)

section \<open>Properties\<close>

text \<open>The queue is five first-in first-out lanes. Every run of pushes (with a priority below 5) and
  pops returns, and for each lane the values popped from it, followed by those it still holds, are
  the values it held followed by those pushed to it, in order: nothing is lost, repeated or
  overtaken within a lane.\<close>

theorem multipriq_fifo:
  assumes "wf_mpq q" "\<forall>op \<in> set ops. allowed op"
  shows "\<exists>outs q'. runQ ops q = Some (outs, q') \<and> wf_mpq q' \<and>
    (\<forall>lane < 5. poppedFrom lane outs @ lanes q' ! lane = lanes q ! lane @ pushedTo lane ops)"
  by (rule runQ_lanes [OF assms])

theorem multipriq_fifo_witness:
  "\<exists>outs q'. runQ [OpPush (7 :: nat) 4, OpPush 8 0, OpPop, OpPop] emptyQ = Some (outs, q') \<and>
    poppedFrom 4 outs @ lanes q' ! 4 = [7]"
proof -
  have a: "\<forall>op \<in> set [OpPush (7 :: nat) 4, OpPush 8 0, OpPop, OpPop]. allowed op" by (simp add: allowed_def)
  obtain outs q' where
    "runQ [OpPush (7 :: nat) 4, OpPush 8 0, OpPop, OpPop] emptyQ = Some (outs, q')"
    "\<forall>lane < 5. poppedFrom lane outs @ lanes q' ! lane = lanes emptyQ ! lane @ pushedTo lane [OpPush 7 4, OpPush 8 0, OpPop, OpPop]"
    using multipriq_fifo [OF wf_emptyQ a] by blast
  then show ?thesis by (auto simp: pushedTo_def emptyQ_def)
qed

text \<open>C39: No lane starves. The value at position \<open>p\<close> of any lane, of any priority, has been popped after
  129 * (p + 1) pops, whatever is pushed in between.\<close>

theorem multipriq_no_starvation:
  assumes "wf_mpq q" "\<forall>op \<in> set ops. allowed op" "lane < 5" "p < length (lanes q ! lane)"
    and "129 * (p + 1) \<le> nPops ops" "runQ ops q = Some (outs, q')"
  shows "p < length (poppedFrom lane outs) \<and> poppedFrom lane outs ! p = lanes q ! lane ! p"
proof -
  have p: "p < length (poppedFrom lane outs)"
    using runQ_reaches [OF assms(1-4) _ assms(6)] patience_le [of lane p q] assms(5) by simp
  have "poppedFrom lane outs @ lanes q' ! lane = lanes q ! lane @ pushedTo lane ops"
    using runQ_lanes [OF assms(1,2)] assms(3,6) by auto
  with p assms(4) show ?thesis by (metis nth_append)
qed

definition ex_queue :: "nat mpq" where
  "ex_queue = \<lparr>lanes = [[1], [], [], [], [9]], l = 0, len = 2, i = 0\<rparr>"

theorem multipriq_no_starvation_witness:
  "\<exists>outs q'. runQ (replicate 129 OpPop) ex_queue = Some (outs, q') \<and>
    0 < length (poppedFrom 4 outs) \<and> poppedFrom 4 outs ! 0 = 9"
proof -
  have w: "wf_mpq ex_queue" by (simp add: wf_mpq_def ex_queue_def)
  have a: "\<forall>op \<in> set (replicate 129 (OpPop :: nat mpq_op)). allowed op" by (simp add: allowed_def)
  obtain outs q' where r: "runQ (replicate 129 OpPop) ex_queue = Some (outs, q')"
    using runQ_lanes [OF w a] by blast
  from multipriq_no_starvation [OF w a, of 4 0, OF _ _ _ r] r show ?thesis
    by (simp add: ex_queue_def nPops_def)
qed

section \<open>The contract of a work queue\<close>

text \<open>What the send queue of the client relies on: a pushed value is held until it is popped, a queue
  that holds values pops one of them, and the length counts them.\<close>

locale work_queue =
  fixes ok :: "'q \<Rightarrow> bool"
    and items :: "'q \<Rightarrow> 'a multiset"
    and size_of :: "'q \<Rightarrow> nat"
    and push :: "'a \<Rightarrow> nat \<Rightarrow> 'q \<Rightarrow> 'q option"
    and pop :: "'q \<Rightarrow> ('a option \<times> 'q) option"
    and levels :: nat
  assumes push_law: "ok q \<Longrightarrow> pri < levels \<Longrightarrow> \<exists>q'. push v pri q = Some q' \<and> ok q' \<and> items q' = add_mset v (items q)"
    and pop_law: "ok q \<Longrightarrow> items q \<noteq> {#} \<Longrightarrow>
      \<exists>v q'. pop q = Some (Some v, q') \<and> ok q' \<and> items q = add_mset v (items q')"
    and size_law: "ok q \<Longrightarrow> size_of q = size (items q)"
begin

text \<open>A push followed by a pop hands out one of the values held or the pushed one.\<close>

lemma push_pop:
  assumes "ok q" "pri < levels"
  obtains q1 v q2 where "push x pri q = Some q1" "pop q1 = Some (Some v, q2)" "ok q2"
    "add_mset x (items q) = add_mset v (items q2)"
proof -
  obtain q1 where q1: "push x pri q = Some q1" "ok q1" "items q1 = add_mset x (items q)"
    using push_law [OF assms] by blast
  moreover obtain v q2 where "pop q1 = Some (Some v, q2)" "ok q2" "items q1 = add_mset v (items q2)"
    using pop_law [OF q1(2)] q1(3) by auto
  ultimately show thesis using that by metis
qed

lemma size_0: "ok q \<Longrightarrow> size_of q = 0 \<longleftrightarrow> items q = {#}"
  by (simp add: size_law)

end

definition mpq_items :: "'a mpq \<Rightarrow> 'a multiset" where
  "mpq_items q = mset (concat (lanes q))"

lemma mset_concat_update:
  "k < length ls \<Longrightarrow> mset (concat (ls[k := x])) + mset (ls ! k) = mset (concat ls) + mset x"
proof (induction ls arbitrary: k)
  case (Cons a ls)
  then show ?case by (cases k) (auto simp: add.assoc)
qed simp

interpretation mpq: work_queue wf_mpq mpq_items LenQ PushQ PopQ 5
proof (unfold_locales, goal_cases)
  case (1 q pri v)
  then obtain q' where q': "PushQ v pri q = Some q'" "wf_mpq q'" "lanes q' = (lanes q)[pri := lanes q ! pri @ [v]]"
    by (rule PushQ_ok)
  moreover have "pri < length (lanes q)" using 1 by (simp add: wf_mpq_def)
  ultimately show ?case
    using mset_concat_update [of pri "lanes q" "lanes q ! pri @ [v]"] by (auto simp: mpq_items_def)
next
  case (2 q)
  have "len q \<noteq> 0"
  proof
    assume "len q = 0"
    then have "\<forall>x \<in> set (lanes q). x = []" using 2(1) by (simp add: wf_mpq_def sum_lanes_zero)
    with 2(2) show False by (simp add: mpq_items_def)
  qed
  then obtain q' where q': "PopQ q = Some (Some (hd (lanes q ! l q)), q')" "wf_mpq q'"
    "lanes q' = (lanes q)[l q := tl (lanes q ! l q)]"
    by (rule PopQ_ok [OF 2(1)])
  have ne: "lanes q ! l q \<noteq> []" and lq: "l q < length (lanes q)"
    using 2(1) \<open>len q \<noteq> 0\<close> by (auto simp: wf_mpq_def)
  have hd: "mset (lanes q ! l q) = add_mset (hd (lanes q ! l q)) (mset (tl (lanes q ! l q)))"
    using ne by (cases "lanes q ! l q") auto
  from mset_concat_update [OF lq, of "tl (lanes q ! l q)"]
  have "mpq_items q = add_mset (hd (lanes q ! l q)) (mpq_items q')"
    unfolding hd mpq_items_def q'(3) by simp
  with q' show ?case by blast
next
  case (3 q)
  then show ?case by (simp add: LenQ_def mpq_items_def wf_mpq_def length_concat)
qed

end
