(* ===== verification/Pay_Rates.thy ===== *)
theory Pay_Rates
  imports BR_Prelude
begin

text \<open>
  What pushing data costs: the rate computations of \<^verbatim>\<open>src/rpc/rpc.go\<close> and \<^verbatim>\<open>src/rpc/rtdt.go\<close>, which
  client and server both run, at the width of the source's \<^verbatim>\<open>uint64\<close>, \<^verbatim>\<open>uint32\<close> and \<^verbatim>\<open>int64\<close>. An
  \<^verbatim>\<open>int64\<close> is the 64-bit word whose signed value \<open>sint\<close> reads; \<open>maxInt64\<close> is the largest.
\<close>

datatype rate_error =
    PushCostZeroBytes | PushCostOverflows | PushCostOverflowsInt64
  | PaymentLowerThanMin | PaymentNegative | DivideByZero

definition maxInt64 :: u64 where
  "maxInt64 = 2 ^ 63 - 1"

definition maxInt32 :: u64 where
  "maxInt32 = 2 ^ 31 - 1"

definition CalcPushCostMAtoms :: "u64 \<Rightarrow> u64 \<Rightarrow> u64 \<Rightarrow> u64 \<Rightarrow> rate_error + u64" where
  "CalcPushCostMAtoms minPushPayment payRateMAtoms payRateBytes sizeBytes =
     (if payRateBytes = 0 then Inl PushCostZeroBytes
      else if payRateMAtoms \<noteq> 0 \<and> sizeBytes > (- 1) div payRateMAtoms then Inl PushCostOverflows
      else let v = sizeBytes * payRateMAtoms div payRateBytes in
        if v < minPushPayment then Inr minPushPayment
        else if v > maxInt64 then Inl PushCostOverflowsInt64
        else Inr v)"

definition CalcRTDTSessPushMAtoms :: "u64 \<Rightarrow> u64 \<Rightarrow> u64 \<Rightarrow> u32 \<Rightarrow> u32 \<Rightarrow> rate_error + u64" where
  "CalcRTDTSessPushMAtoms joinRate payRateMAtoms payRateMB sessMB sessSize =
     (if payRateMB = 0 then Inl PushCostZeroBytes
      else
        let sizeTimesMB = ucast sessSize * ucast sessMB;
            v = sizeTimesMB * payRateMAtoms
        in if sizeTimesMB \<noteq> 0 \<and> v div sizeTimesMB \<noteq> payRateMAtoms then Inl PushCostOverflows
           else if v > maxInt64 then Inl PushCostOverflowsInt64
           else Inr (v div payRateMB + joinRate))"

text \<open>The division by \<^verbatim>\<open>uint64(sessSize) * payRateMAtoms\<close> panics when that product is 0.\<close>

definition CalcRTDTSessPushMB :: "u64 \<Rightarrow> u64 \<Rightarrow> u64 \<Rightarrow> u32 \<Rightarrow> u64 \<Rightarrow> rate_error + u32" where
  "CalcRTDTSessPushMB joinRate payRateMAtoms payRateMB sessSize paidMAtoms =
     (if payRateMB = 0 then Inl PushCostZeroBytes
      else if sint paidMAtoms < 0 then Inl PaymentNegative
      else if paidMAtoms < joinRate then Inl PaymentLowerThanMin
      else
        let paidMAtoms = paidMAtoms - joinRate; d = ucast sessSize * payRateMAtoms
        in if d = 0 then Inl DivideByZero
           else let sessMB = (paidMAtoms * payRateMB) div d;
                    sessMB = (if sessMB > maxInt32 then maxInt32 else sessMB)
                in Inr (ucast sessMB))"

section \<open>Invoices\<close>

text \<open>A decoded invoice (\<^verbatim>\<open>DecodedInvoice\<close> of \<^verbatim>\<open>src/client/clientintf/interface.go\<close>), and what a request
  for the next invoice is answered with. Decoding itself is the payment client's.\<close>

type_synonym invoice = string

record decoded_invoice =
  ID :: bytes
  MAtoms :: int
  ExpiryTime :: time

datatype fetch_answer = FetchSendFails | FetchCanceled | FetchInvoice invoice | FetchErrorReply | FetchOtherReply

definition InvoiceExpiryAffordance :: duration where
  "InvoiceExpiryAffordance = 15 * second"

definition IsExpired :: "decoded_invoice \<Rightarrow> duration \<Rightarrow> time \<Rightarrow> bool" where
  "IsExpired invc affordance now = (ExpiryTime invc < now + affordance)"

section \<open>Lemmas\<close>

lemma unat_max: "unat (- 1 :: u64) = 2 ^ 64 - 1"
  by (simp add: unsigned_minus_1_eq_mask mask_eq_exp_minus_1)

lemma unat_maxInt64: "unat maxInt64 = 2 ^ 63 - 1"
  by (simp add: maxInt64_def)

lemma unat_maxInt32: "unat maxInt32 = 2 ^ 31 - 1"
  by (simp add: maxInt32_def)

lemma unat_u64_bound: "unat (x :: u64) < 2 ^ 64"
  using unsigned_less [of x, where 'a = nat] by simp

lemma unat_mult_small: "unat a * unat b < 2 ^ 64 \<Longrightarrow> unat (a * b :: u64) = unat a * unat b"
  by (simp add: unat_word_ariths)

lemma unat_add_small: "unat a + unat b < 2 ^ 64 \<Longrightarrow> unat (a + b :: u64) = unat a + unat b"
  by (simp add: unat_word_ariths)

lemma sint_small:
  assumes "unat (x :: u64) < 2 ^ 63"
  shows "sint x = int (unat x)"
proof -
  have u: "uint x = int (unat x)" by simp
  have "int (unat x) < int (2 ^ 63)" using assms unfolding of_nat_less_iff .
  then have "int (unat x) < 2 ^ 63" by simp
  then have "signed_take_bit 63 (int (unat x)) = int (unat x)"
    by (intro signed_take_bit_int_eq_self) (use of_nat_0_le_iff [of "unat x", where 'a = int] in linarith)+
  then show ?thesis unfolding sint_uint u by simp
qed

lemma unat_ucast_u64: "unat (ucast (x :: u32) :: u64) = unat x"
proof -
  have "unat x < 2 ^ 64" using unsigned_less [of x, where 'a = nat] by simp
  then show ?thesis by (simp add: unsigned_ucast_eq take_bit_nat_eq_self)
qed

lemma word_gt_quotient:
  assumes "r \<noteq> (0 :: u64)"
  shows "s > (- 1) div r \<longleftrightarrow> 2 ^ 64 \<le> unat s * unat r"
proof -
  have r: "0 < unat r" using assms by (simp add: word_neq_0_conv unat_gt_0)
  have "s > (- 1) div r \<longleftrightarrow> (2 ^ 64 - 1) div unat r < unat s"
    by (simp only: word_less_nat_alt unat_div unat_max)
  also have "\<dots> \<longleftrightarrow> 2 ^ 64 - 1 < unat s * unat r"
    by (rule div_less_iff_less_mult [OF r])
  also have "\<dots> \<longleftrightarrow> 2 ^ 64 \<le> unat s * unat r" by (simp add: Suc_le_eq [symmetric])
  finally show ?thesis .
qed

section \<open>Properties\<close>

text \<open>The cost to push a message is computed exactly. With a minimum payment that fits in an
  \<^verbatim>\<open>int64\<close>, the result is the larger of the minimum and the rounded-down rate times size, over
  unbounded integers, or the overflow error when that product or quotient does not fit.\<close>

theorem push_cost_exact:
  assumes "bytes \<noteq> 0" "minPay \<le> maxInt64"
  shows "map_sum id sint (CalcPushCostMAtoms minPay rate bytes sz) =
    (if 2 ^ 64 \<le> unat sz * unat rate then Inl PushCostOverflows
     else if 2 ^ 63 \<le> unat sz * unat rate div unat bytes then Inl PushCostOverflowsInt64
     else Inr (int (max (unat minPay) (unat sz * unat rate div unat bytes))))"
proof (cases "2 ^ 64 \<le> unat sz * unat rate")
  case True
  then have "rate \<noteq> 0" by auto
  with True assms(1) word_gt_quotient [of rate sz] show ?thesis by (simp add: CalcPushCostMAtoms_def)
next
  case False
  let ?q = "unat sz * unat rate div unat bytes"
  have nov: "\<not> (rate \<noteq> 0 \<and> sz > (- 1) div rate)" using False word_gt_quotient [of rate sz] by auto
  have v: "unat (sz * rate div bytes) = ?q" using False by (simp add: unat_div unat_mult_small)
  have m: "unat minPay < 2 ^ 63" using assms(2) by (simp add: word_le_nat_alt unat_maxInt64)
  have c: "sz * rate div bytes > maxInt64 \<longleftrightarrow> 2 ^ 63 \<le> ?q" "sz * rate div bytes < minPay \<longleftrightarrow> ?q < unat minPay"
    by (auto simp: word_less_nat_alt v unat_maxInt64)
  consider "?q < unat minPay" | "unat minPay \<le> ?q" "2 ^ 63 \<le> ?q" | "unat minPay \<le> ?q" "?q < 2 ^ 63" by linarith
  then show ?thesis
    using False nov assms(1) m c v
    by cases (auto simp: CalcPushCostMAtoms_def Let_def sint_small max_def simp del: not_less)
qed

theorem push_cost_exact_witness:
  "map_sum id sint (CalcPushCostMAtoms 1000 100 1 50) = Inr 5000"
  using push_cost_exact [of 1 1000 100 50] by (simp add: maxInt64_def)

text \<open>Paying for real-time data and reading the payment back agree. The megabytes the server
  credits for the amount that \<open>CalcRTDTSessPushMAtoms\<close> asks for are never more than were asked
  for, and are exactly those when the rate per megabyte is whole.\<close>

theorem rt_push_roundtrip:
  assumes "CalcRTDTSessPushMAtoms join rate rateMB mb sz = Inr amt"
    and "rate \<noteq> 0" "sz \<noteq> 0" "unat mb < 2 ^ 31" "unat sz * unat rate < 2 ^ 64"
    and "unat sz * unat mb * unat rate div unat rateMB + unat join < 2 ^ 63"
  shows "\<exists>mb'. CalcRTDTSessPushMB join rate rateMB sz amt = Inr mb' \<and> mb' \<le> mb \<and>
    (unat rateMB dvd unat sz * unat rate \<longrightarrow> mb' = mb)"
proof -
  let ?SM = "ucast sz * ucast mb :: u64" and ?d = "ucast sz * rate :: u64"
  let ?V = "unat sz * unat mb * unat rate" and ?N = "unat sz * unat rate"
  have B: "rateMB \<noteq> 0" and chk: "?SM = 0 \<or> (?SM * rate) div ?SM = rate" and le: "?SM * rate \<le> maxInt64"
    and amt: "amt = ?SM * rate div rateMB + join"
    using assms(1) by (auto simp: CalcRTDTSessPushMAtoms_def Let_def not_less split: if_splits)
  have sm: "unat ?SM = unat sz * unat mb"
  proof -
    have "unat sz * unat mb < 2 ^ 32 * 2 ^ 32"
      using unsigned_less [of sz, where 'a = nat] unsigned_less [of mb, where 'a = nat]
      by (intro mult_strict_mono) auto
    then show ?thesis by (simp add: unat_mult_small unat_ucast_u64)
  qed
  have noov: "unat ?SM * unat rate < 2 ^ 64"
  proof (cases "?SM = 0")
    case False
    then have "unat ((?SM * rate) div ?SM) = unat rate" using chk by simp
    then have "unat rate * unat ?SM \<le> unat (?SM * rate)" unfolding unat_div by (metis div_times_less_eq_dividend)
    with unat_u64_bound [of "?SM * rate"] show ?thesis by (simp add: mult.commute)
  qed simp
  have V: "unat (?SM * rate) = ?V" using noov sm by (simp add: unat_mult_small)
  have q: "unat (?SM * rate div rateMB) = ?V div unat rateMB" by (simp only: unat_div V)
  have am: "unat amt = ?V div unat rateMB + unat join"
    unfolding amt using assms(6) q by (subst unat_add_small) simp_all
  have pos: "\<not> sint amt < 0" using am assms(6) sint_small [of amt] by linarith
  have ge: "\<not> amt < join" using am by (simp add: word_less_nat_alt)
  have paid: "amt - join = ?SM * rate div rateMB" by (simp add: amt)
  have d: "unat ?d = ?N" using assms(5) by (simp add: unat_mult_small unat_ucast_u64)
  have N0: "0 < ?N" using assms(2,3) by (simp add: unat_gt_0 word_neq_0_conv)
  then have d0: "?d \<noteq> 0" using d by (metis less_numeral_extra(3) unat_0)
  have VN: "?V = unat mb * ?N" by simp
  have mul: "unat (?SM * rate div rateMB * rateMB) = ?V div unat rateMB * unat rateMB"
    using le_less_trans [OF div_times_less_eq_dividend [of ?V "unat rateMB"]] V unat_u64_bound [of "?SM * rate"] q
    by (subst unat_mult_small) simp_all
  let ?r = "?V div unat rateMB * unat rateMB div ?N"
  have r: "unat (?SM * rate div rateMB * rateMB div ?d) = ?r" by (simp only: unat_div mul d)
  have "?r \<le> ?V div ?N" by (intro div_le_mono div_times_less_eq_dividend)
  then have rm: "?r \<le> unat mb" using N0 by (simp only: VN) simp
  then have small: "\<not> ?SM * rate div rateMB * rateMB div ?d > maxInt32"
    using assms(4) r by (simp add: word_less_nat_alt unat_maxInt32)
  have "CalcRTDTSessPushMB join rate rateMB sz amt = Inr (ucast (?SM * rate div rateMB * rateMB div ?d))"
    using B pos ge d0 small by (simp add: CalcRTDTSessPushMB_def Let_def paid)
  moreover have u: "unat (ucast (?SM * rate div rateMB * rateMB div ?d) :: u32) = ?r"
    using r rm assms(4) by (simp add: unsigned_ucast_eq take_bit_nat_eq_self)
  moreover have "?r = unat mb" if "unat rateMB dvd ?N"
  proof -
    have "unat rateMB dvd ?V" using that unfolding VN by (rule dvd_mult)
    then have "?V div unat rateMB * unat rateMB = unat mb * ?N" by simp
    with N0 show ?thesis by simp
  qed
  ultimately show ?thesis
    using rm by (metis word_le_nat_alt word_unat_eq_iff)
qed

theorem rt_push_roundtrip_witness:
  "\<exists>mb'. CalcRTDTSessPushMAtoms 1000 10 1 5 3 = Inr 1150 \<and> CalcRTDTSessPushMB 1000 10 1 3 1150 = Inr mb' \<and> mb' = 5"
proof -
  have c: "CalcRTDTSessPushMAtoms 1000 10 1 5 3 = Inr 1150"
    by (simp add: CalcRTDTSessPushMAtoms_def maxInt64_def)
  from rt_push_roundtrip [OF c] c show ?thesis by simp
qed

end
