(* ===== verification/Rmq.thy ===== *)
theory Rmq
  imports Multipriq Pay_Rates
begin

text \<open>
  The client's queue of outbound routed messages (\<^verbatim>\<open>src/client/internal/lowlevel/rmq.go\<close>). Messages
  wait in the priority queue of \<open>enqueueLoop\<close>, are handed one at a time to \<open>sendLoop\<close>, which starts a
  goroutine \<open>sendToSession\<close> for each, and stay pending until the server's acknowledgement arrives;
  when the session is replaced the pending ones are sent again.

  A message is known by its pointer, an index into \<open>store\<close>. The state \<open>rmq\<close> holds the variables of
  both loops, the goroutines that are running (\<open>senders\<close>), those that wait for \<open>sendLoop\<close> to take
  their acknowledgement (\<open>acked\<close>), the payment database, and what has left the queue: messages
  routed, payments made and replies to callers. \<open>rmqStep\<close> is one step of one goroutine; what
  the server, the payment client and the database answer is an argument (\<open>rm_env\<close>, one per attempt
  of \<open>sendToSession\<close>; the clock is read once per attempt).
\<close>

section \<open>Types\<close>

record server_policy =
  PushPaymentLifetime :: duration
  MaxPushInvoices :: int
  MaxMsgSize :: u64
  PushPayRateMinMAtoms :: u64
  PushPayRateMAtoms :: u64
  PushPayRateBytes :: u64

record rmmsg =
  prio :: nat
  encLen :: u32
  rv :: bytes
  encrypted :: "bytes option"
  paidHash :: "bytes option"
  hasReplyChan :: bool

datatype rm_error =
    RMTooLarge | RMQExiting | EncryptError | PushCostError rate_error | DecodeError
  | ExpiredInvoice | InvoiceWithAmount | FetchError | FetchUnknownReply | StoreError | PayError
  | SubsysExiting | RMInvoicePayment | RouteReplyError string | AckOtherError | AckUnknownReply | CtxDone

datatype ack_answer = AckRoute string invoice | AckErr rm_error | AckOther

record rm_env =
  env_now :: time
  has_attempt_fails :: bool
  store_fails :: bool
  delete_fails :: bool
  decode :: "invoice \<Rightarrow> decoded_invoice option"
  completed :: "invoice \<Rightarrow> int option"
  pays :: "invoice \<Rightarrow> int \<Rightarrow> int option"
  fetch :: fetch_answer
  send_fails :: bool
  ack :: "ack_answer option"

text \<open>What \<open>sendToSession\<close> changes outside the message: the stored payment attempts, and the records
  of payments made, messages routed and requests to close the session.\<close>

record rm_world =
  attempts :: "(bytes, invoice \<times> time) gomap"
  payments :: "(bytes \<times> invoice \<times> int) list"
  routed :: "(bytes option \<times> bytes \<times> bytes option) list"
  closes :: nat

section \<open>Paying for and sending a message\<close>

definition invoicePaymentError :: string where
  "invoicePaymentError = ''invoice payment error on RM push''"

definition processRMAck :: "ack_answer \<Rightarrow> invoice \<times> rm_error option" where
  "processRMAck reply =
     (case reply of
        AckRoute err next \<Rightarrow>
          (next, if err = '''' then None
                 else if err = invoicePaymentError then Some RMInvoicePayment
                 else Some (RouteReplyError err))
      | AckErr e \<Rightarrow> ('''', Some e)
      | AckOther \<Rightarrow> ('''', Some AckUnknownReply))"

definition fetchInvoice :: "rm_env \<Rightarrow> rm_error + invoice" where
  "fetchInvoice env =
     (case fetch env of
        FetchSendFails \<Rightarrow> Inl FetchError
      | FetchCanceled \<Rightarrow> Inl CtxDone
      | FetchErrorReply \<Rightarrow> Inl FetchError
      | FetchOtherReply \<Rightarrow> Inl FetchUnknownReply
      | FetchInvoice invc \<Rightarrow>
          (case decode env invc of
             None \<Rightarrow> Inl DecodeError
           | Some d \<Rightarrow>
               if IsExpired d InvoiceExpiryAffordance (env_now env) then Inl ExpiredInvoice
               else if MAtoms d \<noteq> 0 then Inl InvoiceWithAmount
               else Inr invc))"

definition isRVInvoicePaid :: "rm_env \<Rightarrow> server_policy \<Rightarrow> bytes \<Rightarrow> rm_world \<Rightarrow> (int \<times> bytes) option" where
  "isRVInvoicePaid env pol r w =
     (case (has_attempt_fails env, map_of (attempts w) r) of
        (False, Some (payInvoice, payDate)) \<Rightarrow>
          if payInvoice = '''' then None
          else if payDate < env_now env - PushPaymentLifetime pol then None
          else (case completed env payInvoice of
                  None \<Rightarrow> None
                | Some fees \<Rightarrow>
                    (case decode env payInvoice of
                       None \<Rightarrow> None
                     | Some d \<Rightarrow> Some (fees, ID d)))
      | _ \<Rightarrow> None)"

definition payForRM ::
    "rm_env \<Rightarrow> server_policy \<Rightarrow> rmmsg \<Rightarrow> invoice \<Rightarrow> rm_world \<Rightarrow> rm_error option \<times> rmmsg \<times> rm_world" where
  "payForRM env pol rmm invc w =
     (case CalcPushCostMAtoms (PushPayRateMinMAtoms pol) (PushPayRateMAtoms pol) (PushPayRateBytes pol) (ucast (encLen rmm)) of
        Inl e \<Rightarrow> (Some (PushCostError e), rmm, w)
      | Inr amt \<Rightarrow>
        (case isRVInvoicePaid env pol (rv rmm) w of
           Some (_, hash) \<Rightarrow> (None, rmm\<lparr>paidHash := Some hash\<rparr>, w)
         | None \<Rightarrow>
           (let needsInvoice =
                  (invc = '''' \<or>
                   (case decode env invc of
                      None \<Rightarrow> True
                    | Some d \<Rightarrow> IsExpired d InvoiceExpiryAffordance (env_now env)))
            in case (if needsInvoice then fetchInvoice env else Inr invc) of
                 Inl e \<Rightarrow> (Some e, rmm, w)
               | Inr invc \<Rightarrow>
                 (case decode env invc of
                    None \<Rightarrow> (Some DecodeError, rmm, w)
                  | Some d \<Rightarrow>
                    if store_fails env then (Some StoreError, rmm, w)
                    else
                      let w = w\<lparr>attempts := AList.update (rv rmm) (invc, env_now env) (attempts w)\<rparr> in
                      (case pays env invc (sint amt) of
                         None \<Rightarrow> (Some PayError, rmm, w)
                       | Some fees \<Rightarrow>
                           (None, rmm\<lparr>paidHash := Some (ID d)\<rparr>,
                            w\<lparr>payments := payments w @ [(rv rmm, invc, sint amt)]\<rparr>)))))) "

text \<open>How a run of \<open>sendToSession\<close> ends: with no word to \<open>sendLoop\<close>, or acknowledged, with the next
  invoice. \<open>Unfinished\<close> stands for a run for which more answers would be needed.\<close>

datatype send_outcome = NoReply | Acked invoice | Unfinished

definition deleteAttempt :: "rm_env \<Rightarrow> bytes \<Rightarrow> rm_world \<Rightarrow> rm_world" where
  "deleteAttempt env r w = (if delete_fails env then w else w\<lparr>attempts := AList.delete r (attempts w)\<rparr>)"

fun sendToSession ::
    "rm_env list \<Rightarrow> server_policy \<Rightarrow> rmmsg \<Rightarrow> invoice \<Rightarrow> rm_world \<Rightarrow> send_outcome \<times> rmmsg \<times> rm_world" where
  "sendToSession [] pol rmm invc w = (Unfinished, rmm, w)"
| "sendToSession (env # envs) pol rmm invc w =
     (case payForRM env pol rmm invc w of
        (Some e, rmm, w) \<Rightarrow> (NoReply, rmm, w\<lparr>closes := closes w + 1\<rparr>)
      | (None, rmm, w) \<Rightarrow>
        if send_fails env then (NoReply, rmm, w)
        else
          let w = w\<lparr>routed := routed w @ [(paidHash rmm, rv rmm, encrypted rmm)]\<rparr> in
          (case ack env of
             None \<Rightarrow> (NoReply, rmm, w)
           | Some reply \<Rightarrow>
             (case processRMAck reply of
                (_, Some SubsysExiting) \<Rightarrow> (NoReply, rmm, w)
              | (_, Some RMInvoicePayment) \<Rightarrow>
                  sendToSession envs pol (rmm\<lparr>paidHash := None\<rparr>) '''' (deleteAttempt env (rv rmm) w)
              | (_, Some e) \<Rightarrow> (NoReply, rmm, w\<lparr>closes := closes w + 1\<rparr>)
              | (next, None) \<Rightarrow> (Acked next, rmm, deleteAttempt env (rv rmm) w))))"

section \<open>The two loops\<close>

definition clientMaxPendingRMMs :: int where
  "clientMaxPendingRMMs = 256"

record rmq =
  store :: "nat \<Rightarrow> rmmsg"
  fresh :: nat
  maxMsgSize :: u32
  outq :: "nat mpq"
  nextRMM :: "nat option"
  enqueueDone :: bool
  sendDone :: bool
  sess :: "server_policy option"
  maxPendingRMMs :: int
  rmms :: "nat list"
  accepting :: bool
  invoices :: "invoice list"
  senders :: "(nat \<times> server_policy \<times> invoice) list"
  acked :: "(nat \<times> invoice) list"
  world :: rm_world
  replies :: "(nat \<times> rm_error option) list"

definition NewRMQ :: rmq where
  "NewRMQ =
     \<lparr>store = (\<lambda>_. \<lparr>prio = 0, encLen = 0, rv = [], encrypted = None, paidHash = None, hasReplyChan = False\<rparr>),
      fresh = 0, maxMsgSize = 1887437, outq = emptyQ, nextRMM = None, enqueueDone = False, sendDone = False,
      sess = None, maxPendingRMMs = 0, rmms = [], accepting = False, invoices = [], senders = [], acked = [],
      world = \<lparr>attempts = [], payments = [], routed = [], closes = 0\<rparr>, replies = []\<rparr>"

text \<open>The pop of \<open>enqueueLoop\<close>; \<open>None\<close> when the queue is empty (a nil interface, whose type assertion
  panics) or the pop does not return.\<close>

definition dequeue :: "nat mpq \<Rightarrow> (nat \<times> nat mpq) option" where
  "dequeue q = (case PopQ q of Some (Some v, q') \<Rightarrow> Some (v, q') | _ \<Rightarrow> None)"

text \<open>The calls of \<^verbatim>\<open>rmmsg.sendReply\<close>, which writes to the caller's channel if there is one.\<close>

definition sendReply :: "nat \<Rightarrow> rm_error option \<Rightarrow> rmq \<Rightarrow> rmq" where
  "sendReply x e q = q\<lparr>replies := replies q @ [(x, e)]\<rparr>"

text \<open>\<open>QueueRM\<close> and the receive of \<open>enqueueLoop\<close>: the error returned to the caller and the new state.\<close>

definition QueueRM :: "nat \<Rightarrow> u32 \<Rightarrow> bool \<Rightarrow> rmq \<Rightarrow> (rm_error option \<times> rmq) option" where
  "QueueRM pri n hasChan q =
     (if n > maxMsgSize q then Some (Some RMTooLarge, q)
      else if enqueueDone q then Some (Some RMQExiting, q)
      else
        let x = fresh q;
            rmm = \<lparr>prio = pri, encLen = n, rv = [], encrypted = None, paidHash = None, hasReplyChan = hasChan\<rparr>;
            q = q\<lparr>store := (store q)(x := rmm), fresh := x + 1\<rparr>
        in case PushQ x pri (outq q) of
             None \<Rightarrow> None
           | Some oq \<Rightarrow>
               if nextRMM q = None then
                 (case dequeue oq of
                    None \<Rightarrow> None
                  | Some (y, oq) \<Rightarrow> Some (None, q\<lparr>outq := oq, nextRMM := Some y\<rparr>))
               else Some (None, q\<lparr>outq := oq\<rparr>))"

text \<open>The send of \<open>nextRMM\<close> as \<open>enqueueLoop\<close> sees it.\<close>

definition afterHandover :: "rmq \<Rightarrow> rmq option" where
  "afterHandover q =
     (if LenQ (outq q) = 0 then Some (q\<lparr>nextRMM := None\<rparr>)
      else (case dequeue (outq q) of
              None \<Rightarrow> None
            | Some (y, oq) \<Rightarrow> Some (q\<lparr>outq := oq, nextRMM := Some y\<rparr>)))"

text \<open>The receive as \<open>sendLoop\<close> sees it. \<open>enc\<close> is what \<^verbatim>\<open>EncryptedMsg\<close> returns, \<open>p\<close> the session.\<close>

definition prepareRMM :: "(bytes \<times> bytes) option \<Rightarrow> nat \<Rightarrow> rmq \<Rightarrow> rmq option" where
  "prepareRMM enc x q =
     (case encrypted (store q x) of
        Some _ \<Rightarrow> Some q
      | None \<Rightarrow>
          (case enc of
             None \<Rightarrow> None
           | Some (r, e) \<Rightarrow> Some (q\<lparr>store := (store q)(x := (store q x)\<lparr>rv := r, encrypted := Some e\<rparr>)\<rparr>)))"

definition takeInvoice :: "rmq \<Rightarrow> invoice \<times> rmq" where
  "takeInvoice q = (case invoices q of [] \<Rightarrow> ('''', q) | v # vs \<Rightarrow> (v, q\<lparr>invoices := vs\<rparr>))"

definition receiveRMM :: "(bytes \<times> bytes) option \<Rightarrow> server_policy \<Rightarrow> nat \<Rightarrow> rmq \<Rightarrow> rmq" where
  "receiveRMM enc p x q =
     (case prepareRMM enc x q of
        None \<Rightarrow> sendReply x (Some EncryptError) q
      | Some q \<Rightarrow>
          let q = q\<lparr>rmms := List.insert x (rmms q)\<rparr>;
              q = (if int (length (rmms q)) \<ge> maxPendingRMMs q then q\<lparr>accepting := False\<rparr> else q);
              (invc, q) = takeInvoice q
          in q\<lparr>senders := senders q @ [(x, p, invc)]\<rparr>)"

definition newSession :: "server_policy option \<Rightarrow> rmq \<Rightarrow> rmq" where
  "newSession s q =
     (case s of
        None \<Rightarrow> q\<lparr>sess := None, invoices := [], accepting := False\<rparr>
      | Some p \<Rightarrow>
          let q = q\<lparr>sess := Some p, maxMsgSize := ucast (MaxMsgSize p),
                    senders := senders q @ map (\<lambda>x. (x, p, '''')) (rmms q),
                    maxPendingRMMs := min (MaxPushInvoices p) clientMaxPendingRMMs\<rparr>
          in if int (length (rmms q)) < maxPendingRMMs q then q\<lparr>accepting := True\<rparr> else q)"

text \<open>The receive of an acknowledgement by \<open>sendLoop\<close>.\<close>

definition receiveReply :: "nat \<Rightarrow> invoice \<Rightarrow> rmq \<Rightarrow> rmq" where
  "receiveReply x next q =
     (let q = q\<lparr>rmms := remove1 x (rmms q)\<rparr>;
          q = (if int (length (rmms q)) < maxPendingRMMs q \<and> sess q \<noteq> None \<and> \<not> accepting q
               then q\<lparr>accepting := True\<rparr> else q)
      in if next \<noteq> '''' then q\<lparr>invoices := invoices q @ [next]\<rparr> else q)"

text \<open>The end of \<open>enqueueLoop\<close> replies to every queued message.\<close>

fun drainOutq :: "nat \<Rightarrow> rmq \<Rightarrow> rmq option" where
  "drainOutq 0 q = (if LenQ (outq q) = 0 then Some q else None)"
| "drainOutq (Suc n) q =
     (if LenQ (outq q) = 0 then Some q
      else case dequeue (outq q) of
             None \<Rightarrow> None
           | Some (x, oq) \<Rightarrow> drainOutq n (sendReply x (Some RMQExiting) (q\<lparr>outq := oq\<rparr>)))"

definition exitEnqueue :: "rmq \<Rightarrow> rmq option" where
  "exitEnqueue q =
     (let q = q\<lparr>enqueueDone := True\<rparr>;
          q = (case nextRMM q of None \<Rightarrow> q | Some x \<Rightarrow> (sendReply x (Some RMQExiting) q)\<lparr>nextRMM := None\<rparr>)
      in drainOutq (LenQ (outq q)) q)"

definition exitSend :: "rmq \<Rightarrow> rmq" where
  "exitSend q = fold (\<lambda>x. sendReply x (Some RMQExiting)) (rmms q) (q\<lparr>sendDone := True\<rparr>)"

datatype rmq_event =
    EvQueue nat u32 bool
  | EvHandover "(bytes \<times> bytes) option"
  | EvSession "server_policy option"
  | EvSender nat "rm_env list"
  | EvAck nat
  | EvExitEnqueue
  | EvExitSend

text \<open>One step; \<open>None\<close> when the step is not possible in this state.\<close>

definition rmqStep :: "rmq_event \<Rightarrow> rmq \<Rightarrow> rmq option" where
  "rmqStep ev q =
     (case ev of
        EvQueue pri n hasChan \<Rightarrow> map_option snd (QueueRM pri n hasChan q)
      | EvHandover enc \<Rightarrow>
          (case (nextRMM q, sess q) of
             (Some x, Some p) \<Rightarrow>
               if accepting q \<and> \<not> enqueueDone q \<and> \<not> sendDone q
               then map_option (receiveRMM enc p x) (afterHandover q)
               else None
           | _ \<Rightarrow> None)
      | EvSession s \<Rightarrow> if sendDone q then None else Some (newSession s q)
      | EvSender k envs \<Rightarrow>
          if k < length (senders q) then
            (case senders q ! k of
               (x, p, invc) \<Rightarrow>
                 (case sendToSession envs p (store q x) invc (world q) of
                    (Unfinished, _, _) \<Rightarrow> None
                  | (NoReply, rmm, w) \<Rightarrow>
                      Some (q\<lparr>store := (store q)(x := rmm), world := w,
                              senders := take k (senders q) @ drop (Suc k) (senders q)\<rparr>)
                  | (Acked next, rmm, w) \<Rightarrow>
                      Some ((sendReply x None q)
                             \<lparr>store := (store q)(x := rmm), world := w, acked := acked q @ [(x, next)],
                              senders := take k (senders q) @ drop (Suc k) (senders q)\<rparr>)))
          else None
      | EvAck k \<Rightarrow>
          if k < length (acked q) \<and> \<not> sendDone q then
            (case acked q ! k of
               (x, next) \<Rightarrow>
                 Some (receiveReply x next (q\<lparr>acked := take k (acked q) @ drop (Suc k) (acked q)\<rparr>)))
          else None
      | EvExitEnqueue \<Rightarrow> if enqueueDone q then None else exitEnqueue q
      | EvExitSend \<Rightarrow> if sendDone q then None else Some (exitSend q))"

inductive rmq_reachable :: "rmq \<Rightarrow> bool" where
  start: "rmq_reachable NewRMQ"
| step: "rmq_reachable q \<Longrightarrow> rmqStep ev q = Some q' \<Longrightarrow> rmq_reachable q'"

section \<open>Where a message is\<close>

definition places :: "rmq \<Rightarrow> nat multiset" where
  "places q = mpq_items (outq q) + (case nextRMM q of None \<Rightarrow> {#} | Some x \<Rightarrow> {#x#}) + mset (rmms q)"

definition replied :: "rmq \<Rightarrow> nat set" where
  "replied q = fst ` set (replies q)"

text \<open>Of the first \<open>n\<close> messages each is in one place or has had its reply.\<close>

definition accounted :: "nat multiset \<Rightarrow> nat set \<Rightarrow> nat \<Rightarrow> bool" where
  "accounted P R n \<longleftrightarrow>
     (\<forall>x. count P x \<le> 1) \<and> (\<forall>x \<in># P. x < n) \<and> (\<forall>x < n. x \<in># P \<or> x \<in> R)"

lemma accounted_new: "accounted P R n \<Longrightarrow> accounted (add_mset n P) R (Suc n)"
  unfolding accounted_def
  by (auto simp: less_Suc_eq count_eq_zero_iff split: if_splits)

lemma accounted_reply:
  assumes "accounted (add_mset x P) R n"
  shows "accounted P (insert x R) n"
proof -
  have "count P y \<le> 1" for y
  proof -
    have "count P y \<le> count (add_mset x P) y" by simp
    also have "\<dots> \<le> 1" using assms by (simp only: accounted_def)
    finally show ?thesis .
  qed
  then show ?thesis using assms by (auto simp: accounted_def)
qed

lemma accounted_mono: "accounted P R n \<Longrightarrow> R \<subseteq> R' \<Longrightarrow> accounted P R' n"
  by (auto simp: accounted_def)

lemma accounted_drop:
  assumes "accounted P R n" "x \<in> R"
  shows "accounted (P - {#x#}) R n"
proof (cases "x \<in># P")
  case True
  then show ?thesis using assms accounted_reply [of x "P - {#x#}" R n] by (simp add: insert_absorb)
next
  case False
  then show ?thesis using assms(1) by (simp add: diff_single_trivial)
qed

definition wf_rmq :: "rmq \<Rightarrow> bool" where
  "wf_rmq q \<longleftrightarrow>
     wf_mpq (outq q) \<and> accounted (places q) (replied q) (fresh q) \<and>
     (\<forall>(x, v) \<in> set (acked q). x \<in> replied q) \<and>
     (nextRMM q = None \<longrightarrow> mpq_items (outq q) = {#}) \<and>
     maxPendingRMMs q \<le> 256 \<and> length (rmms q) \<le> 256 \<and> (accepting q \<longrightarrow> length (rmms q) < 256)"

lemma replied_sendReply [simp]: "replied (sendReply x e q) = insert x (replied q)"
  by (auto simp: replied_def sendReply_def)

lemma sendReply_fields [simp]:
  "outq (sendReply x e q) = outq q" "nextRMM (sendReply x e q) = nextRMM q" "rmms (sendReply x e q) = rmms q"
  "fresh (sendReply x e q) = fresh q" "acked (sendReply x e q) = acked q" "accepting (sendReply x e q) = accepting q"
  "maxPendingRMMs (sendReply x e q) = maxPendingRMMs q"
  by (simp_all add: sendReply_def)

lemma emptyQ_items: "mpq_items emptyQ = {#}"
  by (simp add: mpq_items_def emptyQ_def)

lemma wf_NewRMQ: "wf_rmq NewRMQ"
  by (simp add: wf_rmq_def NewRMQ_def places_def replied_def accounted_def wf_emptyQ emptyQ_items)

lemma dequeue_ok:
  assumes "wf_mpq q" "mpq_items q \<noteq> {#}"
  obtains x q' where "dequeue q = Some (x, q')" "wf_mpq q'" "mpq_items q = add_mset x (mpq_items q')"
  using mpq.pop_law [OF assms] that by (auto simp: dequeue_def)

lemma QueueRM_wf:
  assumes "wf_rmq q" "QueueRM pri n hc q = Some (e, q')"
  shows "wf_rmq q'"
proof (cases "n > maxMsgSize q \<or> enqueueDone q")
  case True
  with assms show ?thesis by (auto simp: QueueRM_def split: if_splits)
next
  case False
  let ?x = "fresh q"
  have wf: "wf_mpq (outq q)" and acc: "accounted (places q) (replied q) (fresh q)"
    using assms(1) by (simp_all add: wf_rmq_def)
  from assms(2) False obtain oq where oq: "PushQ ?x pri (outq q) = Some oq"
    by (auto simp: QueueRM_def Let_def split: option.splits)
  then have pri: "pri < 5" by (auto simp: PushQ_def revPriorities_def split: if_splits)
  have oq': "wf_mpq oq" "mpq_items oq = add_mset ?x (mpq_items (outq q))"
    using mpq.push_law [OF wf pri, of ?x] oq by auto
  show ?thesis
  proof (cases "nextRMM q")
    case None
    then have "mpq_items (outq q) = {#}" using assms(1) by (simp add: wf_rmq_def)
    with oq'(2) have one: "mpq_items oq = {#?x#}" by simp
    from dequeue_ok [OF oq'(1)] one obtain y oq2 where
      d: "dequeue oq = Some (y, oq2)" "wf_mpq oq2" "mpq_items oq = add_mset y (mpq_items oq2)" by auto
    from d(3) one have y: "y = ?x" "mpq_items oq2 = {#}" by (simp_all add: add_mset_eq_single)
    from assms(2) False oq d(1) None have "\<exists>st. q' = q\<lparr>store := st, fresh := Suc ?x, outq := oq2, nextRMM := Some y\<rparr>"
      by (auto simp: QueueRM_def Let_def)
    then obtain st where q': "q' = q\<lparr>store := st, fresh := Suc ?x, outq := oq2, nextRMM := Some y\<rparr>" ..
    have "places q' = add_mset ?x (places q)"
      using y None \<open>mpq_items (outq q) = {#}\<close> by (simp add: q' places_def)
    moreover have "replied q' = replied q" by (simp add: q' replied_def)
    ultimately show ?thesis
      using accounted_new [OF acc] assms(1) d(2) by (simp add: q' wf_rmq_def)
  next
    case (Some y)
    from assms(2) False oq Some have "\<exists>st. q' = q\<lparr>store := st, fresh := Suc ?x, outq := oq\<rparr>"
      by (auto simp: QueueRM_def Let_def)
    then obtain st where q': "q' = q\<lparr>store := st, fresh := Suc ?x, outq := oq\<rparr>" ..
    have "places q' = add_mset ?x (places q)" using oq'(2) by (simp add: q' places_def)
    moreover have "replied q' = replied q" by (simp add: q' replied_def)
    ultimately show ?thesis
      using accounted_new [OF acc] assms(1) oq'(1) Some by (simp add: q' wf_rmq_def)
  qed
qed

lemma afterHandover_wf:
  assumes "wf_mpq (outq q)" "afterHandover q = Some q'"
  shows "wf_mpq (outq q')" and "nextRMM q' = None \<longrightarrow> mpq_items (outq q') = {#}"
    and "mpq_items (outq q) = mpq_items (outq q') + (case nextRMM q' of None \<Rightarrow> {#} | Some y \<Rightarrow> {#y#})"
    and "\<exists>oq nx. q' = q\<lparr>outq := oq, nextRMM := nx\<rparr>"
proof -
  have z: "LenQ (outq q) = 0 \<longleftrightarrow> mpq_items (outq q) = {#}" by (rule mpq.size_0 [OF assms(1)])
  have "wf_mpq (outq q') \<and> (nextRMM q' = None \<longrightarrow> mpq_items (outq q') = {#}) \<and>
      mpq_items (outq q) = mpq_items (outq q') + (case nextRMM q' of None \<Rightarrow> {#} | Some y \<Rightarrow> {#y#}) \<and>
      (\<exists>oq nx. q' = q\<lparr>outq := oq, nextRMM := nx\<rparr>)"
  proof (cases "mpq_items (outq q) = {#}")
    case True
    with z assms have "q' = q\<lparr>nextRMM := None\<rparr>" by (simp add: afterHandover_def)
    moreover have "\<exists>oq nx. q\<lparr>nextRMM := None\<rparr> = q\<lparr>outq := oq, nextRMM := nx\<rparr>"
      by (rule exI [of _ "outq q"]) (rule exI [of _ None], simp)
    ultimately show ?thesis using True assms(1) by simp
  next
    case False
    then obtain y oq where d: "dequeue (outq q) = Some (y, oq)" "wf_mpq oq" "mpq_items (outq q) = add_mset y (mpq_items oq)"
      using dequeue_ok [OF assms(1)] by blast
    with False z assms(2) show ?thesis by (auto simp: afterHandover_def)
  qed
  then show "wf_mpq (outq q')" "nextRMM q' = None \<longrightarrow> mpq_items (outq q') = {#}"
    "mpq_items (outq q) = mpq_items (outq q') + (case nextRMM q' of None \<Rightarrow> {#} | Some y \<Rightarrow> {#y#})"
    "\<exists>oq nx. q' = q\<lparr>outq := oq, nextRMM := nx\<rparr>" by simp_all
qed

lemma receiveRMM_wf:
  assumes "wf_mpq (outq q)" "nextRMM q = None \<longrightarrow> mpq_items (outq q) = {#}"
    and "accounted (add_mset x (places q)) (replied q) (fresh q)"
    and "\<forall>(x, v) \<in> set (acked q). x \<in> replied q" "maxPendingRMMs q \<le> 256" "length (rmms q) < 256"
  shows "wf_rmq (receiveRMM enc p x q)"
proof (cases "prepareRMM enc x q")
  case None
  with assms accounted_reply [OF assms(3)] show ?thesis
    by (auto simp: receiveRMM_def wf_rmq_def places_def)
next
  case (Some q1)
  have "x \<notin># places q"
  proof
    assume "x \<in># places q"
    then have "0 < count (places q) x" by (simp only: count_greater_zero_iff)
    moreover have "count (add_mset x (places q)) x \<le> 1" using assms(3) by (simp only: accounted_def)
    ultimately show False by (simp del: count_greater_zero_iff)
  qed
  then have nin: "x \<notin> set (rmms q)" by (auto simp: places_def)
  have ins: "mset (List.insert x (rmms q)) = add_mset x (mset (rmms q))" "length (List.insert x (rmms q)) = Suc (length (rmms q))"
    using nin by (simp_all add: List.insert_def)
  have q1: "outq q1 = outq q" "nextRMM q1 = nextRMM q" "rmms q1 = rmms q" "fresh q1 = fresh q" "acked q1 = acked q"
    "maxPendingRMMs q1 = maxPendingRMMs q" "replies q1 = replies q" "accepting q1 = accepting q"
    using Some by (auto simp: prepareRMM_def split: option.splits)
  define q2 where "q2 = (let q = q1\<lparr>rmms := List.insert x (rmms q1)\<rparr> in
      if int (length (rmms q)) \<ge> maxPendingRMMs q then q\<lparr>accepting := False\<rparr> else q)"
  have "wf_rmq q2"
    using assms ins q1 by (auto simp: q2_def Let_def wf_rmq_def places_def replied_def)
  moreover have "receiveRMM enc p x q = (let (invc, q) = takeInvoice q2 in q\<lparr>senders := senders q @ [(x, p, invc)]\<rparr>)"
    using Some by (simp add: receiveRMM_def q2_def Let_def)
  ultimately show ?thesis
    by (auto simp: takeInvoice_def wf_rmq_def places_def replied_def split: list.split)
qed

lemma newSession_wf: "wf_rmq q \<Longrightarrow> wf_rmq (newSession s q)"
  by (auto simp: newSession_def wf_rmq_def places_def replied_def clientMaxPendingRMMs_def Let_def split: option.split)

lemma receiveReply_wf:
  assumes "wf_rmq q" "x \<in> replied q"
  shows "wf_rmq (receiveReply x invc q)"
proof -
  have acc: "accounted (mpq_items (outq q) + (case nextRMM q of None \<Rightarrow> {#} | Some y \<Rightarrow> {#y#}) + mset (remove1 x (rmms q)))
      (replied q) (fresh q)"
  proof (cases "x \<in> set (rmms q)")
    case True
    then have "places q - {#x#} = mpq_items (outq q) + (case nextRMM q of None \<Rightarrow> {#} | Some y \<Rightarrow> {#y#}) + mset (remove1 x (rmms q))"
      by (simp add: places_def)
    with accounted_drop [of "places q" "replied q" "fresh q" x] assms show ?thesis by (simp add: wf_rmq_def)
  next
    case False
    with assms(1) show ?thesis by (simp add: wf_rmq_def places_def remove1_idem)
  qed
  have len: "length (remove1 x (rmms q)) \<le> length (rmms q)" by (simp add: length_remove1)
  show ?thesis
    using assms(1) acc len
    by (auto simp: receiveReply_def Let_def wf_rmq_def places_def replied_def)
qed

lemma drainOutq_wf:
  "wf_mpq (outq q) \<Longrightarrow> nextRMM q = None \<Longrightarrow> accounted (places q) (replied q) (fresh q) \<Longrightarrow>
   \<forall>(x, v) \<in> set (acked q). x \<in> replied q \<Longrightarrow>
   maxPendingRMMs q \<le> 256 \<Longrightarrow> length (rmms q) \<le> 256 \<Longrightarrow> (accepting q \<longrightarrow> length (rmms q) < 256) \<Longrightarrow>
   drainOutq n q = Some q' \<Longrightarrow> wf_rmq q'"
proof (induction n arbitrary: q)
  case 0
  then show ?case using mpq.size_0 [OF 0(1)] by (auto simp: wf_rmq_def split: if_splits)
next
  case (Suc n)
  show ?case
  proof (cases "LenQ (outq q) = 0")
    case True
    then show ?thesis using Suc.prems mpq.size_0 [OF Suc.prems(1)] by (auto simp: wf_rmq_def)
  next
    case False
    then have "mpq_items (outq q) \<noteq> {#}" using mpq.size_0 [OF Suc.prems(1)] by simp
    then obtain x oq where d: "dequeue (outq q) = Some (x, oq)" "wf_mpq oq" "mpq_items (outq q) = add_mset x (mpq_items oq)"
      using dequeue_ok [OF Suc.prems(1)] by blast
    let ?q = "sendReply x (Some RMQExiting) (q\<lparr>outq := oq\<rparr>)"
    have rp: "replied (q\<lparr>outq := oq\<rparr>) = replied q" by (simp add: replied_def)
    have "accounted (places ?q) (replied ?q) (fresh ?q)"
      using accounted_reply [of x "places ?q" "replied q" "fresh q"] Suc.prems(2,3) d(3) rp
      by (simp add: places_def)
    moreover have "drainOutq n ?q = Some q'" using Suc.prems(8) False d(1) by simp
    ultimately show ?thesis
      using Suc.IH [of ?q] Suc.prems d(2) rp by auto
  qed
qed

lemma exitEnqueue_wf:
  assumes "wf_rmq q" "exitEnqueue q = Some q'"
  shows "wf_rmq q'"
proof -
  let ?q = "q\<lparr>enqueueDone := True\<rparr>"
  have rp: "replied ?q = replied q" by (simp add: replied_def)
  show ?thesis
  proof (cases "nextRMM q")
    case None
    with assms show ?thesis
      by (intro drainOutq_wf [of ?q]) (auto simp: exitEnqueue_def wf_rmq_def places_def rp)
  next
    case (Some x)
    let ?q1 = "(sendReply x (Some RMQExiting) ?q)\<lparr>nextRMM := None\<rparr>"
    have f: "replied ?q1 = insert x (replied q)" "acked ?q1 = acked q" "places q = add_mset x (places ?q1)"
      using Some by (simp_all add: replied_def sendReply_def places_def)
    have "accounted (places ?q1) (replied ?q1) (fresh q)"
      using assms(1) accounted_reply [of x "places ?q1" "replied q" "fresh q"] f by (simp add: wf_rmq_def)
    with assms Some f show ?thesis
      by (intro drainOutq_wf [of ?q1]) (auto simp: exitEnqueue_def wf_rmq_def Let_def)
  qed
qed

lemma exitSend_wf:
  assumes "wf_rmq q"
  shows "wf_rmq (exitSend q)"
proof -
  have "wf_rmq (fold (\<lambda>x. sendReply x (Some RMQExiting)) xs q)" if "wf_rmq q" for xs q
    using that
  proof (induction xs arbitrary: q)
    case (Cons x xs)
    have "wf_rmq (sendReply x (Some RMQExiting) q)"
      using Cons.prems accounted_mono [of "places q" "replied q" "fresh q" "insert x (replied q)"]
      by (auto simp: wf_rmq_def places_def)
    with Cons.IH show ?case by simp
  qed simp
  moreover have "wf_rmq (q\<lparr>sendDone := True\<rparr>)" using assms by (auto simp: wf_rmq_def places_def replied_def)
  ultimately show ?thesis by (simp add: exitSend_def)
qed

lemma rmqStep_wf:
  assumes "wf_rmq q" "rmqStep ev q = Some q'"
  shows "wf_rmq q'"
proof (cases ev)
  case (EvQueue pri n hc)
  with assms show ?thesis by (auto simp: rmqStep_def intro: QueueRM_wf)
next
  case (EvHandover enc)
  with assms(2) obtain x p q1 where h: "nextRMM q = Some x" "accepting q" "afterHandover q = Some q1"
    "q' = receiveRMM enc p x q1"
    by (auto simp: rmqStep_def split: option.splits if_splits)
  have wf: "wf_mpq (outq q)" using assms(1) by (simp add: wf_rmq_def)
  note a = afterHandover_wf [OF wf h(3)]
  then obtain oq nx where q1: "q1 = q\<lparr>outq := oq, nextRMM := nx\<rparr>" by blast
  have "add_mset x (places q1) = places q" using a(3) h(1) q1 by (simp add: places_def)
  moreover have "replied q1 = replied q" "acked q1 = acked q" "fresh q1 = fresh q" "rmms q1 = rmms q"
    "maxPendingRMMs q1 = maxPendingRMMs q" using q1 by (simp_all add: replied_def)
  ultimately show ?thesis
    unfolding h(4) using assms(1) a(1,2) h(2) by (intro receiveRMM_wf) (simp_all add: wf_rmq_def)
next
  case (EvSession s)
  with assms show ?thesis by (auto simp: rmqStep_def newSession_wf split: if_splits)
next
  case (EvSender k envs)
  obtain x p invc where k: "senders q ! k = (x, p, invc)" by (cases "senders q ! k")
  obtain out rmm w where o: "sendToSession envs p (store q x) invc (world q) = (out, rmm, w)"
    by (cases "sendToSession envs p (store q x) invc (world q)")
  let ?q = "q\<lparr>store := (store q)(x := rmm), world := w, senders := take k (senders q) @ drop (Suc k) (senders q)\<rparr>"
  have wf: "wf_rmq ?q" using assms(1) by (simp add: wf_rmq_def places_def replied_def)
  show ?thesis
  proof (cases out)
    case NoReply
    then have "q' = ?q" using assms(2) EvSender k o by (simp add: rmqStep_def split: if_splits)
    with wf show ?thesis by simp
  next
    case (Acked nx)
    then have q': "q' = (sendReply x None ?q)\<lparr>acked := acked q @ [(x, nx)]\<rparr>"
      using assms(2) EvSender k o by (auto simp: rmqStep_def sendReply_def split: if_splits)
    have f: "replied q' = insert x (replied q)" "places q' = places q" "acked q' = acked q @ [(x, nx)]"
      "outq q' = outq q" "fresh q' = fresh q" "nextRMM q' = nextRMM q" "rmms q' = rmms q"
      "maxPendingRMMs q' = maxPendingRMMs q" "accepting q' = accepting q"
      by (simp_all add: q' replied_def sendReply_def places_def)
    have "accounted (places q) (insert x (replied q)) (fresh q)"
      using assms(1) by (auto simp: wf_rmq_def intro: accounted_mono)
    with assms(1) show ?thesis by (auto simp: wf_rmq_def f)
  next
    case Unfinished
    then show ?thesis using assms(2) EvSender k o by (simp add: rmqStep_def split: if_splits)
  qed
next
  case (EvAck k)
  with assms(2) obtain x invc where k: "k < length (acked q)" "acked q ! k = (x, invc)"
    "q' = receiveReply x invc (q\<lparr>acked := take k (acked q) @ drop (Suc k) (acked q)\<rparr>)"
    by (auto simp: rmqStep_def split: if_splits prod.splits)
  have "x \<in> replied q" using assms(1) k(1,2) nth_mem [OF k(1)] by (auto simp: wf_rmq_def)
  moreover have "wf_rmq (q\<lparr>acked := take k (acked q) @ drop (Suc k) (acked q)\<rparr>)"
    using assms(1) by (auto simp: wf_rmq_def places_def replied_def dest: in_set_takeD in_set_dropD)
  ultimately show ?thesis unfolding k(3) by (intro receiveReply_wf) (simp_all add: replied_def)
next
  case EvExitEnqueue
  with assms show ?thesis by (auto simp: rmqStep_def intro: exitEnqueue_wf split: if_splits)
next
  case EvExitSend
  with assms show ?thesis by (auto simp: rmqStep_def intro: exitSend_wf split: if_splits)
qed

lemma reachable_wf: "rmq_reachable q \<Longrightarrow> wf_rmq q"
  by (induction rule: rmq_reachable.induct) (auto intro: wf_NewRMQ rmqStep_wf)

section \<open>Paying once\<close>

lemma isRVInvoicePaid_cong:
  "attempts w = attempts w' \<Longrightarrow> isRVInvoicePaid env pol r w = isRVInvoicePaid env pol r w'"
  by (simp add: isRVInvoicePaid_def)

lemma payForRM_cases:
  assumes "payForRM env pol rmm invc w = (res, rmm', w')"
  shows "routed w' = routed w \<and> rv rmm' = rv rmm \<and> encrypted rmm' = encrypted rmm \<and>
    (payments w' = payments w \<or>
     isRVInvoicePaid env pol (rv rmm) w = None \<and>
     (\<exists>i amt d. payments w' = payments w @ [(rv rmm, i, amt)] \<and> res = None \<and>
        map_of (attempts w') (rv rmm) = Some (i, env_now env) \<and>
        decode env i = Some d \<and> paidHash rmm' = Some (ID d)))"
  using assms
  by (auto simp: payForRM_def Let_def split: sum.splits option.splits if_splits)

text \<open>The payment id of a message that is routed: of a stored, completed attempt or of a payment made.\<close>

lemma payForRM_hash:
  assumes "payForRM env pol rmm invc w = (None, rmm', w')"
  shows "\<exists>i d. decode env i = Some d \<and> paidHash rmm' = Some (ID d) \<and>
    map_of (attempts w') (rv rmm) \<noteq> None \<and> fst (the (map_of (attempts w') (rv rmm))) = i \<and>
    (completed env i \<noteq> None \<or> (\<exists>amt. (rv rmm, i, amt) \<in> set (payments w')))"
proof (cases "isRVInvoicePaid env pol (rv rmm) w")
  case None
  with assms show ?thesis
    by (auto simp: payForRM_def Let_def split: sum.splits option.splits if_splits)
next
  case (Some p)
  then obtain fees hash where p: "p = (fees, hash)" by (cases p)
  with Some assms have "rmm' = rmm\<lparr>paidHash := Some hash\<rparr>" "w' = w"
    by (auto simp: payForRM_def split: sum.splits)
  with Some p show ?thesis
    by (auto simp: isRVInvoicePaid_def split: bool.splits option.splits prod.splits if_splits)
qed

section \<open>Properties\<close>

text \<open>C7: No message is lost and none is in two places. In every reachable state, each message that
  \<open>QueueRM\<close> accepted is either in exactly one of the priority queue, the hand-over slot and the
  set of pending messages, or a reply was sent to its caller.\<close>

theorem rmq_no_loss:
  assumes "rmq_reachable q"
  shows "(\<forall>x. count (places q) x \<le> 1) \<and> (\<forall>x < fresh q. x \<in># places q \<or> x \<in> replied q)"
  using reachable_wf [OF assms] by (simp add: wf_rmq_def accounted_def)

lemma ex_queued: "\<exists>q. rmqStep (EvQueue 2 10 True) NewRMQ = Some q \<and> fresh q = 1"
proof -
  have wf: "wf_mpq (outq NewRMQ)" by (simp add: NewRMQ_def wf_emptyQ)
  obtain q1 where q1: "PushQ 0 2 (outq NewRMQ) = Some q1" "wf_mpq q1" "mpq_items q1 = {#0#}"
    using mpq.push_law [OF wf, of 2 0] by (auto simp: NewRMQ_def emptyQ_items)
  obtain x q2 where "dequeue q1 = Some (x, q2)"
    by (rule dequeue_ok [OF q1(2)]) (use q1(3) in auto)
  with q1(1) show ?thesis
    by (simp add: rmqStep_def QueueRM_def Let_def NewRMQ_def)
qed

theorem rmq_no_loss_witness:
  "\<exists>q. rmqStep (EvQueue 2 10 True) NewRMQ = Some q \<and> (0 \<in># places q \<or> 0 \<in> replied q)"
proof -
  obtain q where q: "rmqStep (EvQueue 2 10 True) NewRMQ = Some q" "fresh q = 1" using ex_queued by blast
  have "rmq_reachable q" by (rule rmq_reachable.step [OF rmq_reachable.start q(1)])
  from rmq_no_loss [OF this] q show ?thesis by auto
qed

text \<open>The client never has more than 256 messages pending with the server, whatever limits the
  servers it connects to announce.\<close>

theorem rmq_pending_bound:
  assumes "rmq_reachable q"
  shows "length (rmms q) \<le> 256"
  using reachable_wf [OF assms] by (simp add: wf_rmq_def)

theorem rmq_pending_bound_witness:
  "\<exists>q. rmqStep (EvQueue 2 10 True) NewRMQ = Some q \<and> length (rmms q) \<le> 256"
proof -
  obtain q where q: "rmqStep (EvQueue 2 10 True) NewRMQ = Some q" using ex_queued by blast
  have "rmq_reachable q" by (rule rmq_reachable.step [OF rmq_reachable.start q])
  from rmq_pending_bound [OF this] q show ?thesis by blast
qed

text \<open>A push is not paid twice while its payment can be used. When the stored attempt for the
  rendezvous point is recent enough and completed, \<open>payForRM\<close> makes no payment and reuses its
  id; and a payment is only made after its attempt has been stored, so that it is found again.\<close>

theorem push_paid_once:
  assumes "payForRM env pol rmm invc w = (res, rmm', w')"
  shows "(isRVInvoicePaid env pol (rv rmm) w \<noteq> None \<longrightarrow> payments w' = payments w) \<and>
    (payments w' \<noteq> payments w \<longrightarrow>
      (\<exists>i amt. payments w' = payments w @ [(rv rmm, i, amt)] \<and> map_of (attempts w') (rv rmm) = Some (i, env_now env)))"
  using payForRM_cases [OF assms] by auto

definition ex_policy :: server_policy where
  "ex_policy = \<lparr>PushPaymentLifetime = 100, MaxPushInvoices = 3, MaxMsgSize = 1000, PushPayRateMinMAtoms = 5,
     PushPayRateMAtoms = 1, PushPayRateBytes = 1\<rparr>"

definition ex_env :: rm_env where
  "ex_env = \<lparr>env_now = 50, has_attempt_fails = False, store_fails = False, delete_fails = False,
     decode = (\<lambda>i. Some \<lparr>ID = [7], MAtoms = 0, ExpiryTime = 10 ^ 12\<rparr>), completed = (\<lambda>i. Some 0),
     pays = (\<lambda>i a. Some 0), fetch = FetchInvoice ''inv'', send_fails = False, ack = Some (AckRoute '''' ''next'')\<rparr>"

definition ex_rmm :: rmmsg where
  "ex_rmm = \<lparr>prio = 0, encLen = 10, rv = [1], encrypted = Some [2], paidHash = None, hasReplyChan = True\<rparr>"

definition ex_world :: rm_world where
  "ex_world = \<lparr>attempts = [([1], (''old'', 40))], payments = [], routed = [], closes = 0\<rparr>"

theorem push_paid_once_witness:
  "\<exists>res rmm' w'. payForRM ex_env ex_policy ex_rmm '''' ex_world = (res, rmm', w') \<and> payments w' = []"
proof -
  obtain res rmm' w' where p: "payForRM ex_env ex_policy ex_rmm '''' ex_world = (res, rmm', w')"
    by (cases "payForRM ex_env ex_policy ex_rmm '''' ex_world")
  have "isRVInvoicePaid ex_env ex_policy (rv ex_rmm) ex_world \<noteq> None"
    by (simp add: isRVInvoicePaid_def ex_env_def ex_policy_def ex_rmm_def ex_world_def)
  with push_paid_once [OF p] p show ?thesis by (simp add: ex_world_def)
qed

text \<open>What is acknowledged was paid for and sent. When \<open>sendToSession\<close> reports an acknowledgement,
  the last message it routed is the given one at its rendezvous point with a payment id, and the
  stored attempt has been deleted.\<close>

theorem acked_was_sent:
  assumes "sendToSession envs pol rmm invc w = (Acked nx, rmm', w')" "\<forall>env \<in> set envs. \<not> delete_fails env"
  shows "\<exists>rs hash. routed w' = routed w @ rs @ [(Some hash, rv rmm, encrypted rmm)] \<and>
    map_of (attempts w') (rv rmm) = None"
  using assms
proof (induction envs arbitrary: rmm invc w)
  case (Cons env envs)
  obtain res rmm1 w1 where p: "payForRM env pol rmm invc w = (res, rmm1, w1)"
    by (cases "payForRM env pol rmm invc w")
  have res: "res = None" "\<not> send_fails env" using Cons.prems(1) p by (auto split: option.splits if_splits)
  obtain reply where reply: "ack env = Some reply"
    using Cons.prems(1) p res by (auto simp: Let_def split: option.splits)
  have c: "routed w1 = routed w" "rv rmm1 = rv rmm" "encrypted rmm1 = encrypted rmm"
    using payForRM_cases [OF p] by auto
  obtain hash where h: "paidHash rmm1 = Some hash" using payForRM_hash [of env pol rmm invc w rmm1 w1] p res(1) by auto
  let ?w = "w1\<lparr>routed := routed w1 @ [(paidHash rmm1, rv rmm1, encrypted rmm1)]\<rparr>"
  have d: "\<not> delete_fails env" using Cons.prems(2) by simp
  obtain nx' e where a: "processRMAck reply = (nx', e)" by (cases "processRMAck reply")
  show ?case
  proof (cases "e = None")
    case True
    then have "w' = deleteAttempt env (rv rmm1) ?w" using Cons.prems(1) p res reply a by (auto simp: Let_def)
    then show ?thesis using c h d by (simp add: deleteAttempt_def)
  next
    case False
    then have "sendToSession envs pol (rmm1\<lparr>paidHash := None\<rparr>) '''' (deleteAttempt env (rv rmm1) ?w) = (Acked nx, rmm', w')"
      using Cons.prems(1) p res reply a by (auto simp: Let_def split: option.splits rm_error.splits)
    from Cons.IH [OF this] Cons.prems(2) c d show ?thesis by (auto simp: deleteAttempt_def)
  qed
qed simp

theorem acked_was_sent_witness:
  "\<exists>nx rmm' w'. sendToSession [ex_env] ex_policy ex_rmm '''' ex_world = (Acked nx, rmm', w') \<and>
    map_of (attempts w') [1] = None"
proof -
  obtain nx rmm' w' where s: "sendToSession [ex_env] ex_policy ex_rmm '''' ex_world = (Acked nx, rmm', w')"
    by (simp add: payForRM_def isRVInvoicePaid_def processRMAck_def CalcPushCostMAtoms_def maxInt64_def Let_def
        ex_env_def ex_policy_def ex_rmm_def ex_world_def)
  have "\<forall>env \<in> set [ex_env]. \<not> delete_fails env" by (simp add: ex_env_def)
  from acked_was_sent [OF s this] s show ?thesis by (auto simp: ex_rmm_def)
qed

end
