(* ===== verification/ShortID.thy ===== *)
theory ShortID
  imports BR_Prelude
begin

text \<open>
  Global identifiers (\<^verbatim>\<open>src/zkidentity/shortid.go\<close>, \<^verbatim>\<open>src/zkidentity/fixedsize.go\<close>): arrays of bytes
  of a fixed size with a hexadecimal text form, and the one error text of \<^verbatim>\<open>src/rpc/errors.go\<close> that
  carries an identifier across the client/server protocol and is parsed back from it. An identifier is
  its list of bytes; the array size is an argument \<open>n\<close> of the operations that every fixed-size type
  has (32 for \<open>ShortID\<close> and symmetric keys, 64 for signatures, the key sizes of sntrup4591761).
\<close>

section \<open>Hexadecimal text\<close>

definition hexDigit :: "nat \<Rightarrow> char" where
  "hexDigit n = (if n < 10 then char_of (48 + n) else char_of (87 + n))"

definition fromHexChar :: "char \<Rightarrow> nat option" where
  "fromHexChar c =
     (let k = of_char c :: nat in
      if 48 \<le> k \<and> k \<le> 57 then Some (k - 48)
      else if 97 \<le> k \<and> k \<le> 102 then Some (k - 87)
      else if 65 \<le> k \<and> k \<le> 70 then Some (k - 55)
      else None)"

fun EncodeToString :: "bytes \<Rightarrow> string" where
  "EncodeToString [] = []"
| "EncodeToString (b # bs) = hexDigit (unat b div 16) # hexDigit (unat b mod 16) # EncodeToString bs"

fun DecodeString :: "string \<Rightarrow> bytes option" where
  "DecodeString [] = Some []"
| "DecodeString [c] = None"
| "DecodeString (c # d # s) =
     (case (fromHexChar c, fromHexChar d, DecodeString s) of
        (Some x, Some y, Some bs) \<Rightarrow> Some (of_nat (16 * x + y) # bs)
      | _ \<Rightarrow> None)"

section \<open>Fixed-size identifiers\<close>

datatype id_error = InvalidHex | InvalidLength nat

definition id_String :: "bytes \<Rightarrow> string" where
  "id_String u = EncodeToString u"

text \<open>\<open>ShortLogID\<close> slices the first 8 bytes of the array.\<close>

definition ShortLogID :: "bytes \<Rightarrow> string" where
  "ShortLogID u = EncodeToString (take 8 u)"

definition FromBytes :: "nat \<Rightarrow> bytes \<Rightarrow> id_error + bytes" where
  "FromBytes n b = (if length b \<noteq> n then Inl (InvalidLength (length b)) else Inr b)"

definition FromString :: "nat \<Rightarrow> string \<Rightarrow> id_error + bytes" where
  "FromString n s =
     (case DecodeString s of
        None \<Rightarrow> Inl InvalidHex
      | Some h \<Rightarrow> if length h \<noteq> n then Inl (InvalidLength (length h)) else Inr h)"

text \<open>The comparisons, by a loop over the bytes. In \<open>IsEqual\<close> a nil pointer is \<open>None\<close>.\<close>

definition IsEqual :: "bytes option \<Rightarrow> bytes option \<Rightarrow> bool" where
  "IsEqual u target =
     (case (u, target) of
        (None, None) \<Rightarrow> True
      | (Some a, Some b) \<Rightarrow> a = b
      | _ \<Rightarrow> False)"

fun Less :: "bytes \<Rightarrow> bytes \<Rightarrow> bool" where
  "Less (a # u) (b # other) = (if a < b then True else if a > b then False else Less u other)"
| "Less _ _ = False"

fun Compare :: "bytes \<Rightarrow> bytes \<Rightarrow> int" where
  "Compare [] [] = 0"
| "Compare [] (b # other) = - 1"
| "Compare (a # u) [] = 1"
| "Compare (a # u) (b # other) = (if a < b then - 1 else if a > b then 1 else Compare u other)"

text \<open>\<open>ConstantTimeEq\<close> ors together the differences of all bytes and compares the result with 0.\<close>

definition ConstantTimeEq :: "bytes \<Rightarrow> bytes \<Rightarrow> bool" where
  "ConstantTimeEq u other =
     (length u = length other \<and> fold (\<lambda>(x, y) v. or v (xor x y)) (zip u other) 0 = 0)"

definition IsEmpty :: "bytes \<Rightarrow> bool" where
  "IsEmpty u = ConstantTimeEq u (replicate (length u) 0)"

section \<open>The error of an unpaid subscription\<close>

definition errUnpaidSubscriptionRVMsg :: string where
  "errUnpaidSubscriptionRVMsg = ''unpaid subscription to RV''"

definition ErrUnpaidSubscriptionRV :: "bytes \<Rightarrow> string" where
  "ErrUnpaidSubscriptionRV rv = errUnpaidSubscriptionRVMsg @ '' '' @ id_String rv"

text \<open>The regular expression matches the prefix, a space and exactly 64 hexadecimal digits.\<close>

definition ParseErrUnpaidSubscriptionRV :: "string \<Rightarrow> bytes option" where
  "ParseErrUnpaidSubscriptionRV s =
     (let pre = errUnpaidSubscriptionRVMsg @ '' ''; hex = drop (length pre) s in
      if take (length pre) s = pre \<and> length hex = 64 \<and> list_all (\<lambda>c. fromHexChar c \<noteq> None) hex
      then (case FromString 32 hex of Inl _ \<Rightarrow> None | Inr rv \<Rightarrow> Some rv)
      else None)"

section \<open>Lemmas\<close>

lemma fromHexChar_hexDigit [simp]:
  assumes "n < 16"
  shows "fromHexChar (hexDigit n) = Some n"
  using assms by (simp add: hexDigit_def fromHexChar_def Let_def)

lemma fromHexChar_bound: "fromHexChar c = Some x \<Longrightarrow> x < 16"
  by (auto simp: fromHexChar_def Let_def split: if_splits)

lemma unat_byte_bound: "unat (b :: byte) < 256"
  using unsigned_less [of b, where 'a = nat] by simp

lemma byte_div_16 [simp]: "unat (b :: byte) div 16 < 16"
  using unat_byte_bound [of b] by simp

lemma of_nat_unat_id: "of_nat (unat b) = (b :: byte)"
  by simp

lemma byte_div_mod_16 [simp]: "of_nat (16 * (unat b div 16) + unat b mod 16) = (b :: byte)"
proof -
  have "16 * (unat b div 16) + unat b mod 16 = unat b" by simp
  then show ?thesis by (simp only: of_nat_unat_id)
qed

lemma DecodeString_EncodeToString [simp]: "DecodeString (EncodeToString bs) = Some bs"
  using byte_div_mod_16 by (induction bs) (auto simp del: of_nat_add of_nat_mult)

lemma length_EncodeToString [simp]: "length (EncodeToString bs) = 2 * length bs"
  by (induction bs) auto

lemma hex_EncodeToString: "list_all (\<lambda>c. fromHexChar c \<noteq> None) (EncodeToString bs)"
  by (induction bs) auto

lemma DecodeString_length: "DecodeString s = Some bs \<Longrightarrow> length s = 2 * length bs"
  by (induction s arbitrary: bs rule: DecodeString.induct) (auto split: option.splits)

lemma DecodeString_total:
  "even (length s) \<Longrightarrow> list_all (\<lambda>c. fromHexChar c \<noteq> None) s \<Longrightarrow> DecodeString s \<noteq> None"
  by (induction s rule: DecodeString.induct) (auto split: option.splits)

lemma Less_iff_Compare: "length u = length v \<Longrightarrow> Less u v \<longleftrightarrow> Compare u v = - 1"
  by (induction u v rule: Compare.induct) auto

lemma Compare_values: "Compare u v \<in> {- 1, 0, 1}"
  by (induction u v rule: Compare.induct) auto

lemma Compare_eq_0 [simp]: "Compare u v = 0 \<longleftrightarrow> u = v"
  by (induction u v rule: Compare.induct) auto

lemma Compare_self [simp]: "Compare u u = 0"
  using Compare_eq_0 [of u u] by blast

lemma Compare_swap: "Compare v u = - Compare u v"
  by (induction u v rule: Compare.induct) auto

lemma Compare_trans: "Compare u v = - 1 \<Longrightarrow> Compare v w = - 1 \<Longrightarrow> Compare u w = - 1"
proof (induction u v arbitrary: w rule: Compare.induct)
  case (2 b other)
  then show ?case by (cases w) auto
next
  case (4 a u b other)
  then show ?case by (cases w) (auto split: if_splits)
qed auto

lemma word_or_xor_0: "or a (xor x y) = 0 \<longleftrightarrow> a = 0 \<and> x = (y :: byte)"
  by (auto simp: bit_eq_iff bit_simps)

lemma fold_or_diff:
  "length u = length v \<Longrightarrow>
   fold (\<lambda>(x, y) a. or a (xor x y)) (zip u v) (acc :: byte) = 0 \<longleftrightarrow> acc = 0 \<and> u = v"
  by (induction u v arbitrary: acc rule: list_induct2) (simp_all add: word_or_xor_0)

section \<open>Properties\<close>

text \<open>Identifiers survive their text form, and only that form is accepted. \<open>FromString\<close> reads back
  exactly the text that \<open>String\<close> writes; whatever text it accepts has two hexadecimal digits for each
  byte of the array; and the error text naming an unpaid rendezvous point, which the server sends and
  the client parses, gives that rendezvous point back.\<close>

theorem id_text_roundtrip:
  assumes "length u = n"
  shows "FromString n (id_String u) = Inr u \<and>
    (FromString n s = Inr v \<longrightarrow> length v = n \<and> length s = 2 * n) \<and>
    (n = 32 \<longrightarrow> ParseErrUnpaidSubscriptionRV (ErrUnpaidSubscriptionRV u) = Some u)"
proof (intro conjI impI)
  show "FromString n (id_String u) = Inr u"
    using assms by (simp add: FromString_def id_String_def)
  show "length v = n" "length s = 2 * n" if "FromString n s = Inr v"
    using that by (auto simp: FromString_def dest: DecodeString_length split: option.splits if_splits)
  show "ParseErrUnpaidSubscriptionRV (ErrUnpaidSubscriptionRV u) = Some u" if "n = 32"
    using assms that hex_EncodeToString [of u]
    by (simp add: ParseErrUnpaidSubscriptionRV_def ErrUnpaidSubscriptionRV_def Let_def
        FromString_def id_String_def)
qed

theorem id_text_roundtrip_witness:
  "FromString 2 (id_String [10, 255]) = Inr [10, 255] \<and>
   length [10 :: byte, 255] = 2 \<and> length ''0aFf'' = 2 * (2 :: nat) \<and>
   ParseErrUnpaidSubscriptionRV (ErrUnpaidSubscriptionRV (replicate 32 7)) = Some (replicate 32 7)"
proof -
  have "FromString 2 ''0aFf'' = Inr [10, 255]" by code_simp
  then show ?thesis
    using id_text_roundtrip [of "[10, 255]" 2 "''0aFf''" "[10, 255]"]
      id_text_roundtrip [of "replicate 32 7" 32] by simp
qed

text \<open>The comparisons of identifiers agree: \<open>Compare\<close> is a total order whose zero is equality,
  \<open>Less\<close> is its strict part, and the constant-time comparison decides the same equality, so that
  \<open>IsEmpty\<close> holds of the all-zero identifier only.\<close>

theorem id_order_consistent:
  assumes "length u = length v" "length v = length w"
  shows "(Compare u v = 0 \<longleftrightarrow> ConstantTimeEq u v) \<and>
    (Less u v \<longleftrightarrow> Compare u v < 0) \<and>
    Compare v u = - Compare u v \<and>
    (Less u v \<and> Less v w \<longrightarrow> Less u w) \<and>
    (IsEmpty u \<longleftrightarrow> u = replicate (length u) 0)"
proof (intro conjI)
  show "Compare u v = 0 \<longleftrightarrow> ConstantTimeEq u v"
    using assms by (simp add: ConstantTimeEq_def fold_or_diff)
  show "Less u v \<longleftrightarrow> Compare u v < 0"
    using assms Compare_values [of u v] by (auto simp: Less_iff_Compare)
  show "Compare v u = - Compare u v" by (rule Compare_swap)
  show "Less u v \<and> Less v w \<longrightarrow> Less u w"
    using assms by (auto simp: Less_iff_Compare intro: Compare_trans)
  show "IsEmpty u \<longleftrightarrow> u = replicate (length u) 0"
    by (simp add: IsEmpty_def ConstantTimeEq_def fold_or_diff)
qed

theorem id_order_consistent_witness:
  "Less [1, 2] [1, 9] \<and> Less [1, 9] [3, 0] \<and> Less [1, 2] [3, 0] \<and> \<not> ConstantTimeEq [1, 2] [1, 9]"
proof -
  have "Less [1, 2] [1, 9]" "Less [1, 9] [3, 0]" by code_simp+
  then show ?thesis
    using id_order_consistent [of "[1, 2]" "[1, 9]" "[3, 0]"] by simp
qed

end
