(* ===== verification/Paid_RVs.thy ===== *)
theory Paid_RVs
  imports ShortID
begin

text \<open>
  The client's record of the rendezvous points it has paid for and of the payments for pushes that
  are under way (\<^verbatim>\<open>src/client/clientdb/rvs.go\<close>), and the adapter through which the rendezvous manager
  uses the first (\<^verbatim>\<open>rvManagerDBAdapter\<close> in \<^verbatim>\<open>src/client/util.go\<close>). Each record is a file named after the
  rendezvous point; a directory of such files is a map. What the file system refuses to do is an
  argument (\<open>file_io\<close>). A time carries the offset of its zone, because \<open>isDateLte\<close> compares calendar
  dates, each in the zone of its own time; dates are ordered as the numbers of their days.
\<close>

type_synonym RVID = bytes

record gtime =
  instant :: time
  offset :: duration

record file_io =
  read_fails :: "RVID \<Rightarrow> bool"
  write_fails :: "RVID \<Rightarrow> bool"
  remove_fails :: "RVID \<Rightarrow> bool"

definition day :: duration where
  "day = 86400 * second"

definition date_of :: "gtime \<Rightarrow> int" where
  "date_of t = (instant t + offset t) div day"

definition isDateLte :: "gtime \<Rightarrow> gtime \<Rightarrow> bool" where
  "isDateLte a b = (date_of a \<le> date_of b)"

text \<open>\<^verbatim>\<open>24 * time.Hour * time.Duration(expirationDays)\<close>, a signed 64-bit product.\<close>

definition expirationDuration :: "int \<Rightarrow> duration" where
  "expirationDuration expirationDays = sint (of_int (day * expirationDays) :: u64)"

definition UTC :: "gtime \<Rightarrow> gtime" where
  "UTC t = t\<lparr>offset := 0\<rparr>"

definition time_Add :: "gtime \<Rightarrow> duration \<Rightarrow> gtime" where
  "time_Add t d = t\<lparr>instant := instant t + d\<rparr>"

section \<open>Paid rendezvous points\<close>

type_synonym paid_db = "(RVID, gtime) gomap"

datatype db_error = ReadFailed | WriteFailed | RemoveFailed

fun CleanupPaidRVs_loop :: "file_io \<Rightarrow> gtime \<Rightarrow> RVID list \<Rightarrow> paid_db \<Rightarrow> paid_db" where
  "CleanupPaidRVs_loop io validLimit [] db = db"
| "CleanupPaidRVs_loop io validLimit (f # files) db =
     CleanupPaidRVs_loop io validLimit files
       (if read_fails io f then db
        else case map_of db f of
               None \<Rightarrow> db
             | Some ts \<Rightarrow>
                 if isDateLte ts validLimit \<and> \<not> remove_fails io f then AList.delete f db else db)"

definition CleanupPaidRVs :: "file_io \<Rightarrow> gtime \<Rightarrow> int \<Rightarrow> paid_db \<Rightarrow> paid_db" where
  "CleanupPaidRVs io now expirationDays db =
     CleanupPaidRVs_loop io (time_Add now (- expirationDuration expirationDays)) (map fst db) db"

definition IsRVPaid :: "file_io \<Rightarrow> gtime \<Rightarrow> RVID \<Rightarrow> int \<Rightarrow> paid_db \<Rightarrow> (db_error + bool) \<times> paid_db" where
  "IsRVPaid io now rv expirationDays db =
     (case map_of db rv of
        None \<Rightarrow> (Inr False, db)
      | Some ts \<Rightarrow>
          if read_fails io rv then (Inl ReadFailed, db)
          else
            let validLimit = time_Add (UTC now) (- expirationDuration expirationDays) in
            if isDateLte ts validLimit then
              (if remove_fails io rv then (Inl RemoveFailed, db) else (Inr False, AList.delete rv db))
            else (Inr True, db))"

definition SaveRVPaid :: "file_io \<Rightarrow> gtime \<Rightarrow> RVID \<Rightarrow> paid_db \<Rightarrow> db_error option \<times> paid_db" where
  "SaveRVPaid io now rv db =
     (if write_fails io rv then (Some WriteFailed, db) else (None, AList.update rv now db))"

text \<open>The operations of the adapter; a transaction is not rolled back when it fails.\<close>

fun UnpaidRVs :: "file_io \<Rightarrow> gtime \<Rightarrow> RVID list \<Rightarrow> int \<Rightarrow> paid_db \<Rightarrow> (db_error + RVID list) \<times> paid_db" where
  "UnpaidRVs io now [] expirationDays db = (Inr [], db)"
| "UnpaidRVs io now (rv # rvs) expirationDays db =
     (case IsRVPaid io now rv expirationDays db of
        (Inl e, db) \<Rightarrow> (Inl e, db)
      | (Inr paid, db) \<Rightarrow>
          (case UnpaidRVs io now rvs expirationDays db of
             (Inl e, db) \<Rightarrow> (Inl e, db)
           | (Inr unpaid, db) \<Rightarrow> (Inr (if paid then unpaid else rv # unpaid), db)))"

fun SavePaidRVs :: "file_io \<Rightarrow> gtime \<Rightarrow> RVID list \<Rightarrow> paid_db \<Rightarrow> db_error option \<times> paid_db" where
  "SavePaidRVs io now [] db = (None, db)"
| "SavePaidRVs io now (rv # rvs) db =
     (case SaveRVPaid io now rv db of
        (Some e, db) \<Rightarrow> (Some e, db)
      | (None, db) \<Rightarrow> SavePaidRVs io now rvs db)"

definition MarkRVUnpaid :: "file_io \<Rightarrow> RVID \<Rightarrow> paid_db \<Rightarrow> db_error option \<times> paid_db" where
  "MarkRVUnpaid io rv db =
     (if map_of db rv = None then (None, db)
      else if remove_fails io rv then (Some RemoveFailed, db)
      else (None, AList.delete rv db))"

section \<open>Payments for pushes under way\<close>

record paidPush =
  AttemptTime :: time
  Invoice :: string

type_synonym push_db = "(RVID, paidPush) gomap"

definition StorePushPaymentAttempt ::
    "file_io \<Rightarrow> RVID \<Rightarrow> string \<Rightarrow> time \<Rightarrow> push_db \<Rightarrow> db_error option \<times> push_db" where
  "StorePushPaymentAttempt io rv invc t db =
     (if write_fails io rv then (Some WriteFailed, db)
      else (None, AList.update rv \<lparr>AttemptTime = t, Invoice = invc\<rparr> db))"

definition HasPushPaymentAttempt :: "file_io \<Rightarrow> RVID \<Rightarrow> push_db \<Rightarrow> db_error + (string \<times> time)" where
  "HasPushPaymentAttempt io rv db =
     (case map_of db rv of
        None \<Rightarrow> Inr ('''', zero_time)
      | Some prv \<Rightarrow> if read_fails io rv then Inl ReadFailed else Inr (Invoice prv, AttemptTime prv))"

definition DeletePushPaymentAttempt :: "file_io \<Rightarrow> RVID \<Rightarrow> push_db \<Rightarrow> db_error option \<times> push_db" where
  "DeletePushPaymentAttempt io rv db =
     (if map_of db rv = None then (None, db)
      else if remove_fails io rv then (Some RemoveFailed, db)
      else (None, AList.delete rv db))"

fun CleanupPushPaymentAttempts_loop :: "file_io \<Rightarrow> time \<Rightarrow> RVID list \<Rightarrow> push_db \<Rightarrow> push_db" where
  "CleanupPushPaymentAttempts_loop io limit [] db = db"
| "CleanupPushPaymentAttempts_loop io limit (f # files) db =
     CleanupPushPaymentAttempts_loop io limit files
       (if read_fails io f then db
        else case map_of db f of
               None \<Rightarrow> db
             | Some prv \<Rightarrow>
                 if AttemptTime prv < limit \<and> \<not> remove_fails io f then AList.delete f db else db)"

definition CleanupPushPaymentAttempts :: "file_io \<Rightarrow> time \<Rightarrow> push_db \<Rightarrow> push_db" where
  "CleanupPushPaymentAttempts io limit db = CleanupPushPaymentAttempts_loop io limit (map fst db) db"

section \<open>The interface of the rendezvous manager to its database\<close>

text \<open>
  What the rendezvous manager relies on (\<^verbatim>\<open>RVManagerDB\<close>). \<open>paid c db rv\<close> says that \<open>rv\<close> counts as paid
  in the circumstances \<open>c\<close> of a call, and \<open>lasts c\<close> that a payment recorded in them counts as one.
\<close>

locale rv_manager_db =
  fixes unpaid :: "'c \<Rightarrow> 'rv list \<Rightarrow> 'db \<Rightarrow> ('e + 'rv list) \<times> 'db"
    and save :: "'c \<Rightarrow> 'rv list \<Rightarrow> 'db \<Rightarrow> 'e option \<times> 'db"
    and mark :: "'c \<Rightarrow> 'rv \<Rightarrow> 'db \<Rightarrow> 'e option \<times> 'db"
    and paid :: "'c \<Rightarrow> 'db \<Rightarrow> 'rv \<Rightarrow> bool"
    and lasts :: "'c \<Rightarrow> bool"
  assumes unpaid_result: "unpaid c rvs db = (Inr us, db') \<Longrightarrow> us = filter (\<lambda>rv. \<not> paid c db rv) rvs"
    and unpaid_keeps: "paid c (snd (unpaid c rvs db)) rv = paid c db rv"
    and save_done: "save c rvs db = (None, db') \<Longrightarrow> lasts c \<Longrightarrow> rv \<in> set rvs \<Longrightarrow> paid c db' rv"
    and save_others: "rv \<notin> set rvs \<Longrightarrow> paid c (snd (save c rvs db)) rv = paid c db rv"
    and mark_done: "mark c rv db = (None, db') \<Longrightarrow> \<not> paid c db' rv"
    and mark_others: "rv \<noteq> rv' \<Longrightarrow> paid c (snd (mark c rv db)) rv' = paid c db rv'"
begin

text \<open>Paying for what \<open>unpaid\<close> returned leaves nothing to pay in the same list.\<close>

lemma pay_settles:
  assumes "unpaid c rvs db = (Inr us, db1)" "save c us db1 = (None, db2)" "lasts c"
    "unpaid c rvs db2 = (Inr us', db3)"
  shows "us' = []"
proof -
  have us: "us = filter (\<lambda>rv. \<not> paid c db rv) rvs" by (rule unpaid_result [OF assms(1)])
  have keeps: "paid c db1 rv = paid c db rv" for rv using unpaid_keeps [of c rvs db] assms(1) by simp
  have "paid c db2 rv" if "rv \<in> set rvs" for rv
  proof (cases "rv \<in> set us")
    case True
    then show ?thesis by (rule save_done [OF assms(2,3)])
  next
    case False
    then show ?thesis using that us keeps save_others [OF False, of c db1] assms(2) by simp
  qed
  then show ?thesis using unpaid_result [OF assms(4)] by simp
qed

text \<open>A point that the server reports unpaid is charged for in the next round.\<close>

lemma marked_is_charged:
  assumes "mark c rv db = (None, db1)" "unpaid c rvs db1 = (Inr us, db2)" "rv \<in> set rvs"
  shows "rv \<in> set us"
  using mark_done [OF assms(1)] unpaid_result [OF assms(2)] assms(3) by simp

end

definition rv_paid :: "gtime \<Rightarrow> int \<Rightarrow> paid_db \<Rightarrow> RVID \<Rightarrow> bool" where
  "rv_paid now days db rv =
     (case map_of db rv of
        None \<Rightarrow> False
      | Some ts \<Rightarrow> \<not> isDateLte ts (time_Add (UTC now) (- expirationDuration days)))"

definition payment_lasts :: "gtime \<Rightarrow> int \<Rightarrow> bool" where
  "payment_lasts now days = (\<not> isDateLte now (time_Add (UTC now) (- expirationDuration days)))"

lemma rv_paid_delete [simp]: "rv_paid now days (AList.delete k db) rv = (rv \<noteq> k \<and> rv_paid now days db rv)"
  by (auto simp: rv_paid_def)

lemma rv_paid_update [simp]:
  "rv_paid now days (AList.update k t db) rv =
   (if rv = k then \<not> isDateLte t (time_Add (UTC now) (- expirationDuration days)) else rv_paid now days db rv)"
  by (auto simp: rv_paid_def)

lemma IsRVPaid_answer: "IsRVPaid io now rv days db = (Inr b, db') \<Longrightarrow> b = rv_paid now days db rv"
  by (auto simp: IsRVPaid_def rv_paid_def Let_def split: option.splits if_splits)

lemma IsRVPaid_keeps: "rv_paid now days (snd (IsRVPaid io now rv days db)) rv' = rv_paid now days db rv'"
  by (auto simp: IsRVPaid_def rv_paid_def Let_def split: option.splits)

lemma UnpaidRVs_keeps: "rv_paid now days (snd (UnpaidRVs io now rvs days db)) rv = rv_paid now days db rv"
proof (induction rvs arbitrary: db)
  case (Cons r rvs)
  obtain a db1 where a: "IsRVPaid io now r days db = (a, db1)" by fastforce
  obtain b db2 where b: "UnpaidRVs io now rvs days db1 = (b, db2)" by fastforce
  show ?case
    using IsRVPaid_keeps [of now days io r db rv] Cons.IH [of db1] a b
    by (cases a; cases b) simp_all
qed simp

lemma UnpaidRVs_result:
  "UnpaidRVs io now rvs days db = (Inr us, db') \<Longrightarrow> us = filter (\<lambda>rv. \<not> rv_paid now days db rv) rvs"
proof (induction rvs arbitrary: db us)
  case (Cons r rvs)
  obtain b db1 us1 where step: "IsRVPaid io now r days db = (Inr b, db1)"
      "UnpaidRVs io now rvs days db1 = (Inr us1, db')" "us = (if b then us1 else r # us1)"
    using Cons.prems by (auto split: prod.splits sum.splits)
  have "rv_paid now days db1 rv = rv_paid now days db rv" for rv
    using IsRVPaid_keeps [of now days io r db rv] step(1) by simp
  with Cons.IH [OF step(2)] step(3) IsRVPaid_answer [OF step(1)] show ?case by simp
qed simp

lemma SavePaidRVs_others:
  "rv \<notin> set rvs \<Longrightarrow> map_of (snd (SavePaidRVs io now rvs db)) rv = map_of db rv"
  by (induction rvs arbitrary: db) (auto simp: SaveRVPaid_def)

lemma SavePaidRVs_done:
  "SavePaidRVs io now rvs db = (None, db') \<Longrightarrow> rv \<in> set rvs \<Longrightarrow> map_of db' rv = Some now"
proof (induction rvs arbitrary: db)
  case (Cons r rvs)
  then have rest: "SavePaidRVs io now rvs (AList.update r now db) = (None, db')"
    by (auto simp: SaveRVPaid_def split: if_splits)
  show ?case
  proof (cases "rv \<in> set rvs")
    case True
    with Cons.IH [OF rest] show ?thesis .
  next
    case False
    with SavePaidRVs_others [OF False, of io now "AList.update r now db"] rest Cons.prems show ?thesis by auto
  qed
qed simp

lemma SavePaidRVs_only:
  "map_of (snd (SavePaidRVs io now rvs db)) rv \<noteq> map_of db rv \<Longrightarrow> rv \<in> set rvs"
  using SavePaidRVs_others by metis

interpretation clientdb: rv_manager_db
  "\<lambda>(io, now, days) rvs. UnpaidRVs io now rvs days" "\<lambda>(io, now, days). SavePaidRVs io now"
  "\<lambda>(io, now, days). MarkRVUnpaid io" "\<lambda>(io, now, days). rv_paid now days" "\<lambda>(io, now, days). payment_lasts now days"
proof (unfold_locales, goal_cases)
  case (1 c rvs db us db') then show ?case by (cases c) (simp add: UnpaidRVs_result)
next
  case (2 c rvs db rv) then show ?case by (cases c) (simp add: UnpaidRVs_keeps)
next
  case (3 c rvs db db' rv) then show ?case
    by (cases c) (auto simp: rv_paid_def payment_lasts_def SavePaidRVs_done)
next
  case (4 rv rvs c db) then show ?case by (cases c) (simp add: rv_paid_def SavePaidRVs_others)
next
  case (5 c rv db db') then show ?case
    by (cases c) (auto simp: MarkRVUnpaid_def rv_paid_def split: if_splits)
next
  case (6 rv rv' c db) then show ?case by (cases c) (simp add: MarkRVUnpaid_def)
qed
section \<open>Properties\<close>

lemma sint_of_int_small: "- (2 ^ 63) \<le> k \<Longrightarrow> k < 2 ^ 63 \<Longrightarrow> sint (of_int k :: u64) = k"
  by (simp add: signed_of_int signed_take_bit_int_eq_self)

lemma expirationDuration_exact:
  assumes "0 \<le> days" "days \<le> 106751"
  shows "expirationDuration days = day * days"
proof -
  have "- (2 ^ 63) \<le> day * days" "day * days < 2 ^ 63"
    using assms by (simp_all add: day_def second_def)
  then show ?thesis unfolding expirationDuration_def by (rule sint_of_int_small)
qed

lemma date_of_minus_days:
  assumes "0 \<le> days" "days \<le> 106751"
  shows "date_of (time_Add (UTC t) (- expirationDuration days)) = date_of (UTC t) - days"
proof -
  have "(instant t - day * days) div day = instant t div day - days"
    using div_mult_self2 [of day "instant t" "- days"] by (simp add: day_def second_def)
  then show ?thesis
    by (simp add: expirationDuration_exact [OF assms] date_of_def time_Add_def UTC_def)
qed

text \<open>A rendezvous point that was saved as paid counts as paid for exactly the number of days of
  the server's policy: the answer is yes as long as the date of the payment is later than the current
  date (in UTC) less the expiration days, provided that number of days fits a duration.\<close>

theorem paid_until_expiry:
  assumes "SavePaidRVs io t rvs db = (None, db')" "rv \<in> set rvs"
    and "IsRVPaid io' now rv days db' = (Inr b, db'')" "0 \<le> days" "days \<le> 106751"
  shows "b \<longleftrightarrow> date_of (UTC now) - days < date_of t"
proof -
  have "b = rv_paid now days db' rv" by (rule IsRVPaid_answer [OF assms(3)])
  then show ?thesis
    using SavePaidRVs_done [OF assms(1,2)] date_of_minus_days [OF assms(4,5), of now]
    by (auto simp: rv_paid_def isDateLte_def)
qed

definition ex_io :: file_io where
  "ex_io = \<lparr>read_fails = (\<lambda>_. False), write_fails = (\<lambda>_. False), remove_fails = (\<lambda>_. False)\<rparr>"

definition ex_at :: "int \<Rightarrow> gtime" where
  "ex_at hours = \<lparr>instant = hours * 3600 * second, offset = 0\<rparr>"

theorem paid_until_expiry_witness:
  "fst (IsRVPaid ex_io (ex_at 71) [1] 2 (snd (SavePaidRVs ex_io (ex_at 30) [[0], [1]] []))) = Inr True \<and>
   date_of (UTC (ex_at 71)) - 2 < date_of (ex_at 30)"
proof -
  have saved: "SavePaidRVs ex_io (ex_at 30) [[0], [1]] [] = (None, [([0], ex_at 30), ([1], ex_at 30)])"
    by code_simp
  have asked: "IsRVPaid ex_io (ex_at 71) [1] 2 [([0], ex_at 30), ([1], ex_at 30)] =
      (Inr True, [([0], ex_at 30), ([1], ex_at 30)])"
    by code_simp
  show ?thesis using paid_until_expiry [OF saved _ asked] saved asked by simp
qed

lemma rv_paid_cleanup_loop:
  assumes "limit = time_Add (UTC now) (- expirationDuration days)"
  shows "rv_paid now days (CleanupPaidRVs_loop io limit files db) rv = rv_paid now days db rv"
  using assms
  by (induction files arbitrary: db) (auto simp: rv_paid_def split: option.splits)

text \<open>Cleaning up the directory of paid rendezvous points loses nothing that still counts. On a
  client that keeps its clock in UTC, every question asked after \<open>CleanupPaidRVs\<close> has the answer it
  would have had before, for any files that could not be read or removed.\<close>

theorem cleanup_keeps_answers:
  assumes "offset now = 0" "io' = \<lparr>read_fails = (\<lambda>_. False), write_fails = w, remove_fails = (\<lambda>_. False)\<rparr>"
  shows "fst (IsRVPaid io' now rv days (CleanupPaidRVs io now days db)) = fst (IsRVPaid io' now rv days db)"
proof -
  have "UTC now = now" using assms(1) by (simp add: UTC_def)
  then have "rv_paid now days (CleanupPaidRVs io now days db) rv = rv_paid now days db rv"
    unfolding CleanupPaidRVs_def by (intro rv_paid_cleanup_loop) simp
  moreover have "fst (IsRVPaid io' now rv days m) = Inr (rv_paid now days m rv)" for m
    by (simp add: IsRVPaid_def rv_paid_def Let_def assms(2) split: option.splits)
  ultimately show ?thesis by simp
qed

theorem cleanup_keeps_answers_witness:
  "CleanupPaidRVs ex_io (ex_at 71) 2 [([0], ex_at 2), ([1], ex_at 30)] = [([1], ex_at 30)] \<and>
   fst (IsRVPaid ex_io (ex_at 71) [0] 2 [([1], ex_at 30)]) =
   fst (IsRVPaid ex_io (ex_at 71) [0] 2 [([0], ex_at 2), ([1], ex_at 30)])"
proof -
  have "CleanupPaidRVs ex_io (ex_at 71) 2 [([0], ex_at 2), ([1], ex_at 30)] = [([1], ex_at 30)]"
    by code_simp
  then show ?thesis
    using cleanup_keeps_answers [of "ex_at 71" ex_io "\<lambda>_. False" "[0]" 2 ex_io "[([0], ex_at 2), ([1], ex_at 30)]"]
    by (simp add: ex_io_def ex_at_def)
qed

text \<open>With an expiration of one day, a payment recorded west of Greenwich can be expired at once: the
  date of the record is read in the local zone and the limit in UTC.\<close>

lemma payment_may_not_last:
  "\<not> payment_lasts \<lparr>instant = 5 * 3600 * second, offset = - 10 * 3600 * second\<rparr> 1"
  by code_simp
end
