(* ===== verification/Rendezvous.thy ===== *)
theory Rendezvous
  imports Pay_Rates Paid_RVs "HOL-Library.Signed_Division"
begin

text \<open>
  The client's rendezvous manager (\<^verbatim>\<open>src/client/internal/lowlevel/rendezvous.go\<close>): it keeps the set of
  rendezvous points the client is subscribed to registered with the server, pays for the ones that
  are not paid for, and hands pushed messages to their handlers.

  The state \<open>rvm\<close> holds the local variables of \<open>Run\<close>, the goroutines that \<open>Run\<close> has started and that
  have not finished (\<open>inflight\<close>), their results on \<open>updateResChan\<close> (\<open>results\<close>), the database, and the
  record of what has left the manager: replies to callers, payments, requests to the server. A step of
  \<open>rvmStep\<close> is one iteration of the loop of \<open>Run\<close>, or the run of one goroutine; what the server, the
  payment client and the file system answer to a goroutine is the argument \<open>sub_env\<close>. Channels are
  numbers, callbacks and handlers too (a call is recorded with the number).
\<close>

section \<open>Types\<close>

record rdzvSub =
  sub_id :: RVID
  handler :: "nat option"
  subPaid :: "nat option"
  subDoneChan :: "nat option"
  onlyMarkPaid :: bool
  prepaid :: bool

record rdzvUnsub =
  unsub_id :: RVID
  unsubDoneChan :: nat

record sub_policy =
  SubPayRate :: u64
  ExpirationDays :: int

type_synonym sub_session = "nat \<times> sub_policy"

datatype rv_error =
    AlreadySubscribed RVID | AlreadyUnsubscribed RVID | RdvzMgrExiting | UnpaidSubscription RVID
  | AckError string | DBError db_error | FetchFailed | InvoiceUndecodable | ServerExpiredInvoice
  | ServerInvoiceWithAmount | UnknownReply | PayFailed | UnpaidNotInSubs RVID | SendFailed | Canceled
  | ReplyError | HandlerError nat

datatype sub_answer = SubReply string invoice | SubErrorReply | SubOtherReply

record sub_env =
  sub_now :: gtime
  unpaid_io :: file_io
  save_io :: file_io
  sub_decode :: "invoice \<Rightarrow> decoded_invoice option"
  sub_fetch :: fetch_answer
  sub_pays :: "invoice \<Rightarrow> int \<Rightarrow> int option"
  sub_send_fails :: bool
  sub_reply :: "sub_answer option"

text \<open>What \<open>updatePayloadSubscriptions\<close> changes outside its own variables: the database, and the
  records of payments (invoice, amount, fees), of calls of \<open>subPaid\<close> (callback, amount, fees) and of
  requests sent to a session (session, added, deleted, marked).\<close>

record sub_world =
  paid_rvs :: paid_db
  sub_payments :: "(invoice \<times> int \<times> int) list"
  paidCalls :: "(nat \<times> int \<times> int) list"
  requests :: "(nat \<times> RVID list \<times> RVID list \<times> RVID list) list"

section \<open>Helpers\<close>

definition rvMapKeys :: "(RVID, rdzvSub) gomap \<Rightarrow> RVID list \<times> RVID list" where
  "rvMapKeys m =
     (map fst (filter (\<lambda>(_, sub). \<not> onlyMarkPaid sub) m), map fst (filter (\<lambda>(_, sub). onlyMarkPaid sub) m))"

text \<open>Reading an absent key of \<open>subs\<close> gives the zero value of \<open>rdzvSub\<close>.\<close>

definition zeroSub :: rdzvSub where
  "zeroSub = \<lparr>sub_id = replicate 32 0, handler = None, subPaid = None, subDoneChan = None,
     onlyMarkPaid = False, prepaid = False\<rparr>"

definition subAt :: "(RVID, rdzvSub) gomap \<Rightarrow> RVID \<Rightarrow> rdzvSub" where
  "subAt subs rv = (case map_of subs rv of None \<Rightarrow> zeroSub | Some sub \<Rightarrow> sub)"

fun selectSubsNeedPay_loop ::
    "RVID list \<Rightarrow> (RVID, rdzvSub) gomap \<Rightarrow> (RVID, rdzvSub) gomap \<Rightarrow> (RVID, rdzvSub) gomap" where
  "selectSubsNeedPay_loop [] subs res = res"
| "selectSubsNeedPay_loop (rv # needsPay) subs res =
     (if prepaid (subAt subs rv) then selectSubsNeedPay_loop needsPay subs res
      else selectSubsNeedPay_loop needsPay subs (AList.update rv (subAt subs rv) res))"

definition selectSubsNeedPay :: "RVID list \<Rightarrow> (RVID, rdzvSub) gomap \<Rightarrow> (RVID, rdzvSub) gomap" where
  "selectSubsNeedPay needsPay subs = selectSubsNeedPay_loop needsPay subs []"

fun sliceRemoveFirst :: "'a list \<Rightarrow> 'a \<Rightarrow> 'a list" where
  "sliceRemoveFirst [] e = []"
| "sliceRemoveFirst (x # s) e = (if x = e then s else x # sliceRemoveFirst s e)"

section \<open>Paying for subscriptions and updating them\<close>

definition fetchNextInvoice :: "sub_env \<Rightarrow> rv_error + invoice" where
  "fetchNextInvoice env =
     (case sub_fetch env of
        FetchSendFails \<Rightarrow> Inl SendFailed
      | FetchCanceled \<Rightarrow> Inl Canceled
      | FetchErrorReply \<Rightarrow> Inl FetchFailed
      | FetchOtherReply \<Rightarrow> Inl UnknownReply
      | FetchInvoice nextInvoice \<Rightarrow>
          (case sub_decode env nextInvoice of
             None \<Rightarrow> Inl InvoiceUndecodable
           | Some decoded \<Rightarrow>
               if IsExpired decoded InvoiceExpiryAffordance (instant (sub_now env)) then Inl ServerExpiredInvoice
               else if MAtoms decoded \<noteq> 0 then Inl ServerInvoiceWithAmount
               else Inr nextInvoice))"

text \<open>The loop over the unpaid points that calls their \<open>subPaid\<close>; \<open>n\<close> is the number of unpaid points
  and \<open>i\<close> the index of the first one of the list. Go's division truncates.\<close>

fun payForSubs_loop ::
    "(RVID, rdzvSub) gomap \<Rightarrow> u64 \<Rightarrow> int \<Rightarrow> nat \<Rightarrow> nat \<Rightarrow> RVID list \<Rightarrow> (nat \<times> int \<times> int) list \<Rightarrow>
     rv_error option \<times> (nat \<times> int \<times> int) list" where
  "payForSubs_loop subsNeedPay subPayRate totalFees n i [] calls = (None, calls)"
| "payForSubs_loop subsNeedPay subPayRate totalFees n i (rid # ids) calls =
     (case map_of subsNeedPay rid of
        None \<Rightarrow> (Some (UnpaidNotInSubs rid), calls)
      | Some sub \<Rightarrow>
          let subFees = totalFees sdiv int n;
              subFees = (if i = 0 then subFees + totalFees smod int n else subFees)
          in payForSubs_loop subsNeedPay subPayRate totalFees n (i + 1) ids
               (case subPaid sub of
                  None \<Rightarrow> calls
                | Some cb \<Rightarrow> calls @ [(cb, sint subPayRate, subFees)]))"

definition needsInvoice :: "sub_env \<Rightarrow> invoice \<Rightarrow> bool" where
  "needsInvoice env nextInvoice =
     (nextInvoice = '''' \<or>
      (case sub_decode env nextInvoice of
         None \<Rightarrow> True
       | Some decoded \<Rightarrow> IsExpired decoded InvoiceExpiryAffordance (instant (sub_now env))))"

definition payForSubs ::
    "sub_env \<Rightarrow> sub_policy \<Rightarrow> (RVID, rdzvSub) gomap \<Rightarrow> invoice \<Rightarrow> sub_world \<Rightarrow> (rv_error + RVID list) \<times> sub_world" where
  "payForSubs env pol subsNeedPay nextInvoice w =
     (case UnpaidRVs (unpaid_io env) (sub_now env) (map fst subsNeedPay) (ExpirationDays pol) (paid_rvs w) of
        (Inl e, db) \<Rightarrow> (Inl (DBError e), w\<lparr>paid_rvs := db\<rparr>)
      | (Inr unpaidRVs, db) \<Rightarrow>
          let w = w\<lparr>paid_rvs := db\<rparr> in
          if unpaidRVs = [] then (Inr [], w)
          else
            (case (if needsInvoice env nextInvoice then fetchNextInvoice env else Inr nextInvoice) of
               Inl e \<Rightarrow> (Inl e, w)
             | Inr nextInvoice \<Rightarrow>
                 let amt = sint (of_nat (length unpaidRVs) * SubPayRate pol) in
                 (case sub_pays env nextInvoice amt of
                    None \<Rightarrow> (Inl PayFailed, w)
                  | Some totalFees \<Rightarrow>
                      let w = w\<lparr>sub_payments := sub_payments w @ [(nextInvoice, amt, totalFees)]\<rparr> in
                      (case payForSubs_loop subsNeedPay (SubPayRate pol) totalFees (length unpaidRVs) 0 unpaidRVs
                              (paidCalls w) of
                         (Some e, calls) \<Rightarrow> (Inl e, w\<lparr>paidCalls := calls\<rparr>)
                       | (None, calls) \<Rightarrow> (Inr unpaidRVs, w\<lparr>paidCalls := calls\<rparr>)))))"

record sub_update =
  up_add :: "RVID list"
  up_del :: "RVID list"
  up_mark :: "RVID list"
  up_needPay :: "(RVID, rdzvSub) gomap"
  up_invoice :: invoice
  up_sess :: sub_session

definition updatePayloadSubscriptions ::
    "sub_env \<Rightarrow> sub_update \<Rightarrow> sub_world \<Rightarrow> (invoice \<times> rv_error option) \<times> sub_world" where
  "updatePayloadSubscriptions env up w =
     (case payForSubs env (snd (up_sess up)) (up_needPay up) (up_invoice up) w of
        (Inl e, w) \<Rightarrow> (('''', Some e), w)
      | (Inr unpaidRVs, w) \<Rightarrow>
          if sub_send_fails env then (('''', Some SendFailed), w)
          else
            let w = w\<lparr>requests := requests w @ [(fst (up_sess up), up_add up, up_del up, up_mark up)]\<rparr> in
            (case sub_reply env of
               None \<Rightarrow> (('''', Some Canceled), w)
             | Some SubErrorReply \<Rightarrow> (('''', Some ReplyError), w)
             | Some SubOtherReply \<Rightarrow> (('''', Some UnknownReply), w)
             | Some (SubReply err next) \<Rightarrow>
                 if err \<noteq> '''' then
                   (case ParseErrUnpaidSubscriptionRV err of
                      Some rv \<Rightarrow> ((next, Some (UnpaidSubscription rv)), w)
                    | None \<Rightarrow> (('''', Some (AckError err)), w))
                 else
                   let nextInvoice = (if unpaidRVs \<noteq> [] \<or> next \<noteq> '''' then next else up_invoice up);
                       (_, db) = SavePaidRVs (save_io env) (sub_now env) unpaidRVs (paid_rvs w)
                   in ((nextInvoice, None), w\<lparr>paid_rvs := db\<rparr>)))"

section \<open>The loop of Run\<close>

record rvm =
  subs :: "(RVID, rdzvSub) gomap"
  toAdd :: "RVID list"
  toDel :: "RVID list"
  toMark :: "RVID list"
  unsubs :: "rdzvUnsub list"
  requestedUnsubs :: "rdzvUnsub list"
  bound :: "sub_session option"
  nextInvoice :: invoice
  lastUpdateDone :: bool
  lastUpdateSuccess :: bool
  needsUpdate :: bool
  delayed :: bool
  runDone :: bool
  inflight :: "sub_update list"
  results :: "(invoice \<times> rv_error option) list"
  subw :: sub_world
  chans :: nat
  subReplies :: "(nat \<times> rv_error option) list"
  unsubReplies :: "(nat \<times> rv_error option) list"
  handled :: "(nat \<times> RVID \<times> bytes \<times> time) list"
  pushReplies :: "rv_error option list"
  upToDate :: "bool list"
  closed :: "nat list"
  subDoneCBs :: nat
  started :: "sub_update list"

definition NewRVManager :: "paid_db \<Rightarrow> rvm" where
  "NewRVManager db =
     \<lparr>subs = [], toAdd = [], toDel = [], toMark = [], unsubs = [], requestedUnsubs = [], bound = None,
      nextInvoice = '''', lastUpdateDone = True, lastUpdateSuccess = True, needsUpdate = False, delayed = False,
      runDone = False, inflight = [], results = [],
      subw = \<lparr>paid_rvs = db, sub_payments = [], paidCalls = [], requests = []\<rparr>, chans = 0,
      subReplies = [], unsubReplies = [], handled = [], pushReplies = [], upToDate = [], closed = [], subDoneCBs = 0,
      started = []\<rparr>"

definition replySubDone :: "rdzvSub \<Rightarrow> rv_error option \<Rightarrow> rvm \<Rightarrow> rvm" where
  "replySubDone sub e m =
     (case subDoneChan sub of None \<Rightarrow> m | Some c \<Rightarrow> m\<lparr>subReplies := subReplies m @ [(c, e)]\<rparr>)"

definition replyUnsubDone :: "rdzvUnsub \<Rightarrow> rv_error option \<Rightarrow> rvm \<Rightarrow> rvm" where
  "replyUnsubDone u e m = m\<lparr>unsubReplies := unsubReplies m @ [(unsubDoneChan u, e)]\<rparr>"

text \<open>The requests that \<open>Sub\<close>, \<open>PrepayRVSub\<close> and \<open>FetchPrepaidRV\<close> send to the loop on channel \<open>c\<close>.\<close>

definition SubReq :: "RVID \<Rightarrow> nat \<Rightarrow> nat option \<Rightarrow> nat \<Rightarrow> rdzvSub" where
  "SubReq rdzv h cb c = \<lparr>sub_id = rdzv, handler = Some h, subPaid = cb, subDoneChan = Some c,
     onlyMarkPaid = False, prepaid = False\<rparr>"

definition PrepayReq :: "RVID \<Rightarrow> nat option \<Rightarrow> nat \<Rightarrow> rdzvSub" where
  "PrepayReq rdzv cb c = \<lparr>sub_id = rdzv, handler = None, subPaid = cb, subDoneChan = Some c,
     onlyMarkPaid = True, prepaid = False\<rparr>"

definition FetchPrepaidReq :: "RVID \<Rightarrow> nat \<Rightarrow> nat \<Rightarrow> rdzvSub" where
  "FetchPrepaidReq rdzv h c = \<lparr>sub_id = rdzv, handler = Some h, subPaid = None, subDoneChan = Some c,
     onlyMarkPaid = False, prepaid = True\<rparr>"

definition onSub :: "rdzvSub \<Rightarrow> rvm \<Rightarrow> rvm" where
  "onSub sub m =
     (if map_of (subs m) (sub_id sub) \<noteq> None then replySubDone sub (Some (AlreadySubscribed (sub_id sub))) m
      else
        let m = (if onlyMarkPaid sub then m\<lparr>toMark := toMark m @ [sub_id sub]\<rparr>
                 else m\<lparr>toAdd := toAdd m @ [sub_id sub]\<rparr>)
        in m\<lparr>subs := AList.update (sub_id sub) sub (subs m), delayed := True, needsUpdate := True\<rparr>)"

definition onUnsub :: "rdzvUnsub \<Rightarrow> rvm \<Rightarrow> rvm" where
  "onUnsub u m =
     (if map_of (subs m) (unsub_id u) = None then replyUnsubDone u (Some (AlreadyUnsubscribed (unsub_id u))) m
      else m\<lparr>subs := AList.delete (unsub_id u) (subs m), unsubs := unsubs m @ [u],
             toDel := toDel m @ [unsub_id u], delayed := True, needsUpdate := True\<rparr>)"

definition onSession :: "sub_session option \<Rightarrow> rvm \<Rightarrow> rvm" where
  "onSession newSess m =
     (let us = unsubs m @ requestedUnsubs m; (add, mark) = rvMapKeys (subs m)
      in m\<lparr>bound := newSess, nextInvoice := '''', delayed := False, lastUpdateDone := True,
           unsubs := us, requestedUnsubs := [], toDel := map unsub_id us, toAdd := add, toMark := mark,
           needsUpdate := subs m \<noteq> [] \<or> us \<noteq> []\<rparr>)"

text \<open>The end of an iteration, which starts the goroutine that updates the subscriptions.\<close>

definition startUpdate :: "rvm \<Rightarrow> rvm" where
  "startUpdate m =
     (case bound m of
        None \<Rightarrow> m
      | Some s \<Rightarrow>
          if subs m = [] \<and> unsubs m = [] \<or> \<not> lastUpdateDone m then m
          else
            let up = \<lparr>up_add = toAdd m, up_del = toDel m, up_mark = toMark m,
                      up_needPay = selectSubsNeedPay (toAdd m @ toMark m) (subs m),
                      up_invoice = nextInvoice m, up_sess = s\<rparr>
            in m\<lparr>lastUpdateDone := False, lastUpdateSuccess := False, requestedUnsubs := unsubs m, unsubs := [],
                 delayed := False, needsUpdate := False, inflight := inflight m @ [up], started := started m @ [up],
                 toAdd := [], toDel := [], toMark := [], nextInvoice := ''''\<rparr>)"

fun ackSubs :: "(RVID \<times> rdzvSub) list \<Rightarrow> rvm \<Rightarrow> rvm" where
  "ackSubs [] m = m"
| "ackSubs ((rid, sub) # xs) m =
     ackSubs xs
       (let m = (if subDoneChan sub \<noteq> None
                 then (replySubDone sub None m)\<lparr>subs := AList.update rid (sub\<lparr>subDoneChan := None\<rparr>) (subs m)\<rparr>
                 else m)
        in if onlyMarkPaid sub then m\<lparr>subs := AList.delete rid (subs m)\<rparr> else m)"

definition onUpdateRes :: "file_io \<Rightarrow> invoice \<times> rv_error option \<Rightarrow> rvm \<Rightarrow> rvm" where
  "onUpdateRes io res m =
     (let m = m\<lparr>nextInvoice := fst res, lastUpdateDone := True, lastUpdateSuccess := (snd res = None)\<rparr>;
          dissociate = (\<lambda>m. m\<lparr>bound := None, unsubs := unsubs m @ requestedUnsubs m, requestedUnsubs := []\<rparr>)
      in case snd res of
           Some (UnpaidSubscription rv) \<Rightarrow>
             (case map_of (subs m) rv of
                None \<Rightarrow> m
              | Some sub \<Rightarrow>
                  if prepaid sub then
                    replySubDone sub (Some (UnpaidSubscription rv))
                      (m\<lparr>subs := AList.delete rv (subs m), toAdd := sliceRemoveFirst (toAdd m) rv\<rparr>)
                  else
                    dissociate (m\<lparr>subw := (subw m)\<lparr>paid_rvs := snd (MarkRVUnpaid io rv (paid_rvs (subw m)))\<rparr>\<rparr>))
         | Some e \<Rightarrow>
             dissociate (case bound m of None \<Rightarrow> m | Some s \<Rightarrow> m\<lparr>closed := closed m @ [fst s]\<rparr>)
         | None \<Rightarrow>
             let m = ackSubs (subs m) m;
                 m = fold (\<lambda>u. replyUnsubDone u None) (requestedUnsubs m) m;
                 m = (if needsUpdate m \<and> \<not> delayed m then m\<lparr>delayed := True\<rparr> else m)
             in m\<lparr>subDoneCBs := subDoneCBs m + 1\<rparr>)"

text \<open>\<open>HandlePushedRMs\<close> and \<open>handleInSub\<close>: a pushed message with error text \<open>err\<close>; \<open>ret\<close> is what the
  handler returns, \<open>now\<close> the clock. An empty payload is acknowledged without a handler.\<close>

definition handleInSub :: "RVID \<Rightarrow> bytes \<Rightarrow> int \<Rightarrow> time \<Rightarrow> rv_error option \<Rightarrow> rdzvSub option \<Rightarrow> rvm \<Rightarrow> rvm" where
  "handleInSub rv payload timestamp now ret sub m =
     (case sub of
        None \<Rightarrow> m\<lparr>pushReplies := pushReplies m @ [None]\<rparr>
      | Some sub \<Rightarrow>
          (case handler sub of
             None \<Rightarrow> m\<lparr>pushReplies := pushReplies m @ [None]\<rparr>
           | Some h \<Rightarrow>
               m\<lparr>handled := handled m @ [(h, rv, payload, if timestamp = 0 then now else from_unix timestamp)],
                 pushReplies := pushReplies m @ [ret]\<rparr>))"

definition HandlePushedRMs :: "RVID \<Rightarrow> bytes \<Rightarrow> int \<Rightarrow> string \<Rightarrow> time \<Rightarrow> rv_error option \<Rightarrow> rvm \<Rightarrow> rvm" where
  "HandlePushedRMs rv payload timestamp err now ret m =
     (if err \<noteq> '''' then m\<lparr>pushReplies := pushReplies m @ [Some (AckError err)]\<rparr>
      else if payload = [] then m\<lparr>pushReplies := pushReplies m @ [None]\<rparr>
      else if runDone m then m\<lparr>pushReplies := pushReplies m @ [Some RdvzMgrExiting]\<rparr>
      else handleInSub rv payload timestamp now ret (map_of (subs m) rv) m)"

definition IsUpToDate :: "rvm \<Rightarrow> bool" where
  "IsUpToDate m = (\<not> runDone m \<and> \<not> needsUpdate m \<and> lastUpdateSuccess m)"

datatype rvm_event =
    RvSub RVID nat "nat option"
  | RvPrepay RVID "nat option"
  | RvFetchPrepaid RVID nat
  | RvUnsub RVID
  | RvSession "sub_session option"
  | RvDelay
  | RvUpdate nat sub_env
  | RvResult file_io
  | RvPushed RVID bytes int string time "rv_error option"
  | RvIsUpToDate
  | RvExit

text \<open>A call that sends a request to the loop, with a new channel for the reply.\<close>

definition request :: "(nat \<Rightarrow> rdzvSub) \<Rightarrow> rvm \<Rightarrow> rvm" where
  "request mk m =
     (let c = chans m; m = m\<lparr>chans := c + 1\<rparr> in
      if runDone m then replySubDone (mk c) (Some RdvzMgrExiting) m else onSub (mk c) m)"

definition unsubRequest :: "RVID \<Rightarrow> rvm \<Rightarrow> rvm" where
  "unsubRequest rdzv m =
     (let c = chans m; m = m\<lparr>chans := c + 1\<rparr>; u = \<lparr>unsub_id = rdzv, unsubDoneChan = c\<rparr> in
      if runDone m then replyUnsubDone u (Some RdvzMgrExiting) m else onUnsub u m)"

text \<open>One step; \<open>None\<close> when it is not possible. The goroutine of an update goes on after \<open>Run\<close> has
  returned, and its result is then not taken.\<close>

definition rvmStep :: "rvm_event \<Rightarrow> rvm \<Rightarrow> rvm option" where
  "rvmStep ev m =
     (case ev of
        RvSub rdzv h cb \<Rightarrow> Some (request (SubReq rdzv h cb) m)
      | RvPrepay rdzv cb \<Rightarrow> Some (request (PrepayReq rdzv cb) m)
      | RvFetchPrepaid rdzv h \<Rightarrow> Some (request (FetchPrepaidReq rdzv h) m)
      | RvUnsub rdzv \<Rightarrow> Some (unsubRequest rdzv m)
      | RvSession s \<Rightarrow> if runDone m then None else Some (startUpdate (onSession s m))
      | RvDelay \<Rightarrow> if runDone m \<or> \<not> delayed m then None else Some (startUpdate (m\<lparr>delayed := False\<rparr>))
      | RvUpdate i env \<Rightarrow>
          if i < length (inflight m) then
            let (res, w) = updatePayloadSubscriptions env (inflight m ! i) (subw m)
            in Some (m\<lparr>inflight := take i (inflight m) @ drop (i + 1) (inflight m), subw := w,
                       results := results m @ [res]\<rparr>)
          else None
      | RvResult io \<Rightarrow>
          if runDone m then None
          else (case results m of
                  [] \<Rightarrow> None
                | res # rest \<Rightarrow> Some (onUpdateRes io res (m\<lparr>results := rest\<rparr>)))
      | RvPushed rv payload ts err now ret \<Rightarrow> Some (HandlePushedRMs rv payload ts err now ret m)
      | RvIsUpToDate \<Rightarrow> Some (m\<lparr>upToDate := upToDate m @ [IsUpToDate m]\<rparr>)
      | RvExit \<Rightarrow> if runDone m then None else Some (m\<lparr>runDone := True\<rparr>))"

inductive rvm_reachable :: "paid_db \<Rightarrow> rvm \<Rightarrow> bool" for db where
  rvm_init: "rvm_reachable db (NewRVManager db)"
| rvm_step: "rvm_reachable db m \<Longrightarrow> rvmStep ev m = Some m' \<Longrightarrow> rvm_reachable db m'"

fun rvmRun :: "rvm_event list \<Rightarrow> rvm \<Rightarrow> rvm option" where
  "rvmRun [] m = Some m"
| "rvmRun (ev # evs) m = Option.bind (rvmStep ev m) (rvmRun evs)"

section \<open>Paying: lemmas and properties\<close>

lemma sum_fee_shares:
  assumes "0 < n"
  shows "sum_list (map (\<lambda>j. if j = 0 then F sdiv int n + F smod int n else F sdiv int n) [0..<n]) = F"
proof -
  have upt: "[0..<n] = 0 # [Suc 0..<n]" using assms by (rule upt_conv_Cons)
  have tail: "map (\<lambda>j. if j = 0 then F sdiv int n + F smod int n else F sdiv int n) [Suc 0..<n] =
      map (\<lambda>_. F sdiv int n) [Suc 0..<n]" by simp
  have "int (n - Suc 0) * (F sdiv int n) + F sdiv int n = int n * (F sdiv int n)"
    using assms by (simp add: of_nat_diff algebra_simps)
  moreover have "F sdiv int n * int n + F smod int n = F" by (rule sdiv_mult_smod_eq)
  ultimately show ?thesis
    unfolding upt list.map tail by (simp add: sum_list_triv mult.commute)
qed

text \<open>What the loop of \<open>payForSubs\<close> reports when every unpaid point has a callback.\<close>

lemma payForSubs_loop_calls:
  assumes "\<forall>rid\<in>set ids. \<exists>sub cb. map_of need rid = Some sub \<and> subPaid sub = Some cb"
  shows "\<exists>cs. payForSubs_loop need rate F n i ids calls = (None, calls @ cs) \<and>
    map snd cs = map (\<lambda>j. (sint rate, if j = 0 then F sdiv int n + F smod int n else F sdiv int n)) [i..<i + length ids]"
  using assms
proof (induction ids arbitrary: i calls)
  case (Cons rid ids)
  obtain sub cb where sub: "map_of need rid = Some sub" "subPaid sub = Some cb" using Cons.prems by auto
  define fee where "fee = (if i = 0 then F sdiv int n + F smod int n else F sdiv int n)"
  obtain cs where cs: "payForSubs_loop need rate F n (i + 1) ids (calls @ [(cb, sint rate, fee)]) =
      (None, (calls @ [(cb, sint rate, fee)]) @ cs)"
    "map snd cs = map (\<lambda>j. (sint rate, if j = 0 then F sdiv int n + F smod int n else F sdiv int n)) [i + 1..<i + 1 + length ids]"
    using Cons.IH [of "i + 1" "calls @ [(cb, sint rate, fee)]"] Cons.prems by auto
  have "payForSubs_loop need rate F n i (rid # ids) calls = (None, calls @ (cb, sint rate, fee) # cs)"
    using cs(1) by (simp add: sub fee_def)
  moreover have "map snd ((cb, sint rate, fee) # cs) =
      map (\<lambda>j. (sint rate, if j = 0 then F sdiv int n + F smod int n else F sdiv int n)) [i..<i + length (rid # ids)]"
    using cs(2) by (simp add: fee_def upt_conv_Cons del: upt_Suc)
  ultimately show ?case by blast
qed simp

lemma payForSubs_loop_error:
  "payForSubs_loop need rate F n i ids calls = (None, calls') \<Longrightarrow> set ids \<subseteq> fst ` set need"
proof (induction ids arbitrary: i calls)
  case (Cons rid ids)
  then obtain sub where sub: "map_of need rid = Some sub" by (cases "map_of need rid") auto
  have "rid \<in> fst ` set need" using map_of_SomeD [OF sub] by force
  moreover have "set ids \<subseteq> fst ` set need"
    by (rule Cons.IH) (use Cons.prems sub in \<open>simp add: Let_def\<close>)
  ultimately show ?case by simp
qed simp

lemma payForSubs_cases:
  assumes "payForSubs env pol need invc w = (Inr us, w')"
  obtains (free) db where "us = []" "w' = w\<lparr>paid_rvs := db\<rparr>"
      "UnpaidRVs (unpaid_io env) (sub_now env) (map fst need) (ExpirationDays pol) (paid_rvs w) = (Inr us, db)"
  | (paid) db used fees calls amt where "us \<noteq> []" "amt = sint (of_nat (length us) * SubPayRate pol)"
      "UnpaidRVs (unpaid_io env) (sub_now env) (map fst need) (ExpirationDays pol) (paid_rvs w) = (Inr us, db)"
      "sub_pays env used amt = Some fees"
      "payForSubs_loop need (SubPayRate pol) fees (length us) 0 us (paidCalls w) = (None, calls)"
      "w' = w\<lparr>paid_rvs := db, sub_payments := sub_payments w @ [(used, amt, fees)], paidCalls := calls\<rparr>"
  using assms
  by (auto simp: payForSubs_def Let_def split: prod.splits sum.splits option.splits if_splits)

lemma payForSubs_unpaid:
  assumes "payForSubs env pol need invc w = (Inr us, w')"
  shows "us = filter (\<lambda>rv. \<not> rv_paid (sub_now env) (ExpirationDays pol) (paid_rvs w) rv) (map fst need)"
    and "rv_paid (sub_now env) (ExpirationDays pol) (paid_rvs w') rv = rv_paid (sub_now env) (ExpirationDays pol) (paid_rvs w) rv"
proof -
  obtain db where u: "UnpaidRVs (unpaid_io env) (sub_now env) (map fst need) (ExpirationDays pol) (paid_rvs w) = (Inr us, db)"
      and db: "paid_rvs w' = db"
    using assms by (cases rule: payForSubs_cases) auto
  show "us = filter (\<lambda>rv. \<not> rv_paid (sub_now env) (ExpirationDays pol) (paid_rvs w) rv) (map fst need)"
    using clientdb.unpaid_result [of "(unpaid_io env, sub_now env, ExpirationDays pol)"] u by simp
  show "rv_paid (sub_now env) (ExpirationDays pol) (paid_rvs w') rv = rv_paid (sub_now env) (ExpirationDays pol) (paid_rvs w) rv"
    using clientdb.unpaid_keeps [of "(unpaid_io env, sub_now env, ExpirationDays pol)" "map fst need" "paid_rvs w" rv] u db
    by simp
qed

text \<open>A payment for subscriptions is for the number of unpaid points at the server's rate, and the
  callers that track payments are told of all of it: when every point has a callback, each is called once
  with the rate, and the fees they are told sum up to the fees of the payment, whatever their sign.\<close>

theorem sub_fees_exact:
  assumes "payForSubs env pol need invc w = (Inr us, w')" "us \<noteq> []"
    and "\<forall>(rid, sub)\<in>set need. subPaid sub \<noteq> None"
  shows "\<exists>used fees calls.
    sub_payments w' = sub_payments w @ [(used, sint (of_nat (length us) * SubPayRate pol), fees)] \<and>
    paidCalls w' = paidCalls w @ calls \<and> length calls = length us \<and>
    (\<forall>(cb, amount, fee)\<in>set calls. amount = sint (SubPayRate pol)) \<and>
    sum_list (map (\<lambda>(cb, amount, fee). fee) calls) = fees"
  using assms(1)
proof (cases rule: payForSubs_cases)
  case (paid db used fees calls amt)
  have "set us \<subseteq> fst ` set need" using payForSubs_loop_error [OF paid(5)] .
  then have "\<forall>rid\<in>set us. \<exists>sub cb. map_of need rid = Some sub \<and> subPaid sub = Some cb"
  proof (intro ballI)
    fix rid assume "rid \<in> set us"
    with \<open>set us \<subseteq> fst ` set need\<close> obtain sub where sub: "map_of need rid = Some sub"
      by (metis map_of_eq_None_iff option.exhaust subsetD)
    with assms(3) map_of_SomeD [OF sub] show "\<exists>sub cb. map_of need rid = Some sub \<and> subPaid sub = Some cb"
      by auto
  qed
  from payForSubs_loop_calls [OF this, of "SubPayRate pol" fees "length us" 0 "paidCalls w"] obtain cs
    where cs: "calls = paidCalls w @ cs" "map snd cs = map (\<lambda>j. (sint (SubPayRate pol),
      if j = 0 then fees sdiv int (length us) + fees smod int (length us) else fees sdiv int (length us))) [0..<length us]"
    using paid(5) by auto
  have "length (map snd cs) = length us" by (simp only: cs(2)) simp
  then have len: "length cs = length us" by simp
  have "sum_list (map (\<lambda>(cb, amount, fee). fee) cs) = sum_list (map snd (map snd cs))"
    by (simp add: comp_def case_prod_unfold)
  also have "\<dots> = fees" unfolding cs(2) using sum_fee_shares [of "length us" fees] assms(2) by (simp add: comp_def)
  finally have fees: "sum_list (map (\<lambda>(cb, amount, fee). fee) cs) = fees" .
  have "snd ` set cs = set (map snd cs)" by simp
  also have "\<dots> \<subseteq> {sint (SubPayRate pol)} \<times> UNIV" unfolding cs(2) by auto
  finally have "\<forall>(cb, amount, fee)\<in>set cs. amount = sint (SubPayRate pol)" by fastforce
  then show ?thesis using paid(2,6) cs(1) len fees by auto
qed (use assms(2) in simp)

text \<open>An environment in which the server answers with a new invoice and the payment costs fees of 7.\<close>

definition ex_sub_env :: sub_env where
  "ex_sub_env = \<lparr>sub_now = ex_at 30, unpaid_io = ex_io, save_io = ex_io,
     sub_decode = (\<lambda>_. Some \<lparr>ID = [], MAtoms = 0, ExpiryTime = 200000 * second\<rparr>),
     sub_fetch = FetchInvoice ''i'', sub_pays = (\<lambda>_ _. Some 7), sub_send_fails = False,
     sub_reply = Some (SubReply '''' ''n'')\<rparr>"

definition ex_sub_policy :: sub_policy where
  "ex_sub_policy = \<lparr>SubPayRate = 5, ExpirationDays = 7\<rparr>"

definition ex_sub_world :: sub_world where
  "ex_sub_world = \<lparr>paid_rvs = [], sub_payments = [], paidCalls = [], requests = []\<rparr>"

theorem sub_fees_exact_witness:
  "\<exists>used fees calls.
    sub_payments (snd (payForSubs ex_sub_env ex_sub_policy
      [([1], SubReq [1] 0 (Some 0) 0), ([2], SubReq [2] 0 (Some 1) 1)] '''' ex_sub_world)) =
      [(used, 10, fees)] \<and>
    paidCalls (snd (payForSubs ex_sub_env ex_sub_policy
      [([1], SubReq [1] 0 (Some 0) 0), ([2], SubReq [2] 0 (Some 1) 1)] '''' ex_sub_world)) = calls \<and>
    length calls = 2 \<and> (\<forall>(cb, amount, fee)\<in>set calls. amount = 5) \<and>
    sum_list (map (\<lambda>(cb, amount, fee). fee) calls) = fees"
proof -
  have run: "payForSubs ex_sub_env ex_sub_policy
      [([1], SubReq [1] 0 (Some 0) 0), ([2], SubReq [2] 0 (Some 1) 1)] '''' ex_sub_world =
      (Inr [[1], [2]], ex_sub_world\<lparr>sub_payments := [(''i'', 10, 7)], paidCalls := [(0, 5, 4), (1, 5, 3)]\<rparr>)"
    by code_simp
  show ?thesis using sub_fees_exact [OF run] unfolding run
    by (simp add: SubReq_def ex_sub_policy_def ex_sub_world_def)
qed

lemma updatePayloadSubscriptions_ok:
  assumes "updatePayloadSubscriptions env up w = ((next, None), w')"
  obtains us w1 where "payForSubs env (snd (up_sess up)) (up_needPay up) (up_invoice up) w = (Inr us, w1)"
    "requests w' = requests w1 @ [(fst (up_sess up), up_add up, up_del up, up_mark up)]"
    "paid_rvs w' = snd (SavePaidRVs (save_io env) (sub_now env) us (paid_rvs w1))"
    "sub_payments w' = sub_payments w1" "\<exists>invc. sub_reply env = Some (SubReply '''' invc)"
proof (cases "payForSubs env (snd (up_sess up)) (up_needPay up) (up_invoice up) w")
  case (Pair r w1)
  moreover obtain us where "r = Inr us"
    using assms Pair by (cases r) (auto simp: updatePayloadSubscriptions_def)
  ultimately show ?thesis
    using assms that [of us w1]
    by (auto simp: updatePayloadSubscriptions_def Let_def case_prod_unfold
        split: option.splits sub_answer.splits if_splits)
qed

lemma updatePayloadSubscriptions_payments:
  "sub_payments (snd (updatePayloadSubscriptions env up w)) =
   sub_payments (snd (payForSubs env (snd (up_sess up)) (up_needPay up) (up_invoice up) w))"
proof (cases "payForSubs env (snd (up_sess up)) (up_needPay up) (up_invoice up) w")
  case (Pair r w1)
  then show ?thesis
    by (cases r) (auto simp: updatePayloadSubscriptions_def Let_def case_prod_unfold
        split: option.splits sub_answer.splits)
qed

lemma payForSubs_error_keeps:
  assumes "payForSubs env pol need invc w = (Inl e, w')"
  shows "rv_paid (sub_now env) (ExpirationDays pol) (paid_rvs w') rv = rv_paid (sub_now env) (ExpirationDays pol) (paid_rvs w) rv"
proof -
  have "paid_rvs w' = snd (UnpaidRVs (unpaid_io env) (sub_now env) (map fst need) (ExpirationDays pol) (paid_rvs w))"
    using assms by (auto simp: payForSubs_def Let_def split: prod.splits sum.splits option.splits if_splits)
  then show ?thesis
    using clientdb.unpaid_keeps [of "(unpaid_io env, sub_now env, ExpirationDays pol)" "map fst need" "paid_rvs w" rv]
    by simp
qed

lemma updatePayloadSubscriptions_error_keeps:
  assumes "updatePayloadSubscriptions env up w = ((next, Some e), w')"
    "pol = snd (up_sess up)"
  shows "rv_paid (sub_now env) (ExpirationDays pol) (paid_rvs w') rv = rv_paid (sub_now env) (ExpirationDays pol) (paid_rvs w) rv"
proof (cases "payForSubs env pol (up_needPay up) (up_invoice up) w")
  case (Pair r w1)
  show ?thesis
  proof (cases r)
    case (Inl e')
    then have "w' = w1" using assms Pair by (simp add: updatePayloadSubscriptions_def)
    then show ?thesis using payForSubs_error_keeps Pair Inl by simp
  next
    case (Inr us)
    then have "paid_rvs w' = paid_rvs w1"
      using assms Pair by (auto simp: updatePayloadSubscriptions_def Let_def case_prod_unfold
          split: option.splits sub_answer.splits if_splits)
    then show ?thesis using payForSubs_unpaid(2) [of env pol "up_needPay up" "up_invoice up" w us w1] Pair Inr by simp
  qed
qed

text \<open>C17: A rendezvous point is recorded as paid only after it has been paid for and the server has
  acknowledged the subscription. If a point counts as paid after an update and did not before, the
  update succeeded, the point was one of those in need of payment, a payment covering every unpaid point at the
  server's rate was made, and the request was sent and answered without an error.\<close>

theorem paid_only_after_ack:
  assumes "updatePayloadSubscriptions env up w = ((next, err), w')" "up_sess up = (s, pol)"
    and "rv_paid (sub_now env) (ExpirationDays pol) (paid_rvs w') rv"
    and "\<not> rv_paid (sub_now env) (ExpirationDays pol) (paid_rvs w) rv"
  shows "err = None \<and> rv \<in> fst ` set (up_needPay up) \<and>
    (\<exists>used fees. sub_payments w' = sub_payments w @
       [(used, sint (of_nat (length (filter (\<lambda>r. \<not> rv_paid (sub_now env) (ExpirationDays pol) (paid_rvs w) r)
           (map fst (up_needPay up)))) * SubPayRate pol), fees)]) \<and>
    (s, up_add up, up_del up, up_mark up) \<in> set (requests w') \<and>
    (\<exists>invc. sub_reply env = Some (SubReply '''' invc))"
proof -
  have err: "err = None"
  proof (rule ccontr)
    assume "err \<noteq> None"
    then obtain e where "err = Some e" by blast
    with updatePayloadSubscriptions_error_keeps [of env up w "next" e w' pol rv] assms show False by simp
  qed
  with assms(1) obtain us w1 where
      pay: "payForSubs env pol (up_needPay up) (up_invoice up) w = (Inr us, w1)"
      and req: "requests w' = requests w1 @ [(s, up_add up, up_del up, up_mark up)]"
      and db: "paid_rvs w' = snd (SavePaidRVs (save_io env) (sub_now env) us (paid_rvs w1))"
      and pays: "sub_payments w' = sub_payments w1" "\<exists>invc. sub_reply env = Some (SubReply '''' invc)"
    using assms(2) by (auto elim: updatePayloadSubscriptions_ok)
  have "rv \<in> set us"
  proof (rule ccontr)
    assume "rv \<notin> set us"
    from clientdb.save_others [OF this, of "(save_io env, sub_now env, ExpirationDays pol)" "paid_rvs w1"]
    show False using assms(3,4) db payForSubs_unpaid(2) [OF pay, of rv] by simp
  qed
  then have "us \<noteq> []" by auto
  from pay obtain used fees where
      "sub_payments w1 = sub_payments w @ [(used, sint (of_nat (length us) * SubPayRate pol), fees)]"
    by (cases rule: payForSubs_cases) (use \<open>us \<noteq> []\<close> in auto)
  moreover have "rv \<in> fst ` set (up_needPay up)"
    using \<open>rv \<in> set us\<close> payForSubs_unpaid(1) [OF pay] by auto
  ultimately show ?thesis
    using err req pays unfolding payForSubs_unpaid(1) [OF pay] by auto
qed

definition ex_update :: sub_update where
  "ex_update = \<lparr>up_add = [[1]], up_del = [], up_mark = [], up_needPay = [([1], SubReq [1] 0 None 0)],
     up_invoice = '''', up_sess = (3, ex_sub_policy)\<rparr>"

theorem paid_only_after_ack_witness:
  "rv_paid (ex_at 30) 7 (paid_rvs (snd (updatePayloadSubscriptions ex_sub_env ex_update ex_sub_world))) [1] \<and>
   snd (fst (updatePayloadSubscriptions ex_sub_env ex_update ex_sub_world)) = None \<and>
   (\<exists>used fees. sub_payments (snd (updatePayloadSubscriptions ex_sub_env ex_update ex_sub_world)) = [(used, 5, fees)])"
proof -
  have run: "updatePayloadSubscriptions ex_sub_env ex_update ex_sub_world = ((''n'', None),
      \<lparr>paid_rvs = [([1], ex_at 30)], sub_payments = [(''i'', 5, 7)], paidCalls = [],
       requests = [(3, [[1]], [], [])]\<rparr>)"
    by code_simp
  have sess: "up_sess ex_update = (3, ex_sub_policy)" by (simp add: ex_update_def)
  have paid: "rv_paid (sub_now ex_sub_env) (ExpirationDays ex_sub_policy) (paid_rvs \<lparr>paid_rvs = [([1], ex_at 30)],
      sub_payments = [(''i'', 5, 7)], paidCalls = [], requests = [(3, [[1]], [], [])]\<rparr>) [1]"
    by code_simp
  have unpaid: "\<not> rv_paid (sub_now ex_sub_env) (ExpirationDays ex_sub_policy) (paid_rvs ex_sub_world) [1]"
    by code_simp
  show ?thesis
    using paid_only_after_ack [OF run sess paid unpaid] run paid
    by (simp add: ex_sub_env_def ex_sub_policy_def)
qed

text \<open>Nobody is charged twice. After an update that succeeded and recorded its payments, updating the
  same points again at that time, on any session with the same policy, makes no further payment.\<close>

theorem no_double_charge:
  assumes "updatePayloadSubscriptions env up w = ((next, None), w')" "up_sess up = (s, pol)"
    and "\<forall>rv. \<not> write_fails (save_io env) rv" "payment_lasts (sub_now env) (ExpirationDays pol)"
    and "up_needPay up' = up_needPay up" "up_sess up' = (s', pol)" "sub_now env' = sub_now env"
  shows "sub_payments (snd (updatePayloadSubscriptions env' up' w')) = sub_payments w'"
proof -
  obtain us w1 where pay: "payForSubs env pol (up_needPay up) (up_invoice up) w = (Inr us, w1)"
      and db: "paid_rvs w' = snd (SavePaidRVs (save_io env) (sub_now env) us (paid_rvs w1))"
    using assms(1,2) by (auto elim: updatePayloadSubscriptions_ok)
  have saved: "SavePaidRVs (save_io env) (sub_now env) us m = (None, snd (SavePaidRVs (save_io env) (sub_now env) us m))" for m
    using assms(3) by (induction us arbitrary: m) (simp_all add: SaveRVPaid_def)
  have paid: "rv_paid (sub_now env) (ExpirationDays pol) (paid_rvs w') rv" if "rv \<in> fst ` set (up_needPay up)" for rv
  proof (cases "rv \<in> set us")
    case True
    from clientdb.save_done [of "(save_io env, sub_now env, ExpirationDays pol)", OF _ _ True] saved assms(4)
    show ?thesis unfolding db by fastforce
  next
    case False
    from clientdb.save_others [OF False, of "(save_io env, sub_now env, ExpirationDays pol)" "paid_rvs w1"]
    show ?thesis using db False that payForSubs_unpaid [OF pay] by auto
  qed
  have "sub_payments (snd (payForSubs env' pol (up_needPay up') invc w')) = sub_payments w'" for invc
  proof (cases "UnpaidRVs (unpaid_io env') (sub_now env') (map fst (up_needPay up')) (ExpirationDays pol) (paid_rvs w')")
    case (Pair r db')
    have none: "filter (\<lambda>rv. \<not> rv_paid (sub_now env') (ExpirationDays pol) (paid_rvs w') rv) (map fst (up_needPay up')) = []"
      using paid assms(5,7) by (auto simp: filter_empty_conv)
    show ?thesis
    proof (cases r)
      case (Inr us')
      then have "us' = []"
        using clientdb.unpaid_result [of "(unpaid_io env', sub_now env', ExpirationDays pol)"] Pair none by simp
      then show ?thesis using Pair Inr by (simp add: payForSubs_def)
    qed (use Pair in \<open>simp add: payForSubs_def\<close>)
  qed
  then show ?thesis
    using assms(6) by (simp add: updatePayloadSubscriptions_payments)
qed

theorem no_double_charge_witness:
  "sub_payments (snd (updatePayloadSubscriptions ex_sub_env ex_update ex_sub_world)) = [(''i'', 5, 7)] \<and>
   sub_payments (snd (updatePayloadSubscriptions ex_sub_env ex_update
     (snd (updatePayloadSubscriptions ex_sub_env ex_update ex_sub_world)))) = [(''i'', 5, 7)]"
proof -
  have run: "updatePayloadSubscriptions ex_sub_env ex_update ex_sub_world = ((''n'', None),
      \<lparr>paid_rvs = [([1], ex_at 30)], sub_payments = [(''i'', 5, 7)], paidCalls = [],
       requests = [(3, [[1]], [], [])]\<rparr>)"
    by code_simp
  have lasts: "payment_lasts (sub_now ex_sub_env) (ExpirationDays ex_sub_policy)" by code_simp
  show ?thesis
    using no_double_charge [OF run _ _ lasts, of 3 ex_update 3 ex_sub_env] run
    by (simp add: ex_update_def ex_sub_env_def ex_io_def)
qed

section \<open>The loop: lemmas and properties\<close>

lemma update_append_present:
  "k \<notin> fst ` set ys \<Longrightarrow> AList.update k v (ys @ (k, w) # xs) = ys @ (k, v) # xs"
  by (induction ys) auto

lemma delete_append_present:
  "k \<notin> fst ` set ys \<Longrightarrow> k \<notin> fst ` set xs \<Longrightarrow> AList.delete k (ys @ (k, w) # xs) = ys @ xs"
  by (induction ys) (force simp: AList.delete_eq filter_id_conv)+

lemma map_of_split:
  assumes "wf_map m" "map_of m k = Some v"
  obtains ys zs where "m = ys @ (k, v) # zs" "k \<notin> fst ` set ys" "k \<notin> fst ` set zs" "AList.delete k m = ys @ zs"
proof -
  obtain ys zs where m: "m = ys @ (k, v) # zs" using assms(2) by (meson map_of_SomeD split_list)
  then have "k \<notin> fst ` set ys" "k \<notin> fst ` set zs" using assms(1) by (auto simp: wf_map_def)
  then show ?thesis using that m delete_append_present by metis
qed

definition sub_chans :: "(RVID, rdzvSub) gomap \<Rightarrow> nat list" where
  "sub_chans m = concat (map (\<lambda>(rid, sub). case subDoneChan sub of None \<Rightarrow> [] | Some c \<Rightarrow> [c]) m)"

lemma sub_chans_simps [simp]:
  "sub_chans [] = []" "sub_chans (xs @ ys) = sub_chans xs @ sub_chans ys"
  "sub_chans ((rid, sub) # xs) = (case subDoneChan sub of None \<Rightarrow> [] | Some c \<Rightarrow> [c]) @ sub_chans xs"
  by (simp_all add: sub_chans_def)

definition acked_subs :: "(RVID, rdzvSub) gomap \<Rightarrow> (RVID, rdzvSub) gomap" where
  "acked_subs m = map (\<lambda>(rid, sub). (rid, sub\<lparr>subDoneChan := None\<rparr>)) (filter (\<lambda>(rid, sub). \<not> onlyMarkPaid sub) m)"

lemma sub_chans_acked [simp]: "sub_chans (acked_subs m) = []"
  by (induction m) (auto simp: acked_subs_def sub_chans_def)

lemma map_of_acked:
  "map_of (acked_subs m) rid = Some sub \<Longrightarrow>
   \<exists>sub'\<in>snd ` set m. sub = sub'\<lparr>subDoneChan := None\<rparr> \<and> (rid, sub') \<in> set m \<and> \<not> onlyMarkPaid sub'"
  by (force simp: acked_subs_def dest: map_of_SomeD)

lemma wf_acked: "wf_map m \<Longrightarrow> wf_map (acked_subs m)"
  by (auto simp: wf_map_def acked_subs_def comp_def case_prod_unfold distinct_map intro: inj_on_subset)

text \<open>The loop that answers the callers after an update: every waiting caller gets a nil error, and
  the points that were only to be paid for are dropped.\<close>

lemma ackSubs_eq:
  assumes "distinct (map fst (ys @ xs))" "subs m = ys @ xs"
  shows "ackSubs xs m =
    m\<lparr>subReplies := subReplies m @ map (\<lambda>c. (c, None)) (sub_chans xs), subs := ys @ acked_subs xs\<rparr>"
  using assms
proof (induction xs arbitrary: m ys)
  case Nil
  then show ?case by (simp add: acked_subs_def)
next
  case (Cons x xs)
  obtain rid sub where x: "x = (rid, sub)" by (cases x)
  have nin: "rid \<notin> fst ` set ys" "rid \<notin> fst ` set xs" using Cons.prems(1) x by auto
  have upd: "AList.update rid v (subs m) = ys @ (rid, v) # xs" for v
    using Cons.prems(2) x nin update_append_present by simp
  have del: "AList.delete rid (ys @ (rid, v) # xs) = ys @ xs" for v
    using nin delete_append_present by simp
  have same: "sub\<lparr>subDoneChan := None\<rparr> = sub" if "subDoneChan sub = None"
    using that by (intro rdzvSub.equality) simp_all
  show ?case
  proof (cases "onlyMarkPaid sub")
    case True
    have "ackSubs (x # xs) m = ackSubs xs (m\<lparr>subReplies := subReplies m @
        map (\<lambda>c. (c, None)) (case subDoneChan sub of None \<Rightarrow> [] | Some c \<Rightarrow> [c]), subs := ys @ xs\<rparr>)"
      using True Cons.prems(2) x upd del
      by (cases "subDoneChan sub") (simp_all add: replySubDone_def)
    then show ?thesis using Cons.IH [of ys] Cons.prems(1) x True by (simp add: acked_subs_def)
  next
    case False
    have "ackSubs (x # xs) m = ackSubs xs (m\<lparr>subReplies := subReplies m @
        map (\<lambda>c. (c, None)) (case subDoneChan sub of None \<Rightarrow> [] | Some c \<Rightarrow> [c]),
        subs := (ys @ [(rid, sub\<lparr>subDoneChan := None\<rparr>)]) @ xs\<rparr>)"
    proof (cases "subDoneChan sub")
      case None
      then have "m\<lparr>subs := ys @ (rid, sub\<lparr>subDoneChan := None\<rparr>) # xs\<rparr> = m"
        using same Cons.prems(2) x by (intro rvm.equality) simp_all
      then show ?thesis using None False x by simp
    qed (use False Cons.prems(2) x upd in \<open>simp add: replySubDone_def\<close>)
    then show ?thesis
      using Cons.IH [of "ys @ [(rid, sub\<lparr>subDoneChan := None\<rparr>)]"] Cons.prems(1) x False by (simp add: acked_subs_def)
  qed
qed

lemma replyUnsubs_eq:
  "fold (\<lambda>u. replyUnsubDone u None) us m = m\<lparr>unsubReplies := unsubReplies m @ map (\<lambda>u. (unsubDoneChan u, None)) us\<rparr>"
  by (induction us arbitrary: m) (simp_all add: replyUnsubDone_def)

lemma onUpdateRes_ok:
  assumes "wf_map (subs m)"
  shows "onUpdateRes io (invc, None) m =
    m\<lparr>nextInvoice := invc, lastUpdateDone := True, lastUpdateSuccess := True, subs := acked_subs (subs m),
      subReplies := subReplies m @ map (\<lambda>c. (c, None)) (sub_chans (subs m)),
      unsubReplies := unsubReplies m @ map (\<lambda>u. (unsubDoneChan u, None)) (requestedUnsubs m),
      delayed := delayed m \<or> needsUpdate m, subDoneCBs := subDoneCBs m + 1\<rparr>"
proof -
  have "distinct (map fst ([] @ subs m))" using assms by (simp add: wf_map_def)
  from ackSubs_eq [OF this, of "m\<lparr>nextInvoice := invc, lastUpdateDone := True, lastUpdateSuccess := True\<rparr>"]
  have acked: "ackSubs (subs m) (m\<lparr>nextInvoice := invc, lastUpdateDone := True, lastUpdateSuccess := True\<rparr>) =
    m\<lparr>nextInvoice := invc, lastUpdateDone := True, lastUpdateSuccess := True,
      subReplies := subReplies m @ map (\<lambda>c. (c, None)) (sub_chans (subs m)), subs := acked_subs (subs m)\<rparr>" by simp
  show ?thesis
    by (rule rvm.equality) (auto simp: onUpdateRes_def Let_def acked replyUnsubs_eq)
qed


text \<open>The callers that have been replied to and those that wait for their reply hold different
  channels, and no channel is newer than the last one made.\<close>

definition chans_ok :: "rvm \<Rightarrow> bool" where
  "chans_ok m = (distinct (map fst (subReplies m) @ sub_chans (subs m)) \<and>
     (\<forall>c\<in>set (map fst (subReplies m) @ sub_chans (subs m)). c < chans m))"

text \<open>The point is in an update that was started on the session, or queued for the next one, as an
  addition or as a payment according to the subscription.\<close>

definition queued_or_sent :: "sub_session \<Rightarrow> RVID \<Rightarrow> bool \<Rightarrow> rvm \<Rightarrow> bool" where
  "queued_or_sent s rid only m =
     (if only then rid \<in> set (toMark m) \<or> (\<exists>up\<in>set (started m). up_sess up = s \<and> rid \<in> set (up_mark up))
      else rid \<in> set (toAdd m) \<or> (\<exists>up\<in>set (started m). up_sess up = s \<and> rid \<in> set (up_add up)))"

definition subs_tracked :: "rvm \<Rightarrow> bool" where
  "subs_tracked m = (\<forall>s rid sub. bound m = Some s \<longrightarrow> map_of (subs m) rid = Some sub \<longrightarrow>
     queued_or_sent s rid (onlyMarkPaid sub) m)"

definition rvm_inv :: "rvm \<Rightarrow> bool" where
  "rvm_inv m = (wf_map (subs m) \<and> chans_ok m \<and> subs_tracked m)"

lemma replySubDone_simps [simp]:
  "subs (replySubDone sub e m) = subs m" "bound (replySubDone sub e m) = bound m"
  "toAdd (replySubDone sub e m) = toAdd m" "toMark (replySubDone sub e m) = toMark m"
  "started (replySubDone sub e m) = started m" "chans (replySubDone sub e m) = chans m"
  "subReplies (replySubDone sub e m) =
     subReplies m @ (case subDoneChan sub of None \<Rightarrow> [] | Some c \<Rightarrow> [(c, e)])"
  by (simp_all add: replySubDone_def split: option.splits)

lemma replyUnsubDone_simps [simp]:
  "subs (replyUnsubDone u e m) = subs m" "bound (replyUnsubDone u e m) = bound m"
  "toAdd (replyUnsubDone u e m) = toAdd m" "toMark (replyUnsubDone u e m) = toMark m"
  "started (replyUnsubDone u e m) = started m" "chans (replyUnsubDone u e m) = chans m"
  "subReplies (replyUnsubDone u e m) = subReplies m"
  by (simp_all add: replyUnsubDone_def)

lemma queued_or_sent_mono:
  assumes "queued_or_sent s rid only m" "set (toAdd m) \<subseteq> set (toAdd m')" "set (toMark m) \<subseteq> set (toMark m')"
    "started m' = started m"
  shows "queued_or_sent s rid only m'"
  using assms by (auto simp: queued_or_sent_def)

lemma subs_tracked_mono:
  assumes "subs_tracked m" "bound m' = bound m \<or> bound m' = None"
    "set (toAdd m) \<subseteq> set (toAdd m')" "set (toMark m) \<subseteq> set (toMark m')" "started m' = started m"
    "\<And>rid sub. map_of (subs m') rid = Some sub \<Longrightarrow>
      \<exists>sub'. map_of (subs m) rid = Some sub' \<and> onlyMarkPaid sub' = onlyMarkPaid sub"
  shows "subs_tracked m'"
  unfolding subs_tracked_def
proof (intro allI impI)
  fix s rid sub assume b: "bound m' = Some s" and sub: "map_of (subs m') rid = Some sub"
  from assms(6) [OF sub] obtain sub' where sub': "map_of (subs m) rid = Some sub'" "onlyMarkPaid sub' = onlyMarkPaid sub"
    by blast
  have "bound m = Some s" using b assms(2) by auto
  with assms(1) sub'(1) have "queued_or_sent s rid (onlyMarkPaid sub') m" by (simp add: subs_tracked_def)
  then have "queued_or_sent s rid (onlyMarkPaid sub) m" by (simp only: sub'(2))
  then show "queued_or_sent s rid (onlyMarkPaid sub) m'" using assms(3-5) by (rule queued_or_sent_mono)
qed

text \<open>An operation that keeps the subscriptions, the callers and what is queued keeps the invariant.\<close>

lemma rvm_inv_cong:
  assumes "rvm_inv m" "subs m' = subs m" "subReplies m' = subReplies m" "chans m \<le> chans m'"
    "bound m' = bound m \<or> bound m' = None" "toAdd m' = toAdd m" "toMark m' = toMark m" "started m' = started m"
  shows "rvm_inv m'"
proof -
  have "chans_ok m'"
    unfolding chans_ok_def
  proof (intro conjI ballI)
    show "distinct (map fst (subReplies m') @ sub_chans (subs m'))"
      using assms unfolding rvm_inv_def chans_ok_def by simp
    fix c assume "c \<in> set (map fst (subReplies m') @ sub_chans (subs m'))"
    then have "c < chans m" using assms(1-3) unfolding rvm_inv_def chans_ok_def by auto
    with assms(4) show "c < chans m'" by simp
  qed
  moreover have "subs_tracked m'"
    by (rule subs_tracked_mono [of m]) (use assms in \<open>auto simp: rvm_inv_def\<close>)
  ultimately show ?thesis using assms by (simp add: rvm_inv_def)
qed

lemma rvm_inv_reply:
  assumes "rvm_inv m" "subDoneChan sub = Some (chans m)"
  shows "rvm_inv (replySubDone sub e (m\<lparr>chans := chans m + 1\<rparr>))"
proof -
  have "\<forall>c\<in>set (map fst (subReplies m) @ sub_chans (subs m)). c < chans m"
    using assms(1) unfolding rvm_inv_def chans_ok_def by blast
  then have fresh: "chans m \<notin> set (map fst (subReplies m) @ sub_chans (subs m))" by blast
  have "chans_ok (replySubDone sub e (m\<lparr>chans := chans m + 1\<rparr>))"
    using assms fresh by (auto simp: rvm_inv_def chans_ok_def ball_Un intro: less_SucI)
  moreover have "subs_tracked (replySubDone sub e (m\<lparr>chans := chans m + 1\<rparr>))"
    by (rule subs_tracked_mono [of m]) (use assms in \<open>auto simp: rvm_inv_def\<close>)
  ultimately show ?thesis using assms by (simp add: rvm_inv_def)
qed

lemma rvm_inv_onSub:
  assumes inv: "rvm_inv m" and chan: "subDoneChan sub = Some (chans m)"
  shows "rvm_inv (onSub sub (m\<lparr>chans := chans m + 1\<rparr>))"
proof (cases "map_of (subs m) (sub_id sub)")
  case None
  let ?m = "onSub sub (m\<lparr>chans := chans m + 1\<rparr>)"
  have subs': "subs ?m = subs m @ [(sub_id sub, sub)]"
    using None by (simp add: onSub_def Let_def update_absent map_of_eq_None_iff)
  have fields: "subReplies ?m = subReplies m" "chans ?m = chans m + 1" "bound ?m = bound m" "started ?m = started m"
      "toAdd ?m = toAdd m @ (if onlyMarkPaid sub then [] else [sub_id sub])"
      "toMark ?m = toMark m @ (if onlyMarkPaid sub then [sub_id sub] else [])"
    using None by (simp_all add: onSub_def Let_def)
  have "wf_map (subs ?m)"
    using inv None by (simp add: rvm_inv_def onSub_def Let_def)
  moreover have "chans_ok ?m"
  proof -
    have "\<forall>c\<in>set (map fst (subReplies m) @ sub_chans (subs m)). c < chans m"
      using inv unfolding rvm_inv_def chans_ok_def by blast
    then have "chans m \<notin> set (map fst (subReplies m) @ sub_chans (subs m))" by blast
    then show ?thesis
      using inv chan unfolding rvm_inv_def chans_ok_def subs' fields
      by (auto simp: ball_Un intro: less_SucI)
  qed
  moreover have "subs_tracked ?m"
    unfolding subs_tracked_def
  proof (intro allI impI)
    fix s rid sub' assume b: "bound ?m = Some s" and sub': "map_of (subs ?m) rid = Some sub'"
    note sub'' = sub' [unfolded subs']
    show "queued_or_sent s rid (onlyMarkPaid sub') ?m"
    proof (cases "map_of (subs m) rid")
      case None
      with sub'' have "sub' = sub" "rid = sub_id sub"
        by (auto simp: map_add_def split: if_splits option.splits)
      then show ?thesis unfolding queued_or_sent_def fields by simp
    next
      case (Some x)
      with sub'' \<open>map_of (subs m) (sub_id sub) = None\<close> have "sub' = x"
        by (auto simp: map_add_def split: if_splits option.splits)
      with Some inv b have "queued_or_sent s rid (onlyMarkPaid sub') m"
        unfolding rvm_inv_def subs_tracked_def fields by blast
      then show ?thesis by (rule queued_or_sent_mono) (simp_all only: fields set_append Un_upper1)
    qed
  qed
  ultimately show ?thesis by (simp add: rvm_inv_def)
next
  case (Some x)
  then show ?thesis using rvm_inv_reply [OF inv chan] by (simp add: onSub_def)
qed

lemma chans_ok_delete:
  assumes "chans_ok m" "wf_map (subs m)"
  shows "distinct (map fst (subReplies m) @ sub_chans (AList.delete k (subs m))) \<and>
    (\<forall>c\<in>set (map fst (subReplies m) @ sub_chans (AList.delete k (subs m))). c < chans m)"
proof (cases "map_of (subs m) k")
  case None
  then show ?thesis using assms(1) by (simp add: chans_ok_def length_delete_absent)
next
  case (Some v)
  with assms(2) obtain ys zs where "subs m = ys @ (k, v) # zs" "AList.delete k (subs m) = ys @ zs"
    by (elim map_of_split)
  then show ?thesis using assms(1) by (auto simp: chans_ok_def)
qed

lemma rvm_inv_onUnsub:
  assumes "rvm_inv m"
  shows "rvm_inv (onUnsub u m)"
proof (cases "map_of (subs m) (unsub_id u)")
  case None
  then show ?thesis using assms by (simp add: onUnsub_def rvm_inv_cong [OF assms])
next
  case (Some x)
  have "wf_map (subs m)" "chans_ok m" "subs_tracked m" using assms by (simp_all add: rvm_inv_def)
  moreover from this have "subs_tracked (onUnsub u m)"
    by (elim subs_tracked_mono) (use Some in \<open>auto simp: onUnsub_def split: if_splits\<close>)
  ultimately show ?thesis
    using Some chans_ok_delete [of m "unsub_id u"] by (simp add: rvm_inv_def onUnsub_def chans_ok_def)
qed

lemma rvMapKeys_complete:
  "map_of m rid = Some sub \<Longrightarrow> onlyMarkPaid sub \<Longrightarrow> rid \<in> set (snd (rvMapKeys m))"
  "map_of m rid = Some sub \<Longrightarrow> \<not> onlyMarkPaid sub \<Longrightarrow> rid \<in> set (fst (rvMapKeys m))"
  by (force simp: rvMapKeys_def dest: map_of_SomeD)+

lemma rvm_inv_onSession: "rvm_inv m \<Longrightarrow> rvm_inv (onSession s m)"
  using rvMapKeys_complete [of "subs m"]
  by (auto simp: rvm_inv_def onSession_def Let_def case_prod_unfold chans_ok_def subs_tracked_def
      queued_or_sent_def split: if_splits)

lemma rvm_inv_startUpdate: "rvm_inv m \<Longrightarrow> rvm_inv (startUpdate m)"
  by (auto simp: rvm_inv_def startUpdate_def Let_def chans_ok_def subs_tracked_def queued_or_sent_def
      split: option.splits if_splits)

lemma set_sliceRemoveFirst: "set xs - {e} \<subseteq> set (sliceRemoveFirst xs e)"
  by (induction xs) auto

lemma rvm_inv_acked:
  assumes "rvm_inv m"
  shows "rvm_inv (onUpdateRes io (invc, None) m)"
proof -
  have wf: "wf_map (subs m)" using assms by (simp add: rvm_inv_def)
  note res = onUpdateRes_ok [OF wf, of io invc]
  have "subs_tracked (onUpdateRes io (invc, None) m)"
  proof (rule subs_tracked_mono [of m])
    fix rid sub assume "map_of (subs (onUpdateRes io (invc, None) m)) rid = Some sub"
    then obtain sub' where "(rid, sub') \<in> set (subs m)" "sub = sub'\<lparr>subDoneChan := None\<rparr>"
      using map_of_acked [of "subs m" rid sub] by (auto simp: res)
    then show "\<exists>sub'. map_of (subs m) rid = Some sub' \<and> onlyMarkPaid sub' = onlyMarkPaid sub"
      using wf by (auto simp: wf_map_def)
  qed (use assms in \<open>simp_all add: rvm_inv_def res\<close>)
  moreover have "map fst (subReplies (onUpdateRes io (invc, None) m)) =
      map fst (subReplies m) @ sub_chans (subs m)" "chans (onUpdateRes io (invc, None) m) = chans m"
      "sub_chans (subs (onUpdateRes io (invc, None) m)) = []"
    by (simp_all add: res comp_def)
  then have "chans_ok (onUpdateRes io (invc, None) m)"
    using assms unfolding rvm_inv_def chans_ok_def by simp
  ultimately show ?thesis using wf by (simp add: rvm_inv_def res wf_acked)
qed

lemma rvm_inv_prepaid_unpaid:
  assumes inv: "rvm_inv m" and sub: "map_of (subs m) rv = Some sub"
  shows "rvm_inv (replySubDone sub e (m\<lparr>subs := AList.delete rv (subs m), toAdd := sliceRemoveFirst (toAdd m) rv\<rparr>))"
    (is "rvm_inv ?m")
proof -
  have wf: "wf_map (subs m)" using inv by (simp add: rvm_inv_def)
  obtain ys zs where split: "subs m = ys @ (rv, sub) # zs" "AList.delete rv (subs m) = ys @ zs"
    using map_of_split [OF wf sub] by metis
  have fields: "subs ?m = ys @ zs" "chans ?m = chans m"
      "subReplies ?m = subReplies m @ (case subDoneChan sub of None \<Rightarrow> [] | Some c \<Rightarrow> [(c, e)])"
    by (simp_all add: split(2))
  have "distinct (map fst (subReplies m) @ sub_chans (ys @ (rv, sub) # zs)) \<and>
      (\<forall>c\<in>set (map fst (subReplies m) @ sub_chans (ys @ (rv, sub) # zs)). c < chans m)"
    using inv unfolding rvm_inv_def chans_ok_def split(1) by blast
  then have "chans_ok ?m"
    unfolding chans_ok_def fields by (cases "subDoneChan sub") auto
  moreover have "subs_tracked ?m"
    unfolding subs_tracked_def
  proof (intro allI impI)
    fix s rid sub' assume "bound ?m = Some s" and sub': "map_of (subs ?m) rid = Some sub'"
    then have "queued_or_sent s rid (onlyMarkPaid sub') m" "rid \<noteq> rv"
      using inv by (auto simp: rvm_inv_def subs_tracked_def split: if_splits)
    then show "queued_or_sent s rid (onlyMarkPaid sub') ?m"
      using set_sliceRemoveFirst [of "toAdd m" rv] by (auto simp: queued_or_sent_def split: if_splits)
  qed
  ultimately show ?thesis using wf by (simp add: rvm_inv_def)
qed

lemma rvm_inv_onUpdateRes:
  assumes "rvm_inv m"
  shows "rvm_inv (onUpdateRes io res m)"
proof (cases "snd res")
  case None
  then have "res = (fst res, None)" by (cases res) simp
  then show ?thesis using rvm_inv_acked [OF assms, of io "fst res"] by simp
next
  case (Some e)
  let ?m = "m\<lparr>nextInvoice := fst res, lastUpdateDone := True, lastUpdateSuccess := False\<rparr>"
  have inv: "rvm_inv ?m" by (rule rvm_inv_cong [OF assms]) simp_all
  have other: "rvm_inv (onUpdateRes io res m)" if "\<forall>rv. e \<noteq> UnpaidSubscription rv"
    by (rule rvm_inv_cong [OF assms])
      (use that Some in \<open>auto simp: onUpdateRes_def Let_def split: rv_error.splits option.splits\<close>)
  show ?thesis
  proof (cases e)
    case (UnpaidSubscription rv)
    show ?thesis
    proof (cases "map_of (subs m) rv")
      case None
      then show ?thesis using Some UnpaidSubscription inv by (simp add: onUpdateRes_def Let_def)
    next
      case (Some sub)
      show ?thesis
      proof (cases "prepaid sub")
        case True
        then show ?thesis
          using \<open>snd res = Some e\<close> UnpaidSubscription Some rvm_inv_prepaid_unpaid [OF inv, of rv sub]
          by (simp add: onUpdateRes_def Let_def)
      next
        case False
        show ?thesis
          by (rule rvm_inv_cong [OF assms])
            (use \<open>snd res = Some e\<close> UnpaidSubscription Some False in \<open>simp_all add: onUpdateRes_def Let_def\<close>)
      qed
    qed
  qed (use other in simp_all)
qed

lemma rvm_inv_request:
  assumes "rvm_inv m" "\<And>c. subDoneChan (mk c) = Some c"
  shows "rvm_inv (request mk m)"
  using rvm_inv_onSub [OF assms(1), of "mk (chans m)"] rvm_inv_reply [OF assms(1), of "mk (chans m)"] assms(2)
  by (simp add: request_def Let_def)

lemma rvm_inv_unsubRequest:
  assumes "rvm_inv m"
  shows "rvm_inv (unsubRequest rdzv m)"
proof -
  have inv: "rvm_inv (m\<lparr>chans := chans m + 1\<rparr>)" by (rule rvm_inv_cong [OF assms]) simp_all
  show ?thesis
    using rvm_inv_onUnsub [OF inv] rvm_inv_cong [OF inv]
    by (simp add: unsubRequest_def Let_def)
qed

lemma rvm_inv_step:
  assumes "rvm_inv m" "rvmStep ev m = Some m'"
  shows "rvm_inv m'"
proof (cases ev)
  case (RvSession s)
  with assms show ?thesis
    by (auto simp: rvmStep_def split: if_splits intro: rvm_inv_startUpdate rvm_inv_onSession)
next
  case RvDelay
  have "rvm_inv (m\<lparr>delayed := False\<rparr>)" by (rule rvm_inv_cong [OF assms(1)]) simp_all
  with RvDelay assms(2) show ?thesis
    by (auto simp: rvmStep_def split: if_splits intro: rvm_inv_startUpdate)
next
  case (RvUpdate i env)
  show ?thesis
    by (rule rvm_inv_cong [OF assms(1)])
      (use assms(2) RvUpdate in \<open>auto simp: rvmStep_def Let_def split: if_splits prod.splits\<close>)
next
  case (RvResult io)
  then obtain res rest where "m' = onUpdateRes io res (m\<lparr>results := rest\<rparr>)"
    using assms(2) by (auto simp: rvmStep_def split: if_splits list.splits)
  moreover have "rvm_inv (m\<lparr>results := rest\<rparr>)" by (rule rvm_inv_cong [OF assms(1)]) simp_all
  ultimately show ?thesis using rvm_inv_onUpdateRes by simp
next
  case (RvPushed rv payload ts err now ret)
  show ?thesis
    by (rule rvm_inv_cong [OF assms(1)])
      (use assms(2) RvPushed in \<open>auto simp: rvmStep_def HandlePushedRMs_def handleInSub_def split: option.splits if_splits\<close>)
next
  case RvIsUpToDate
  show ?thesis by (rule rvm_inv_cong [OF assms(1)]) (use assms(2) RvIsUpToDate in \<open>auto simp: rvmStep_def\<close>)
next
  case RvExit
  show ?thesis
    by (rule rvm_inv_cong [OF assms(1)]) (use assms(2) RvExit in \<open>auto simp: rvmStep_def split: if_splits\<close>)
qed (use assms in \<open>auto simp: rvmStep_def SubReq_def PrepayReq_def FetchPrepaidReq_def
      intro!: rvm_inv_request rvm_inv_unsubRequest\<close>)

lemma rvm_reachable_inv: "rvm_reachable db m \<Longrightarrow> rvm_inv m"
proof (induction rule: rvm_reachable.induct)
  case rvm_init
  show ?case by (simp add: rvm_inv_def chans_ok_def subs_tracked_def NewRVManager_def)
next
  case (rvm_step m ev m')
  then show ?case by (blast intro: rvm_inv_step)
qed

lemma rvmRun_reachable: "rvm_reachable db m \<Longrightarrow> rvmRun evs m = Some m' \<Longrightarrow> rvm_reachable db m'"
  by (induction evs arbitrary: m) (auto simp: Option.bind_eq_Some_conv intro: rvm_step)

text \<open>C11: No subscription is forgotten. Whenever the manager is bound to a session, every point it is
  subscribed to (or has been asked to pay for) is queued for the next update or is part of an update that
  was started on that very session, as an addition or as a payment mark according to the request;
  this holds through reconnections, failed updates, unsubscriptions and unpaid points.\<close>

theorem no_sub_forgotten:
  assumes "rvm_reachable db m" "bound m = Some s" "map_of (subs m) rid = Some sub"
  shows "queued_or_sent s rid (onlyMarkPaid sub) m"
  using rvm_reachable_inv [OF assms(1)] assms(2,3) by (simp add: rvm_inv_def subs_tracked_def)

definition ex_rvm :: "rvm_event list \<Rightarrow> rvm" where
  "ex_rvm evs = (case rvmRun evs (NewRVManager []) of Some m \<Rightarrow> m | None \<Rightarrow> NewRVManager [])"

lemma ex_rvm_reachable: "rvm_reachable [] (ex_rvm evs)"
  by (auto simp: ex_rvm_def intro: rvmRun_reachable rvm_init split: option.splits)

abbreviation ex_sess :: "nat \<Rightarrow> sub_session" where
  "ex_sess i \<equiv> (i, ex_sub_policy)"

theorem no_sub_forgotten_witness:
  "queued_or_sent (ex_sess 2) [7] False
     (ex_rvm [RvSub [7] 0 None, RvSession (Some (ex_sess 1)), RvSub [8] 0 None, RvSession (Some (ex_sess 2))])"
proof -
  let ?m = "ex_rvm [RvSub [7] 0 None, RvSession (Some (ex_sess 1)), RvSub [8] 0 None, RvSession (Some (ex_sess 2))]"
  have b: "bound ?m = Some (ex_sess 2)" by code_simp
  have sub: "map_of (subs ?m) [7] = Some (SubReq [7] 0 None 0)" by code_simp
  show ?thesis using no_sub_forgotten [OF ex_rvm_reachable b sub] by (simp add: SubReq_def)
qed

text \<open>A caller of \<open>Sub\<close>, \<open>PrepayRVSub\<close> or \<open>FetchPrepaidRV\<close> is answered at most once: over any run, no
  channel is replied to twice, and no channel that still waits for its reply has had one.\<close>

theorem sub_replied_once:
  assumes "rvm_reachable db m"
  shows "distinct (map fst (subReplies m)) \<and>
    (\<forall>rid sub c. map_of (subs m) rid = Some sub \<and> subDoneChan sub = Some c \<longrightarrow> c \<notin> fst ` set (subReplies m))"
proof -
  have d: "distinct (map fst (subReplies m) @ sub_chans (subs m))"
    using rvm_reachable_inv [OF assms] unfolding rvm_inv_def chans_ok_def by blast
  have "c \<in> set (sub_chans (subs m))" if "map_of (subs m) rid = Some sub" "subDoneChan sub = Some c" for rid sub c
    using map_of_SomeD [OF that(1)] that(2) by (force simp: sub_chans_def)
  with d show ?thesis by fastforce
qed

theorem sub_replied_once_witness:
  "subReplies (ex_rvm [RvSession (Some (ex_sess 1)), RvSub [7] 0 None, RvSub [7] 0 None, RvDelay,
     RvUpdate 0 ex_sub_env, RvResult ex_io]) = [(1, Some (AlreadySubscribed [7])), (0, None)] \<and>
   distinct (map fst (subReplies (ex_rvm [RvSession (Some (ex_sess 1)), RvSub [7] 0 None, RvSub [7] 0 None, RvDelay,
     RvUpdate 0 ex_sub_env, RvResult ex_io])))"
proof
  show "subReplies (ex_rvm [RvSession (Some (ex_sess 1)), RvSub [7] 0 None, RvSub [7] 0 None, RvDelay,
     RvUpdate 0 ex_sub_env, RvResult ex_io]) = [(1, Some (AlreadySubscribed [7])), (0, None)]" by code_simp
  show "distinct (map fst (subReplies (ex_rvm [RvSession (Some (ex_sess 1)), RvSub [7] 0 None, RvSub [7] 0 None, RvDelay,
     RvUpdate 0 ex_sub_env, RvResult ex_io])))"
    using sub_replied_once [OF ex_rvm_reachable] by blast
qed

section \<open>Runs that the code does not mean to have\<close>

text \<open>A point asked for while an update is in flight is answered by the result of that update, although the
  server has not been told of it: point 8 is prepaid by channel 1, which gets a nil error; the
  subscription record, with the callback that tracks the payment, is dropped.\<close>

lemma early_reply:
  "let m = ex_rvm [RvSession (Some (ex_sess 1)), RvSub [7] 0 None, RvDelay, RvPrepay [8] (Some 4),
     RvUpdate 0 ex_sub_env, RvResult ex_io]
   in subReplies m = [(0, None), (1, None)] \<and> requests (subw m) = [(1, [[7]], [], [])] \<and>
      map_of (subs m) [8] = None \<and> toMark m = [[8]]"
  by code_simp

text \<open>And if no subscription is left, the queued payment is never sent: the delay fires, nothing starts.\<close>

lemma prepay_lost:
  "let m = ex_rvm [RvSession (Some (ex_sess 1)), RvPrepay [7] None, RvDelay, RvPrepay [8] (Some 4),
     RvUpdate 0 ex_sub_env, RvResult ex_io, RvDelay]
   in subReplies m = [(0, None), (1, None)] \<and> toMark m = [[8]] \<and> inflight m = [] \<and> delayed m = False \<and>
      requests (subw m) = [(1, [], [], [[7]])]"
  by code_simp

text \<open>The late failure of an update on an old session closes and dissociates the new one.\<close>

lemma stale_failure_closes_session:
  "let m = ex_rvm [RvSub [7] 0 None, RvSession (Some (ex_sess 1)), RvSession (Some (ex_sess 2)),
     RvUpdate 0 (ex_sub_env\<lparr>sub_send_fails := True\<rparr>), RvResult ex_io]
   in closed m = [2] \<and> bound m = None"
  by code_simp

text \<open>Its late success allows a second update on the new session while the first is still in flight.\<close>

lemma two_updates_in_flight:
  "let m = ex_rvm [RvSub [7] 0 None, RvSession (Some (ex_sess 1)), RvSession (Some (ex_sess 2)),
     RvUpdate 0 ex_sub_env, RvResult ex_io, RvSub [8] 0 None, RvDelay]
   in map (fst \<circ> up_sess) (inflight m) = [2, 2]"
  by code_simp

text \<open>Unsubscribing before the first update leaves the caller of \<open>Sub\<close> without any reply.\<close>

lemma unsub_strands_sub:
  "let m = ex_rvm [RvSession (Some (ex_sess 1)), RvSub [7] 0 None, RvUnsub [7], RvDelay,
     RvUpdate 0 ex_sub_env, RvResult ex_io]
   in subReplies m = [] \<and> sub_chans (subs m) = [] \<and> unsubReplies m = [(1, None)]"
  by code_simp
end
