(* ===== verification/Rtdt_Rpc.thy ===== *)
theory Rtdt_Rpc
  imports Crypto
begin

unbundle bit_operations_syntax

text \<open>
  The wire formats of real-time datagrams (\<^verbatim>\<open>src/rpc/rtdt.go\<close>): the four cookies that the relay server and the
  datagram server exchange through their clients, framed packets, the commands of the datagram server
  and the data packets that members of a session send to each other.

  An identifier or secret is its list of 32 bytes. The bytes that an operation reads from the system's random source are
  its argument \<open>nonce\<close>. Ed25519 is an argument too (\<open>ed25519\<close>).
\<close>

section \<open>Fixed-width integers\<close>

definition put_u64_be :: "u64 \<Rightarrow> bytes" where
  "put_u64_be w = put_u32_be (ucast (drop_bit 32 w)) @ put_u32_be (ucast w)"

definition get_u64_be :: "bytes \<Rightarrow> u64" where
  "get_u64_be bs = of_nat (get_le (rev (take 8 bs)))"

lemma length_put_u64 [simp]: "length (put_u64_be w) = 8"
  by (simp add: put_u64_be_def)

lemma get_le_append: "get_le (xs @ ys) = get_le xs + 256 ^ length xs * get_le ys"
  by (induction xs) (simp_all add: algebra_simps)

lemma get_put_u64_be [simp]: "get_u64_be (put_u64_be w @ bs) = w"
proof -
  have lo: "unat (ucast w :: u32) = unat w mod 2 ^ 32"
    by (simp add: unsigned_ucast_eq take_bit_eq_mod)
  have sh: "unat (drop_bit 32 w) = unat w div 2 ^ 32"
    by (subst unat_drop_bit_eq) (simp add: drop_bit_eq_div)
  have "unat w div 2 ^ 32 < 2 ^ 32"
    using unsigned_less [of w, where 'a = nat] by (simp add: less_mult_imp_div_less)
  then have hi: "unat (ucast (drop_bit 32 w) :: u32) = unat w div 2 ^ 32"
    by (simp only: unsigned_ucast_eq sh take_bit_eq_mod) simp
  have "get_le (rev (put_u64_be w)) = unat w mod 2 ^ 32 + 2 ^ 32 * (unat w div 2 ^ 32)"
    by (simp add: put_u64_be_def put_u32_be_def get_le_append get_le_put_u32 lo hi)
  then have "get_le (rev (put_u64_be w)) = unat w"
    by simp
  then show ?thesis
    by (simp add: get_u64_be_def)
qed

definition setBoolFlag :: "byte \<Rightarrow> nat \<Rightarrow> bool \<Rightarrow> byte" where
  "setBoolFlag current i isSet =
     (if isSet then current OR push_bit i 1 else current AND NOT (push_bit i 1))"

definition isBoolFlagSet :: "byte \<Rightarrow> nat \<Rightarrow> bool" where
  "isBoolFlagSet v i \<longleftrightarrow> v AND push_bit i 1 \<noteq> 0"

section \<open>Cookies\<close>

datatype cookie_error = CookieTooShort | CookieNotDecrypted | CookieWrongTag

definition rtdtSessionCookieTag :: bytes where
  "rtdtSessionCookieTag = [0x53, 0x43, 0x4b, 0x73]"

definition rtdtAppointCookieTag :: bytes where
  "rtdtAppointCookieTag = [0x41, 0x43, 0x4b, 0x73]"

definition rtdtJoinCookieTag :: bytes where
  "rtdtJoinCookieTag = [0x4a, 0x43, 0x4b, 0x73]"

definition rtdtRotateCookieTag :: bytes where
  "rtdtRotateCookieTag = [0x52, 0x43, 0x4b, 0x73]"

lemmas cookie_tags =
  rtdtSessionCookieTag_def rtdtAppointCookieTag_def rtdtJoinCookieTag_def rtdtRotateCookieTag_def

text \<open>What all four \<^verbatim>\<open>Encrypt\<close> end with, and what all four \<^verbatim>\<open>Decrypt\<close> begin with. \<^verbatim>\<open>secretbox.Open(data[:0], ...)\<close>
  writes into the array \<^verbatim>\<open>data\<close> only if the message fits; a longer message goes to a new slice and
  leaves the array as it was, all zeros.\<close>

definition sealCookie :: "crypto \<Rightarrow> bytes \<Rightarrow> bytes \<Rightarrow> key \<Rightarrow> bytes \<Rightarrow> bytes" where
  "sealCookie C out data key nonce = out @ nonce @ secretbox_seal C data nonce key"

definition intoArray :: "nat \<Rightarrow> bytes \<Rightarrow> bytes" where
  "intoArray n msg = (if length msg \<le> n then msg @ replicate (n - length msg) 0 else replicate n 0)"

fun openWithKeys :: "crypto \<Rightarrow> bytes \<Rightarrow> bytes \<Rightarrow> key list \<Rightarrow> bytes option" where
  "openWithKeys C box nonce [] = None"
| "openWithKeys C box nonce (key # keys) =
     (case secretbox_open C box nonce key of
        Some msg \<Rightarrow> Some msg
      | None \<Rightarrow> openWithKeys C box nonce keys)"

definition openCookie :: "crypto \<Rightarrow> bytes \<Rightarrow> nat \<Rightarrow> bytes \<Rightarrow> key \<Rightarrow> key list \<Rightarrow> cookie_error + bytes" where
  "openCookie C tag payload inb key extraKeys =
     (if length inb < 24 + payload + 16 then Inl CookieTooShort
      else
        case openWithKeys C (drop 24 inb) (take 24 inb) (key # extraKeys) of
          None \<Rightarrow> Inl CookieNotDecrypted
        | Some msg \<Rightarrow>
            let data = intoArray payload msg
            in if take 4 data \<noteq> tag then Inl CookieWrongTag else Inr data)"

subsection \<open>The session cookie\<close>

record session_cookie =
  sc_ServerSecret :: bytes
  sc_Size :: u32

definition sc_data :: "session_cookie \<Rightarrow> bytes" where
  "sc_data sc = rtdtSessionCookieTag @ sc_ServerSecret sc @ put_u32_be (sc_Size sc)"

definition sc_Encrypt :: "crypto \<Rightarrow> session_cookie \<Rightarrow> bytes \<Rightarrow> key \<Rightarrow> bytes \<Rightarrow> bytes" where
  "sc_Encrypt C sc out key nonce = sealCookie C out (sc_data sc) key nonce"

definition sc_fields :: "bytes \<Rightarrow> session_cookie" where
  "sc_fields data =
     \<lparr>sc_ServerSecret = take 32 (drop 4 data), sc_Size = get_u32_be (drop 36 data)\<rparr>"

definition sc_Decrypt :: "crypto \<Rightarrow> bytes \<Rightarrow> key \<Rightarrow> key list \<Rightarrow> cookie_error + session_cookie" where
  "sc_Decrypt C inb key extraKeys =
     (case openCookie C rtdtSessionCookieTag (4 + 32 + 4) inb key extraKeys of
        Inl e \<Rightarrow> Inl e
      | Inr data \<Rightarrow> Inr (sc_fields data))"

subsection \<open>The appointment cookie\<close>

record appoint_cookie =
  ac_ServerSecret :: bytes
  ac_OwnerSecret :: bytes
  ac_Size :: u32
  ac_PeerID :: u32
  ac_AllowedAsPublisher :: bool
  ac_IsAdmin :: bool

definition rtdtCookieFlagAllowedAsPublisher :: nat where
  "rtdtCookieFlagAllowedAsPublisher = 0"

definition rtdtCookieFlagIsAdmin :: nat where
  "rtdtCookieFlagIsAdmin = 1"

definition ac_data :: "appoint_cookie \<Rightarrow> bytes" where
  "ac_data ac =
     (let flags = 0;
          flags = setBoolFlag flags rtdtCookieFlagAllowedAsPublisher (ac_AllowedAsPublisher ac);
          flags = setBoolFlag flags rtdtCookieFlagIsAdmin (ac_IsAdmin ac)
      in rtdtAppointCookieTag @ ac_ServerSecret ac @ ac_OwnerSecret ac @ put_u32_be (ac_Size ac) @
         put_u32_be (ac_PeerID ac) @ [flags])"

definition ac_Encrypt :: "crypto \<Rightarrow> appoint_cookie \<Rightarrow> bytes \<Rightarrow> key \<Rightarrow> bytes \<Rightarrow> bytes" where
  "ac_Encrypt C ac out key nonce = sealCookie C out (ac_data ac) key nonce"

definition ac_fields :: "bytes \<Rightarrow> appoint_cookie" where
  "ac_fields data =
     (let flags = data ! 76 in
      \<lparr>ac_ServerSecret = take 32 (drop 4 data), ac_OwnerSecret = take 32 (drop 36 data),
       ac_Size = get_u32_be (drop 68 data), ac_PeerID = get_u32_be (drop 72 data),
       ac_AllowedAsPublisher = isBoolFlagSet flags rtdtCookieFlagAllowedAsPublisher,
       ac_IsAdmin = isBoolFlagSet flags rtdtCookieFlagIsAdmin\<rparr>)"

definition ac_Decrypt :: "crypto \<Rightarrow> bytes \<Rightarrow> key \<Rightarrow> key list \<Rightarrow> cookie_error + appoint_cookie" where
  "ac_Decrypt C inb key extraKeys =
     (case openCookie C rtdtAppointCookieTag (4 + 32 + 32 + 4 + 4 + 1) inb key extraKeys of
        Inl e \<Rightarrow> Inl e
      | Inr data \<Rightarrow> Inr (ac_fields data))"

subsection \<open>The join cookie\<close>

text \<open>\<^verbatim>\<open>EndTimestamp\<close> is an \<^verbatim>\<open>int64\<close>; its value is \<open>sint\<close> of the word.\<close>

record join_cookie =
  jc_ServerSecret :: bytes
  jc_OwnerSecret :: bytes
  jc_Size :: u32
  jc_PeerID :: u32
  jc_EndTimestamp :: u64
  jc_PublishAllowance :: u64
  jc_PaymentTag :: u64
  jc_IsAdmin :: bool

definition jc_data :: "join_cookie \<Rightarrow> bytes" where
  "jc_data jc =
     (let flags = setBoolFlag 0 rtdtCookieFlagIsAdmin (jc_IsAdmin jc)
      in rtdtJoinCookieTag @ jc_ServerSecret jc @ jc_OwnerSecret jc @ put_u32_be (jc_PeerID jc) @
         put_u32_be (jc_Size jc) @ put_u64_be (jc_EndTimestamp jc) @ put_u64_be (jc_PublishAllowance jc) @
         put_u64_be (jc_PaymentTag jc) @ [flags])"

definition jc_Encrypt :: "crypto \<Rightarrow> join_cookie \<Rightarrow> bytes \<Rightarrow> key \<Rightarrow> bytes \<Rightarrow> bytes" where
  "jc_Encrypt C jc out key nonce = sealCookie C out (jc_data jc) key nonce"

definition jc_fields :: "bytes \<Rightarrow> join_cookie" where
  "jc_fields data =
     (let flags = data ! 100 in
      \<lparr>jc_ServerSecret = take 32 (drop 4 data), jc_OwnerSecret = take 32 (drop 36 data),
       jc_Size = get_u32_be (drop 72 data), jc_PeerID = get_u32_be (drop 68 data),
       jc_EndTimestamp = get_u64_be (drop 76 data), jc_PublishAllowance = get_u64_be (drop 84 data),
       jc_PaymentTag = get_u64_be (drop 92 data),
       jc_IsAdmin = isBoolFlagSet flags rtdtCookieFlagIsAdmin\<rparr>)"

definition jc_Decrypt :: "crypto \<Rightarrow> bytes \<Rightarrow> key \<Rightarrow> key list \<Rightarrow> cookie_error + join_cookie" where
  "jc_Decrypt C inb key extraKeys =
     (case openCookie C rtdtJoinCookieTag (4 + 32 + 32 + 4 + 4 + 8 + 8 + 8 + 1) inb key extraKeys of
        Inl e \<Rightarrow> Inl e
      | Inr data \<Rightarrow> Inr (jc_fields data))"

subsection \<open>The rotation cookie\<close>

record rotate_cookie =
  rc_ServerSecret :: bytes
  rc_OldOwnerSecret :: bytes
  rc_NewOwnerSecret :: bytes
  rc_Size :: u32
  rc_Timestamp :: u64
  rc_PaymentTag :: u64

definition rc_data :: "rotate_cookie \<Rightarrow> bytes" where
  "rc_data rc =
     rtdtRotateCookieTag @ rc_ServerSecret rc @ rc_OldOwnerSecret rc @ rc_NewOwnerSecret rc @ put_u32_be (rc_Size rc) @
     put_u64_be (rc_Timestamp rc) @ put_u64_be (rc_PaymentTag rc)"

definition rc_Encrypt :: "crypto \<Rightarrow> rotate_cookie \<Rightarrow> bytes \<Rightarrow> key \<Rightarrow> bytes \<Rightarrow> bytes" where
  "rc_Encrypt C rc out key nonce = sealCookie C out (rc_data rc) key nonce"

definition rc_fields :: "bytes \<Rightarrow> rotate_cookie" where
  "rc_fields data =
     \<lparr>rc_ServerSecret = take 32 (drop 4 data), rc_OldOwnerSecret = take 32 (drop 36 data),
       rc_NewOwnerSecret = take 32 (drop 68 data), rc_Size = get_u32_be (drop 100 data),
       rc_Timestamp = get_u64_be (drop 104 data), rc_PaymentTag = get_u64_be (drop 112 data)\<rparr>"

definition rc_Decrypt :: "crypto \<Rightarrow> bytes \<Rightarrow> key \<Rightarrow> key list \<Rightarrow> cookie_error + rotate_cookie" where
  "rc_Decrypt C inb key extraKeys =
     (case openCookie C rtdtRotateCookieTag (4 + 32 * 3 + 4 + 8 + 8) inb key extraKeys of
        Inl e \<Rightarrow> Inl e
      | Inr data \<Rightarrow> Inr (rc_fields data))"

section \<open>Cookies are read back, by their own reader only\<close>

text \<open>A cookie of any of the four kinds.\<close>

datatype any_cookie =
    SessionCookie session_cookie
  | AppointCookie appoint_cookie
  | JoinCookie join_cookie
  | RotateCookie rotate_cookie

fun cookie_data :: "any_cookie \<Rightarrow> bytes" where
  "cookie_data (SessionCookie x) = sc_data x"
| "cookie_data (AppointCookie x) = ac_data x"
| "cookie_data (JoinCookie x) = jc_data x"
| "cookie_data (RotateCookie x) = rc_data x"

fun cookie_Encrypt :: "crypto \<Rightarrow> any_cookie \<Rightarrow> key \<Rightarrow> bytes \<Rightarrow> bytes" where
  "cookie_Encrypt C (SessionCookie x) key nonce = sc_Encrypt C x [] key nonce"
| "cookie_Encrypt C (AppointCookie x) key nonce = ac_Encrypt C x [] key nonce"
| "cookie_Encrypt C (JoinCookie x) key nonce = jc_Encrypt C x [] key nonce"
| "cookie_Encrypt C (RotateCookie x) key nonce = rc_Encrypt C x [] key nonce"

fun wf_cookie :: "any_cookie \<Rightarrow> bool" where
  "wf_cookie (SessionCookie x) \<longleftrightarrow> length (sc_ServerSecret x) = 32"
| "wf_cookie (AppointCookie x) \<longleftrightarrow> length (ac_ServerSecret x) = 32 \<and> length (ac_OwnerSecret x) = 32"
| "wf_cookie (JoinCookie x) \<longleftrightarrow> length (jc_ServerSecret x) = 32 \<and> length (jc_OwnerSecret x) = 32"
| "wf_cookie (RotateCookie x) \<longleftrightarrow>
     length (rc_ServerSecret x) = 32 \<and> length (rc_OldOwnerSecret x) = 32 \<and> length (rc_NewOwnerSecret x) = 32"

text \<open>What the readers rely on: the laws of secretbox, an overhead of at least the 16 bytes that the length checks
  count, and keys of the right size.\<close>

definition cookie_laws :: "crypto \<Rightarrow> key list \<Rightarrow> bool" where
  "cookie_laws C keys \<longleftrightarrow>
     secretbox_correct C \<and> secretbox_authentic C \<and> 16 \<le> secretbox_overhead C \<and> list_all (\<lambda>k. length k = 32) keys"

lemma openWithKeys_seal:
  assumes "cookie_laws C (k # keys)" "length nonce = 24"
  shows "openWithKeys C (secretbox_seal C m nonce k) nonce keys = (if k \<in> set keys then Some m else None)"
  using assms
proof (induction keys)
  case (Cons a keys)
  then have "openWithKeys C (secretbox_seal C m nonce k) nonce keys = (if k \<in> set keys then Some m else None)"
    by (simp add: cookie_laws_def)
  moreover have "secretbox_open C (secretbox_seal C m nonce k) nonce a = (if a = k then Some m else None)"
    using Cons.prems by (auto simp: cookie_laws_def secretbox_open_seal secretbox_open_other)
  ultimately show ?case by simp
qed simp

lemma openCookie_seal:
  assumes "cookie_laws C (k # key # extra)" "length nonce = 24"
  shows "openCookie C tag n (sealCookie C [] data k nonce) key extra =
    (if length data + secretbox_overhead C < n + 16 then Inl CookieTooShort
     else if k \<notin> set (key # extra) then Inl CookieNotDecrypted
     else if take 4 (intoArray n data) \<noteq> tag then Inl CookieWrongTag
     else Inr (intoArray n data))"
proof -
  have "length (secretbox_seal C data nonce k) = length data + secretbox_overhead C"
    using assms by (auto simp: cookie_laws_def length_secretbox_seal)
  moreover have "openWithKeys C (secretbox_seal C data nonce k) nonce (key # extra) =
      (if k \<in> set (key # extra) then Some data else None)"
    by (rule openWithKeys_seal) (use assms in auto)
  ultimately show ?thesis
    using assms(2) by (simp add: openCookie_def sealCookie_def Let_def del: openWithKeys.simps)
qed

lemma cookie_Encrypt_eq: "cookie_Encrypt C x key nonce = sealCookie C [] (cookie_data x) key nonce"
  by (cases x) (simp_all add: sc_Encrypt_def ac_Encrypt_def jc_Encrypt_def rc_Encrypt_def)

lemmas cookie_data_defs = sc_data_def ac_data_def jc_data_def rc_data_def

lemma length_cookie_tags [simp]:
  "length rtdtSessionCookieTag = 4" "length rtdtAppointCookieTag = 4"
  "length rtdtJoinCookieTag = 4" "length rtdtRotateCookieTag = 4"
  by (simp_all add: cookie_tags)

lemma length_cookie_data:
  "length (sc_ServerSecret sc) = 32 \<Longrightarrow> length (sc_data sc) = 40"
  "length (ac_ServerSecret ac) = 32 \<Longrightarrow> length (ac_OwnerSecret ac) = 32 \<Longrightarrow> length (ac_data ac) = 77"
  "length (jc_ServerSecret jc) = 32 \<Longrightarrow> length (jc_OwnerSecret jc) = 32 \<Longrightarrow> length (jc_data jc) = 101"
  "length (rc_ServerSecret rc) = 32 \<Longrightarrow> length (rc_OldOwnerSecret rc) = 32 \<Longrightarrow> length (rc_NewOwnerSecret rc) = 32 \<Longrightarrow>
   length (rc_data rc) = 120"
  by (simp_all add: cookie_data_defs Let_def)

lemma take_cookie_data:
  "take 4 (sc_data sc @ r) = rtdtSessionCookieTag" "take 4 (ac_data ac @ r) = rtdtAppointCookieTag"
  "take 4 (jc_data jc @ r) = rtdtJoinCookieTag" "take 4 (rc_data rc @ r) = rtdtRotateCookieTag"
  by (simp_all add: cookie_data_defs Let_def)

lemma replicate_eq_4: "replicate 4 x = [x, x, x, x]"
  by (simp add: numeral_eq_Suc)

lemma intoArray_exact [simp]: "length m = n \<Longrightarrow> intoArray n m = m"
  by (simp add: intoArray_def)

lemma flags_read_back:
  "isBoolFlagSet (setBoolFlag (setBoolFlag 0 0 a) 1 b) 0 = a"
  "isBoolFlagSet (setBoolFlag (setBoolFlag 0 0 a) 1 b) 1 = b"
  "isBoolFlagSet (setBoolFlag 0 1 b) 1 = b"
  by (cases a; cases b; simp add: setBoolFlag_def isBoolFlagSet_def)+

lemma take_intoArray:
  assumes "4 \<le> n"
  shows "take 4 (intoArray n (cookie_data x)) = (if length (cookie_data x) \<le> n then take 4 (cookie_data x) else [0, 0, 0, 0])"
proof -
  have "4 \<le> length (cookie_data x)" by (cases x) (simp_all add: cookie_data_defs Let_def)
  then show ?thesis using assms by (simp add: intoArray_def replicate_eq_4)
qed

lemma take_cookie_tag:
  "take 4 (sc_data sc) = rtdtSessionCookieTag" "take 4 (ac_data ac) = rtdtAppointCookieTag"
  "take 4 (jc_data jc) = rtdtJoinCookieTag" "take 4 (rc_data rc) = rtdtRotateCookieTag"
  using take_cookie_data [where r = "[]"] by simp_all

lemma intoArray_foreign:
  assumes "4 \<le> n"
  shows "take 4 (intoArray n (cookie_data x)) = rtdtSessionCookieTag \<Longrightarrow> \<exists>y. x = SessionCookie y"
    and "take 4 (intoArray n (cookie_data x)) = rtdtAppointCookieTag \<Longrightarrow> \<exists>y. x = AppointCookie y"
    and "take 4 (intoArray n (cookie_data x)) = rtdtJoinCookieTag \<Longrightarrow> \<exists>y. x = JoinCookie y"
    and "take 4 (intoArray n (cookie_data x)) = rtdtRotateCookieTag \<Longrightarrow> \<exists>y. x = RotateCookie y"
  unfolding take_intoArray [OF assms]
  by (cases x; simp add: take_cookie_tag cookie_tags split: if_splits)+

text \<open>The contract of one kind of cookie: its reader opens a box, checks the tag and reads the fields that its writer
  has laid out, and no other kind fits its array and carries its tag.\<close>

locale cookie_kind =
  fixes wrap :: "'c \<Rightarrow> any_cookie" and tag :: bytes and n :: nat and fields :: "bytes \<Rightarrow> 'c"
    and decrypt :: "crypto \<Rightarrow> bytes \<Rightarrow> key \<Rightarrow> key list \<Rightarrow> cookie_error + 'c"
  assumes decrypt: "decrypt C b key extra = map_sum id fields (openCookie C tag n b key extra)"
    and layout: "wf_cookie (wrap y) \<Longrightarrow> length (cookie_data (wrap y)) = n"
      "take 4 (cookie_data (wrap y)) = tag"
      "wf_cookie (wrap y) \<Longrightarrow> fields (cookie_data (wrap y)) = y"
    and own: "wf_cookie x \<Longrightarrow> take 4 (intoArray n (cookie_data x)) = tag \<Longrightarrow> \<exists>y. x = wrap y"
    and wrap_inj: "wrap y = wrap z \<Longrightarrow> y = z"
begin

lemma decrypt_seal:
  assumes "cookie_laws C (k # key # extra)" "length nonce = 24" "wf_cookie x"
  shows "decrypt C (cookie_Encrypt C x k nonce) key extra = Inr y \<longleftrightarrow> x = wrap y \<and> k \<in> set (key # extra)"
proof (cases "\<exists>y. x = wrap y")
  case True
  then obtain z where x: "x = wrap z" by blast
  with assms(1,3) show ?thesis
    by (auto simp: decrypt cookie_Encrypt_eq openCookie_seal [OF assms(1,2)] layout cookie_laws_def dest: wrap_inj)
next
  case False
  with own [OF assms(3)] show ?thesis
    by (auto simp: decrypt cookie_Encrypt_eq openCookie_seal [OF assms(1,2)])
qed

end

lemma map_sum_case: "map_sum id f r = (case r of Inl e \<Rightarrow> Inl e | Inr d \<Rightarrow> Inr (f d))"
  by (cases r) simp_all

interpretation session_kind: cookie_kind SessionCookie rtdtSessionCookieTag 40 sc_fields sc_Decrypt
proof
  show "wf_cookie (SessionCookie y) \<Longrightarrow> sc_fields (cookie_data (SessionCookie y)) = y" for y
    using get_put_u32_be [of "sc_Size y" "[]"] by (simp add: sc_fields_def sc_data_def)
qed (auto simp: take_cookie_tag sc_Decrypt_def map_sum_case length_cookie_data intro: intoArray_foreign [rotated])

interpretation appoint_kind: cookie_kind AppointCookie rtdtAppointCookieTag 77 ac_fields ac_Decrypt
proof
  show "wf_cookie (AppointCookie y) \<Longrightarrow> ac_fields (cookie_data (AppointCookie y)) = y" for y
    by (simp add: ac_fields_def ac_data_def Let_def nth_append flags_read_back rtdtCookieFlagAllowedAsPublisher_def
        rtdtCookieFlagIsAdmin_def del: One_nat_def)
qed (auto simp: take_cookie_tag ac_Decrypt_def map_sum_case length_cookie_data intro: intoArray_foreign [rotated])

interpretation join_kind: cookie_kind JoinCookie rtdtJoinCookieTag 101 jc_fields jc_Decrypt
proof
  show "wf_cookie (JoinCookie y) \<Longrightarrow> jc_fields (cookie_data (JoinCookie y)) = y" for y
    by (simp add: jc_fields_def jc_data_def Let_def nth_append flags_read_back rtdtCookieFlagIsAdmin_def del: One_nat_def)
qed (auto simp: take_cookie_tag jc_Decrypt_def map_sum_case length_cookie_data intro: intoArray_foreign [rotated])

interpretation rotate_kind: cookie_kind RotateCookie rtdtRotateCookieTag 120 rc_fields rc_Decrypt
proof
  show "wf_cookie (RotateCookie y) \<Longrightarrow> rc_fields (cookie_data (RotateCookie y)) = y" for y
    using get_put_u64_be [of "rc_PaymentTag y" "[]"] by (simp add: rc_fields_def rc_data_def)
qed (auto simp: take_cookie_tag rc_Decrypt_def map_sum_case length_cookie_data intro: intoArray_foreign [rotated])

section \<open>Framed packets\<close>

record framed_packet =
  fp_Target :: u32
  fp_Source :: u32
  fp_Sequence :: u32
  fp_Data :: bytes

definition fp_FromBytes :: "bytes \<Rightarrow> framed_packet option" where
  "fp_FromBytes b =
     (if length b < 12 then None
      else Some \<lparr>fp_Target = get_u32_be b, fp_Source = get_u32_be (drop 4 b), fp_Sequence = get_u32_be (drop 8 b),
                 fp_Data = drop 12 b\<rparr>)"

definition appendPacketHeader :: "framed_packet \<Rightarrow> bytes \<Rightarrow> bytes" where
  "appendPacketHeader p b = b @ put_u32_be (fp_Target p) @ put_u32_be (fp_Source p) @ put_u32_be (fp_Sequence p)"

text \<open>The type of a server command and its payload; type 0 for a packet that is none.\<close>

definition ServerCmd :: "framed_packet \<Rightarrow> byte \<times> bytes" where
  "ServerCmd p =
     (case fp_Data p of
        [] \<Rightarrow> (0, [])
      | t # payload \<Rightarrow> if 1 \<le> t \<and> t \<le> 0x0b then (t, payload) else (0, []))"

datatype server_cmd =
    PingCmd bytes
  | PongCmd bytes
  | JoinSession bytes
  | JoinSessionReply u64
  | LeaveSession
  | LeaveSessionReply
  | KickPeer u32 u32
  | KickPeerReply u32 u64
  | MembersBitmap bytes
  | RotateSessionCookies bytes
  | RotateSessionCookiesReply u64

fun cmd_type :: "server_cmd \<Rightarrow> byte" where
  "cmd_type (PingCmd _) = 0x01"
| "cmd_type (PongCmd _) = 0x02"
| "cmd_type (JoinSession _) = 0x03"
| "cmd_type (JoinSessionReply _) = 0x04"
| "cmd_type LeaveSession = 0x05"
| "cmd_type LeaveSessionReply = 0x06"
| "cmd_type (KickPeer _ _) = 0x07"
| "cmd_type (KickPeerReply _ _) = 0x08"
| "cmd_type (MembersBitmap _) = 0x09"
| "cmd_type (RotateSessionCookies _) = 0x0a"
| "cmd_type (RotateSessionCookiesReply _) = 0x0b"

fun cmd_payload :: "server_cmd \<Rightarrow> bytes" where
  "cmd_payload (PingCmd data) = data"
| "cmd_payload (PongCmd data) = data"
| "cmd_payload (JoinSession joinCookie) = joinCookie"
| "cmd_payload (JoinSessionReply errCode) = put_u64_be errCode"
| "cmd_payload LeaveSession = []"
| "cmd_payload LeaveSessionReply = []"
| "cmd_payload (KickPeer kickTarget banDurationSeconds) = put_u32_be kickTarget @ put_u32_be banDurationSeconds"
| "cmd_payload (KickPeerReply kickTarget errCode) = put_u32_be kickTarget @ put_u64_be errCode"
| "cmd_payload (MembersBitmap bitmap) = bitmap"
| "cmd_payload (RotateSessionCookies rotateCookie) = rotateCookie"
| "cmd_payload (RotateSessionCookiesReply errCode) = put_u64_be errCode"

definition cmd_AppendFramed :: "server_cmd \<Rightarrow> framed_packet \<Rightarrow> bytes \<Rightarrow> bytes" where
  "cmd_AppendFramed c pkt b = appendPacketHeader pkt b @ [cmd_type c] @ cmd_payload c"

text \<open>The \<^verbatim>\<open>FromBytes\<close> of each command; \<open>None\<close> is its error.\<close>

definition cmd_FromBytes :: "byte \<Rightarrow> bytes \<Rightarrow> server_cmd option" where
  "cmd_FromBytes t b =
     (if t = 0x01 then Some (PingCmd b)
      else if t = 0x02 then Some (PongCmd b)
      else if t = 0x03 then Some (JoinSession b)
      else if t = 0x04 then if length b < 8 then None else Some (JoinSessionReply (get_u64_be b))
      else if t = 0x05 then Some LeaveSession
      else if t = 0x06 then Some LeaveSessionReply
      else if t = 0x07 then if length b < 8 then None else Some (KickPeer (get_u32_be b) (get_u32_be (drop 4 b)))
      else if t = 0x08 then if length b < 12 then None else Some (KickPeerReply (get_u32_be b) (get_u64_be (drop 4 b)))
      else if t = 0x09 then Some (MembersBitmap b)
      else if t = 0x0a then Some (RotateSessionCookies b)
      else if t = 0x0b then if length b < 8 then None else Some (RotateSessionCookiesReply (get_u64_be b))
      else None)"

section \<open>Data packets\<close>

record ed25519 =
  ed_Sign :: "bytes \<Rightarrow> bytes \<Rightarrow> bytes"
  ed_Verify :: "bytes \<Rightarrow> bytes \<Rightarrow> bytes \<Rightarrow> bool"

definition ed_SignatureSize :: nat where
  "ed_SignatureSize = 64"

record data_packet =
  dp_Stream :: byte
  dp_Timestamp :: u32
  dp_Data :: bytes

datatype data_error =
    CiphertextTooShort | DecryptionError | DecryptedEmpty | NoSignature | BadSignature | DecryptedTooShort

definition rtdtPacketContainsSigFlag :: byte where
  "rtdtPacketContainsSigFlag = 0x01"

definition dp_parse :: "ed25519 \<Rightarrow> bytes \<Rightarrow> bytes option \<Rightarrow> data_error + data_packet" where
  "dp_parse E plain sigKey =
     (if plain = [] then Inl DecryptedEmpty
      else if hd plain AND rtdtPacketContainsSigFlag = rtdtPacketContainsSigFlag then
        if length plain < ed_SignatureSize + 6 then Inl NoSignature
        else
          let i = length plain - ed_SignatureSize; msg = take i plain; sig = drop i plain in
          if (case sigKey of Some pk \<Rightarrow> \<not> ed_Verify E pk msg sig | None \<Rightarrow> False) then Inl BadSignature
          else Inr \<lparr>dp_Stream = plain ! 1, dp_Timestamp = get_u32_be (drop 2 plain), dp_Data = drop 6 msg\<rparr>
      else if length plain < 6 then Inl DecryptedTooShort
      else Inr \<lparr>dp_Stream = plain ! 1, dp_Timestamp = get_u32_be (drop 2 plain), dp_Data = drop 6 plain\<rparr>)"

definition dp_Decrypt ::
    "crypto \<Rightarrow> ed25519 \<Rightarrow> framed_packet \<Rightarrow> key option \<Rightarrow> bytes option \<Rightarrow> data_error + data_packet" where
  "dp_Decrypt C E source encryptionKey sigKey =
     (case encryptionKey of
        None \<Rightarrow> dp_parse E (fp_Data source) sigKey
      | Some key \<Rightarrow>
          if length (fp_Data source) < 24 + secretbox_overhead C then Inl CiphertextTooShort
          else (case secretbox_open C (drop 24 (fp_Data source)) (take 24 (fp_Data source)) key of
                  None \<Rightarrow> Inl DecryptionError
                | Some plain \<Rightarrow> dp_parse E plain sigKey))"

definition dp_plain :: "ed25519 \<Rightarrow> data_packet \<Rightarrow> bytes option \<Rightarrow> bytes" where
  "dp_plain E p sigKey =
     (let header = (case sigKey of Some _ \<Rightarrow> 0 OR rtdtPacketContainsSigFlag | None \<Rightarrow> 0);
          plain = [header, dp_Stream p] @ put_u32_be (dp_Timestamp p) @ dp_Data p
      in case sigKey of Some sk \<Rightarrow> plain @ ed_Sign E sk plain | None \<Rightarrow> plain)"

text \<open>The bytes to send and the packet, whose data is set to the bytes from index 10 on.\<close>

definition dp_AppendEncrypted ::
    "crypto \<Rightarrow> ed25519 \<Rightarrow> data_packet \<Rightarrow> framed_packet \<Rightarrow> bytes \<Rightarrow> key option \<Rightarrow> bytes option \<Rightarrow> bytes \<Rightarrow> bytes \<times> framed_packet" where
  "dp_AppendEncrypted C E p pkt out encryptionKey sigKey nonce =
     (let plain = dp_plain E p sigKey;
          out = appendPacketHeader pkt out;
          out = (case encryptionKey of
                   Some key \<Rightarrow> out @ nonce @ secretbox_seal C plain nonce key
                 | None \<Rightarrow> out @ plain)
      in (out, pkt\<lparr>fp_Data := drop 10 out\<rparr>))"

definition dp_AppendFramed :: "data_packet \<Rightarrow> framed_packet \<Rightarrow> bytes \<Rightarrow> bytes" where
  "dp_AppendFramed p pkt out =
     appendPacketHeader pkt out @ [0, dp_Stream p] @ put_u32_be (dp_Timestamp p) @ dp_Data p"

section \<open>Packets are read back\<close>

lemma fp_FromBytes_header:
  "fp_FromBytes (appendPacketHeader pkt [] @ d) =
   Some \<lparr>fp_Target = fp_Target pkt, fp_Source = fp_Source pkt, fp_Sequence = fp_Sequence pkt, fp_Data = d\<rparr>"
  by (simp add: fp_FromBytes_def appendPacketHeader_def)

lemma cmd_type_valid: "1 \<le> cmd_type c \<and> cmd_type c \<le> 0x0b"
  by (cases c) simp_all

lemma cmd_FromBytes_payload: "cmd_FromBytes (cmd_type c) (cmd_payload c @ r) =
    Some (case c of PingCmd d \<Rightarrow> PingCmd (d @ r) | PongCmd d \<Rightarrow> PongCmd (d @ r) | JoinSession d \<Rightarrow> JoinSession (d @ r)
          | MembersBitmap d \<Rightarrow> MembersBitmap (d @ r) | RotateSessionCookies d \<Rightarrow> RotateSessionCookies (d @ r) | _ \<Rightarrow> c)"
  by (cases c) (simp_all add: cmd_FromBytes_def)

lemma cmd_read_back: "cmd_FromBytes (cmd_type c) (cmd_payload c) = Some c"
  using cmd_FromBytes_payload [of c "[]"] by (cases c) simp_all

text \<open>A server command is read back from its framed form, with the addresses and the sequence number of
  its packet.\<close>

theorem cmd_roundtrip:
  "\<exists>q. fp_FromBytes (cmd_AppendFramed c pkt []) = Some q \<and>
     fp_Target q = fp_Target pkt \<and> fp_Source q = fp_Source pkt \<and> fp_Sequence q = fp_Sequence pkt \<and>
     ServerCmd q = (cmd_type c, cmd_payload c) \<and> cmd_FromBytes (cmd_type c) (cmd_payload c) = Some c"
  by (simp add: cmd_AppendFramed_def fp_FromBytes_header ServerCmd_def cmd_type_valid cmd_read_back)

text \<open>A key pair whose signatures verify and have the documented size.\<close>

definition sig_pair :: "ed25519 \<Rightarrow> bytes \<Rightarrow> bytes \<Rightarrow> bool" where
  "sig_pair E sk pk \<longleftrightarrow> (\<forall>m. ed_Verify E pk m (ed_Sign E sk m) \<and> length (ed_Sign E sk m) = ed_SignatureSize)"

fun sig_matches :: "ed25519 \<Rightarrow> bytes option \<Rightarrow> bytes option \<Rightarrow> bool" where
  "sig_matches E (Some sk) (Some pk) \<longleftrightarrow> sig_pair E sk pk"
| "sig_matches E (Some sk) None \<longleftrightarrow> (\<forall>m. length (ed_Sign E sk m) = ed_SignatureSize)"
| "sig_matches E None _ \<longleftrightarrow> True"

lemma dp_parse_plain:
  assumes "sig_matches E sk pk"
  shows "dp_parse E (dp_plain E p sk) pk = Inr p"
proof (cases sk)
  case None
  then show ?thesis
    by (simp add: dp_plain_def dp_parse_def Let_def rtdtPacketContainsSigFlag_def)
next
  case (Some s)
  then have "\<And>m. length (ed_Sign E s m) = ed_SignatureSize" "\<And>v m. pk = Some v \<Longrightarrow> ed_Verify E v m (ed_Sign E s m)"
    using assms by (cases pk; simp add: sig_pair_def)+
  moreover define m where "m = [1, dp_Stream p] @ put_u32_be (dp_Timestamp p) @ dp_Data p"
  ultimately have "dp_plain E p sk = m @ ed_Sign E s m"
      "length (ed_Sign E s m) = ed_SignatureSize" "pk = Some v \<Longrightarrow> ed_Verify E v m (ed_Sign E s m)" for v
    using Some by (simp_all add: dp_plain_def Let_def rtdtPacketContainsSigFlag_def)
  moreover have "drop (length m) (m @ ed_Sign E s m) = ed_Sign E s m" by simp
  moreover have "m \<noteq> []" "6 \<le> length m" "hd (m @ r) = 1" "(m @ r) ! 1 = dp_Stream p" "drop 6 m = dp_Data p"
      "get_u32_be (drop 2 (m @ r)) = dp_Timestamp p" for r
    by (simp_all add: m_def)
  ultimately show ?thesis
    by (simp add: dp_parse_def Let_def rtdtPacketContainsSigFlag_def del: drop_append split: option.splits)
qed
text \<open>C37: The cookies are exact. A cookie of any of the four kinds, sealed under one of the server's keys, is read
  back by the reader of its own kind with every field as it was written, and a reader accepts nothing else: neither a cookie of
  another kind nor one sealed under a key that is not in use.\<close>

theorem cookies_exact:
  assumes "cookie_laws C (k # key # extra)" "length nonce = 24" "wf_cookie x"
  shows "(sc_Decrypt C (cookie_Encrypt C x k nonce) key extra = Inr sc \<longleftrightarrow> x = SessionCookie sc \<and> k \<in> set (key # extra)) \<and>
    (ac_Decrypt C (cookie_Encrypt C x k nonce) key extra = Inr ac \<longleftrightarrow> x = AppointCookie ac \<and> k \<in> set (key # extra)) \<and>
    (jc_Decrypt C (cookie_Encrypt C x k nonce) key extra = Inr jc \<longleftrightarrow> x = JoinCookie jc \<and> k \<in> set (key # extra)) \<and>
    (rc_Decrypt C (cookie_Encrypt C x k nonce) key extra = Inr rc \<longleftrightarrow> x = RotateCookie rc \<and> k \<in> set (key # extra))"
  by (intro conjI session_kind.decrypt_seal appoint_kind.decrypt_seal join_kind.decrypt_seal rotate_kind.decrypt_seal assms)

definition ex_cookie_key :: key where
  "ex_cookie_key = replicate 32 7"

definition ex_join_cookie :: join_cookie where
  "ex_join_cookie = \<lparr>jc_ServerSecret = replicate 32 1, jc_OwnerSecret = replicate 32 2, jc_Size = 3, jc_PeerID = 5,
     jc_EndTimestamp = 3600, jc_PublishAllowance = 1000000, jc_PaymentTag = 9, jc_IsAdmin = True\<rparr>"

lemma ex_cookie_laws: "list_all (\<lambda>k. length k = 32) keys \<Longrightarrow> cookie_laws ex_crypto keys"
  by (simp add: cookie_laws_def ex_crypto_laws) (simp add: ex_crypto_def)

theorem cookies_exact_witness:
  "jc_Decrypt ex_crypto (jc_Encrypt ex_crypto ex_join_cookie [] ex_cookie_key (replicate 24 4)) (replicate 32 8) [ex_cookie_key] =
     Inr ex_join_cookie"
proof -
  have laws: "cookie_laws ex_crypto [ex_cookie_key, replicate 32 8, ex_cookie_key]"
    by (rule ex_cookie_laws) (simp add: ex_cookie_key_def)
  have n: "length (replicate 24 4 :: bytes) = 24" by simp
  have wf: "wf_cookie (JoinCookie ex_join_cookie)" by (simp add: ex_join_cookie_def)
  from cookies_exact [OF laws n wf] show ?thesis by simp
qed

text \<open>What a member of a session sends is what the others read: the framed packet keeps its addresses and its
  sequence number, and the data packet in it is decrypted to the stream, time and data that were sent, with or
  without end-to-end encryption and with or without a signature.\<close>

theorem data_packet_roundtrip:
  assumes "secretbox_correct C" "length nonce = 24" "pred_option (\<lambda>k. length k = 32) encKey" "sig_matches E sigKey pubKey"
  shows "\<exists>q. fp_FromBytes (fst (dp_AppendEncrypted C E p pkt [] encKey sigKey nonce)) = Some q \<and>
    fp_Target q = fp_Target pkt \<and> fp_Source q = fp_Source pkt \<and> fp_Sequence q = fp_Sequence pkt \<and>
    dp_Decrypt C E q encKey pubKey = Inr p"
  using assms
  by (cases encKey)
    (auto simp: dp_AppendEncrypted_def Let_def fp_FromBytes_header dp_Decrypt_def dp_parse_plain secretbox_open_seal
      length_secretbox_seal)

definition ex_ed25519 :: ed25519 where
  "ex_ed25519 = \<lparr>ed_Sign = (\<lambda>sk m. take 64 (fold (+) m 0 # sk @ replicate 64 0)),
     ed_Verify = (\<lambda>pk m s. s = take 64 (fold (+) m 0 # pk @ replicate 64 0))\<rparr>"

theorem data_packet_roundtrip_witness:
  "\<exists>q. fp_FromBytes (fst (dp_AppendEncrypted ex_crypto ex_ed25519 \<lparr>dp_Stream = 2, dp_Timestamp = 77, dp_Data = [104, 105]\<rparr>
       \<lparr>fp_Target = 3, fp_Source = 3, fp_Sequence = 9, fp_Data = []\<rparr> [] (Some ex_cookie_key) (Some [6]) (replicate 24 1))) = Some q \<and>
     dp_Decrypt ex_crypto ex_ed25519 q (Some ex_cookie_key) (Some [6]) =
       Inr \<lparr>dp_Stream = 2, dp_Timestamp = 77, dp_Data = [104, 105]\<rparr>"
proof -
  have "sig_matches ex_ed25519 (Some [6]) (Some [6])"
    by (simp add: sig_pair_def ex_ed25519_def ed_SignatureSize_def)
  then show ?thesis
    using data_packet_roundtrip [of ex_crypto "replicate 24 1" "Some ex_cookie_key" ex_ed25519 "Some [6]" "Some [6]"
        "\<lparr>dp_Stream = 2, dp_Timestamp = 77, dp_Data = [104, 105]\<rparr>" "\<lparr>fp_Target = 3, fp_Source = 3, fp_Sequence = 9, fp_Data = []\<rparr>"]
    by (auto simp: ex_crypto_laws ex_cookie_key_def)
qed

text \<open>The packet that \<open>dp_AppendEncrypted\<close> leaves behind does not hold its data: it begins with the last two bytes
  of the header, which has 12 bytes and not 10, and so is not what the packet read from the wire holds.\<close>

lemma AppendEncrypted_wrong_data:
  "fp_Data (snd (dp_AppendEncrypted C E p pkt [] encKey sigKey nonce)) =
     drop 2 (put_u32_be (fp_Sequence pkt)) @ drop 12 (fst (dp_AppendEncrypted C E p pkt [] encKey sigKey nonce))"
  by (simp add: dp_AppendEncrypted_def Let_def appendPacketHeader_def split: option.splits)
end
