(* ===== verification/Server_DB.thy ===== *)
theory Server_DB
  imports Paid_RVs
begin

text \<open>
  The server's database: the interface \<^verbatim>\<open>ServerDB\<close> (\<^verbatim>\<open>src/server/serverdb/interface.go\<close>) as a locale, and
  the file-system implementation (\<^verbatim>\<open>src/server/internal/fsdb/db.go\<close>) as its interpretation. A directory is a
  map from file name to content and modification time; an operation gets the clock and what the
  file system refuses (\<open>disk_io\<close>; \<open>read_fails\<close> covers \<^verbatim>\<open>os.Stat\<close> and \<^verbatim>\<open>os.ReadFile\<close>). A write that fails may leave a
  file with the first bytes of the content (\<open>write_leaves\<close>). A modification time carries the
  offset of the zone in which its date is read. No operation takes a lock: \<open>StorePayload\<close> is a check
  (\<open>payloadStored\<close>) and a write (\<open>WritePayload\<close>), and \<open>ExpireDB\<close> a sequence of removals (\<open>removeFile\<close>), which
  \<open>Server_Session\<close> interleaves with the operations of the sessions.
\<close>

record disk_io = file_io +
  write_leaves :: "bytes \<Rightarrow> nat option"

datatype sdb_error = AlreadyStoredRV | StorageError

record fsdb =
  rootMsgs :: "(RVID, bytes \<times> gtime) gomap"
  rootSubs :: "(RVID, gtime) gomap"
  rootRedeemed :: "(bytes, gtime) gomap"

definition NewFSDB :: fsdb where
  "NewFSDB = \<lparr>rootMsgs = [], rootSubs = [], rootRedeemed = []\<rparr>"

text \<open>\<^verbatim>\<open>os.Stat\<close>, with any answer but \<^verbatim>\<open>IsNotExist\<close>; and \<^verbatim>\<open>os.WriteFile\<close>, which truncates a file that is there.\<close>

definition payloadStored :: "disk_io \<Rightarrow> RVID \<Rightarrow> fsdb \<Rightarrow> bool" where
  "payloadStored io rv db = (map_of (rootMsgs db) rv \<noteq> None \<or> read_fails io rv)"

definition WritePayload :: "disk_io \<Rightarrow> gtime \<Rightarrow> RVID \<Rightarrow> bytes \<Rightarrow> fsdb \<Rightarrow> sdb_error option \<times> fsdb" where
  "WritePayload io now rv payload db =
     (if write_fails io rv then
        (Some StorageError,
         case write_leaves io rv of
           None \<Rightarrow> db
         | Some n \<Rightarrow> db\<lparr>rootMsgs := AList.update rv (take n payload, now) (rootMsgs db)\<rparr>)
      else (None, db\<lparr>rootMsgs := AList.update rv (payload, now) (rootMsgs db)\<rparr>))"

definition StorePayload :: "disk_io \<Rightarrow> gtime \<Rightarrow> RVID \<Rightarrow> bytes \<Rightarrow> fsdb \<Rightarrow> sdb_error option \<times> fsdb" where
  "StorePayload io now rv payload db =
     (if payloadStored io rv db then (Some AlreadyStoredRV, db) else WritePayload io now rv payload db)"

definition FetchPayload :: "disk_io \<Rightarrow> RVID \<Rightarrow> fsdb \<Rightarrow> sdb_error + (bytes \<times> gtime) option" where
  "FetchPayload io rv db =
     (case map_of (rootMsgs db) rv of
        None \<Rightarrow> Inr None
      | Some (data, modTime) \<Rightarrow> if read_fails io rv then Inl StorageError else Inr (Some (data, modTime)))"

definition RemovePayload :: "disk_io \<Rightarrow> RVID \<Rightarrow> fsdb \<Rightarrow> sdb_error option \<times> fsdb" where
  "RemovePayload io rv db =
     (if map_of (rootMsgs db) rv = None then (None, db)
      else if remove_fails io rv then (Some StorageError, db)
      else (None, db\<lparr>rootMsgs := AList.delete rv (rootMsgs db)\<rparr>))"

definition IsSubscriptionPaid :: "disk_io \<Rightarrow> RVID \<Rightarrow> fsdb \<Rightarrow> sdb_error + bool" where
  "IsSubscriptionPaid io rv db =
     (if map_of (rootSubs db) rv = None then Inr False
      else if read_fails io rv then Inl StorageError
      else Inr True)"

definition StoreSubscriptionPaid :: "disk_io \<Rightarrow> gtime \<Rightarrow> RVID \<Rightarrow> fsdb \<Rightarrow> sdb_error option \<times> fsdb" where
  "StoreSubscriptionPaid io now rv db =
     (let written = db\<lparr>rootSubs := AList.update rv now (rootSubs db)\<rparr>
      in if write_fails io rv then (Some StorageError, if write_leaves io rv = None then db else written)
         else (None, written))"

text \<open>\<^verbatim>\<open>return err == nil, nil\<close>: a file whose status cannot be read counts as absent.\<close>

definition IsPushPaymentRedeemed :: "disk_io \<Rightarrow> bytes \<Rightarrow> fsdb \<Rightarrow> bool" where
  "IsPushPaymentRedeemed io payID db = (map_of (rootRedeemed db) payID \<noteq> None \<and> \<not> read_fails io payID)"

definition StorePushPaymentRedeemed :: "disk_io \<Rightarrow> gtime \<Rightarrow> bytes \<Rightarrow> fsdb \<Rightarrow> sdb_error option \<times> fsdb" where
  "StorePushPaymentRedeemed io now payID db =
     (let written = db\<lparr>rootRedeemed := AList.update payID now (rootRedeemed db)\<rparr>
      in if write_fails io payID then (Some StorageError, if write_leaves io payID = None then db else written)
         else (None, written))"

text \<open>\<open>Expire\<close> removes the files of one date from a directory, and stops at the first that it cannot
  remove; the flag says whether it went through, the number counts the files removed.\<close>

fun expireDir :: "disk_io \<Rightarrow> gtime \<Rightarrow> ('v \<Rightarrow> gtime) \<Rightarrow> bytes list \<Rightarrow> (bytes, 'v) gomap \<Rightarrow> bool \<times> nat \<times> (bytes, 'v) gomap" where
  "expireDir io date modTime [] dir = (True, 0, dir)"
| "expireDir io date modTime (name # files) dir =
     (case map_of dir name of
        None \<Rightarrow> expireDir io date modTime files dir
      | Some v \<Rightarrow>
          if date_of (UTC date) = date_of (modTime v) then
            (if remove_fails io name then (False, 0, dir)
             else (case expireDir io date modTime files (AList.delete name dir) of
                     (ok, n, dir) \<Rightarrow> (ok, n + 1, dir)))
          else expireDir io date modTime files dir)"

definition ExpireDB :: "disk_io \<Rightarrow> gtime \<Rightarrow> fsdb \<Rightarrow> (sdb_error + nat) \<times> fsdb" where
  "ExpireDB io date db =
     (case expireDir io date snd (map fst (rootMsgs db)) (rootMsgs db) of
        (False, _, msgs) \<Rightarrow> (Inl StorageError, db\<lparr>rootMsgs := msgs\<rparr>)
      | (True, cnt, msgs) \<Rightarrow>
          let db = db\<lparr>rootMsgs := msgs\<rparr> in
          (case expireDir io date (\<lambda>t. t) (map fst (rootSubs db)) (rootSubs db) of
             (False, _, subs) \<Rightarrow> (Inl StorageError, db\<lparr>rootSubs := subs\<rparr>)
           | (True, _, subs) \<Rightarrow>
               let db = db\<lparr>rootSubs := subs\<rparr> in
               (case expireDir io date (\<lambda>t. t) (map fst (rootRedeemed db)) (rootRedeemed db) of
                  (False, _, red) \<Rightarrow> (Inl StorageError, db\<lparr>rootRedeemed := red\<rparr>)
                | (True, _, red) \<Rightarrow> (Inr cnt, db\<lparr>rootRedeemed := red\<rparr>))))"

text \<open>One round of \<^verbatim>\<open>expirationLoop\<close> (\<^verbatim>\<open>src/server/server.go\<close>) on a server that is master: four dates, the oldest first.
  An error ends the loop, and with it the server.\<close>

datatype expire_error = ExpirationDaysInvalid | ExpireFailed

definition nbPriorExpirations :: nat where
  "nbPriorExpirations = 4"

definition expirationDate :: "int \<Rightarrow> gtime \<Rightarrow> nat \<Rightarrow> gtime" where
  "expirationDate days now i = time_Add (time_Add (UTC now) (- expirationDuration days)) (- (int i * day))"

fun expireDates :: "disk_io \<Rightarrow> gtime list \<Rightarrow> fsdb \<Rightarrow> expire_error option \<times> fsdb" where
  "expireDates io [] db = (None, db)"
| "expireDates io (date # dates) db =
     (case ExpireDB io date db of
        (Inl _, db) \<Rightarrow> (Some ExpireFailed, db)
      | (Inr _, db) \<Rightarrow> expireDates io dates db)"

definition expirationRound :: "disk_io \<Rightarrow> int \<Rightarrow> gtime \<Rightarrow> fsdb \<Rightarrow> expire_error option \<times> fsdb" where
  "expirationRound io days now db =
     (if expirationDuration days < day then (Some ExpirationDaysInvalid, db)
      else expireDates io (map (expirationDate days now) (rev [0..<nbPriorExpirations])) db)"

text \<open>A file of one of the three directories: its date, and its removal.\<close>

datatype db_dir = DirMsgs | DirSubs | DirRedeemed

definition fileTime :: "db_dir \<Rightarrow> bytes \<Rightarrow> fsdb \<Rightarrow> gtime option" where
  "fileTime dir name db =
     (case dir of
        DirMsgs \<Rightarrow> map_option snd (map_of (rootMsgs db) name)
      | DirSubs \<Rightarrow> map_of (rootSubs db) name
      | DirRedeemed \<Rightarrow> map_of (rootRedeemed db) name)"

definition removeFile :: "db_dir \<Rightarrow> bytes \<Rightarrow> fsdb \<Rightarrow> fsdb" where
  "removeFile dir name db =
     (case dir of
        DirMsgs \<Rightarrow> db\<lparr>rootMsgs := AList.delete name (rootMsgs db)\<rparr>
      | DirSubs \<Rightarrow> db\<lparr>rootSubs := AList.delete name (rootSubs db)\<rparr>
      | DirRedeemed \<Rightarrow> db\<lparr>rootRedeemed := AList.delete name (rootRedeemed db)\<rparr>)"

section \<open>The interface\<close>

text \<open>
  What the server relies on. \<open>payload\<close>, \<open>paid\<close> and \<open>redeemed\<close> read the abstract content: a map of stored payloads
  and two sets.
\<close>

locale server_db =
  fixes payload :: "'db \<Rightarrow> 'rv \<Rightarrow> ('p \<times> 't) option"
    and paid :: "'db \<Rightarrow> 'rv \<Rightarrow> bool"
    and redeemed :: "'db \<Rightarrow> 'id \<Rightarrow> bool"
    and store :: "'io \<Rightarrow> 't \<Rightarrow> 'rv \<Rightarrow> 'p \<Rightarrow> 'db \<Rightarrow> 'e option \<times> 'db"
    and remove :: "'io \<Rightarrow> 'rv \<Rightarrow> 'db \<Rightarrow> 'e option \<times> 'db"
    and mark :: "'io \<Rightarrow> 't \<Rightarrow> 'rv \<Rightarrow> 'db \<Rightarrow> 'e option \<times> 'db"
    and redeem :: "'io \<Rightarrow> 't \<Rightarrow> 'id \<Rightarrow> 'db \<Rightarrow> 'e option \<times> 'db"
  assumes store_ok: "store io t rv p db = (None, db') \<Longrightarrow> payload db rv = None \<and> payload db' = (payload db)(rv \<mapsto> (p, t))"
    and store_err: "store io t rv p db = (Some e, db') \<Longrightarrow> payload db' = payload db \<or>
      payload db rv = None \<and> (\<exists>q. payload db' = (payload db)(rv \<mapsto> (q, t)))"
    and store_rest: "paid (snd (store io t rv p db)) = paid db" "redeemed (snd (store io t rv p db)) = redeemed db"
    and remove_ok: "remove io rv db = (None, db') \<Longrightarrow> payload db' = (payload db)(rv := None)"
    and remove_err: "remove io rv db = (Some e, db') \<Longrightarrow> db' = db"
    and remove_rest: "paid (snd (remove io rv db)) = paid db" "redeemed (snd (remove io rv db)) = redeemed db"
    and mark_ok: "mark io t rv db = (None, db') \<Longrightarrow> paid db' = (\<lambda>r. r = rv \<or> paid db r)"
    and mark_err: "mark io t rv db = (Some e, db') \<Longrightarrow> paid db' = paid db \<or> paid db' = (\<lambda>r. r = rv \<or> paid db r)"
    and mark_rest: "payload (snd (mark io t rv db)) = payload db" "redeemed (snd (mark io t rv db)) = redeemed db"
    and redeem_ok: "redeem io t i db = (None, db') \<Longrightarrow> redeemed db' = (\<lambda>j. j = i \<or> redeemed db j)"
    and redeem_err: "redeem io t i db = (Some e, db') \<Longrightarrow> redeemed db' = redeemed db \<or> redeemed db' = (\<lambda>j. j = i \<or> redeemed db j)"
    and redeem_rest: "payload (snd (redeem io t i db)) = payload db" "paid (snd (redeem io t i db)) = paid db"
begin

lemma store_once:
  assumes "payload db rv \<noteq> None"
  shows "fst (store io t rv p db) \<noteq> None \<and> payload (snd (store io t rv p db)) = payload db"
proof -
  obtain r db' where "store io t rv p db = (r, db')" by fastforce
  with assms show ?thesis using store_ok [of io t rv p db db'] store_err [of io t rv p db _ db'] by (cases r) auto
qed

lemma store_keeps: "payload db rv = Some x \<Longrightarrow> payload (snd (store io t rv' p db)) rv = Some x"
proof -
  assume x: "payload db rv = Some x"
  obtain r db' where s: "store io t rv' p db = (r, db')" by fastforce
  show ?thesis using x s store_ok [of io t rv' p db db'] store_err [of io t rv' p db _ db'] by (cases r) auto
qed

lemma remove_keeps: "rv \<noteq> rv' \<Longrightarrow> payload (snd (remove io rv' db)) rv = payload db rv"
proof -
  assume n: "rv \<noteq> rv'"
  obtain r db' where s: "remove io rv' db = (r, db')" by fastforce
  show ?thesis using n s remove_ok [of io rv' db db'] remove_err [of io rv' db _ db'] by (cases r) auto
qed

lemma mark_mono: "paid db rv \<Longrightarrow> paid (snd (mark io t rv' db)) rv"
proof -
  assume x: "paid db rv"
  obtain r db' where s: "mark io t rv' db = (r, db')" by fastforce
  show ?thesis using x s mark_ok [of io t rv' db db'] mark_err [of io t rv' db _ db'] by (cases r) auto
qed

lemma redeem_mono: "redeemed db i \<Longrightarrow> redeemed (snd (redeem io t j db)) i"
proof -
  assume x: "redeemed db i"
  obtain r db' where s: "redeem io t j db = (r, db')" by fastforce
  show ?thesis using x s redeem_ok [of io t j db db'] redeem_err [of io t j db _ db'] by (cases r) auto
qed

end

definition sub_paid :: "fsdb \<Rightarrow> RVID \<Rightarrow> bool" where
  "sub_paid db rv = (map_of (rootSubs db) rv \<noteq> None)"

definition push_redeemed :: "fsdb \<Rightarrow> bytes \<Rightarrow> bool" where
  "push_redeemed db i = (map_of (rootRedeemed db) i \<noteq> None)"

interpretation fsdb: server_db
  "\<lambda>db. map_of (rootMsgs db)" sub_paid push_redeemed StorePayload RemovePayload StoreSubscriptionPaid StorePushPaymentRedeemed
  by unfold_locales
    (auto simp: StorePayload_def payloadStored_def WritePayload_def RemovePayload_def StoreSubscriptionPaid_def
      StorePushPaymentRedeemed_def Let_def sub_paid_def push_redeemed_def fun_eq_iff simp del: not_None_eq
      split: if_splits option.splits)

section \<open>Expiration\<close>

text \<open>The three ways one file is handled.\<close>

lemma expireDir_Cons:
  obtains (stop) "expireDir io date modTime (f # files) dir = (False, 0, dir)"
      "\<exists>v. map_of dir f = Some v \<and> date_of (UTC date) = date_of (modTime v)"
  | (remove) v where "map_of dir f = Some v" "date_of (UTC date) = date_of (modTime v)"
      "fst (expireDir io date modTime (f # files) dir) = fst (expireDir io date modTime files (AList.delete f dir))"
      "snd (snd (expireDir io date modTime (f # files) dir)) = snd (snd (expireDir io date modTime files (AList.delete f dir)))"
  | (keep) "expireDir io date modTime (f # files) dir = expireDir io date modTime files dir"
      "\<forall>v. map_of dir f = Some v \<longrightarrow> date_of (UTC date) \<noteq> date_of (modTime v)"
proof (cases "map_of dir f")
  case None
  then show ?thesis using keep by simp
next
  case (Some v)
  show ?thesis
  proof (cases "date_of (UTC date) = date_of (modTime v)")
    case True
    then show ?thesis using Some stop remove by (cases "remove_fails io f") (simp_all add: case_prod_unfold)
  next
    case False
    then show ?thesis using Some keep by simp
  qed
qed

lemma expireDir_other:
  "map_of dir name = Some v \<Longrightarrow> date_of (UTC date) \<noteq> date_of (modTime v) \<Longrightarrow>
   map_of (snd (snd (expireDir io date modTime files dir))) name = Some v"
proof (induction files arbitrary: dir)
  case (Cons f files)
  show ?case
  proof (cases rule: expireDir_Cons [of io date modTime f files dir])
    case (remove v')
    then have "f \<noteq> name" using Cons.prems by auto
    then show ?thesis using remove(4) Cons by simp
  qed (use Cons in simp_all)
qed simp

lemma expireDir_only:
  "map_of (snd (snd (expireDir io date modTime files dir))) name = Some v \<Longrightarrow> map_of dir name = Some v"
proof (induction files arbitrary: dir)
  case (Cons f files)
  show ?case
  proof (cases rule: expireDir_Cons [of io date modTime f files dir])
    case (remove v')
    have "map_of (AList.delete f dir) name = Some v" by (rule Cons.IH) (use Cons.prems remove(4) in simp)
    then show ?thesis by (simp split: if_splits)
  qed (use Cons in simp_all)
qed simp

lemma expireDir_all:
  "fst (expireDir io date modTime files dir) \<Longrightarrow> name \<in> set files \<Longrightarrow>
   map_of (snd (snd (expireDir io date modTime files dir))) name = Some v \<Longrightarrow> date_of (UTC date) \<noteq> date_of (modTime v)"
proof (induction files arbitrary: dir)
  case (Cons f files)
  show ?case
  proof (cases rule: expireDir_Cons [of io date modTime f files dir])
    case stop
    then show ?thesis using Cons.prems(1) by simp
  next
    case (remove v')
    have "map_of (AList.delete f dir) name = Some v"
      by (rule expireDir_only [of io date modTime files]) (use Cons.prems(3) remove(4) in simp)
    then show ?thesis using Cons remove by (auto split: if_splits)
  next
    case keep
    have "map_of dir name = Some v" using expireDir_only [OF Cons.prems(3)] .
    then show ?thesis using Cons keep by (cases "name = f") auto
  qed
qed simp

lemma expireDir_removals:
  "\<exists>gone. snd (snd (expireDir io date modTime files dir)) = fold AList.delete gone dir \<and>
     (\<forall>name\<in>set gone. \<exists>v. map_of dir name = Some v \<and> date_of (UTC date) = date_of (modTime v))"
proof (induction files arbitrary: dir)
  case Nil
  show ?case by (intro exI [of _ "[]"]) simp
next
  case (Cons f files)
  show ?case
  proof (cases rule: expireDir_Cons [of io date modTime f files dir])
    case stop
    then show ?thesis by (intro exI [of _ "[]"]) simp
  next
    case (remove v)
    obtain gone where "snd (snd (expireDir io date modTime files (AList.delete f dir))) = fold AList.delete gone (AList.delete f dir)"
        "\<forall>name\<in>set gone. \<exists>v. map_of (AList.delete f dir) name = Some v \<and> date_of (UTC date) = date_of (modTime v)"
      using Cons.IH by blast
    with remove show ?thesis by (intro exI [of _ "f # gone"]) (auto split: if_splits)
  next
    case keep
    then show ?thesis using Cons.IH by simp
  qed
qed

lemma expireDir_exact:
  assumes "fst (expireDir io date modTime (map fst dir) dir)"
  shows "map_of (snd (snd (expireDir io date modTime (map fst dir) dir))) name =
    (case map_of dir name of None \<Rightarrow> None | Some v \<Rightarrow> if date_of (UTC date) = date_of (modTime v) then None else Some v)"
    (is "map_of ?dir name = _")
proof (cases "map_of ?dir name")
  case None
  then show ?thesis using expireDir_other [of dir name _ date modTime io "map fst dir"] by (fastforce split: option.splits)
next
  case (Some v)
  then have "map_of dir name = Some v" by (rule expireDir_only)
  moreover from this have "name \<in> set (map fst dir)" by (force dest: map_of_SomeD)
  ultimately show ?thesis using expireDir_all [OF assms _ Some] Some by simp
qed

text \<open>\<open>ExpireDB\<close> removes one file after the other, each of the date asked for.\<close>

lemma removeFile_dir:
  "fold (\<lambda>(dir, name). removeFile dir name) (map (Pair DirMsgs) gone) db = db\<lparr>rootMsgs := fold AList.delete gone (rootMsgs db)\<rparr>"
  "fold (\<lambda>(dir, name). removeFile dir name) (map (Pair DirSubs) gone) db = db\<lparr>rootSubs := fold AList.delete gone (rootSubs db)\<rparr>"
  "fold (\<lambda>(dir, name). removeFile dir name) (map (Pair DirRedeemed) gone) db = db\<lparr>rootRedeemed := fold AList.delete gone (rootRedeemed db)\<rparr>"
  by (induction gone arbitrary: db) (simp_all add: removeFile_def)

lemma ExpireDB_removals:
  "\<exists>gone. snd (ExpireDB io date db) = fold (\<lambda>(dir, name). removeFile dir name) gone db \<and>
     (\<forall>(dir, name)\<in>set gone. \<exists>t. fileTime dir name db = Some t \<and> date_of (UTC date) = date_of t)"
proof -
  obtain ok1 n1 d1 where e1: "expireDir io date snd (map fst (rootMsgs db)) (rootMsgs db) = (ok1, n1, d1)" by (metis prod_cases3)
  obtain ok2 n2 d2 where e2: "expireDir io date (\<lambda>t. t) (map fst (rootSubs db)) (rootSubs db) = (ok2, n2, d2)" by (metis prod_cases3)
  obtain ok3 n3 d3 where e3: "expireDir io date (\<lambda>t. t) (map fst (rootRedeemed db)) (rootRedeemed db) = (ok3, n3, d3)" by (metis prod_cases3)
  obtain g1 where g1: "d1 = fold AList.delete g1 (rootMsgs db)"
      "\<forall>name\<in>set g1. \<exists>v. map_of (rootMsgs db) name = Some v \<and> date_of (UTC date) = date_of (snd v)"
    using expireDir_removals [of io date snd "map fst (rootMsgs db)" "rootMsgs db"] unfolding e1 by auto
  obtain g2 where g2: "d2 = fold AList.delete g2 (rootSubs db)"
      "\<forall>name\<in>set g2. \<exists>v. map_of (rootSubs db) name = Some v \<and> date_of (UTC date) = date_of v"
    using expireDir_removals [of io date "\<lambda>t. t" "map fst (rootSubs db)" "rootSubs db"] unfolding e2 by auto
  obtain g3 where g3: "d3 = fold AList.delete g3 (rootRedeemed db)"
      "\<forall>name\<in>set g3. \<exists>v. map_of (rootRedeemed db) name = Some v \<and> date_of (UTC date) = date_of v"
    using expireDir_removals [of io date "\<lambda>t. t" "map fst (rootRedeemed db)" "rootRedeemed db"] unfolding e3 by auto
  define g where "g = map (Pair DirMsgs) g1 @ (if ok1 then map (Pair DirSubs) g2 @ (if ok2 then map (Pair DirRedeemed) g3 else []) else [])"
  have "snd (ExpireDB io date db) = fold (\<lambda>(dir, name). removeFile dir name) g db"
    by (simp add: ExpireDB_def Let_def e1 e2 e3 g_def removeFile_dir g1(1) g2(1) g3(1) split: bool.splits)
  moreover have "\<forall>(dir, name)\<in>set g. \<exists>t. fileTime dir name db = Some t \<and> date_of (UTC date) = date_of t"
    using g1(2) g2(2) g3(2) by (fastforce simp: g_def fileTime_def split: if_splits)
  ultimately show ?thesis by blast
qed

lemma ExpireDB_exact:
  assumes "ExpireDB io date db = (Inr cnt, db')"
  shows "fileTime dir name db' = (case fileTime dir name db of None \<Rightarrow> None | Some t \<Rightarrow> if date_of (UTC date) = date_of t then None else Some t)"
    "map_of (rootMsgs db') rv = Some x \<Longrightarrow> map_of (rootMsgs db) rv = Some x"
proof -
  obtain ok1 n1 d1 where e1: "expireDir io date snd (map fst (rootMsgs db)) (rootMsgs db) = (ok1, n1, d1)" by (metis prod_cases3)
  obtain ok2 n2 d2 where e2: "expireDir io date (\<lambda>t. t) (map fst (rootSubs db)) (rootSubs db) = (ok2, n2, d2)" by (metis prod_cases3)
  obtain ok3 n3 d3 where e3: "expireDir io date (\<lambda>t. t) (map fst (rootRedeemed db)) (rootRedeemed db) = (ok3, n3, d3)" by (metis prod_cases3)
  have ok: "ok1" "ok2" "ok3" and db': "db' = db\<lparr>rootMsgs := d1, rootSubs := d2, rootRedeemed := d3\<rparr>"
    using assms by (auto simp: ExpireDB_def Let_def e1 e2 e3 split: bool.splits)
  note x1 = expireDir_exact [of io date snd "rootMsgs db", unfolded e1, simplified, OF ok(1)]
    and x2 = expireDir_exact [of io date "\<lambda>t. t" "rootSubs db", unfolded e2, simplified, OF ok(2)]
    and x3 = expireDir_exact [of io date "\<lambda>t. t" "rootRedeemed db", unfolded e3, simplified, OF ok(3)]
  show "fileTime dir name db' = (case fileTime dir name db of None \<Rightarrow> None | Some t \<Rightarrow> if date_of (UTC date) = date_of t then None else Some t)"
    by (simp add: fileTime_def db' x1 x2 x3 split: db_dir.splits option.splits)
  show "map_of (rootMsgs db') rv = Some x \<Longrightarrow> map_of (rootMsgs db) rv = Some x"
    by (auto simp: db' x1 split: option.splits if_splits)
qed

lemma ExpireDB_other:
  assumes "map_of (rootRedeemed db) i = Some t" "date_of (UTC date) \<noteq> date_of t"
  shows "map_of (rootRedeemed (snd (ExpireDB io date db))) i = Some t"
  using assms expireDir_other [of "rootRedeemed db" i t date "\<lambda>t. t" io "map fst (rootRedeemed db)"]
  by (auto simp: ExpireDB_def Let_def split: prod.splits bool.splits)

lemma ExpireDB_msgs_other:
  assumes "map_of (rootMsgs db) rv = Some (p, t)" "date_of (UTC date) \<noteq> date_of t"
  shows "map_of (rootMsgs (snd (ExpireDB io date db))) rv = Some (p, t)"
  using assms expireDir_other [of "rootMsgs db" rv "(p, t)" date snd io "map fst (rootMsgs db)"]
  by (auto simp: ExpireDB_def Let_def split: prod.splits bool.splits)

lemma date_of_expirationDate:
  assumes "0 \<le> days" "days \<le> 106751"
  shows "date_of (UTC (expirationDate days now i)) = date_of (UTC now) - days - int i"
proof -
  have "date_of (UTC (expirationDate days now i)) = date_of (time_Add (UTC now) (- expirationDuration days)) - int i"
    using div_mult_self1 [of day "instant now - expirationDuration days" "- int i"]
    by (simp add: expirationDate_def date_of_def time_Add_def UTC_def day_def second_def algebra_simps)
  then show ?thesis using date_of_minus_days [OF assms] by simp
qed

lemma expireDates_exact:
  assumes "expireDates io dates db = (None, db')"
  shows "fileTime dir name db' = (case fileTime dir name db of None \<Rightarrow> None
      | Some t \<Rightarrow> if \<exists>date\<in>set dates. date_of (UTC date) = date_of t then None else Some t) \<and>
    (map_of (rootMsgs db') rv = Some x \<longrightarrow> map_of (rootMsgs db) rv = Some x)"
  using assms
proof (induction dates arbitrary: db)
  case Nil
  then show ?case by (simp split: option.split)
next
  case (Cons date dates)
  obtain cnt db1 where e: "ExpireDB io date db = (Inr cnt, db1)" and rest: "expireDates io dates db1 = (None, db')"
    using Cons.prems by (auto split: prod.splits sum.splits)
  show ?case
    using Cons.IH [OF rest] ExpireDB_exact(1) [OF e, of dir name] ExpireDB_exact(2) [OF e, of rv x]
    by (auto split: option.splits if_splits)
qed

text \<open>C99: What expiration removes. A round of the expiration loop that goes through removes exactly the
  messages, subscriptions and redemptions last modified between the day \<open>days + 3\<close> and the day \<open>days\<close> before today, counted
  in UTC, and keeps every other file, with its content and its time.\<close>

theorem expiration_exact:
  assumes "expirationRound io days now db = (None, db')" "0 \<le> days" "days \<le> 106751"
  shows "fileTime dir name db' = (case fileTime dir name db of None \<Rightarrow> None
      | Some t \<Rightarrow> if date_of t \<in> {date_of (UTC now) - days - 3 .. date_of (UTC now) - days} then None else Some t) \<and>
    (map_of (rootMsgs db') rv = Some x \<longrightarrow> map_of (rootMsgs db) rv = Some x)"
proof -
  have dates: "expireDates io (map (expirationDate days now) [3, 2, 1, 0]) db = (None, db')"
    using assms(1) by (simp add: expirationRound_def nbPriorExpirations_def upt_rec numeral_2_eq_2 numeral_3_eq_3 split: if_splits)
  have "(\<exists>date\<in>set (map (expirationDate days now) [3, 2, 1, 0]). date_of (UTC date) = date_of t) \<longleftrightarrow>
      date_of t \<in> {date_of (UTC now) - days - 3 .. date_of (UTC now) - days}" for t
    by (simp add: date_of_expirationDate [OF assms(2,3)]) presburger
  then show ?thesis using expireDates_exact [OF dates, of dir name rv x] by (simp split: option.splits)
qed

definition ex_disk :: disk_io where
  "ex_disk = \<lparr>read_fails = (\<lambda>_. False), write_fails = (\<lambda>_. False), remove_fails = (\<lambda>_. False), write_leaves = (\<lambda>_. None)\<rparr>"

definition ex_old_db :: fsdb where
  "ex_old_db = \<lparr>rootMsgs = [([1], [5], ex_at 0), ([2], [6], ex_at 200)], rootSubs = [([1], ex_at 1)], rootRedeemed = [([3], ex_at 190)]\<rparr>"

theorem expiration_exact_witness:
  "expirationRound ex_disk 7 (ex_at 170) ex_old_db = (None, ex_old_db\<lparr>rootMsgs := [([2], [6], ex_at 200)], rootSubs := []\<rparr>) \<and>
   fileTime DirMsgs [1] (ex_old_db\<lparr>rootMsgs := [([2], [6], ex_at 200)], rootSubs := []\<rparr>) = None"
proof -
  have run: "expirationRound ex_disk 7 (ex_at 170) ex_old_db = (None, ex_old_db\<lparr>rootMsgs := [([2], [6], ex_at 200)], rootSubs := []\<rparr>)"
    by code_simp
  have old: "fileTime DirMsgs [1] ex_old_db = Some (ex_at 0)" by code_simp
  have date: "date_of (ex_at 0) \<in> {date_of (UTC (ex_at 170)) - 7 - 3 .. date_of (UTC (ex_at 170)) - 7}"
    by (simp add: date_of_def ex_at_def UTC_def day_def second_def)
  from expiration_exact [OF run, of DirMsgs "[1]"] old date run show ?thesis by simp
qed

section \<open>Sequences of operations\<close>

datatype db_op =
    DbStore disk_io gtime RVID bytes
  | DbWrite disk_io gtime RVID bytes
  | DbRemove disk_io RVID
  | DbMark disk_io gtime RVID
  | DbRedeem disk_io gtime bytes
  | DbExpire disk_io gtime

fun dbStep :: "db_op \<Rightarrow> fsdb \<Rightarrow> fsdb" where
  "dbStep (DbStore io t rv p) db = snd (StorePayload io t rv p db)"
| "dbStep (DbWrite io t rv p) db = snd (WritePayload io t rv p db)"
| "dbStep (DbRemove io rv) db = snd (RemovePayload io rv db)"
| "dbStep (DbMark io t rv) db = snd (StoreSubscriptionPaid io t rv db)"
| "dbStep (DbRedeem io t i) db = snd (StorePushPaymentRedeemed io t i db)"
| "dbStep (DbExpire io date) db = snd (ExpireDB io date db)"

lemma WritePayload_rest:
  "rootSubs (snd (WritePayload io t rv p db)) = rootSubs db" "rootRedeemed (snd (WritePayload io t rv p db)) = rootRedeemed db"
  by (simp_all add: WritePayload_def split: option.split)

lemma dbStep_keeps:
  assumes "map_of (rootMsgs db) rv = Some (p, t)" "\<forall>io. op \<noteq> DbRemove io rv" "\<forall>io t q. op \<noteq> DbWrite io t rv q"
    "\<forall>io date. op = DbExpire io date \<longrightarrow> date_of (UTC date) \<noteq> date_of t"
  shows "map_of (rootMsgs (dbStep op db)) rv = Some (p, t)"
proof (cases op)
  case (DbStore io t' rv' q)
  then show ?thesis using fsdb.store_keeps [OF assms(1)] by simp
next
  case (DbWrite io t' rv' q)
  then show ?thesis using assms(1,3) by (auto simp: WritePayload_def split: option.split)
next
  case (DbRemove io rv')
  then have "rv \<noteq> rv'" using assms(2) by auto
  then show ?thesis using DbRemove fsdb.remove_keeps [of rv rv' io db] assms(1) by simp
next
  case (DbMark io t' rv')
  then show ?thesis using fsdb.mark_rest(1) [of io t' rv' db] assms(1) by (simp add: fun_eq_iff)
next
  case (DbRedeem io t' i)
  then show ?thesis using fsdb.redeem_rest(1) [of io t' i db] assms(1) by (simp add: fun_eq_iff)
next
  case (DbExpire io date)
  then show ?thesis using ExpireDB_msgs_other [OF assms(1)] assms(4) by simp
qed

text \<open>The first message stored at a rendezvous point stays. After a payload has been stored, any
  sequence of operations of the server, successful or failing, that does not remove it, does not expire the day
  of its arrival, and has no write left over from a store that began before leaves it readable with
  the content and time it was stored with; in particular a second store at that point is refused.\<close>

theorem first_payload_stays:
  assumes "StorePayload io t rv p db = (None, db')" "\<forall>io. DbRemove io rv \<notin> set ops" "\<forall>io t q. DbWrite io t rv q \<notin> set ops"
    and "\<forall>io date. DbExpire io date \<in> set ops \<longrightarrow> date_of (UTC date) \<noteq> date_of t" "\<not> read_fails io' rv"
  shows "FetchPayload io' rv (fold dbStep ops db') = Inr (Some (p, t)) \<and>
    fst (StorePayload io'' t' rv p' (fold dbStep ops db')) = Some AlreadyStoredRV"
proof -
  have "map_of (rootMsgs db') rv = Some (p, t)" using fsdb.store_ok [OF assms(1)] by simp
  then have "map_of (rootMsgs (fold dbStep ops db')) rv = Some (p, t)"
    using assms(2-4)
  proof (induction ops arbitrary: db')
    case (Cons op ops)
    have "map_of (rootMsgs (dbStep op db')) rv = Some (p, t)"
      by (rule dbStep_keeps [OF Cons.prems(1)]) (use Cons.prems(2-4) in auto)
    with Cons show ?case by simp
  qed simp
  then show ?thesis using assms(5) by (simp add: FetchPayload_def StorePayload_def payloadStored_def)
qed

theorem first_payload_stays_witness:
  "fst (StorePayload ex_disk (ex_at 0) [1] [5] NewFSDB) = None \<and>
   FetchPayload ex_disk [1] (fold dbStep [DbStore ex_disk (ex_at 1) [1] [6], DbRemove ex_disk [2], DbMark ex_disk (ex_at 2) [1]]
     (snd (StorePayload ex_disk (ex_at 0) [1] [5] NewFSDB))) = Inr (Some ([5], ex_at 0))"
proof -
  have stored: "StorePayload ex_disk (ex_at 0) [1] [5] NewFSDB = (None, NewFSDB\<lparr>rootMsgs := [([1], [5], ex_at 0)]\<rparr>)"
    by code_simp
  show ?thesis
    using first_payload_stays [OF stored, of "[DbStore ex_disk (ex_at 1) [1] [6], DbRemove ex_disk [2], DbMark ex_disk (ex_at 2) [1]]" ex_disk]
      stored by (simp add: ex_disk_def)
qed

section \<open>What the missing lock allows\<close>

text \<open>Two stores at one point that both look before either writes: both succeed, and the first message is gone.\<close>

lemma concurrent_store_overwrites:
  "\<not> payloadStored ex_disk [1] NewFSDB \<and>
   (case WritePayload ex_disk (ex_at 0) [1] [5] NewFSDB of
      (None, db) \<Rightarrow>
        fst (WritePayload ex_disk (ex_at 0) [1] [6] db) = None \<and>
        FetchPayload ex_disk [1] (snd (WritePayload ex_disk (ex_at 0) [1] [6] db)) = Inr (Some ([6], ex_at 0))
    | _ \<Rightarrow> False)"
  by code_simp

text \<open>A write that fails may leave a part of the message, and the point is then taken: the sender that tries again is told
  that the message is stored.\<close>

lemma failed_write_leaves_part:
  "case StorePayload (ex_disk\<lparr>write_fails := \<lambda>_. True, write_leaves := \<lambda>_. Some 1\<rparr>) (ex_at 0) [1] [5, 6] NewFSDB of
     (Some StorageError, db) \<Rightarrow>
       fst (StorePayload ex_disk (ex_at 1) [1] [5, 6] db) = Some AlreadyStoredRV \<and>
       FetchPayload ex_disk [1] db = Inr (Some ([5], ex_at 0))
   | _ \<Rightarrow> False"
  by code_simp

end
