(* ===== verification/Server_Payments.thy ===== *)
theory Server_Payments
  imports Pay_Rates Server_DB Crypto "HOL-Library.Signed_Division"
begin

text \<open>
  How the server checks that it is paid (\<^verbatim>\<open>src/server/svrpayments.go\<close>): the invoices a session may have
  outstanding, the redemption of a push payment and the payment for subscriptions. The Lightning node is an
  argument (\<open>pay_env\<close>): what it knows of an invoice, and what it answers to a request for a new one.
  The mutex of a session guards its own record of invoices and nothing else: between the check of a push
  invoice (\<open>checkRMPaid\<close>) and the record that it is redeemed (\<open>redeemRM\<close>) other sessions and the expiration loop
  run. \<open>isRMPaid\<close> is the two halves one after the other; \<open>Server_Session\<close> interleaves them, and does the same with the
  points of a subscription, which \<open>areSubsPaid\<close> takes in one go.
\<close>

section \<open>Types\<close>

datatype pay_scheme = PaySchemeFree | PaySchemeDCRLN | PaySchemeOther

datatype ln_state = Invoice_OPEN | Invoice_SETTLED | Invoice_CANCELED | Invoice_ACCEPTED

record ln_invoice =
  ln_st :: ln_state
  AmtPaidMAtoms :: int
  SettleDate :: int
  CreationDate :: int
  Expiry :: int

datatype ln_lookup = LnFound ln_invoice | LnUnableToLocate | LnFails

record svr_settings =
  PayScheme :: pay_scheme
  svrPushPayRateMinMAtoms :: u64
  svrPushPayRateMAtoms :: u64
  svrPushPayRateBytes :: u64
  svrPushPaymentLifetime :: int
  MilliAtomsPerSub :: u64
  svrMaxPushInvoices :: int
  svrExpirationDays :: int
  MilliAtomsPerRTSess :: u64
  MilliAtomsPerUserRTSess :: u64
  MilliAtomsGetCookie :: u64
  MilliAtomsPerUserCookie :: u64
  MilliAtomsRTJoin :: u64
  MilliAtomsRTPushRate :: u64
  RTPushRateMBytes :: u64
  RTDTServerAddr :: string
  RTDTServerPub :: "bytes option"
  RTDTCookieKey :: "key option"
  RTDTDecodeCookieKeys :: "key list"
  svrCrypto :: crypto

text \<open>What a request meets: the clock, the Lightning node, the disk, and what the random generator returns.\<close>

record pay_env =
  pay_now :: gtime
  LookupInvoice :: "bytes \<Rightarrow> ln_lookup"
  AddInvoice :: "(bytes \<times> invoice) option"
  pay_io :: disk_io
  RandomShortID :: bytes
  randomNonce :: "nat \<Rightarrow> bytes"
  randomUint64 :: u64

text \<open>The invoices of a session.\<close>

record sess_pay =
  lnPayReqHashSub :: "bytes option"
  lnPushHashes :: "(bytes, time) gomap"
  lnCreateRTSessHash :: "bytes option"
  lnGetRTCookieHash :: "bytes option"
  lnPublishInRTSessHash :: "bytes option"

definition newSessPay :: sess_pay where
  "newSessPay = \<lparr>lnPayReqHashSub = None, lnPushHashes = [], lnCreateRTSessHash = None, lnGetRTCookieHash = None,
     lnPublishInRTSessHash = None\<rparr>"

datatype pay_error =
    OutstandingInvoice | LnLookupError | MaxInvoicesReached | UnknownAction | AddInvoiceError
  | PushCost rate_error | NoPaidInvoiceID | AlreadyRedeemed | InvoiceCanceled | UnexpectedLNState
  | NotSufficientlyPaid | SettledTooLongAgo | RedeemStoreError | UnimplementedScheme
  | UnpaidSubscriptionRV RVID | PayDBError

datatype invoice_action =
    ActionPush | ActionSub | ActionCreateRTSess | ActionGetRTCookie | ActionPublishInRTSess | ActionUnknown

section \<open>Invoices\<close>

definition checkLNInvoiceOutstanding :: "pay_env \<Rightarrow> bytes \<Rightarrow> pay_error option" where
  "checkLNInvoiceOutstanding env hash =
     (case LookupInvoice env hash of
        LnUnableToLocate \<Rightarrow> None
      | LnFails \<Rightarrow> Some LnLookupError
      | LnFound lookupRes \<Rightarrow>
          if ln_st lookupRes \<noteq> Invoice_CANCELED \<and> ln_st lookupRes \<noteq> Invoice_SETTLED \<and>
             instant (pay_now env) + InvoiceExpiryAffordance < from_unix (CreationDate lookupRes + Expiry lookupRes)
          then Some OutstandingInvoice else None)"

definition checkHash :: "pay_env \<Rightarrow> bytes option \<Rightarrow> pay_error option" where
  "checkHash env h = (case h of None \<Rightarrow> None | Some hash \<Rightarrow> checkLNInvoiceOutstanding env hash)"

definition expirySeconds :: int where
  "expirySeconds = 3600"

text \<open>The limits on invoices, and the record of a new one.\<close>

definition invoiceLimits :: "pay_env \<Rightarrow> svr_settings \<Rightarrow> invoice_action \<Rightarrow> sess_pay \<Rightarrow> pay_error option \<times> sess_pay" where
  "invoiceLimits env cfg action pay =
     (case action of
        ActionPush \<Rightarrow>
          if svrMaxPushInvoices cfg \<le> int (length (lnPushHashes pay)) then
            let kept = filter (\<lambda>(hash, expires). \<not> expires < instant (pay_now env)) (lnPushHashes pay)
            in if length kept = length (lnPushHashes pay) then (Some MaxInvoicesReached, pay)
               else (None, pay\<lparr>lnPushHashes := kept\<rparr>)
          else (None, pay)
      | ActionSub \<Rightarrow> (checkHash env (lnPayReqHashSub pay), pay)
      | ActionCreateRTSess \<Rightarrow> (checkHash env (lnCreateRTSessHash pay), pay)
      | ActionGetRTCookie \<Rightarrow> (checkHash env (lnGetRTCookieHash pay), pay)
      | ActionPublishInRTSess \<Rightarrow> (checkHash env (lnPublishInRTSessHash pay), pay)
      | ActionUnknown \<Rightarrow> (Some UnknownAction, pay))"

definition recordInvoice :: "pay_env \<Rightarrow> invoice_action \<Rightarrow> bytes \<Rightarrow> sess_pay \<Rightarrow> sess_pay" where
  "recordInvoice env action hash pay =
     (case action of
        ActionPush \<Rightarrow>
          pay\<lparr>lnPushHashes := AList.update (take 32 (hash @ replicate 32 0))
               (instant (pay_now env) + expirySeconds * second - InvoiceExpiryAffordance) (lnPushHashes pay)\<rparr>
      | ActionSub \<Rightarrow> pay\<lparr>lnPayReqHashSub := Some hash\<rparr>
      | ActionCreateRTSess \<Rightarrow> pay\<lparr>lnCreateRTSessHash := Some hash\<rparr>
      | ActionGetRTCookie \<Rightarrow> pay\<lparr>lnGetRTCookieHash := Some hash\<rparr>
      | ActionPublishInRTSess \<Rightarrow> pay\<lparr>lnPublishInRTSessHash := Some hash\<rparr>
      | ActionUnknown \<Rightarrow> pay)"

definition generateNextLNInvoice ::
    "pay_env \<Rightarrow> svr_settings \<Rightarrow> invoice_action \<Rightarrow> sess_pay \<Rightarrow> (pay_error + invoice) \<times> sess_pay" where
  "generateNextLNInvoice env cfg action pay =
     (case invoiceLimits env cfg action pay of
        (Some e, pay) \<Rightarrow> (Inl e, pay)
      | (None, pay) \<Rightarrow>
          (case AddInvoice env of
             None \<Rightarrow> (Inl AddInvoiceError, pay)
           | Some (hash, invc) \<Rightarrow> (Inr invc, recordInvoice env action hash pay)))"

definition handleGetInvoice ::
    "pay_env \<Rightarrow> svr_settings \<Rightarrow> pay_scheme \<Rightarrow> invoice_action \<Rightarrow> sess_pay \<Rightarrow> (pay_error + invoice) \<times> sess_pay" where
  "handleGetInvoice env cfg scheme action pay =
     (if scheme \<noteq> PayScheme cfg then (Inl UnimplementedScheme, pay)
      else case scheme of
             PaySchemeFree \<Rightarrow> (Inr ''free invoice'', pay)
           | PaySchemeDCRLN \<Rightarrow> generateNextLNInvoice env cfg action pay
           | PaySchemeOther \<Rightarrow> (Inl UnimplementedScheme, pay))"

section \<open>Payments for pushes\<close>

definition calcPushCostMAtoms :: "svr_settings \<Rightarrow> nat \<Rightarrow> rate_error + u64" where
  "calcPushCostMAtoms cfg msgLen =
     CalcPushCostMAtoms (svrPushPayRateMinMAtoms cfg) (svrPushPayRateMAtoms cfg) (svrPushPayRateBytes cfg) (of_nat msgLen)"

definition paidInvoice :: "bytes option \<Rightarrow> sess_pay \<Rightarrow> bytes" where
  "paidInvoice paidInvoiceID pay =
     (case paidInvoiceID of
        Some i \<Rightarrow> i
      | None \<Rightarrow> (case lnPushHashes pay of [(i, _)] \<Rightarrow> i | _ \<Rightarrow> []))"

text \<open>The checks in the order of the code; the first that fails is the error.\<close>

definition checkPushInvoice :: "pay_env \<Rightarrow> svr_settings \<Rightarrow> nat \<Rightarrow> bytes \<Rightarrow> fsdb \<Rightarrow> pay_error option" where
  "checkPushInvoice env cfg msgLen i db =
     (case calcPushCostMAtoms cfg msgLen of
        Inl e \<Rightarrow> Some (PushCost e)
      | Inr wantMAtoms \<Rightarrow>
          if length i \<noteq> 32 then Some NoPaidInvoiceID
          else if IsPushPaymentRedeemed (pay_io env) i db then Some AlreadyRedeemed
          else case LookupInvoice env i of
                 LnFound lookupRes \<Rightarrow>
                   if ln_st lookupRes = Invoice_CANCELED then Some InvoiceCanceled
                   else if ln_st lookupRes \<noteq> Invoice_SETTLED then Some UnexpectedLNState
                   else if AmtPaidMAtoms lookupRes < sint wantMAtoms then Some NotSufficientlyPaid
                   else if from_unix (SettleDate lookupRes) < instant (pay_now env) - svrPushPaymentLifetime cfg * second
                   then Some SettledTooLongAgo
                   else None
               | _ \<Rightarrow> Some LnLookupError)"

text \<open>The two halves of \<open>isRMPaid\<close>: the check, which names the invoice to redeem if the server charges, and its redemption.\<close>

definition checkRMPaid ::
    "pay_env \<Rightarrow> svr_settings \<Rightarrow> nat \<Rightarrow> bytes option \<Rightarrow> sess_pay \<Rightarrow> fsdb \<Rightarrow> pay_error + bytes option" where
  "checkRMPaid env cfg msgLen paidInvoiceID pay db =
     (case PayScheme cfg of
        PaySchemeFree \<Rightarrow> Inr None
      | PaySchemeDCRLN \<Rightarrow>
          let i = paidInvoice paidInvoiceID pay in
          (case checkPushInvoice env cfg msgLen i db of Some e \<Rightarrow> Inl e | None \<Rightarrow> Inr (Some i))
      | PaySchemeOther \<Rightarrow> Inl UnimplementedScheme)"

definition redeemRM :: "pay_env \<Rightarrow> bytes \<Rightarrow> sess_pay \<Rightarrow> fsdb \<Rightarrow> pay_error option \<times> sess_pay \<times> fsdb" where
  "redeemRM env i pay db =
     (let (err, db) = StorePushPaymentRedeemed (pay_io env) (pay_now env) i db
      in (map_option (\<lambda>_. RedeemStoreError) err, pay\<lparr>lnPushHashes := AList.delete i (lnPushHashes pay)\<rparr>, db))"

definition isRMPaid ::
    "pay_env \<Rightarrow> svr_settings \<Rightarrow> nat \<Rightarrow> bytes option \<Rightarrow> sess_pay \<Rightarrow> fsdb \<Rightarrow> pay_error option \<times> sess_pay \<times> fsdb" where
  "isRMPaid env cfg msgLen paidInvoiceID pay db =
     (case checkRMPaid env cfg msgLen paidInvoiceID pay db of
        Inl e \<Rightarrow> (Some e, pay, db)
      | Inr None \<Rightarrow> (None, pay, db)
      | Inr (Some i) \<Rightarrow> redeemRM env i pay db)"

section \<open>Payments for subscriptions\<close>

text \<open>A panic (the division by a zero rate) is \<open>None\<close>.\<close>

definition subsAllowed :: "pay_env \<Rightarrow> svr_settings \<Rightarrow> sess_pay \<Rightarrow> ((pay_error + int) \<times> sess_pay) option" where
  "subsAllowed env cfg pay =
     (case (PayScheme cfg, lnPayReqHashSub pay) of
        (PaySchemeDCRLN, Some hash) \<Rightarrow>
          (case LookupInvoice env hash of
             LnFound lookupRes \<Rightarrow>
               (case ln_st lookupRes of
                  Invoice_OPEN \<Rightarrow> Some (Inr 0, pay)
                | Invoice_CANCELED \<Rightarrow> Some (Inr 0, pay\<lparr>lnPayReqHashSub := None\<rparr>)
                | Invoice_SETTLED \<Rightarrow>
                    if MilliAtomsPerSub cfg = 0 then None
                    else Some (Inr (AmtPaidMAtoms lookupRes sdiv sint (MilliAtomsPerSub cfg)), pay\<lparr>lnPayReqHashSub := None\<rparr>)
                | Invoice_ACCEPTED \<Rightarrow> Some (Inl UnexpectedLNState, pay\<lparr>lnPayReqHashSub := None\<rparr>))
           | _ \<Rightarrow> Some (Inl LnLookupError, pay))
      | _ \<Rightarrow> Some (Inr 0, pay))"

text \<open>One point: an error, or whether it is paid already; if not, it is stored as paid next.\<close>

definition checkSub :: "pay_env \<Rightarrow> RVID \<Rightarrow> int \<Rightarrow> fsdb \<Rightarrow> pay_error + bool" where
  "checkSub env rv nbAllowed db =
     (case IsSubscriptionPaid (pay_io env) rv db of
        Inl _ \<Rightarrow> Inl PayDBError
      | Inr True \<Rightarrow> Inr True
      | Inr False \<Rightarrow> if nbAllowed \<le> 0 then Inl (UnpaidSubscriptionRV rv) else Inr False)"

fun areSubsPaid_loop :: "pay_env \<Rightarrow> RVID list \<Rightarrow> int \<Rightarrow> fsdb \<Rightarrow> pay_error option \<times> fsdb" where
  "areSubsPaid_loop env [] nbAllowed db = (None, db)"
| "areSubsPaid_loop env (rv # needsPay) nbAllowed db =
     (case checkSub env rv nbAllowed db of
        Inl e \<Rightarrow> (Some e, db)
      | Inr True \<Rightarrow> areSubsPaid_loop env needsPay nbAllowed db
      | Inr False \<Rightarrow>
          (case StoreSubscriptionPaid (pay_io env) (pay_now env) rv db of
             (Some _, db) \<Rightarrow> (Some PayDBError, db)
           | (None, db) \<Rightarrow> areSubsPaid_loop env needsPay (nbAllowed - 1) db))"

definition areSubsPaid ::
    "pay_env \<Rightarrow> svr_settings \<Rightarrow> RVID list \<Rightarrow> RVID list \<Rightarrow> sess_pay \<Rightarrow> fsdb \<Rightarrow> (pay_error option \<times> sess_pay \<times> fsdb) option" where
  "areSubsPaid env cfg add mark pay db =
     (if PayScheme cfg = PaySchemeFree then Some (None, pay, db)
      else case subsAllowed env cfg pay of
             None \<Rightarrow> None
           | Some (Inl e, pay) \<Rightarrow> Some (Some e, pay, db)
           | Some (Inr nbAllowed, pay) \<Rightarrow>
               let (err, db) = areSubsPaid_loop env (add @ mark) nbAllowed db in Some (err, pay, db))"

section \<open>Properties\<close>

text \<open>The record of a redemption lasts until the day it was made, or made again, expires.\<close>

lemma dbStep_redeemed:
  assumes "\<exists>t\<in>T. map_of (rootRedeemed db) i = Some t" "\<forall>io t. op = DbRedeem io t i \<longrightarrow> t \<in> T"
    "\<forall>io date. op = DbExpire io date \<longrightarrow> date_of (UTC date) \<notin> date_of ` T"
  shows "\<exists>t\<in>T. map_of (rootRedeemed (dbStep op db)) i = Some t"
proof (cases op)
  case (DbExpire io date)
  obtain t where t: "t \<in> T" "map_of (rootRedeemed db) i = Some t" using assms(1) by blast
  then have "date_of (UTC date) \<noteq> date_of t" using assms(3) DbExpire by blast
  then show ?thesis using DbExpire t ExpireDB_other by auto
next
  case (DbRedeem io t j)
  then show ?thesis using assms(1,2) by (auto simp: StorePushPaymentRedeemed_def Let_def)
next
  case (DbStore io t rv p)
  then show ?thesis using assms(1) by (auto simp: StorePayload_def WritePayload_rest)
next
  case (DbWrite io t rv p)
  then show ?thesis using assms(1) by (auto simp: WritePayload_rest)
qed (use assms(1) in \<open>auto simp: RemovePayload_def StoreSubscriptionPaid_def Let_def\<close>)

lemma fold_dbStep_redeemed:
  "\<exists>t\<in>T. map_of (rootRedeemed db) i = Some t \<Longrightarrow> \<forall>io t. DbRedeem io t i \<in> set ops \<longrightarrow> t \<in> T \<Longrightarrow>
   \<forall>io date. DbExpire io date \<in> set ops \<longrightarrow> date_of (UTC date) \<notin> date_of ` T \<Longrightarrow>
   \<exists>t\<in>T. map_of (rootRedeemed (fold dbStep ops db)) i = Some t"
proof (induction ops arbitrary: db)
  case (Cons op ops)
  have "\<exists>t\<in>T. map_of (rootRedeemed (dbStep op db)) i = Some t"
    by (rule dbStep_redeemed [OF Cons.prems(1)]) (use Cons.prems in auto)
  with Cons show ?case by simp
qed simp

lemma checkRMPaid_redeems:
  "checkRMPaid env cfg msgLen pid pay db = Inr (Some i) \<longleftrightarrow>
   PayScheme cfg = PaySchemeDCRLN \<and> i = paidInvoice pid pay \<and> checkPushInvoice env cfg msgLen i db = None"
  by (auto simp: checkRMPaid_def Let_def split: pay_scheme.splits option.splits)

lemma redeemRM_ok:
  assumes "redeemRM env i pay db = (None, pay', db')"
  shows "map_of (rootRedeemed db') i = Some (pay_now env)"
  using assms by (auto simp: redeemRM_def StorePushPaymentRedeemed_def Let_def split: if_splits)


definition ex_hash :: bytes where
  "ex_hash = replicate 32 7"

definition ex_svr :: svr_settings where
  "ex_svr = \<lparr>PayScheme = PaySchemeDCRLN, svrPushPayRateMinMAtoms = 2, svrPushPayRateMAtoms = 1, svrPushPayRateBytes = 1,
     svrPushPaymentLifetime = 60, MilliAtomsPerSub = 5, svrMaxPushInvoices = 2, svrExpirationDays = 7, MilliAtomsPerRTSess = 5, MilliAtomsPerUserRTSess = 1,
     MilliAtomsGetCookie = 2, MilliAtomsPerUserCookie = 3, MilliAtomsRTJoin = 2, MilliAtomsRTPushRate = 1, RTPushRateMBytes = 1,
     RTDTServerAddr = ''rtdt'', RTDTServerPub = None, RTDTCookieKey = Some (replicate 32 7), RTDTDecodeCookieKeys = [],
     svrCrypto = ex_crypto\<rparr>"

definition ex_pay_env :: pay_env where
  "ex_pay_env = \<lparr>pay_now = \<lparr>instant = 100 * second, offset = 0\<rparr>,
     LookupInvoice = (\<lambda>_. LnFound \<lparr>ln_st = Invoice_SETTLED, AmtPaidMAtoms = 12, SettleDate = 90, CreationDate = 80, Expiry = 3600\<rparr>),
     AddInvoice = Some (ex_hash, ''lnbc''), pay_io = ex_disk, RandomShortID = replicate 32 3,
     randomNonce = (\<lambda>i. replicate 24 (of_nat i)), randomUint64 = 11\<rparr>"


text \<open>A positive quotient rounds down.\<close>

lemma sdiv_mult_le:
  fixes a b :: int
  assumes "0 < b" "0 < a sdiv b"
  shows "a sdiv b * b \<le> a"
proof -
  have "0 < a"
    using assms pos_imp_zdiv_nonneg_iff [OF assms(1), of "- a"]
    by (cases a "0 :: int" rule: linorder_cases) (simp_all add: signed_divide_int_def sgn_if)
  then have "a sdiv b = a div b" using assms(1) by (simp add: signed_divide_int_def sgn_if)
  moreover have "a div b * b \<le> a"
    using div_mult_mod_eq [of a b] pos_mod_sign [OF assms(1), of a] by linarith
  ultimately show ?thesis by simp
qed

lemma areSubsPaid_loop_new:
  "\<exists>new. areSubsPaid_loop env needsPay n db = (err, db') \<longrightarrow>
     distinct new \<and> set new \<subseteq> set needsPay \<and> (new \<noteq> [] \<longrightarrow> int (length new) \<le> n) \<and>
     (\<forall>rv. sub_paid db' rv \<longleftrightarrow> sub_paid db rv \<or> rv \<in> set new) \<and> (\<forall>rv\<in>set new. \<not> sub_paid db rv) \<and>
     (err = None \<longrightarrow> (\<forall>rv\<in>set needsPay. sub_paid db' rv))"
proof (induction needsPay arbitrary: n db)
  case Nil
  then show ?case by (intro exI [of _ "[]"]) auto
next
  note checkSub_def [simp]
  case (Cons rv needsPay)
  show ?case
  proof (cases "IsSubscriptionPaid (pay_io env) rv db")
    case (Inl e)
    then show ?thesis by (intro exI [of _ "[]"]) auto
  next
    case (Inr paid)
    show ?thesis
    proof (cases paid)
      case True
      obtain new where "areSubsPaid_loop env needsPay n db = (err, db') \<longrightarrow>
          distinct new \<and> set new \<subseteq> set needsPay \<and> (new \<noteq> [] \<longrightarrow> int (length new) \<le> n) \<and>
          (\<forall>rv. sub_paid db' rv \<longleftrightarrow> sub_paid db rv \<or> rv \<in> set new) \<and> (\<forall>rv\<in>set new. \<not> sub_paid db rv) \<and>
          (err = None \<longrightarrow> (\<forall>rv\<in>set needsPay. sub_paid db' rv))"
        using Cons.IH [of n db] by blast
      moreover have "sub_paid db rv"
        using Inr True by (auto simp: IsSubscriptionPaid_def sub_paid_def split: if_splits)
      ultimately show ?thesis using Inr True by (intro exI [of _ new]) auto
    next
      case False
      have unpaid: "\<not> sub_paid db rv"
        using Inr False by (auto simp: IsSubscriptionPaid_def sub_paid_def split: if_splits)
      obtain e1 db1 where st: "StoreSubscriptionPaid (pay_io env) (pay_now env) rv db = (e1, db1)" by fastforce
      show ?thesis
      proof (cases "0 < n \<and> e1 = None")
        case True
        obtain new where IH: "areSubsPaid_loop env needsPay (n - 1) db1 = (err, db') \<longrightarrow>
            distinct new \<and> set new \<subseteq> set needsPay \<and> (new \<noteq> [] \<longrightarrow> int (length new) \<le> n - 1) \<and>
            (\<forall>rv. sub_paid db' rv \<longleftrightarrow> sub_paid db1 rv \<or> rv \<in> set new) \<and> (\<forall>rv\<in>set new. \<not> sub_paid db1 rv) \<and>
            (err = None \<longrightarrow> (\<forall>rv\<in>set needsPay. sub_paid db' rv))"
          using Cons.IH [of "n - 1" db1] by blast
        have "sub_paid db1 = (\<lambda>r. r = rv \<or> sub_paid db r)" using fsdb.mark_ok st True by simp
        then show ?thesis using IH Inr False st True unpaid by (intro exI [of _ "rv # new"]) auto
      next
        case fails: False
        show ?thesis
        proof (cases "0 < n")
          case True
          then obtain e where e: "e1 = Some e" using fails by auto
          then consider "sub_paid db1 = sub_paid db" | "sub_paid db1 = (\<lambda>r. r = rv \<or> sub_paid db r)"
            using fsdb.mark_err [of "pay_io env" "pay_now env" rv db e db1] st by auto
          then show ?thesis
          proof cases
            case 1
            then show ?thesis using True Inr False st e by (intro exI [of _ "[]"]) auto
          next
            case 2
            then show ?thesis using True Inr False st e unpaid by (intro exI [of _ "[rv]"]) auto
          qed
        next
          case False
          then show ?thesis using Inr \<open>\<not> paid\<close> by (intro exI [of _ "[]"]) auto
        qed
      qed
    qed
  qed
qed

text \<open>C35: Subscriptions are paid for. After \<open>areSubsPaid\<close>, on every outcome, the points newly recorded as
  paid were part of the request, and if there are any then the session had an invoice that is settled, it paid at
  least the rate for each of them, and it has been used up; when the request is accepted, every point in
  it is recorded as paid.\<close>

theorem subs_paid_exact:
  assumes "PayScheme cfg \<noteq> PaySchemeFree" "0 < sint (MilliAtomsPerSub cfg)"
    and "areSubsPaid env cfg add mark pay db = Some (err, pay', db')"
  shows "(err = None \<longrightarrow> (\<forall>rv\<in>set (add @ mark). sub_paid db' rv)) \<and>
    (\<exists>new. distinct new \<and> set new \<subseteq> set (add @ mark) \<and>
       (\<forall>rv. sub_paid db' rv \<longleftrightarrow> sub_paid db rv \<or> rv \<in> set new) \<and>
       (new \<noteq> [] \<longrightarrow> lnPayReqHashSub pay' = None \<and>
         (\<exists>hash lookupRes. lnPayReqHashSub pay = Some hash \<and> LookupInvoice env hash = LnFound lookupRes \<and>
            ln_st lookupRes = Invoice_SETTLED \<and>
            int (length new) * sint (MilliAtomsPerSub cfg) \<le> AmtPaidMAtoms lookupRes)))"
proof -
  from assms(1,3) consider (err) e where "subsAllowed env cfg pay = Some (Inl e, pay')" "err = Some e" "db' = db"
    | (go) n where "subsAllowed env cfg pay = Some (Inr n, pay')" "areSubsPaid_loop env (add @ mark) n db = (err, db')"
    by (auto simp: areSubsPaid_def Let_def split: option.splits sum.splits prod.splits)
  then show ?thesis
  proof cases
    case err
    then show ?thesis by (intro conjI exI [of _ "[]"]) auto
  next
    case (go n)
    obtain new where new: "distinct new" "set new \<subseteq> set (add @ mark)" "new \<noteq> [] \<longrightarrow> int (length new) \<le> n"
        "\<forall>rv. sub_paid db' rv \<longleftrightarrow> sub_paid db rv \<or> rv \<in> set new" "err = None \<longrightarrow> (\<forall>rv\<in>set (add @ mark). sub_paid db' rv)"
      using areSubsPaid_loop_new [of env "add @ mark" n db err db'] go(2) by blast
    have "lnPayReqHashSub pay' = None \<and> (\<exists>hash lookupRes. lnPayReqHashSub pay = Some hash \<and>
        LookupInvoice env hash = LnFound lookupRes \<and> ln_st lookupRes = Invoice_SETTLED \<and>
        int (length new) * sint (MilliAtomsPerSub cfg) \<le> AmtPaidMAtoms lookupRes)" if "new \<noteq> []"
    proof -
      have "0 < n" using that new(3) by (cases new) auto
      then obtain hash lookupRes where s: "lnPayReqHashSub pay = Some hash" "LookupInvoice env hash = LnFound lookupRes"
          "ln_st lookupRes = Invoice_SETTLED" "lnPayReqHashSub pay' = None"
          "n = AmtPaidMAtoms lookupRes sdiv sint (MilliAtomsPerSub cfg)"
        using go(1) by (auto simp: subsAllowed_def split: pay_scheme.splits option.splits ln_lookup.splits ln_state.splits if_splits)
      have "int (length new) * sint (MilliAtomsPerSub cfg) \<le> n * sint (MilliAtomsPerSub cfg)"
        using that new(3) assms(2) by (intro mult_right_mono) auto
      also have "\<dots> \<le> AmtPaidMAtoms lookupRes"
        unfolding s(5) by (rule sdiv_mult_le) (use assms(2) \<open>0 < n\<close> s(5) in auto)
      finally show ?thesis using s by blast
    qed
    with new show ?thesis by blast
  qed
qed


theorem subs_paid_exact_witness:
  "areSubsPaid ex_pay_env ex_svr [[1]] [[2]] (newSessPay\<lparr>lnPayReqHashSub := Some ex_hash\<rparr>) NewFSDB =
     Some (None, newSessPay, NewFSDB\<lparr>rootSubs := [([1], pay_now ex_pay_env), ([2], pay_now ex_pay_env)]\<rparr>) \<and>
   sub_paid (NewFSDB\<lparr>rootSubs := [([1], pay_now ex_pay_env), ([2], pay_now ex_pay_env)]\<rparr>) [1] \<and>
   sub_paid (NewFSDB\<lparr>rootSubs := [([1], pay_now ex_pay_env), ([2], pay_now ex_pay_env)]\<rparr>) [2]"
proof -
  have run: "areSubsPaid ex_pay_env ex_svr [[1]] [[2]] (newSessPay\<lparr>lnPayReqHashSub := Some ex_hash\<rparr>) NewFSDB =
      Some (None, newSessPay, NewFSDB\<lparr>rootSubs := [([1], pay_now ex_pay_env), ([2], pay_now ex_pay_env)]\<rparr>)"
    by code_simp
  have cfg: "PayScheme ex_svr \<noteq> PaySchemeFree" "0 < sint (MilliAtomsPerSub ex_svr)"
    by (simp_all add: ex_svr_def)
  show ?thesis using conjunct1 [OF subs_paid_exact [OF cfg run]] run by simp
qed

text \<open>The invoices a client can have outstanding are bounded: whatever it asks for and pays, a session never
  has more than the configured number of push invoices, so it cannot make the server's record of them grow.\<close>

theorem push_invoices_bounded:
  assumes "int (length (lnPushHashes pay)) \<le> max 0 (svrMaxPushInvoices cfg)"
  shows "int (length (lnPushHashes (snd (handleGetInvoice env cfg scheme action pay)))) \<le> max 0 (svrMaxPushInvoices cfg) \<and>
    int (length (lnPushHashes (fst (snd (isRMPaid env cfg msgLen pid pay db))))) \<le> max 0 (svrMaxPushInvoices cfg)"
proof -
  have "int (length (lnPushHashes (snd (generateNextLNInvoice env cfg action pay)))) \<le> max 0 (svrMaxPushInvoices cfg)"
  proof (cases "invoiceLimits env cfg action pay")
    case (Pair e pay1)
    let ?kept = "filter (\<lambda>(hash, expires). \<not> expires < instant (pay_now env)) (lnPushHashes pay)"
    have shorter: "int (length ?kept) < int (length (lnPushHashes pay))" if "length ?kept \<noteq> length (lnPushHashes pay)"
      using that length_filter_le [of "\<lambda>(hash, expires). \<not> expires < instant (pay_now env)" "lnPushHashes pay"] by linarith
    have room: "int (length (lnPushHashes pay1)) \<le> max 0 (svrMaxPushInvoices cfg)"
        "e = None \<Longrightarrow> action = ActionPush \<Longrightarrow> int (length (lnPushHashes pay1)) < svrMaxPushInvoices cfg"
      using Pair assms shorter
      by (auto simp: invoiceLimits_def Let_def split: invoice_action.splits if_splits)
    have upd: "int (length (AList.update k v (lnPushHashes pay1))) \<le> int (length (lnPushHashes pay1)) + 1" for k v
      using length_update_le [of k v "lnPushHashes pay1"] by linarith
    show ?thesis
      using room Pair upd
      by (auto simp: generateNextLNInvoice_def recordInvoice_def split: option.splits invoice_action.splits
          intro: order_trans [OF upd])
  qed
  moreover have "length (AList.delete i (lnPushHashes pay)) \<le> length (lnPushHashes pay)" for i
    by (simp add: AList.delete_eq)
  ultimately show ?thesis
    using assms
    by (auto simp: handleGetInvoice_def isRMPaid_def redeemRM_def Let_def case_prod_unfold split: pay_scheme.splits option.splits sum.splits
        intro: order_trans [of _ "int (length (lnPushHashes pay))"])
qed

theorem push_invoices_bounded_witness:
  "int (length (lnPushHashes (snd (handleGetInvoice ex_pay_env ex_svr PaySchemeDCRLN ActionPush newSessPay)))) \<le> max 0 2"
  using push_invoices_bounded [of newSessPay ex_svr ex_pay_env PaySchemeDCRLN ActionPush]
  by (simp add: newSessPay_def ex_svr_def)

section \<open>Payments that are used twice\<close>

text \<open>Two sessions check one invoice before either records it as redeemed: it pays for two pushes.\<close>

lemma invoice_redeemed_twice:
  "checkRMPaid ex_pay_env ex_svr 10 (Some ex_hash) newSessPay NewFSDB = Inr (Some ex_hash) \<and>
   (case redeemRM ex_pay_env ex_hash newSessPay NewFSDB of
      (None, _, db) \<Rightarrow> fst (redeemRM ex_pay_env ex_hash newSessPay db) = None
    | _ \<Rightarrow> False)"
  by code_simp

text \<open>The redemption of a push payment does not ask what the invoice was for: an invoice that has paid for
  subscriptions is then accepted for a push as well.\<close>

lemma payment_used_twice:
  "case areSubsPaid ex_pay_env ex_svr [[1]] [[2]] (newSessPay\<lparr>lnPayReqHashSub := Some ex_hash\<rparr>) NewFSDB of
     Some (None, pay, db) \<Rightarrow> fst (isRMPaid ex_pay_env ex_svr 10 (Some ex_hash) pay db) = None
   | _ \<Rightarrow> False"
  by code_simp
end
