(* ===== verification/Server_Rtdt.thy ===== *)
theory Server_Rtdt
  imports Rtdt_Rpc Server_Payments
begin

text \<open>
  What the server does for real-time sessions (\<^verbatim>\<open>src/server/rtdt.go\<close>): it creates a session, appoints peers to it, and
  turns the appointment of a peer into a cookie with which the peer joins the session on the datagram server.
  All it knows of a session is in the cookies it has issued, which only it and the datagram server can open.

  The three handlers take the invoices of the client's session and return them, with the reply or with the
  error that ends the session; \<open>None\<close> is a panic. A panic is a division by zero or the use of
  \<^verbatim>\<open>z.rtCookieKey\<close> where it is nil.
\<close>

datatype rtdt_error =
    TooLargeSession | RTDTDisabled | WithoutPayment | InvoiceError pay_error | UnsupportedPayScheme | PaidForLess
  | SessionCookieError cookie_error | AppointCookieError cookie_error | AllowanceError rate_error

record appoint_peer =
  ap_ID :: u32
  ap_AllowedAsPublisher :: bool
  ap_IsAdmin :: bool

datatype rtdt_request =
    CreateRTDTSession u32
  | GetRTDTAppointCookies bytes bytes "appoint_peer list" "bytes option"
  | AppointRTDTServer bytes

datatype rtdt_reply =
    CreateRTDTSessionReply bytes
  | GetRTDTAppointCookiesReply "bytes list" bytes
  | AppointRTDTServerReply bytes string "bytes option"

section \<open>Payments\<close>

text \<open>The amount paid on an invoice, an \<^verbatim>\<open>int64\<close>. The three handlers look it up in the same way.\<close>

definition lookupPaid :: "pay_env \<Rightarrow> bytes \<Rightarrow> rtdt_error + u64" where
  "lookupPaid env hash =
     (case LookupInvoice env hash of
        LnFound lookupRes \<Rightarrow>
          if ln_st lookupRes = Invoice_CANCELED then Inl (InvoiceError InvoiceCanceled)
          else if ln_st lookupRes \<noteq> Invoice_SETTLED then Inl (InvoiceError UnexpectedLNState)
          else Inr (word_of_int (AmtPaidMAtoms lookupRes))
      | _ \<Rightarrow> Inl (InvoiceError LnLookupError))"

definition createPaid :: "pay_env \<Rightarrow> svr_settings \<Rightarrow> u32 \<Rightarrow> sess_pay \<Rightarrow> rtdt_error option \<times> sess_pay" where
  "createPaid env cfg sz pay =
     (case PayScheme cfg of
        PaySchemeFree \<Rightarrow> (None, pay)
      | PaySchemeDCRLN \<Rightarrow>
          (case lnCreateRTSessHash pay of
             None \<Rightarrow> (Some WithoutPayment, pay)
           | Some hash \<Rightarrow>
               let wantMAtoms = MilliAtomsPerRTSess cfg + ucast sz * MilliAtomsPerUserRTSess cfg;
                   err = (case lookupPaid env hash of
                            Inl e \<Rightarrow> Some e
                          | Inr amt \<Rightarrow> if sint amt < sint wantMAtoms then Some (InvoiceError NotSufficientlyPaid) else None)
               in (err, pay\<lparr>lnCreateRTSessHash := None\<rparr>))
      | PaySchemeOther \<Rightarrow> (Some UnsupportedPayScheme, pay))"

text \<open>How many cookies were paid for; \<open>None\<close> is the division by a zero rate.\<close>

definition paidCookies :: "pay_env \<Rightarrow> svr_settings \<Rightarrow> nat \<Rightarrow> sess_pay \<Rightarrow> ((rtdt_error + int) \<times> sess_pay) option" where
  "paidCookies env cfg npeers pay =
     (case PayScheme cfg of
        PaySchemeFree \<Rightarrow> Some (Inr (int npeers), pay)
      | PaySchemeDCRLN \<Rightarrow>
          (case lnGetRTCookieHash pay of
             None \<Rightarrow> Some (Inl WithoutPayment, pay)
           | Some hash \<Rightarrow>
               let pay = pay\<lparr>lnGetRTCookieHash := None\<rparr> in
               (case lookupPaid env hash of
                  Inl e \<Rightarrow> Some (Inl e, pay)
                | Inr amt \<Rightarrow>
                    if sint amt < sint (MilliAtomsGetCookie cfg) then Some (Inl (InvoiceError NotSufficientlyPaid), pay)
                    else if MilliAtomsPerUserCookie cfg = 0 then None
                    else Some (Inr (sint (word_of_int (sint (amt - MilliAtomsGetCookie cfg) sdiv
                                                       sint (MilliAtomsPerUserCookie cfg)) :: u64)), pay)))
      | PaySchemeOther \<Rightarrow> Some (Inl UnsupportedPayScheme, pay))"

definition PublishFreePayRTPublishAllowanceMB :: u64 where
  "PublishFreePayRTPublishAllowanceMB = 1"

definition publishPaid :: "pay_env \<Rightarrow> svr_settings \<Rightarrow> sess_pay \<Rightarrow> (rtdt_error + u64) \<times> sess_pay" where
  "publishPaid env cfg pay =
     (case PayScheme cfg of
        PaySchemeFree \<Rightarrow>
          (Inr (PublishFreePayRTPublishAllowanceMB * MilliAtomsRTPushRate cfg + MilliAtomsRTJoin cfg), pay)
      | PaySchemeDCRLN \<Rightarrow>
          (case lnPublishInRTSessHash pay of
             None \<Rightarrow> (Inl WithoutPayment, pay)
           | Some hash \<Rightarrow> (lookupPaid env hash, pay\<lparr>lnPublishInRTSessHash := None\<rparr>))
      | PaySchemeOther \<Rightarrow> (Inl UnsupportedPayScheme, pay))"

section \<open>Handlers\<close>

definition handleCreateRTDTSession ::
    "pay_env \<Rightarrow> svr_settings \<Rightarrow> u32 \<Rightarrow> sess_pay \<Rightarrow> ((rtdt_error + rtdt_reply) \<times> sess_pay) option" where
  "handleCreateRTDTSession env cfg sz pay =
     (if 64 < sz then Some (Inl TooLargeSession, pay)
      else if RTDTServerAddr cfg = '''' then Some (Inl RTDTDisabled, pay)
      else
        case createPaid env cfg sz pay of
          (Some e, pay) \<Rightarrow> Some (Inl e, pay)
        | (None, pay) \<Rightarrow>
            map_option (\<lambda>key.
              (Inr (CreateRTDTSessionReply
                 (sc_Encrypt (svrCrypto cfg) \<lparr>sc_ServerSecret = RandomShortID env, sc_Size = sz\<rparr> [] key (randomNonce env 0))), pay))
              (RTDTCookieKey cfg))"

text \<open>Opening a cookie with a nil key panics unless the cookie is too short.\<close>

definition withKey :: "svr_settings \<Rightarrow> nat \<Rightarrow> bytes \<Rightarrow> (key \<Rightarrow> cookie_error + 'a) \<Rightarrow> (cookie_error + key \<times> 'a) option" where
  "withKey cfg payload raw f =
     (case RTDTCookieKey cfg of
        Some key \<Rightarrow> Some (case f key of Inl e \<Rightarrow> Inl e | Inr c \<Rightarrow> Inr (key, c))
      | None \<Rightarrow> if length raw < 24 + payload + 16 then Some (Inl CookieTooShort) else None)"

text \<open>The loop over the peers; the nonces are numbered in the order in which they are drawn.\<close>

fun appointCookies :: "pay_env \<Rightarrow> svr_settings \<Rightarrow> key \<Rightarrow> session_cookie \<Rightarrow> bytes \<Rightarrow> nat \<Rightarrow> appoint_peer list \<Rightarrow> bytes list" where
  "appointCookies env cfg key scookie ownerSecret n [] = []"
| "appointCookies env cfg key scookie ownerSecret n (peer # peers) =
     ac_Encrypt (svrCrypto cfg)
       \<lparr>ac_ServerSecret = sc_ServerSecret scookie, ac_OwnerSecret = ownerSecret, ac_Size = sc_Size scookie, ac_PeerID = ap_ID peer,
        ac_AllowedAsPublisher = ap_AllowedAsPublisher peer, ac_IsAdmin = ap_IsAdmin peer\<rparr> [] key (randomNonce env n) #
     appointCookies env cfg key scookie ownerSecret (Suc n) peers"

definition rotateCookie :: "pay_env \<Rightarrow> svr_settings \<Rightarrow> key \<Rightarrow> session_cookie \<Rightarrow> bytes \<Rightarrow> nat \<Rightarrow> bytes option \<Rightarrow> bytes" where
  "rotateCookie env cfg key scookie ownerSecret n oldOwnerSecret =
     (case oldOwnerSecret of
        None \<Rightarrow> []
      | Some old \<Rightarrow>
          rc_Encrypt (svrCrypto cfg)
            \<lparr>rc_ServerSecret = sc_ServerSecret scookie, rc_OldOwnerSecret = old, rc_NewOwnerSecret = ownerSecret,
             rc_Size = sc_Size scookie, rc_Timestamp = word_of_int (time_unix (instant (pay_now env))),
             rc_PaymentTag = randomUint64 env\<rparr> [] key (randomNonce env n))"

definition handleGetRTDTAppointCookie ::
    "pay_env \<Rightarrow> svr_settings \<Rightarrow> bytes \<Rightarrow> bytes \<Rightarrow> appoint_peer list \<Rightarrow> bytes option \<Rightarrow> sess_pay \<Rightarrow>
     ((rtdt_error + rtdt_reply) \<times> sess_pay) option" where
  "handleGetRTDTAppointCookie env cfg sessionCookie ownerSecret peers oldOwnerSecret pay =
     (case paidCookies env cfg (length peers) pay of
        None \<Rightarrow> None
      | Some (Inl e, pay) \<Rightarrow> Some (Inl e, pay)
      | Some (Inr paid, pay) \<Rightarrow>
          if paid < int (length peers) then Some (Inl PaidForLess, pay)
          else
            case withKey cfg 40 sessionCookie
                   (\<lambda>key. sc_Decrypt (svrCrypto cfg) sessionCookie key (RTDTDecodeCookieKeys cfg)) of
              None \<Rightarrow> None
            | Some (Inl e) \<Rightarrow> Some (Inl (SessionCookieError e), pay)
            | Some (Inr (key, scookie)) \<Rightarrow>
                Some (Inr (GetRTDTAppointCookiesReply (appointCookies env cfg key scookie ownerSecret 0 peers)
                             (rotateCookie env cfg key scookie ownerSecret (length peers) oldOwnerSecret)), pay))"

definition hour :: duration where
  "hour = 3600 * second"

definition joinCookie :: "pay_env \<Rightarrow> appoint_cookie \<Rightarrow> u32 \<Rightarrow> join_cookie" where
  "joinCookie env acookie allowanceMB =
     \<lparr>jc_ServerSecret = ac_ServerSecret acookie, jc_OwnerSecret = ac_OwnerSecret acookie, jc_Size = ac_Size acookie,
      jc_PeerID = ac_PeerID acookie, jc_EndTimestamp = word_of_int (time_unix (instant (pay_now env) + hour)),
      jc_PublishAllowance = (if ac_AllowedAsPublisher acookie then ucast allowanceMB * 1000000 else 0),
      jc_PaymentTag = randomUint64 env, jc_IsAdmin = ac_IsAdmin acookie\<rparr>"

definition handleAppointRTDTServer ::
    "pay_env \<Rightarrow> svr_settings \<Rightarrow> bytes \<Rightarrow> sess_pay \<Rightarrow> ((rtdt_error + rtdt_reply) \<times> sess_pay) option" where
  "handleAppointRTDTServer env cfg appointCookie pay =
     (case publishPaid env cfg pay of
        (Inl e, pay) \<Rightarrow> Some (Inl e, pay)
      | (Inr paidMAtoms, pay) \<Rightarrow>
          (case withKey cfg 77 appointCookie
                  (\<lambda>key. ac_Decrypt (svrCrypto cfg) appointCookie key (RTDTDecodeCookieKeys cfg)) of
             None \<Rightarrow> None
           | Some (Inl e) \<Rightarrow> Some (Inl (AppointCookieError e), pay)
           | Some (Inr (key, acookie)) \<Rightarrow>
               let paidMAtoms = (if PayScheme cfg = PaySchemeFree then paidMAtoms * ucast (ac_Size acookie) else paidMAtoms) in
               (case CalcRTDTSessPushMB (MilliAtomsRTJoin cfg) (MilliAtomsRTPushRate cfg) (RTPushRateMBytes cfg) (ac_Size acookie)
                       paidMAtoms of
                  Inl DivideByZero \<Rightarrow> None
                | Inl e \<Rightarrow> Some (Inl (AllowanceError e), pay)
                | Inr allowanceMB \<Rightarrow>
                    Some (Inr (AppointRTDTServerReply
                      (jc_Encrypt (svrCrypto cfg) (joinCookie env acookie allowanceMB) [] key (randomNonce env 0))
                      (RTDTServerAddr cfg) (RTDTServerPub cfg)), pay))))"

fun handleRTDT :: "pay_env \<Rightarrow> svr_settings \<Rightarrow> rtdt_request \<Rightarrow> sess_pay \<Rightarrow> ((rtdt_error + rtdt_reply) \<times> sess_pay) option" where
  "handleRTDT env cfg (CreateRTDTSession sz) pay = handleCreateRTDTSession env cfg sz pay"
| "handleRTDT env cfg (GetRTDTAppointCookies sessionCookie ownerSecret peers oldOwnerSecret) pay =
     handleGetRTDTAppointCookie env cfg sessionCookie ownerSecret peers oldOwnerSecret pay"
| "handleRTDT env cfg (AppointRTDTServer appointCookie) pay = handleAppointRTDTServer env cfg appointCookie pay"

section \<open>What the replies contain\<close>

lemma openCookie_length: "openCookie C tag n raw key extra = Inr data \<Longrightarrow> length data = n"
  by (auto simp: openCookie_def Let_def intoArray_def split: if_splits option.splits)

lemma sc_Decrypt_wf: "sc_Decrypt C raw key extra = Inr sc \<Longrightarrow> length (sc_ServerSecret sc) = 32"
  by (auto simp: sc_Decrypt_def sc_fields_def Let_def split: sum.splits dest!: openCookie_length)

lemma ac_Decrypt_wf: "ac_Decrypt C raw key extra = Inr ac \<Longrightarrow> length (ac_ServerSecret ac) = 32 \<and> length (ac_OwnerSecret ac) = 32"
  by (auto simp: ac_Decrypt_def ac_fields_def Let_def split: sum.splits dest!: openCookie_length)

text \<open>A cookie opens again under the key it was sealed with, at whoever has that key.\<close>

lemma cookies_open:
  assumes "cookie_laws C (k # key # extra)" "length nonce = 24" "k \<in> set (key # extra)"
  shows "length (sc_ServerSecret sc) = 32 \<Longrightarrow> sc_Decrypt C (sc_Encrypt C sc [] k nonce) key extra = Inr sc"
    "length (ac_ServerSecret ac) = 32 \<Longrightarrow> length (ac_OwnerSecret ac) = 32 \<Longrightarrow> ac_Decrypt C (ac_Encrypt C ac [] k nonce) key extra = Inr ac"
    "length (jc_ServerSecret jc) = 32 \<Longrightarrow> length (jc_OwnerSecret jc) = 32 \<Longrightarrow> jc_Decrypt C (jc_Encrypt C jc [] k nonce) key extra = Inr jc"
  using session_kind.decrypt_seal [OF assms(1,2), of "SessionCookie sc"] appoint_kind.decrypt_seal [OF assms(1,2), of "AppointCookie ac"]
    join_kind.decrypt_seal [OF assms(1,2), of "JoinCookie jc"] assms(3) by simp_all

lemma withKey_opened:
  "withKey cfg n raw f = Some (Inr (key, c)) \<longleftrightarrow> RTDTCookieKey cfg = Some key \<and> f key = Inr c"
  by (auto simp: withKey_def split: option.splits sum.splits if_splits)

lemma joinCookie_sel [simp]:
  "jc_ServerSecret (joinCookie env ac m) = ac_ServerSecret ac" "jc_OwnerSecret (joinCookie env ac m) = ac_OwnerSecret ac"
  "jc_Size (joinCookie env ac m) = ac_Size ac" "jc_PeerID (joinCookie env ac m) = ac_PeerID ac" "jc_IsAdmin (joinCookie env ac m) = ac_IsAdmin ac"
  by (simp_all add: joinCookie_def)

lemma appoint_reply:
  assumes "handleAppointRTDTServer env cfg raw pay = Some (Inr (AppointRTDTServerReply j addr pub), pay')"
  obtains key ac paid m where "RTDTCookieKey cfg = Some key" "publishPaid env cfg pay = (Inr paid, pay')"
    "ac_Decrypt (svrCrypto cfg) raw key (RTDTDecodeCookieKeys cfg) = Inr ac"
    "CalcRTDTSessPushMB (MilliAtomsRTJoin cfg) (MilliAtomsRTPushRate cfg) (RTPushRateMBytes cfg) (ac_Size ac)
       (if PayScheme cfg = PaySchemeFree then paid * ucast (ac_Size ac) else paid) = Inr m"
    "j = jc_Encrypt (svrCrypto cfg) (joinCookie env ac m) [] key (randomNonce env 0)"
  using assms by (auto simp: handleAppointRTDTServer_def Let_def withKey_opened split: prod.splits sum.splits option.splits rate_error.splits if_splits)

lemma CalcRTDTSessPushMB_bound:
  assumes "CalcRTDTSessPushMB join rate mb sz paid = Inr m" "unat sz * unat rate < 2 ^ 64"
  shows "unat join \<le> unat paid \<and> 0 \<le> sint paid \<and> unat m * (unat sz * unat rate) \<le> (unat paid - unat join) * unat mb"
proof -
  let ?d = "ucast sz * rate :: u64" and ?n = "(paid - join) * mb" and ?q = "(paid - join) * mb div (ucast sz * rate)"
  have c: "join \<le> paid" "0 \<le> sint paid" "?d \<noteq> 0" "m = ucast (if ?q > maxInt32 then maxInt32 else ?q)"
    using assms(1) by (auto simp: CalcRTDTSessPushMB_def Let_def not_less split: if_splits)
  have "unat (if ?q > maxInt32 then maxInt32 else ?q) \<le> 2 ^ 31 - 1"
    using unat_maxInt32 by (auto simp: not_less word_le_nat_alt)
  then have "unat m = unat (if ?q > maxInt32 then maxInt32 else ?q)"
    by (subst c(4), subst unsigned_ucast_eq) (simp add: take_bit_nat_eq_self)
  also have "\<dots> \<le> unat ?q" by (simp add: word_less_nat_alt)
  also have "unat ?q = unat ?n div unat ?d" by (rule unat_div)
  finally have m: "unat m \<le> unat ?n div (unat sz * unat rate)"
    using assms(2) by (simp add: unat_mult_small unat_ucast_u64)
  have "unat ?n \<le> unat (paid - join) * unat mb" by (simp add: unat_word_ariths)
  moreover have "unat (paid - join) = unat paid - unat join" using c(1) by (rule unat_sub)
  ultimately have "unat ?n div (unat sz * unat rate) * (unat sz * unat rate) \<le> (unat paid - unat join) * unat mb"
    by (metis div_times_less_eq_dividend le_trans)
  then have "unat m * (unat sz * unat rate) \<le> (unat paid - unat join) * unat mb"
    using m by (meson le_trans mult_le_mono1)
  with c show ?thesis by (simp add: word_le_nat_alt)
qed

section \<open>Promises\<close>

text \<open>C23: A join cookie is paid for. On a server that is paid over Lightning, a peer gets a cookie to join a session only for
  the appointment it presents and for a settled invoice of its session, which is spent by it. The cookie opens to the session, the peer and
  the rights of the appointment; only a publisher gets an allowance, and the allowance times the rate is at most what the
  invoice paid beyond the price of joining.\<close>

theorem join_cookie_paid:
  assumes "handleAppointRTDTServer env cfg raw pay = Some (Inr (AppointRTDTServerReply j addr pub), pay')"
    "PayScheme cfg = PaySchemeDCRLN" "RTDTCookieKey cfg = Some key" "cookie_laws (svrCrypto cfg) (key # key # RTDTDecodeCookieKeys cfg)"
    "length (randomNonce env 0) = 24" "unat (MilliAtomsRTPushRate cfg) < 2 ^ 32"
  shows "\<exists>hash lni ac jc.
    lnPublishInRTSessHash pay = Some hash \<and> LookupInvoice env hash = LnFound lni \<and> ln_st lni = Invoice_SETTLED \<and>
    pay' = pay\<lparr>lnPublishInRTSessHash := None\<rparr> \<and>
    ac_Decrypt (svrCrypto cfg) raw key (RTDTDecodeCookieKeys cfg) = Inr ac \<and>
    jc_Decrypt (svrCrypto cfg) j key (RTDTDecodeCookieKeys cfg) = Inr jc \<and>
    jc_ServerSecret jc = ac_ServerSecret ac \<and> jc_OwnerSecret jc = ac_OwnerSecret ac \<and> jc_Size jc = ac_Size ac \<and>
    jc_PeerID jc = ac_PeerID ac \<and> jc_IsAdmin jc = ac_IsAdmin ac \<and>
    (\<not> ac_AllowedAsPublisher ac \<longrightarrow> jc_PublishAllowance jc = 0) \<and>
    unat (jc_PublishAllowance jc) * (unat (ac_Size ac) * unat (MilliAtomsRTPushRate cfg)) \<le>
      (unat (word_of_int (AmtPaidMAtoms lni) :: u64) - unat (MilliAtomsRTJoin cfg)) * unat (RTPushRateMBytes cfg) * 1000000"
proof -
  from assms(1) obtain k ac paid m where r: "RTDTCookieKey cfg = Some k" "publishPaid env cfg pay = (Inr paid, pay')"
    "ac_Decrypt (svrCrypto cfg) raw k (RTDTDecodeCookieKeys cfg) = Inr ac"
    "CalcRTDTSessPushMB (MilliAtomsRTJoin cfg) (MilliAtomsRTPushRate cfg) (RTPushRateMBytes cfg) (ac_Size ac)
       (if PayScheme cfg = PaySchemeFree then paid * ucast (ac_Size ac) else paid) = Inr m"
    "j = jc_Encrypt (svrCrypto cfg) (joinCookie env ac m) [] k (randomNonce env 0)"
    by (rule appoint_reply)
  have k: "k = key" using r(1) assms(3) by simp
  obtain hash lni where h: "lnPublishInRTSessHash pay = Some hash" "LookupInvoice env hash = LnFound lni" "ln_st lni = Invoice_SETTLED"
      "pay' = pay\<lparr>lnPublishInRTSessHash := None\<rparr>" "paid = word_of_int (AmtPaidMAtoms lni)"
    using r(2) assms(2) by (auto simp: publishPaid_def lookupPaid_def split: option.splits ln_lookup.splits if_splits)
  have jc: "jc_Decrypt (svrCrypto cfg) j key (RTDTDecodeCookieKeys cfg) = Inr (joinCookie env ac m)"
    unfolding r(5) k using ac_Decrypt_wf [OF r(3)] by (intro cookies_open(3) [OF assms(4,5)]) simp_all
  have sz: "unat (ac_Size ac) < 2 ^ 32" using unsigned_less [of "ac_Size ac", where 'a = nat] by simp
  have "unat (ac_Size ac) * unat (MilliAtomsRTPushRate cfg) < 2 ^ 32 * 2 ^ 32"
    by (rule mult_strict_mono) (use sz assms(6) in auto)
  then have b: "unat m * (unat (ac_Size ac) * unat (MilliAtomsRTPushRate cfg)) \<le>
      (unat paid - unat (MilliAtomsRTJoin cfg)) * unat (RTPushRateMBytes cfg)"
    using CalcRTDTSessPushMB_bound [OF r(4)] assms(2) by simp
  have "unat m < 2 ^ 32" using unsigned_less [of m, where 'a = nat] by simp
  then have "unat (ucast m * 1000000 :: u64) = unat m * 1000000"
    by (subst unat_mult_small) (simp_all add: unat_ucast_u64)
  then have a: "unat (jc_PublishAllowance (joinCookie env ac m)) \<le> unat m * 1000000"
    by (simp add: joinCookie_def)
  have "unat (jc_PublishAllowance (joinCookie env ac m)) * (unat (ac_Size ac) * unat (MilliAtomsRTPushRate cfg)) \<le>
      (unat paid - unat (MilliAtomsRTJoin cfg)) * unat (RTPushRateMBytes cfg) * 1000000"
  proof -
    let ?d = "unat (ac_Size ac) * unat (MilliAtomsRTPushRate cfg)"
    have "unat (jc_PublishAllowance (joinCookie env ac m)) * ?d \<le> unat m * 1000000 * ?d" by (rule mult_le_mono1 [OF a])
    also have "\<dots> = unat m * ?d * 1000000" by (simp only: mult.assoc mult.commute mult.left_commute)
    also have "\<dots> \<le> (unat paid - unat (MilliAtomsRTJoin cfg)) * unat (RTPushRateMBytes cfg) * 1000000" by (rule mult_le_mono1 [OF b])
    finally show ?thesis .
  qed
  then show ?thesis
    using h jc r(3) unfolding k by (intro exI [of _ hash] exI [of _ lni] exI [of _ ac] exI [of _ "joinCookie env ac m"])
      (simp add: joinCookie_def)
qed

lemma appointCookies_open:
  assumes "RTDTCookieKey cfg = Some key" "cookie_laws (svrCrypto cfg) (key # key # RTDTDecodeCookieKeys cfg)"
    "\<And>i. length (randomNonce env i) = 24" "length (sc_ServerSecret sc) = 32" "length owner = 32"
  shows "map (\<lambda>c. ac_Decrypt (svrCrypto cfg) c key (RTDTDecodeCookieKeys cfg)) (appointCookies env cfg key sc owner n peers) =
    map (\<lambda>p. Inr \<lparr>ac_ServerSecret = sc_ServerSecret sc, ac_OwnerSecret = owner, ac_Size = sc_Size sc, ac_PeerID = ap_ID p,
                    ac_AllowedAsPublisher = ap_AllowedAsPublisher p, ac_IsAdmin = ap_IsAdmin p\<rparr>) peers"
  using assms(4,5) by (induction peers arbitrary: n) (simp_all add: cookies_open(2) [OF assms(2,3)])

lemma sint_word_of_int_u64: "- (2 ^ 63) \<le> k \<Longrightarrow> k < 2 ^ 63 \<Longrightarrow> sint (word_of_int k :: u64) = k"
  using signed_take_bit_int_eq_self [of 63 k] by (simp add: signed_of_int)

lemma paidCookies_settled:
  assumes "paidCookies env cfg n pay = Some (Inr paid, pay')" "PayScheme cfg = PaySchemeDCRLN" "0 \<le> sint (MilliAtomsGetCookie cfg)"
    "0 < sint (MilliAtomsPerUserCookie cfg)"
  obtains hash lni amt where "lnGetRTCookieHash pay = Some hash" "LookupInvoice env hash = LnFound lni" "ln_st lni = Invoice_SETTLED"
    "pay' = pay\<lparr>lnGetRTCookieHash := None\<rparr>" "amt = sint (word_of_int (AmtPaidMAtoms lni) :: u64)"
    "paid * sint (MilliAtomsPerUserCookie cfg) \<le> amt - sint (MilliAtomsGetCookie cfg)"
proof -
  let ?g = "MilliAtomsGetCookie cfg" and ?u = "MilliAtomsPerUserCookie cfg"
  obtain hash lni where h: "lnGetRTCookieHash pay = Some hash" "LookupInvoice env hash = LnFound lni" "ln_st lni = Invoice_SETTLED"
      "pay' = pay\<lparr>lnGetRTCookieHash := None\<rparr>" "sint ?g \<le> sint (word_of_int (AmtPaidMAtoms lni) :: u64)"
      "paid = sint (word_of_int (sint (word_of_int (AmtPaidMAtoms lni) - ?g) sdiv sint ?u) :: u64)"
    using assms(1,2) by (auto simp: paidCookies_def lookupPaid_def Let_def not_less split: option.splits sum.splits ln_lookup.splits if_splits)
  define amt where "amt = (word_of_int (AmtPaidMAtoms lni) :: u64)"
  have r: "sint amt < 2 ^ 63" using sint_less [of amt] by simp
  have "amt - ?g = word_of_int (sint amt - sint ?g)" by (simp add: wi_hom_syms)
  then have d: "sint (amt - ?g) = sint amt - sint ?g"
    using h(5) r assms(3) by (simp add: amt_def [symmetric] sint_word_of_int_u64 del: of_int_diff)
  let ?q = "(sint amt - sint ?g) div sint ?u"
  have nn: "0 \<le> sint amt - sint ?g" using h(5) by (simp add: amt_def)
  have q: "0 \<le> ?q" "?q \<le> sint amt - sint ?g"
    using nn assms(4) zdiv_mono2 [of "sint amt - sint ?g" 1 "sint ?u"] by (simp_all add: pos_imp_zdiv_nonneg_iff)
  have "(sint amt - sint ?g) sdiv sint ?u = ?q"
    using nn assms(4) by (simp add: signed_divide_int_def sgn_if)
  then have "paid = ?q" using h(6) q r assms(3) by (simp add: amt_def [symmetric] d sint_word_of_int_u64)
  then have "paid * sint ?u \<le> sint amt - sint ?g"
    using assms(4) by (simp add: minus_mod_eq_div_mult [symmetric])
  with h show ?thesis by (intro that) (simp_all add: amt_def)
qed

text \<open>Appointments are paid for and exact. On a server that is paid over Lightning, a request for appointments is answered only
  for a settled invoice, which is spent by it and pays for the request and for each peer; the reply holds one cookie per peer, in
  order, which opens to the session of the presented session cookie, the owner's secret and the peer with its rights.\<close>

theorem appointments_paid:
  assumes "handleGetRTDTAppointCookie env cfg sessionCookie owner peers old pay = Some (Inr (GetRTDTAppointCookiesReply cs rot), pay')"
    "PayScheme cfg = PaySchemeDCRLN" "0 \<le> sint (MilliAtomsGetCookie cfg)" "0 < sint (MilliAtomsPerUserCookie cfg)"
    "RTDTCookieKey cfg = Some key" "cookie_laws (svrCrypto cfg) (key # key # RTDTDecodeCookieKeys cfg)"
    "\<And>i. length (randomNonce env i) = 24" "length owner = 32"
  shows "\<exists>hash lni sc.
    lnGetRTCookieHash pay = Some hash \<and> LookupInvoice env hash = LnFound lni \<and> ln_st lni = Invoice_SETTLED \<and>
    pay' = pay\<lparr>lnGetRTCookieHash := None\<rparr> \<and>
    int (length peers) * sint (MilliAtomsPerUserCookie cfg) + sint (MilliAtomsGetCookie cfg) \<le>
      sint (word_of_int (AmtPaidMAtoms lni) :: u64) \<and>
    sc_Decrypt (svrCrypto cfg) sessionCookie key (RTDTDecodeCookieKeys cfg) = Inr sc \<and>
    map (\<lambda>c. ac_Decrypt (svrCrypto cfg) c key (RTDTDecodeCookieKeys cfg)) cs =
      map (\<lambda>p. Inr \<lparr>ac_ServerSecret = sc_ServerSecret sc, ac_OwnerSecret = owner, ac_Size = sc_Size sc, ac_PeerID = ap_ID p,
                      ac_AllowedAsPublisher = ap_AllowedAsPublisher p, ac_IsAdmin = ap_IsAdmin p\<rparr>) peers"
proof -
  obtain paid sc where r: "paidCookies env cfg (length peers) pay = Some (Inr paid, pay')" "int (length peers) \<le> paid"
      "sc_Decrypt (svrCrypto cfg) sessionCookie key (RTDTDecodeCookieKeys cfg) = Inr sc" "cs = appointCookies env cfg key sc owner 0 peers"
    using assms(1,5) by (auto simp: handleGetRTDTAppointCookie_def withKey_opened not_less split: option.splits prod.splits sum.splits if_splits)
  obtain hash lni amt where h: "lnGetRTCookieHash pay = Some hash" "LookupInvoice env hash = LnFound lni" "ln_st lni = Invoice_SETTLED"
    "pay' = pay\<lparr>lnGetRTCookieHash := None\<rparr>" "amt = sint (word_of_int (AmtPaidMAtoms lni) :: u64)"
    "paid * sint (MilliAtomsPerUserCookie cfg) \<le> amt - sint (MilliAtomsGetCookie cfg)"
    by (rule paidCookies_settled [OF r(1) assms(2-4)])
  have "int (length peers) * sint (MilliAtomsPerUserCookie cfg) \<le> paid * sint (MilliAtomsPerUserCookie cfg)"
    using r(2) assms(4) by (intro mult_right_mono) auto
  then show ?thesis
    using h r(3) appointCookies_open [OF assms(5-7) sc_Decrypt_wf [OF r(3)] assms(8), of 0 peers]
    by (intro exI [of _ hash] exI [of _ lni] exI [of _ sc]) (simp add: r(4))
qed
section \<open>Examples\<close>

definition ex_rt_pay :: sess_pay where
  "ex_rt_pay = newSessPay\<lparr>lnCreateRTSessHash := Some ex_hash, lnGetRTCookieHash := Some ex_hash, lnPublishInRTSessHash := Some ex_hash\<rparr>"

definition ex_session :: "u32 \<Rightarrow> session_cookie" where
  "ex_session sz = \<lparr>sc_ServerSecret = replicate 32 3, sc_Size = sz\<rparr>"

definition ex_appoint :: "u32 \<Rightarrow> u32 \<Rightarrow> appoint_cookie" where
  "ex_appoint sz i = \<lparr>ac_ServerSecret = replicate 32 3, ac_OwnerSecret = replicate 32 1, ac_Size = sz, ac_PeerID = i,
     ac_AllowedAsPublisher = True, ac_IsAdmin = False\<rparr>"

abbreviation ex_key :: key where
  "ex_key \<equiv> replicate 32 7"

definition ex_session_raw :: "u32 \<Rightarrow> bytes" where
  "ex_session_raw sz = sc_Encrypt ex_crypto (ex_session sz) [] ex_key (replicate 24 0)"

definition ex_appoint_raw :: "u32 \<Rightarrow> u32 \<Rightarrow> bytes" where
  "ex_appoint_raw sz i = ac_Encrypt ex_crypto (ex_appoint sz i) [] ex_key (replicate 24 0)"

lemma ex_keys: "cookie_laws ex_crypto [ex_key, ex_key]"
  by (rule ex_cookie_laws) simp

lemma ex_cookies_open [simp]:
  "sc_Decrypt ex_crypto (ex_session_raw sz) ex_key [] = Inr (ex_session sz)"
  "ac_Decrypt ex_crypto (ex_appoint_raw sz i) ex_key [] = Inr (ex_appoint sz i)"
  by (simp_all add: ex_session_raw_def ex_appoint_raw_def ex_session_def ex_appoint_def cookies_open [OF ex_keys])

lemma ex_svr_sel [simp]:
  "PayScheme ex_svr = PaySchemeDCRLN" "RTDTCookieKey ex_svr = Some ex_key" "RTDTDecodeCookieKeys ex_svr = []" "svrCrypto ex_svr = ex_crypto"
  "MilliAtomsGetCookie ex_svr = 2" "MilliAtomsPerUserCookie ex_svr = 3" "MilliAtomsRTJoin ex_svr = 2"
  "MilliAtomsRTPushRate ex_svr = 1" "RTPushRateMBytes ex_svr = 1" "length (randomNonce ex_pay_env n) = 24"
  by (simp_all add: ex_svr_def ex_pay_env_def)

lemma ex_paid [simp]: "lookupPaid ex_pay_env h = Inr 12"
  by (simp add: lookupPaid_def ex_pay_env_def)

definition ex_join_raw :: "u32 \<Rightarrow> bytes" where
  "ex_join_raw i = jc_Encrypt ex_crypto (joinCookie ex_pay_env (ex_appoint 3 i) 3) [] ex_key (randomNonce ex_pay_env 0)"

lemma ex_appointed:
  assumes "ac_Decrypt ex_crypto raw ex_key [] = Inr (ex_appoint 3 i)"
  shows "handleAppointRTDTServer ex_pay_env ex_svr raw ex_rt_pay =
     Some (Inr (AppointRTDTServerReply (ex_join_raw i) ''rtdt'' None), ex_rt_pay\<lparr>lnPublishInRTSessHash := None\<rparr>)"
proof -
  have "RTDTServerAddr ex_svr = ''rtdt''" "RTDTServerPub ex_svr = None" by (simp_all add: ex_svr_def)
  then show ?thesis
    using assms by (simp add: handleAppointRTDTServer_def publishPaid_def ex_rt_pay_def withKey_def Let_def ex_join_raw_def)
      (simp add: CalcRTDTSessPushMB_def ex_appoint_def maxInt32_def)
qed

theorem join_cookie_paid_witness:
  "\<exists>ac jc. jc_Decrypt ex_crypto (ex_join_raw 5) ex_key [] = Inr jc \<and> jc_PeerID jc = ac_PeerID ac \<and>
     ac_Decrypt ex_crypto (ex_appoint_raw 3 5) ex_key [] = Inr ac \<and>
     unat (jc_PublishAllowance jc) * (unat (ac_Size ac) * 1) \<le> 10000000"
proof -
  have "AmtPaidMAtoms lni = 12" if "LookupInvoice ex_pay_env h = LnFound lni" for h lni using that by (auto simp: ex_pay_env_def)
  then show ?thesis
    using join_cookie_paid [OF ex_appointed [OF ex_cookies_open(2) [of 3 5]] _ _ _ _, of ex_key] ex_keys
    by (fastforce simp del: ex_cookies_open)
qed

lemma ex_join_opens [simp]: "jc_Decrypt ex_crypto (ex_join_raw i) ex_key [] = Inr (joinCookie ex_pay_env (ex_appoint 3 i) 3)"
  unfolding ex_join_raw_def by (rule cookies_open [OF ex_keys]) (simp_all add: ex_appoint_def)

definition ex_peers :: "appoint_peer list" where
  "ex_peers = map (\<lambda>i. \<lparr>ap_ID = i, ap_AllowedAsPublisher = True, ap_IsAdmin = False\<rparr>) [5, 6]"

definition ex_cs :: "bytes list" where
  "ex_cs = appointCookies ex_pay_env ex_svr ex_key (ex_session 3) (replicate 32 1) 0 ex_peers"

lemma ex_cs_reply:
  "handleGetRTDTAppointCookie ex_pay_env ex_svr (ex_session_raw 3) (replicate 32 1) ex_peers None ex_rt_pay =
     Some (Inr (GetRTDTAppointCookiesReply ex_cs []), ex_rt_pay\<lparr>lnGetRTCookieHash := None\<rparr>)"
  by (simp add: handleGetRTDTAppointCookie_def paidCookies_def ex_rt_pay_def ex_peers_def withKey_def Let_def rotateCookie_def
      signed_divide_int_def ex_cs_def)

lemma ex_cs_open: "map (\<lambda>c. ac_Decrypt ex_crypto c ex_key []) ex_cs = map (\<lambda>i. Inr (ex_appoint 3 i)) [5, 6]"
  using appointCookies_open [of ex_svr ex_key ex_pay_env "ex_session 3" "replicate 32 1" 0 ex_peers] ex_keys
  by (simp add: ex_cs_def ex_peers_def ex_appoint_def ex_session_def)

theorem appointments_paid_witness:
  "\<exists>sc. sc_Decrypt ex_crypto (ex_session_raw 3) ex_key [] = Inr sc \<and>
     map (\<lambda>c. ac_Decrypt ex_crypto c ex_key []) ex_cs =
       [Inr \<lparr>ac_ServerSecret = sc_ServerSecret sc, ac_OwnerSecret = replicate 32 1, ac_Size = sc_Size sc, ac_PeerID = 5,
             ac_AllowedAsPublisher = True, ac_IsAdmin = False\<rparr>,
        Inr \<lparr>ac_ServerSecret = sc_ServerSecret sc, ac_OwnerSecret = replicate 32 1, ac_Size = sc_Size sc, ac_PeerID = 6,
             ac_AllowedAsPublisher = True, ac_IsAdmin = False\<rparr>]"
  using appointments_paid [OF ex_cs_reply _ _ _ _ _ _, of ex_key] ex_keys
  by (auto simp: ex_peers_def simp del: ex_cookies_open)

section \<open>Requests that crash the server\<close>

text \<open>A session may be created with size 0, and an appointment to it divides by zero.\<close>

lemma size_zero_crashes:
  "handleCreateRTDTSession ex_pay_env ex_svr 0 ex_rt_pay =
     Some (Inr (CreateRTDTSessionReply (ex_session_raw 0)), ex_rt_pay\<lparr>lnCreateRTSessHash := None\<rparr>) \<and>
   handleAppointRTDTServer ex_pay_env ex_svr (ex_appoint_raw 0 5) ex_rt_pay = None"
proof
  show "handleCreateRTDTSession ex_pay_env ex_svr 0 ex_rt_pay =
     Some (Inr (CreateRTDTSessionReply (ex_session_raw 0)), ex_rt_pay\<lparr>lnCreateRTSessHash := None\<rparr>)"
    by (simp add: handleCreateRTDTSession_def createPaid_def ex_rt_pay_def ex_session_raw_def ex_session_def)
      (simp add: ex_svr_def ex_pay_env_def)
  show "handleAppointRTDTServer ex_pay_env ex_svr (ex_appoint_raw 0 5) ex_rt_pay = None"
    by (simp add: handleAppointRTDTServer_def publishPaid_def ex_rt_pay_def withKey_def Let_def)
      (simp add: CalcRTDTSessPushMB_def ex_appoint_def)
qed

text \<open>A server without real-time sessions has no key for cookies. It refuses to create a session, but an appointment of
  any 117 bytes dereferences nil.\<close>

lemma disabled_crashes:
  assumes "RTDTCookieKey cfg = None" "PayScheme cfg = PaySchemeFree" "117 \<le> length raw"
  shows "handleAppointRTDTServer env cfg raw pay = None"
    "80 \<le> length cookie \<Longrightarrow> handleGetRTDTAppointCookie env cfg cookie owner peers old pay = None"
  using assms by (simp_all add: handleAppointRTDTServer_def handleGetRTDTAppointCookie_def publishPaid_def paidCookies_def withKey_def)

text \<open>With a rate of 0 per appointment, a paid request for appointments divides by zero.\<close>

lemma free_appointments_crash:
  "handleGetRTDTAppointCookie ex_pay_env (ex_svr\<lparr>MilliAtomsPerUserCookie := 0\<rparr>) (ex_session_raw 3) (replicate 32 1) ex_peers None ex_rt_pay = None"
  by (simp add: handleGetRTDTAppointCookie_def paidCookies_def ex_rt_pay_def Let_def)

end
