(* ===== verification/Server_Session.thy ===== *)
theory Server_Session
  imports Tagstack Server_Rtdt
begin

text \<open>
  The server's sessions (\<^verbatim>\<open>src/server/session.go\<close>, \<^verbatim>\<open>src/server/rendezvous.go\<close>): each client connection has a reader
  that handles its requests, a subscriber loop that pushes stored messages to it, and shares with the other
  sessions the map \<open>subscribers\<close>, guarded by one lock, and the database.

  A step of \<open>zksStep\<close> is the part of a handler between two accesses to the database, one choice of the \<^verbatim>\<open>select\<close> in
  \<open>sessionSubscribe\<close>, one critical section, one fetch or one message of its push loop, one step of a goroutine of \<open>maybePushRM\<close>, or one
  file that the expiration loop finds or removes. Each access to the database is a step of its own, with its own clock and its own answers
  of the disk and of the Lightning node, so the steps of the sessions and of the expiration loop interleave as the code lets
  them: no lock is held over the database. The expiration loop may look at any file at any time, with any
  reading of the clock. The lock of the subscribers is explicit: \<open>maybePushRM\<close> may hold it while it waits for room in a
  session's channel (\<open>zlock\<close>). Where a goroutine is in its code is a value (\<open>reader_pc\<close>, \<open>sub_pc\<close>). A panic, or an error of the
  expiration loop, ends the server and sets \<open>crashed\<close>. A write of one file and a read of one file are each one step. What is
  written to a session is recorded in \<open>writer\<close>; that the writer's channel may be full is not modelled. \<open>alive\<close> says that the reader
  takes further requests; \<open>SvDisconnect\<close> ends a session at any time, also after a reply that closes it. The
  \<^verbatim>\<open>tagBitmap\<close> of the reader is set and cleared within the handling of one request and never refuses one, and
  is left out. The lists \<open>stored\<close>, \<open>partial\<close>, \<open>raced\<close>, \<open>removed\<close>, \<open>acked\<close> and \<open>expired\<close> record what happened.
\<close>

section \<open>Types\<close>

definition tagDepth :: nat where
  "tagDepth = 32"

datatype out_payload =
    PushRoutedMessage RVID bytes int
  | RouteMessageReply "string option" invoice
  | SubscribeReply "RVID option" invoice
  | GetInvoiceReply invoice
  | RTDTReply rtdt_reply
  | Pong

record rpc_wrapper =
  out_tag :: u32
  out_payload :: out_payload

datatype client_msg =
    Ping
  | Acknowledge
  | RouteMessage RVID bytes "bytes option"
  | SubscribeRoutedMessages "RVID list" "RVID list" "RVID list"
  | GetInvoice pay_scheme invoice_action
  | RTDTRequest rtdt_request
  | InvalidMessage

text \<open>Where \<open>sessionSubscribe\<close> is: at its \<^verbatim>\<open>select\<close>, waiting for the lock with a request, in its push loop,
  there with a message fetched and without a tag, waiting for the lock to leave, gone, or gone through the error of a removal.\<close>

datatype sub_pc =
    PcSelect
  | PcWantLock "RVID list" "RVID list"
  | PcPush "RVID list"
  | PcTag RVID bytes gtime "RVID list"
  | PcExit
  | PcDone
  | PcFailed

text \<open>Where the reader is in a handler: between the check of an invoice and its redemption, before the look at the
  rendezvous point, between that and the write, before the next point of a subscription, between its check and its record.\<close>

datatype reader_pc =
    RdIdle
  | RdRedeem u32 RVID bytes bytes
  | RdStat u32 RVID bytes invoice
  | RdWrite u32 RVID bytes invoice
  | RdSubs u32 "RVID list" "RVID list" "RVID list" int
  | RdMark u32 "RVID list" "RVID list" RVID "RVID list" int

record sessionContext =
  tagStack :: tag_stack
  tagMessage :: "rpc_wrapper option list"
  writer :: "rpc_wrapper list"
  msgC :: "RVID list"
  msgSetC :: "(RVID list \<times> RVID list) option"
  msgAckC :: "RVID list"
  sessSubs :: "RVID list"
  pc :: sub_pc
  pay :: sess_pay
  alive :: bool
  ackWaits :: "(u32 \<times> rpc_wrapper option) option"
  reader :: reader_pc

definition runNewSession :: sessionContext where
  "runNewSession =
     \<lparr>tagStack = NewBlocking tagDepth, tagMessage = replicate tagDepth None, writer = [], msgC = [], msgSetC = None,
      msgAckC = [], sessSubs = [], pc = PcSelect, pay = newSessPay, alive = True, ackWaits = None, reader = RdIdle\<rparr>"

definition msgC_cap :: nat where
  "msgC_cap = 2"

text \<open>A file that the expiration loop has found in a directory: its time, and the clock and the round of the loop.\<close>

record expiry =
  ex_dir :: db_dir
  ex_name :: bytes
  ex_mod :: gtime
  ex_now :: gtime
  ex_i :: nat

record zks =
  settings :: svr_settings
  subscribers :: "(RVID, nat) gomap"
  sessions :: "(nat, sessionContext) gomap"
  zdb :: fsdb
  zlock :: "(RVID \<times> nat) option"
  pushers :: "RVID list"
  activeSubs :: int
  subsRecv :: int
  rmsRecv :: int
  rmsSent :: int
  crashed :: bool
  expiring :: "expiry list"
  stored :: "(RVID \<times> bytes) list"
  partial :: "(RVID \<times> bytes) list"
  raced :: "(RVID \<times> bytes) list"
  removed :: "RVID list"
  acked :: "(nat \<times> RVID) list"
  expired :: "expiry list"

definition NewServer :: "svr_settings \<Rightarrow> zks" where
  "NewServer cfg = \<lparr>settings = cfg, subscribers = [], sessions = [], zdb = NewFSDB, zlock = None, pushers = [], activeSubs = 0,
     subsRecv = 0, rmsRecv = 0, rmsSent = 0, crashed = False, expiring = [], stored = [], partial = [],
     raced = [], removed = [], acked = [], expired = []\<rparr>"

definition setSession :: "nat \<Rightarrow> sessionContext \<Rightarrow> zks \<Rightarrow> zks" where
  "setSession sid sc z = z\<lparr>sessions := AList.update sid sc (sessions z)\<rparr>"

definition toWriter :: "u32 \<Rightarrow> out_payload \<Rightarrow> sessionContext \<Rightarrow> sessionContext" where
  "toWriter tag p sc = sc\<lparr>writer := writer sc @ [\<lparr>out_tag = tag, out_payload = p\<rparr>]\<rparr>"

section \<open>The reader\<close>

definition ErrRMInvoicePayment :: string where
  "ErrRMInvoicePayment = ''invoice payment error on RM push''"

definition emptyRV :: RVID where
  "emptyRV = replicate 32 0"

text \<open>The next invoice to send along, if it can be generated.\<close>

definition nextRMInvoice :: "pay_env \<Rightarrow> svr_settings \<Rightarrow> sess_pay \<Rightarrow> invoice \<times> sess_pay" where
  "nextRMInvoice env cfg p =
     (case PayScheme cfg of
        PaySchemeFree \<Rightarrow> (''free invoice'', p)
      | _ \<Rightarrow> (case generateNextLNInvoice env cfg ActionPush p of (Inl _, p) \<Rightarrow> ('''', p) | (Inr i, p) \<Rightarrow> (i, p)))"

text \<open>The parts of \<^verbatim>\<open>handleRouteMessage\<close>: the check of the payment, what follows it up to the look at the disk, and the write.\<close>

definition routePaid :: "pay_env \<Rightarrow> u32 \<Rightarrow> RVID \<Rightarrow> bytes \<Rightarrow> nat \<Rightarrow> sessionContext \<Rightarrow> zks \<Rightarrow> zks" where
  "routePaid env tag rv msg sid sc z =
     (let (invc, p) = nextRMInvoice env (settings z) (pay sc) in
      setSession sid (sc\<lparr>pay := p, reader := (if rv = emptyRV then RdIdle else RdStat tag rv msg invc)\<rparr>) z)"

definition handleRouteMessage :: "pay_env \<Rightarrow> u32 \<Rightarrow> RVID \<Rightarrow> bytes \<Rightarrow> bytes option \<Rightarrow> nat \<Rightarrow> sessionContext \<Rightarrow> zks \<Rightarrow> zks" where
  "handleRouteMessage env tag rv msg pid sid sc z =
     (case checkRMPaid env (settings z) (length msg) pid (pay sc) (zdb z) of
        Inl e \<Rightarrow> setSession sid (toWriter tag (RouteMessageReply (Some ErrRMInvoicePayment) '''') sc) z
      | Inr None \<Rightarrow> routePaid env tag rv msg sid sc z
      | Inr (Some i) \<Rightarrow> setSession sid (sc\<lparr>reader := RdRedeem tag rv msg i\<rparr>) z)"

definition routeRedeem :: "pay_env \<Rightarrow> u32 \<Rightarrow> RVID \<Rightarrow> bytes \<Rightarrow> bytes \<Rightarrow> nat \<Rightarrow> sessionContext \<Rightarrow> zks \<Rightarrow> zks" where
  "routeRedeem env tag rv msg i sid sc z =
     (case redeemRM env i (pay sc) (zdb z) of
        (Some e, p, db) \<Rightarrow>
          setSession sid (toWriter tag (RouteMessageReply (Some ErrRMInvoicePayment) '''') (sc\<lparr>pay := p, reader := RdIdle\<rparr>)) (z\<lparr>zdb := db\<rparr>)
      | (None, p, db) \<Rightarrow> routePaid env tag rv msg sid (sc\<lparr>pay := p\<rparr>) (z\<lparr>zdb := db\<rparr>))"

definition routeStat :: "pay_env \<Rightarrow> u32 \<Rightarrow> RVID \<Rightarrow> bytes \<Rightarrow> invoice \<Rightarrow> nat \<Rightarrow> sessionContext \<Rightarrow> zks \<Rightarrow> zks" where
  "routeStat env tag rv msg invc sid sc z =
     (if payloadStored (pay_io env) rv (zdb z)
      then setSession sid (toWriter tag (RouteMessageReply None invc) (sc\<lparr>reader := RdIdle\<rparr>)) z
      else setSession sid (sc\<lparr>reader := RdWrite tag rv msg invc\<rparr>) z)"

text \<open>Another session has looked at the point, found nothing, and has not written yet.\<close>

definition aboutToWrite :: "RVID \<Rightarrow> sessionContext \<Rightarrow> bool" where
  "aboutToWrite rv sc = (case reader sc of RdWrite _ rv' _ _ \<Rightarrow> rv' = rv | _ \<Rightarrow> False)"

definition racing :: "RVID \<Rightarrow> nat \<Rightarrow> zks \<Rightarrow> bool" where
  "racing rv sid z = (\<exists>s\<in>set (map fst (sessions z)). s \<noteq> sid \<and> (case map_of (sessions z) s of Some sc \<Rightarrow> aboutToWrite rv sc | None \<Rightarrow> False))"

definition routeWrite :: "pay_env \<Rightarrow> u32 \<Rightarrow> RVID \<Rightarrow> bytes \<Rightarrow> invoice \<Rightarrow> nat \<Rightarrow> sessionContext \<Rightarrow> zks \<Rightarrow> zks" where
  "routeWrite env tag rv msg invc sid sc z =
     (let race = (\<lambda>content. if racing rv sid z then [(rv, content)] else []); sc = sc\<lparr>reader := RdIdle\<rparr> in
      case WritePayload (pay_io env) (pay_now env) rv msg (zdb z) of
        (Some _, db) \<Rightarrow>
          let left = (case write_leaves (pay_io env) rv of None \<Rightarrow> [] | Some n \<Rightarrow> [take n msg])
          in (setSession sid (toWriter tag (RouteMessageReply (Some ''storage error'') invc) sc) z)
               \<lparr>zdb := db, partial := partial z @ map (Pair rv) left, raced := raced z @ concat (map race left)\<rparr>
      | (None, db) \<Rightarrow>
          (setSession sid (toWriter tag (RouteMessageReply None invc) sc) z)
            \<lparr>zdb := db, pushers := pushers z @ [rv], stored := stored z @ [(rv, msg)], raced := raced z @ race msg\<rparr>)"

definition nextSubInvoice :: "pay_env \<Rightarrow> svr_settings \<Rightarrow> sess_pay \<Rightarrow> invoice \<times> sess_pay" where
  "nextSubInvoice env cfg p =
     (case PayScheme cfg of
        PaySchemeFree \<Rightarrow> (''free invoice'', p)
      | _ \<Rightarrow>
          if lnPayReqHashSub p = None
          then (case generateNextLNInvoice env cfg ActionSub p of (Inl _, p) \<Rightarrow> ('''', p) | (Inr i, p) \<Rightarrow> (i, p))
          else ('''', p))"

text \<open>The parts of \<^verbatim>\<open>handleSubscribeRoutedMessages\<close>: what the invoice allows, one point after the other, and the end. A
  point that is not paid for closes the session, once the reply has been written.\<close>

definition subscribeEnd :: "pay_env \<Rightarrow> u32 \<Rightarrow> RVID list \<Rightarrow> RVID list \<Rightarrow> nat \<Rightarrow> sessionContext \<Rightarrow> zks \<Rightarrow> zks" where
  "subscribeEnd env tag add del sid sc z =
     (if PayScheme (settings z) = PaySchemeOther then setSession sid (sc\<lparr>alive := False, reader := RdIdle\<rparr>) z
      else
        let (invc, p) = nextSubInvoice env (settings z) (pay sc) in
        setSession sid (toWriter tag (SubscribeReply None invc) (sc\<lparr>pay := p, msgSetC := Some (add, del), reader := RdIdle\<rparr>)) z)"

definition handleSubscribeRoutedMessages ::
    "pay_env \<Rightarrow> u32 \<Rightarrow> RVID list \<Rightarrow> RVID list \<Rightarrow> RVID list \<Rightarrow> nat \<Rightarrow> sessionContext \<Rightarrow> zks \<Rightarrow> zks" where
  "handleSubscribeRoutedMessages env tag add del mark sid sc z =
     (if PayScheme (settings z) = PaySchemeFree then subscribeEnd env tag add del sid sc z
      else case subsAllowed env (settings z) (pay sc) of
             None \<Rightarrow> z\<lparr>crashed := True\<rparr>
           | Some (Inl e, p) \<Rightarrow> setSession sid (sc\<lparr>pay := p, alive := False\<rparr>) z
           | Some (Inr nbAllowed, p) \<Rightarrow> setSession sid (sc\<lparr>pay := p, reader := RdSubs tag add del (add @ mark) nbAllowed\<rparr>) z)"

definition subscribeNext ::
    "pay_env \<Rightarrow> u32 \<Rightarrow> RVID list \<Rightarrow> RVID list \<Rightarrow> RVID list \<Rightarrow> int \<Rightarrow> nat \<Rightarrow> sessionContext \<Rightarrow> zks \<Rightarrow> zks" where
  "subscribeNext env tag add del needsPay nbAllowed sid sc z =
     (case needsPay of
        [] \<Rightarrow> subscribeEnd env tag add del sid sc z
      | rv # needsPay \<Rightarrow>
          (case checkSub env rv nbAllowed (zdb z) of
             Inl (UnpaidSubscriptionRV rv) \<Rightarrow> setSession sid (toWriter tag (SubscribeReply (Some rv) '''') (sc\<lparr>reader := RdIdle\<rparr>)) z
           | Inl _ \<Rightarrow> setSession sid (sc\<lparr>alive := False, reader := RdIdle\<rparr>) z
           | Inr True \<Rightarrow> setSession sid (sc\<lparr>reader := RdSubs tag add del needsPay nbAllowed\<rparr>) z
           | Inr False \<Rightarrow> setSession sid (sc\<lparr>reader := RdMark tag add del rv needsPay (nbAllowed - 1)\<rparr>) z))"

definition subscribeMark ::
    "pay_env \<Rightarrow> u32 \<Rightarrow> RVID list \<Rightarrow> RVID list \<Rightarrow> RVID \<Rightarrow> RVID list \<Rightarrow> int \<Rightarrow> nat \<Rightarrow> sessionContext \<Rightarrow> zks \<Rightarrow> zks" where
  "subscribeMark env tag add del rv needsPay nbAllowed sid sc z =
     (case StoreSubscriptionPaid (pay_io env) (pay_now env) rv (zdb z) of
        (Some _, db) \<Rightarrow> setSession sid (sc\<lparr>alive := False, reader := RdIdle\<rparr>) (z\<lparr>zdb := db\<rparr>)
      | (None, db) \<Rightarrow> setSession sid (sc\<lparr>reader := RdSubs tag add del needsPay nbAllowed\<rparr>) (z\<lparr>zdb := db\<rparr>))"

text \<open>The reader goes on with the handler it is in.\<close>

definition readerStep :: "pay_env \<Rightarrow> nat \<Rightarrow> sessionContext \<Rightarrow> zks \<Rightarrow> zks option" where
  "readerStep env sid sc z =
     (case reader sc of
        RdIdle \<Rightarrow> None
      | RdRedeem tag rv msg i \<Rightarrow> Some (routeRedeem env tag rv msg i sid sc z)
      | RdStat tag rv msg invc \<Rightarrow> Some (routeStat env tag rv msg invc sid sc z)
      | RdWrite tag rv msg invc \<Rightarrow> Some (routeWrite env tag rv msg invc sid sc z)
      | RdSubs tag add del needsPay n \<Rightarrow> Some (subscribeNext env tag add del needsPay n sid sc z)
      | RdMark tag add del rv needsPay n \<Rightarrow> Some (subscribeMark env tag add del rv needsPay n sid sc z))"

text \<open>The end of the handling of an acknowledgement, after the tag went back: \<^verbatim>\<open>m.Payload\<close> of a nil \<open>m\<close> panics.\<close>

definition finishAck :: "rpc_wrapper option \<Rightarrow> nat \<Rightarrow> sessionContext \<Rightarrow> zks \<Rightarrow> zks" where
  "finishAck m sid sc z =
     (case m of
        None \<Rightarrow> z\<lparr>crashed := True\<rparr>
      | Some w \<Rightarrow>
          (case out_payload w of
             PushRoutedMessage rv _ _ \<Rightarrow>
               setSession sid (sc\<lparr>msgAckC := msgAckC sc @ [rv]\<rparr>) (z\<lparr>acked := acked z @ [(sid, rv)]\<rparr>)
           | _ \<Rightarrow> setSession sid sc z))"

definition handleAck :: "u32 \<Rightarrow> nat \<Rightarrow> sessionContext \<Rightarrow> zks \<Rightarrow> zks" where
  "handleAck tag sid sc z =
     (let m = tagMessage sc ! unat tag in
      if (case m of Some w \<Rightarrow> out_tag w \<noteq> tag | None \<Rightarrow> False) then setSession sid (sc\<lparr>alive := False\<rparr>) z
      else
        let sc = sc\<lparr>tagMessage := (tagMessage sc)[unat tag := None]\<rparr> in
        (case PushTag tag (tagStack sc) of
           (TagOk _, ts) \<Rightarrow> finishAck m sid (sc\<lparr>tagStack := ts\<rparr>) z
         | (TagErr _, ts) \<Rightarrow> setSession sid (sc\<lparr>alive := False\<rparr>) z
         | (TagBlocks, ts) \<Rightarrow> setSession sid (sc\<lparr>ackWaits := Some (tag, m)\<rparr>) z))"

text \<open>One request. The tag is an index into arrays of \<open>tagDepth\<close> entries; the check lets \<open>tagDepth\<close> itself pass,
  and the index then panics.\<close>

definition handleRequest :: "pay_env \<Rightarrow> u32 \<Rightarrow> client_msg \<Rightarrow> nat \<Rightarrow> sessionContext \<Rightarrow> zks \<Rightarrow> zks" where
  "handleRequest env tag msg sid sc z =
     (if unat tag > tagDepth then setSession sid (sc\<lparr>alive := False\<rparr>) z
      else if unat tag = tagDepth then z\<lparr>crashed := True\<rparr>
      else case msg of
             Ping \<Rightarrow> setSession sid (toWriter tag Pong sc) z
           | Acknowledge \<Rightarrow> handleAck tag sid sc z
           | RouteMessage rv m pid \<Rightarrow> handleRouteMessage env tag rv m pid sid sc z
           | SubscribeRoutedMessages add del mark \<Rightarrow> handleSubscribeRoutedMessages env tag add del mark sid sc z
           | GetInvoice scheme action \<Rightarrow>
               (case handleGetInvoice env (settings z) scheme action (pay sc) of
                  (Inl _, p) \<Rightarrow> setSession sid (sc\<lparr>pay := p, alive := False\<rparr>) z
                | (Inr invc, p) \<Rightarrow> setSession sid (toWriter tag (GetInvoiceReply invc) (sc\<lparr>pay := p\<rparr>)) z)
           | RTDTRequest r \<Rightarrow>
               (case handleRTDT env (settings z) r (pay sc) of
                  None \<Rightarrow> z\<lparr>crashed := True\<rparr>
                | Some (Inl _, p) \<Rightarrow> setSession sid (sc\<lparr>pay := p, alive := False\<rparr>) z
                | Some (Inr reply, p) \<Rightarrow> setSession sid (toWriter tag (RTDTReply reply) (sc\<lparr>pay := p\<rparr>)) z)
           | InvalidMessage \<Rightarrow> setSession sid (sc\<lparr>alive := False\<rparr>) z)"

section \<open>The subscriber loop\<close>

fun delSubs :: "RVID list \<Rightarrow> sessionContext \<Rightarrow> zks \<Rightarrow> sessionContext \<times> zks" where
  "delSubs [] sc z = (sc, z)"
| "delSubs (rv # rvs) sc z =
     (if rv \<notin> set (sessSubs sc) then delSubs rvs sc z
      else delSubs rvs (sc\<lparr>sessSubs := removeAll rv (sessSubs sc)\<rparr>)
             (z\<lparr>subscribers := AList.delete rv (subscribers z), activeSubs := activeSubs z - 1\<rparr>))"

fun addSubs :: "nat \<Rightarrow> RVID list \<Rightarrow> sessionContext \<Rightarrow> zks \<Rightarrow> sessionContext \<times> zks" where
  "addSubs sid [] sc z = (sc, z)"
| "addSubs sid (rv # rvs) sc z =
     addSubs sid rvs (sc\<lparr>sessSubs := List.insert rv (sessSubs sc)\<rparr>)
       (let other = (case map_of (subscribers z) rv of Some o' \<Rightarrow> o' \<noteq> sid | None \<Rightarrow> False)
        in z\<lparr>subscribers := AList.update rv sid (subscribers z), subsRecv := subsRecv z + 1,
             activeSubs := (if other then activeSubs z - 1 else activeSubs z) + 1\<rparr>)"

fun exitSubs :: "nat \<Rightarrow> RVID list \<Rightarrow> zks \<Rightarrow> zks" where
  "exitSubs sid [] z = z"
| "exitSubs sid (rv # rvs) z =
     exitSubs sid rvs
       (if map_of (subscribers z) rv = Some sid
        then z\<lparr>subscribers := AList.delete rv (subscribers z), activeSubs := activeSubs z - 1\<rparr> else z)"

text \<open>An iteration of the push loop: the fetch, and then the push, which waits for a tag (\<open>None\<close>).\<close>

definition afterPush :: "RVID list \<Rightarrow> sub_pc" where
  "afterPush rvs = (if rvs = [] then PcSelect else PcPush rvs)"

definition fetchStored :: "pay_env \<Rightarrow> RVID \<Rightarrow> RVID list \<Rightarrow> zks \<Rightarrow> sub_pc" where
  "fetchStored env rv rvs z =
     (case FetchPayload (pay_io env) rv (zdb z) of
        Inl _ \<Rightarrow> afterPush rvs
      | Inr None \<Rightarrow> afterPush rvs
      | Inr (Some (payload, insertTime)) \<Rightarrow> PcTag rv payload insertTime rvs)"

definition pushStored :: "RVID \<Rightarrow> bytes \<Rightarrow> gtime \<Rightarrow> sessionContext \<Rightarrow> zks \<Rightarrow> (sessionContext \<times> zks) option" where
  "pushStored rv payload insertTime sc z =
     (case PopTag (tagStack sc) of
        (TagBlocks, _) \<Rightarrow> None
      | (TagErr _, ts) \<Rightarrow> Some (sc\<lparr>tagStack := ts\<rparr>, z)
      | (TagOk tag, ts) \<Rightarrow>
          let sc = sc\<lparr>tagStack := ts\<rparr>;
              reply = \<lparr>out_tag = tag, out_payload = PushRoutedMessage rv payload (time_unix (instant insertTime))\<rparr>
          in if tagMessage sc ! unat tag \<noteq> None then Some (sc, z)
             else Some (sc\<lparr>tagMessage := (tagMessage sc)[unat tag := Some reply], writer := writer sc @ [reply]\<rparr>,
                        z\<lparr>rmsSent := rmsSent z + 1\<rparr>))"

section \<open>Expiration\<close>

text \<open>The loop lists a directory with the times of its files, and then removes those of the date; a file may change
  or go in between. The error of a removal, also that of a file that is gone, ends the loop and the server.\<close>

definition expiry_due :: "svr_settings \<Rightarrow> expiry \<Rightarrow> bool" where
  "expiry_due cfg x =
     (ex_i x < nbPriorExpirations \<and>
      date_of (UTC (expirationDate (svrExpirationDays cfg) (ex_now x) (ex_i x))) = date_of (ex_mod x))"

definition expireFind :: "db_dir \<Rightarrow> bytes \<Rightarrow> gtime \<Rightarrow> nat \<Rightarrow> zks \<Rightarrow> zks option" where
  "expireFind dir name now i z =
     (case fileTime dir name (zdb z) of
        None \<Rightarrow> None
      | Some t \<Rightarrow>
          let x = \<lparr>ex_dir = dir, ex_name = name, ex_mod = t, ex_now = now, ex_i = i\<rparr>
          in if \<not> expirationDuration (svrExpirationDays (settings z)) < day \<and> expiry_due (settings z) x
             then Some (z\<lparr>expiring := expiring z @ [x]\<rparr>) else None)"

definition expireRemove :: "nat \<Rightarrow> disk_io \<Rightarrow> zks \<Rightarrow> zks option" where
  "expireRemove k io z =
     (if k < length (expiring z) then
        let x = expiring z ! k; z = z\<lparr>expiring := take k (expiring z) @ drop (k + 1) (expiring z)\<rparr>
        in if fileTime (ex_dir x) (ex_name x) (zdb z) = None \<or> remove_fails io (ex_name x) then Some (z\<lparr>crashed := True\<rparr>)
           else Some (z\<lparr>zdb := removeFile (ex_dir x) (ex_name x) (zdb z), expired := expired z @ [x]\<rparr>)
      else None)"

section \<open>Steps\<close>

datatype zks_event =
    SvConnect nat
  | SvDisconnect nat
  | SvRequest nat pay_env u32 client_msg
  | SvReader nat pay_env
  | SvResumeAck nat
  | SvTakeSet nat
  | SvLockSet nat
  | SvTakeMsg nat
  | SvTakeAck nat nat pay_env
  | SvPushNext nat pay_env
  | SvPushTag nat
  | SvCtxDone nat
  | SvExitLock nat
  | SvPushLock nat
  | SvPushSend
  | SvExpireFind db_dir bytes gtime nat
  | SvExpireRemove nat disk_io

definition withSession :: "nat \<Rightarrow> zks \<Rightarrow> (sessionContext \<Rightarrow> zks option) \<Rightarrow> zks option" where
  "withSession sid z f = Option.bind (map_of (sessions z) sid) f"

definition subscribeStep :: "zks_event \<Rightarrow> zks \<Rightarrow> zks option" where
  "subscribeStep ev z =
     (case ev of
        SvTakeSet sid \<Rightarrow> withSession sid z (\<lambda>sc.
          case (pc sc, msgSetC sc) of
            (PcSelect, Some (add, del)) \<Rightarrow> Some (setSession sid (sc\<lparr>msgSetC := None, pc := PcWantLock add del\<rparr>) z)
          | _ \<Rightarrow> None)
      | SvLockSet sid \<Rightarrow> withSession sid z (\<lambda>sc.
          case (pc sc, zlock z) of
            (PcWantLock add del, None) \<Rightarrow>
              let (sc, z) = delSubs del sc z; (sc, z) = addSubs sid add sc z
              in Some (setSession sid (sc\<lparr>pc := afterPush add\<rparr>) z)
          | _ \<Rightarrow> None)
      | SvTakeMsg sid \<Rightarrow> withSession sid z (\<lambda>sc.
          case (pc sc, msgC sc) of
            (PcSelect, rv # rest) \<Rightarrow> Some (setSession sid (sc\<lparr>msgC := rest, pc := PcPush [rv]\<rparr>) z)
          | _ \<Rightarrow> None)
      | SvTakeAck sid i env \<Rightarrow> withSession sid z (\<lambda>sc.
          if pc sc = PcSelect \<and> i < length (msgAckC sc) then
            let rv = msgAckC sc ! i; sc = sc\<lparr>msgAckC := take i (msgAckC sc) @ drop (i + 1) (msgAckC sc)\<rparr>
            in case RemovePayload (pay_io env) rv (zdb z) of
                 (None, db) \<Rightarrow> Some (setSession sid sc (z\<lparr>zdb := db, removed := removed z @ [rv]\<rparr>))
               | (Some _, db) \<Rightarrow> Some (setSession sid (sc\<lparr>pc := PcFailed, alive := False\<rparr>) (z\<lparr>zdb := db\<rparr>))
          else None)
      | SvPushNext sid env \<Rightarrow> withSession sid z (\<lambda>sc.
          case pc sc of
            PcPush (rv # rvs) \<Rightarrow> Some (setSession sid (sc\<lparr>pc := fetchStored env rv rvs z\<rparr>) z)
          | _ \<Rightarrow> None)
      | SvPushTag sid \<Rightarrow> withSession sid z (\<lambda>sc.
          case pc sc of
            PcTag rv payload insertTime rvs \<Rightarrow>
              map_option (\<lambda>(sc, z). setSession sid (sc\<lparr>pc := afterPush rvs\<rparr>) z) (pushStored rv payload insertTime sc z)
          | _ \<Rightarrow> None)
      | SvCtxDone sid \<Rightarrow> withSession sid z (\<lambda>sc.
          if pc sc = PcSelect \<and> \<not> alive sc then Some (setSession sid (sc\<lparr>pc := PcExit\<rparr>) z) else None)
      | SvExitLock sid \<Rightarrow> withSession sid z (\<lambda>sc.
          if pc sc = PcExit \<and> zlock z = None
          then Some (setSession sid (sc\<lparr>pc := PcDone\<rparr>) (exitSubs sid (sessSubs sc) z)) else None)
      | _ \<Rightarrow> None)"

text \<open>The goroutine of \<open>maybePushRM\<close> that takes the lock, and the one that holds it.\<close>

definition maybePushRM :: "RVID \<Rightarrow> zks \<Rightarrow> zks" where
  "maybePushRM rv z =
     (let z = z\<lparr>rmsRecv := rmsRecv z + 1\<rparr> in
      case map_of (subscribers z) rv of
        None \<Rightarrow> z
      | Some sid \<Rightarrow>
          (case map_of (sessions z) sid of
             None \<Rightarrow> z
           | Some sc \<Rightarrow>
               if length (msgC sc) < msgC_cap then setSession sid (sc\<lparr>msgC := msgC sc @ [rv]\<rparr>) z
               else z\<lparr>zlock := Some (rv, sid)\<rparr>))"

definition zksStep :: "zks_event \<Rightarrow> zks \<Rightarrow> zks option" where
  "zksStep ev z =
     (if crashed z then None
      else case ev of
        SvConnect sid \<Rightarrow> if map_of (sessions z) sid = None then Some (setSession sid runNewSession z) else None
      | SvDisconnect sid \<Rightarrow> withSession sid z (\<lambda>sc. Some (setSession sid (sc\<lparr>alive := False\<rparr>) z))
      | SvRequest sid env tag msg \<Rightarrow> withSession sid z (\<lambda>sc.
          if alive sc \<and> msgSetC sc = None \<and> ackWaits sc = None \<and> reader sc = RdIdle then Some (handleRequest env tag msg sid sc z) else None)
      | SvReader sid env \<Rightarrow> withSession sid z (\<lambda>sc. readerStep env sid sc z)
      | SvResumeAck sid \<Rightarrow> withSession sid z (\<lambda>sc.
          case ackWaits sc of
            None \<Rightarrow> None
          | Some (tag, m) \<Rightarrow>
              (case PushTag tag (tagStack sc) of
                 (TagOk _, ts) \<Rightarrow> Some (finishAck m sid (sc\<lparr>tagStack := ts, ackWaits := None\<rparr>) z)
               | _ \<Rightarrow> None))
      | SvPushLock i \<Rightarrow>
          if zlock z = None \<and> i < length (pushers z)
          then Some (maybePushRM (pushers z ! i) (z\<lparr>pushers := take i (pushers z) @ drop (i + 1) (pushers z)\<rparr>)) else None
      | SvPushSend \<Rightarrow>
          (case zlock z of
             None \<Rightarrow> None
           | Some (rv, sid) \<Rightarrow> withSession sid z (\<lambda>sc.
               if length (msgC sc) < msgC_cap
               then Some (setSession sid (sc\<lparr>msgC := msgC sc @ [rv]\<rparr>) (z\<lparr>zlock := None\<rparr>)) else None))
      | SvExpireFind dir name now i \<Rightarrow> expireFind dir name now i z
      | SvExpireRemove k io \<Rightarrow> expireRemove k io z
      | _ \<Rightarrow> subscribeStep ev z)"

inductive zks_reachable :: "svr_settings \<Rightarrow> zks \<Rightarrow> bool" for cfg where
  zks_init: "zks_reachable cfg (NewServer cfg)"
| zks_step: "zks_reachable cfg z \<Longrightarrow> zksStep ev z = Some z' \<Longrightarrow> zks_reachable cfg z'"

fun zksRun :: "zks_event list \<Rightarrow> zks \<Rightarrow> zks option" where
  "zksRun [] z = Some z"
| "zksRun (ev # evs) z = Option.bind (zksStep ev z) (zksRun evs)"

section \<open>The invariant\<close>

text \<open>The tags of a session: a tag is in the pool or carried by a message that waits for its
  acknowledgement, and never both.\<close>

definition tags_ok :: "sessionContext \<Rightarrow> bool" where
  "tags_ok sc =
     (blocking (tagStack sc) \<and> stackC_cap (tagStack sc) = tagDepth \<and> length (tagMessage sc) = tagDepth \<and>
      distinct (stackC (tagStack sc)) \<and> (\<forall>t\<in>set (stackC (tagStack sc)). unat t < tagDepth) \<and>
      (\<forall>i<tagDepth. tagMessage sc ! i = None \<longleftrightarrow> of_nat i \<in> set (stackC (tagStack sc))) \<and>
      (\<forall>i<tagDepth. \<forall>w. tagMessage sc ! i = Some w \<longrightarrow> out_tag w = of_nat i \<and> w \<in> set (writer sc)))"

definition was_expired :: "zks \<Rightarrow> db_dir \<Rightarrow> bytes \<Rightarrow> bool" where
  "was_expired z dir name = (\<exists>x\<in>set (expired z). ex_dir x = dir \<and> ex_name x = name)"

text \<open>A point that may be pushed: it is recorded as paid, or it was until its record expired. And what has been put at
  points: whole messages, and the parts that failed writes left.\<close>

definition sub_auth :: "zks \<Rightarrow> RVID \<Rightarrow> bool" where
  "sub_auth z rv = (PayScheme (settings z) = PaySchemeFree \<or> sub_paid (zdb z) rv \<or> was_expired z DirSubs rv)"

definition arrived :: "zks \<Rightarrow> (RVID \<times> bytes) set" where
  "arrived z = set (stored z) \<union> set (partial z)"

definition pushed :: "sessionContext \<Rightarrow> RVID \<Rightarrow> bytes \<Rightarrow> bool" where
  "pushed sc rv p = (\<exists>w\<in>set (writer sc). \<exists>ts. out_payload w = PushRoutedMessage rv p ts)"

definition wanted :: "sessionContext \<Rightarrow> RVID set" where
  "wanted sc = set (sessSubs sc) \<union> set (msgC sc) \<union>
     (case msgSetC sc of None \<Rightarrow> {} | Some (add, del) \<Rightarrow> set add) \<union>
     (case pc sc of PcWantLock add del \<Rightarrow> set add | PcPush rvs \<Rightarrow> set rvs | PcTag rv p t rvs \<Rightarrow> insert rv (set rvs) | _ \<Rightarrow> {})"

text \<open>What a reader in the middle of a handler knows.\<close>

definition reader_ok :: "zks \<Rightarrow> sessionContext \<Rightarrow> bool" where
  "reader_ok z sc =
     (case reader sc of
        RdWrite tag rv m i \<Rightarrow> \<forall>p t. map_of (rootMsgs (zdb z)) rv = Some (p, t) \<longrightarrow> (rv, p) \<in> set (raced z)
      | RdSubs tag add del todo n \<Rightarrow> \<forall>r\<in>set add. r \<in> set todo \<or> sub_auth z r
      | RdMark tag add del rv todo n \<Rightarrow> \<forall>r\<in>set add. r = rv \<or> r \<in> set todo \<or> sub_auth z r
      | _ \<Rightarrow> True)"

definition sess_inv :: "zks \<Rightarrow> nat \<Rightarrow> sessionContext \<Rightarrow> bool" where
  "sess_inv z sid sc =
     (tags_ok sc \<and> (\<forall>tag m. ackWaits sc = Some (tag, m) \<longrightarrow> m = None) \<and>
      (\<forall>rv p. pushed sc rv p \<longrightarrow> (rv, p) \<in> arrived z \<and> sub_auth z rv) \<and>
      (\<forall>rv\<in>wanted sc. sub_auth z rv) \<and>
      (\<forall>rv p t rvs. pc sc = PcTag rv p t rvs \<longrightarrow> (rv, p) \<in> arrived z) \<and>
      reader_ok z sc \<and>
      (\<forall>rv\<in>set (msgAckC sc). (sid, rv) \<in> set (acked z)))"

definition db_inv :: "zks \<Rightarrow> bool" where
  "db_inv z =
     ((\<forall>rv p t. map_of (rootMsgs (zdb z)) rv = Some (p, t) \<longrightarrow> (rv, p) \<in> arrived z) \<and>
      (\<forall>rv p. (rv, p) \<in> set (stored z) \<longrightarrow>
         rv \<in> set (removed z) \<or> (\<exists>t. map_of (rootMsgs (zdb z)) rv = Some (p, t)) \<or> was_expired z DirMsgs rv \<or> (rv, p) \<in> set (raced z)) \<and>
      (\<forall>rv\<in>set (removed z). \<exists>sid. (sid, rv) \<in> set (acked z)) \<and>
      (\<forall>x\<in>set (expiring z) \<union> set (expired z). expiry_due (settings z) x))"

definition zks_inv :: "zks \<Rightarrow> bool" where
  "zks_inv z =
     (db_inv z \<and>
      (\<forall>sid sc. map_of (sessions z) sid = Some sc \<longrightarrow> sess_inv z sid sc) \<and>
      (\<forall>rv sid. map_of (subscribers z) rv = Some sid \<longrightarrow>
         (\<exists>sc. map_of (sessions z) sid = Some sc \<and> rv \<in> set (sessSubs sc) \<and> pc sc \<noteq> PcDone)) \<and>
      (\<forall>sid rv. (sid, rv) \<in> set (acked z) \<longrightarrow>
         (\<exists>sc p. map_of (sessions z) sid = Some sc \<and> pushed sc rv p)) \<and>
      (\<forall>rv sid. zlock z = Some (rv, sid) \<longrightarrow> sub_auth z rv))"

text \<open>What a step may do that is not the write of a message: add payments, acknowledgements and expirations, and remove
  messages.\<close>

definition grows :: "zks \<Rightarrow> zks \<Rightarrow> bool" where
  "grows z z' =
     (settings z' = settings z \<and> (\<forall>rv. sub_paid (zdb z) rv \<longrightarrow> sub_paid (zdb z') rv \<or> was_expired z' DirSubs rv) \<and>
      arrived z \<subseteq> arrived z' \<and> set (acked z) \<subseteq> set (acked z') \<and> set (expired z) \<subseteq> set (expired z') \<and>
      set (raced z) \<subseteq> set (raced z') \<and>
      (\<forall>rv x. map_of (rootMsgs (zdb z')) rv = Some x \<longrightarrow> map_of (rootMsgs (zdb z)) rv = Some x))"

lemma grows_refl [simp]: "grows z z"
  by (simp add: grows_def)

lemma sub_auth_grows: "grows z z' \<Longrightarrow> sub_auth z rv \<Longrightarrow> sub_auth z' rv"
  by (auto simp: grows_def sub_auth_def was_expired_def)

lemma reader_ok_grows:
  assumes "grows z z'" "reader_ok z sc"
  shows "reader_ok z' sc"
proof (cases "reader sc")
  case (RdWrite tag rv m i)
  then show ?thesis using assms by (fastforce simp: reader_ok_def grows_def)
qed (use assms sub_auth_grows [OF assms(1)] in \<open>auto simp: reader_ok_def\<close>)

lemma sess_inv_grows:
  assumes "sess_inv z sid sc" "grows z z'"
  shows "sess_inv z' sid sc"
  using assms(1) sub_auth_grows [OF assms(2)] reader_ok_grows [OF assms(2)] assms(2)
  unfolding sess_inv_def grows_def by blast

lemma pushed_mono: "set (writer sc) \<subseteq> set (writer sc') \<Longrightarrow> pushed sc rv p \<Longrightarrow> pushed sc' rv p"
  by (auto simp: pushed_def)

lemma zks_inv_grows:
  assumes "zks_inv z" "grows z z'" "db_inv z'" "sessions z' = sessions z" "subscribers z' = subscribers z"
    "acked z' = acked z" "zlock z' = zlock z"
  shows "zks_inv z'"
  using assms(1,3) sess_inv_grows [OF _ assms(2)] sub_auth_grows [OF assms(2)]
  unfolding zks_inv_def assms(4-7) by blast

text \<open>The step of one session: what has to be shown of its new state.\<close>

lemma zks_inv_session:
  assumes inv: "zks_inv z" and sc0: "map_of (sessions z) sid = Some sc0"
    and z1: "sessions z1 = sessions z" "grows z z1" "db_inv z1"
    and sc: "sess_inv z1 sid sc" "set (writer sc0) \<subseteq> set (writer sc)"
    and subs: "\<And>rv s. map_of (subscribers z1) rv = Some s \<Longrightarrow>
      if s = sid then rv \<in> set (sessSubs sc) \<and> pc sc \<noteq> PcDone else map_of (subscribers z) rv = Some s"
    and ack: "\<And>s rv. (s, rv) \<in> set (acked z1) \<Longrightarrow> (s, rv) \<in> set (acked z) \<or> s = sid \<and> (\<exists>p. pushed sc rv p)"
    and lock: "\<And>rv s. zlock z1 = Some (rv, s) \<Longrightarrow> sub_auth z1 rv"
  shows "zks_inv (setSession sid sc z1)"
proof -
  have upd: "map_of (sessions (setSession sid sc z1)) = (map_of (sessions z))(sid \<mapsto> sc)"
    using z1(1) by (simp add: setSession_def)
  have same: "grows z1 (setSession sid sc z1)" by (simp add: grows_def setSession_def arrived_def)
  have "sess_inv (setSession sid sc z1) s c" if "map_of (sessions (setSession sid sc z1)) s = Some c" for s c
  proof (cases "s = sid")
    case True
    with that sc(1) same show ?thesis by (auto simp: upd intro: sess_inv_grows)
  next
    case False
    with that inv have "sess_inv z s c" by (simp add: upd zks_inv_def)
    then show ?thesis using z1(2) same by (blast intro: sess_inv_grows)
  qed
  moreover have "\<exists>c. map_of (sessions (setSession sid sc z1)) s = Some c \<and> rv \<in> set (sessSubs c) \<and> pc c \<noteq> PcDone"
    if "map_of (subscribers (setSession sid sc z1)) rv = Some s" for rv s
  proof -
    have s: "map_of (subscribers z1) rv = Some s" using that by (simp add: setSession_def)
    show ?thesis using subs [OF s] inv by (cases "s = sid") (auto simp: upd zks_inv_def)
  qed
  moreover have "\<exists>c p. map_of (sessions (setSession sid sc z1)) s = Some c \<and> pushed c rv p"
    if "(s, rv) \<in> set (acked (setSession sid sc z1))" for s rv
  proof -
    have "(s, rv) \<in> set (acked z1)" using that by (simp add: setSession_def)
    from ack [OF this] show ?thesis
    proof
      assume "(s, rv) \<in> set (acked z)"
      with inv obtain c p where c: "map_of (sessions z) s = Some c" "pushed c rv p"
        unfolding zks_inv_def by blast
      show ?thesis
      proof (cases "s = sid")
        case True
        with c sc0 pushed_mono [OF sc(2)] show ?thesis by (auto simp: upd)
      next
        case False
        with c show ?thesis by (auto simp: upd)
      qed
    qed (auto simp: upd)
  qed
  moreover have "db_inv (setSession sid sc z1)" using z1(3) by (simp add: db_inv_def setSession_def arrived_def was_expired_def)
  moreover have "\<And>rv s. zlock (setSession sid sc z1) = Some (rv, s) \<Longrightarrow> sub_auth (setSession sid sc z1) rv"
    using lock by (simp add: setSession_def sub_auth_def was_expired_def)
  ultimately show ?thesis unfolding zks_inv_def by blast
qed

lemma subscribers_kept:
  assumes "zks_inv z" "map_of (sessions z) sid = Some sc0" "set (sessSubs sc0) \<subseteq> set (sessSubs sc)"
    "pc sc0 \<noteq> PcDone \<Longrightarrow> pc sc \<noteq> PcDone" "map_of (subscribers z) rv = Some s"
  shows "if s = sid then rv \<in> set (sessSubs sc) \<and> pc sc \<noteq> PcDone else map_of (subscribers z) rv = Some s"
proof -
  obtain c where "map_of (sessions z) s = Some c" "rv \<in> set (sessSubs c)" "pc c \<noteq> PcDone"
    using assms(1,5) unfolding zks_inv_def by blast
  then show ?thesis using assms by auto
qed

lemma zks_inv_session_same:
  assumes "zks_inv z" "map_of (sessions z) sid = Some sc0" "sess_inv z sid sc" "set (writer sc0) \<subseteq> set (writer sc)"
    "set (sessSubs sc0) \<subseteq> set (sessSubs sc)" "pc sc0 \<noteq> PcDone \<Longrightarrow> pc sc \<noteq> PcDone"
  shows "zks_inv (setSession sid sc z)"
proof (rule zks_inv_session [OF assms(1,2) _ _ _ assms(3,4)])
  show "db_inv z" using assms(1) by (simp add: zks_inv_def)
  show "sub_auth z rv" if "zlock z = Some (rv, s)" for rv s using assms(1) that unfolding zks_inv_def by blast
qed (use subscribers_kept [OF assms(1,2,5,6)] in auto)

section \<open>The operations keep the invariant\<close>

text \<open>A session's state that keeps its tags, its subscriptions and its place in the code, and writes no
  pushed message.\<close>

definition quiet :: "sessionContext \<Rightarrow> sessionContext \<Rightarrow> bool" where
  "quiet sc0 sc =
     (tagStack sc = tagStack sc0 \<and> tagMessage sc = tagMessage sc0 \<and> msgC sc = msgC sc0 \<and> msgAckC sc = msgAckC sc0 \<and>
      sessSubs sc = sessSubs sc0 \<and> pc sc = pc sc0 \<and> ackWaits sc = ackWaits sc0 \<and>
      (\<exists>ws. writer sc = writer sc0 @ ws \<and> (\<forall>w\<in>set ws. \<forall>rv p t. out_payload w \<noteq> PushRoutedMessage rv p t)))"

lemma quiet_pushed: "quiet sc0 sc \<Longrightarrow> pushed sc rv p = pushed sc0 rv p"
  by (fastforce simp: quiet_def pushed_def)

lemma sess_inv_quiet:
  assumes "sess_inv z sid sc0" "quiet sc0 sc"
    "msgSetC sc = msgSetC sc0 \<or> (\<exists>add del. msgSetC sc = Some (add, del) \<and> (\<forall>rv\<in>set add. sub_auth z rv))"
    "reader sc = reader sc0 \<or> reader_ok z sc"
  shows "sess_inv z sid sc"
proof -
  have "reader_ok z sc" using assms(1,4) by (auto simp: sess_inv_def reader_ok_def)
  moreover
  have "tags_ok sc" using assms(1,2) by (auto simp: sess_inv_def quiet_def tags_ok_def)
  moreover have "\<forall>rv\<in>wanted sc. sub_auth z rv"
    using assms by (auto simp: sess_inv_def quiet_def wanted_def split: option.splits sub_pc.splits)
  ultimately show ?thesis
    using assms(1,2) quiet_pushed [OF assms(2)] by (auto simp: sess_inv_def quiet_def)
qed

lemma zks_inv_quiet:
  assumes inv: "zks_inv z" and sc0: "map_of (sessions z) sid = Some sc0" and q: "quiet sc0 sc"
    and z1: "sessions z1 = sessions z" "grows z z1" "db_inv z1" "subscribers z1 = subscribers z" "acked z1 = acked z"
      "zlock z1 = zlock z"
    and set_c: "msgSetC sc = msgSetC sc0 \<or> (\<exists>add del. msgSetC sc = Some (add, del) \<and> (\<forall>rv\<in>set add. sub_auth z1 rv))"
    and rd: "reader sc = reader sc0 \<or> reader_ok z1 sc"
  shows "zks_inv (setSession sid sc z1)"
proof (rule zks_inv_session [OF inv sc0 z1(1,2,3)])
  have "sess_inv z1 sid sc0" using inv sc0 z1(2) by (auto simp: zks_inv_def intro: sess_inv_grows)
  then show "sess_inv z1 sid sc" by (rule sess_inv_quiet [OF _ q set_c rd])
  show "set (writer sc0) \<subseteq> set (writer sc)" using q by (auto simp: quiet_def)
  show "if s = sid then rv \<in> set (sessSubs sc) \<and> pc sc \<noteq> PcDone else map_of (subscribers z) rv = Some s"
    if "map_of (subscribers z1) rv = Some s" for rv s
    by (rule subscribers_kept [OF inv sc0]) (use that q z1(4) in \<open>auto simp: quiet_def\<close>)
  show "(s, rv) \<in> set (acked z) \<or> s = sid \<and> (\<exists>p. pushed sc rv p)" if "(s, rv) \<in> set (acked z1)" for s rv
    using that z1(5) by simp
  show "sub_auth z1 rv" if "zlock z1 = Some (rv, s)" for rv s
  proof -
    have "sub_auth z rv" using that z1(6) inv unfolding zks_inv_def by metis
    then show ?thesis by (rule sub_auth_grows [OF z1(2)])
  qed
qed

lemma quiet_upd [simp]:
  "quiet sc sc" "quiet sc0 (sc\<lparr>alive := b\<rparr>) = quiet sc0 sc" "quiet sc0 (sc\<lparr>pay := p\<rparr>) = quiet sc0 sc"
  "quiet sc0 (sc\<lparr>reader := r\<rparr>) = quiet sc0 sc" "quiet sc0 (sc\<lparr>msgSetC := x\<rparr>) = quiet sc0 sc"
  by (simp_all add: quiet_def)

lemma quiet_toWriter:
  "quiet sc0 sc \<Longrightarrow> (\<forall>rv q t. p \<noteq> PushRoutedMessage rv q t) \<Longrightarrow> quiet sc0 (toWriter tag p sc)"
  by (auto simp: quiet_def toWriter_def)

lemma toWriter_simps [simp]:
  "msgSetC (toWriter tag p sc) = msgSetC sc" "reader (toWriter tag p sc) = reader sc"
  by (simp_all add: toWriter_def)

lemma reader_ok_idle [simp]: "reader sc = RdIdle \<Longrightarrow> reader_ok z sc"
  by (simp add: reader_ok_def)

lemma db_inv_same:
  "db_inv z \<Longrightarrow> map_of (rootMsgs db) = map_of (rootMsgs (zdb z)) \<Longrightarrow> db_inv (z\<lparr>zdb := db\<rparr>)"
  by (simp add: db_inv_def arrived_def was_expired_def)

lemma zks_inv_reader_ok: "zks_inv z \<Longrightarrow> map_of (sessions z) sid = Some sc \<Longrightarrow> reader_ok z sc"
  by (simp add: zks_inv_def sess_inv_def)

lemma zks_inv_crashed [simp]: "zks_inv (z\<lparr>crashed := True\<rparr>) = zks_inv z"
  by (simp add: zks_inv_def db_inv_def sess_inv_def sub_auth_def reader_ok_def arrived_def was_expired_def cong: reader_pc.case_cong)

text \<open>A step of the reader: it may write a reply, move on in its handler, and have changed the database.\<close>

lemma zks_inv_reader_db:
  assumes inv: "zks_inv z" and sc0: "map_of (sessions z) sid = Some sc0" and q: "quiet sc0 sc" and set_c: "msgSetC sc = msgSetC sc0"
    and db: "map_of (rootMsgs db) = map_of (rootMsgs (zdb z))" "\<And>rv. sub_paid (zdb z) rv \<Longrightarrow> sub_paid db rv"
    and rd: "reader sc = reader sc0 \<or> reader_ok (z\<lparr>zdb := db\<rparr>) sc"
  shows "zks_inv (setSession sid sc (z\<lparr>zdb := db\<rparr>))"
proof (rule zks_inv_quiet [OF inv sc0 q _ _ _ _ _ _ _ rd])
  show "grows z (z\<lparr>zdb := db\<rparr>)" using db by (simp add: grows_def arrived_def)
  show "db_inv (z\<lparr>zdb := db\<rparr>)" using inv db(1) by (simp add: zks_inv_def db_inv_same)
qed (use set_c in simp_all)

lemma zks_inv_reader_same:
  assumes "zks_inv z" "map_of (sessions z) sid = Some sc0" "quiet sc0 sc" "msgSetC sc = msgSetC sc0"
    "reader sc = reader sc0 \<or> reader_ok z sc"
  shows "zks_inv (setSession sid sc z)"
  using zks_inv_reader_db [OF assms(1-4), of "zdb z"] assms(5) by simp

lemma redeemRM_db:
  assumes "redeemRM env i p db = (e, p', db')"
  shows "map_of (rootMsgs db') = map_of (rootMsgs db)" "sub_paid db' = sub_paid db"
  using assms fsdb.redeem_rest [of "pay_io env" "pay_now env" i db] by (auto simp: redeemRM_def split: prod.splits)

lemma zks_inv_routePaid:
  assumes "zks_inv z" "map_of (sessions z) sid = Some sc0" "quiet sc0 sc" "msgSetC sc = msgSetC sc0"
    "map_of (rootMsgs db) = map_of (rootMsgs (zdb z))" "\<And>rv. sub_paid (zdb z) rv \<Longrightarrow> sub_paid db rv"
  shows "zks_inv (routePaid env tag rv msg sid sc (z\<lparr>zdb := db\<rparr>))"
proof -
  obtain invc p where nxt: "nextRMInvoice env (settings z) (pay sc) = (invc, p)" by fastforce
  show ?thesis unfolding routePaid_def
    using zks_inv_reader_db [OF assms(1,2) _ _ assms(5,6), of "sc\<lparr>pay := p, reader := (if rv = emptyRV then RdIdle else RdStat tag rv msg invc)\<rparr>"]
      assms(3,4) nxt by (simp add: reader_ok_def)
qed

lemma zks_inv_route:
  assumes inv: "zks_inv z" and sc0: "map_of (sessions z) sid = Some sc0"
  shows "zks_inv (handleRouteMessage env tag rv msg pid sid sc0 z)"
proof -
  have q: "quiet sc0 (toWriter tag (RouteMessageReply x i) sc0)" for x i by (rule quiet_toWriter) simp_all
  have "zks_inv (setSession sid (toWriter tag (RouteMessageReply x i) sc0) z)" for x i
    by (rule zks_inv_reader_same [OF inv sc0 q]) simp_all
  moreover have "zks_inv (setSession sid (sc0\<lparr>reader := RdRedeem tag rv msg i\<rparr>) z)" for i
    by (rule zks_inv_reader_same [OF inv sc0]) (simp_all add: reader_ok_def)
  ultimately show ?thesis
    using zks_inv_routePaid [OF inv sc0, of sc0 "zdb z"] by (simp add: handleRouteMessage_def split: sum.split option.split)
qed

lemma zks_inv_routeRedeem:
  assumes inv: "zks_inv z" and sc0: "map_of (sessions z) sid = Some sc0"
  shows "zks_inv (routeRedeem env tag rv msg i sid sc0 z)"
proof -
  obtain e p db where r: "redeemRM env i (pay sc0) (zdb z) = (e, p, db)" by (metis prod_cases3)
  note db = redeemRM_db [OF r]
  have q: "quiet sc0 (toWriter tag (RouteMessageReply x j) (sc0\<lparr>pay := p, reader := RdIdle\<rparr>))" for x j
    by (rule quiet_toWriter) simp_all
  have "zks_inv (setSession sid (toWriter tag (RouteMessageReply x j) (sc0\<lparr>pay := p, reader := RdIdle\<rparr>)) (z\<lparr>zdb := db\<rparr>))" for x j
    by (rule zks_inv_reader_db [OF inv sc0 q]) (simp_all add: db)
  moreover have "zks_inv (routePaid env tag rv msg sid (sc0\<lparr>pay := p\<rparr>) (z\<lparr>zdb := db\<rparr>))"
    by (rule zks_inv_routePaid [OF inv sc0]) (simp_all add: db)
  ultimately show ?thesis using r by (simp add: routeRedeem_def split: option.split)
qed

lemma zks_inv_routeStat:
  assumes inv: "zks_inv z" and sc0: "map_of (sessions z) sid = Some sc0"
  shows "zks_inv (routeStat env tag rv msg invc sid sc0 z)"
proof -
  have q: "quiet sc0 (toWriter tag (RouteMessageReply x j) (sc0\<lparr>reader := RdIdle\<rparr>))" for x j
    by (rule quiet_toWriter) simp_all
  have "zks_inv (setSession sid (toWriter tag (RouteMessageReply x j) (sc0\<lparr>reader := RdIdle\<rparr>)) z)" for x j
    by (rule zks_inv_reader_same [OF inv sc0 q]) simp_all
  moreover have "zks_inv (setSession sid (sc0\<lparr>reader := RdWrite tag rv msg invc\<rparr>) z)" if "\<not> payloadStored (pay_io env) rv (zdb z)"
    by (rule zks_inv_reader_same [OF inv sc0]) (use that in \<open>simp_all add: reader_ok_def payloadStored_def\<close>)
  ultimately show ?thesis by (simp add: routeStat_def)
qed

text \<open>The write. A message that it writes over was stored while the writer was about to write.\<close>

lemma zks_inv_written:
  assumes inv: "zks_inv z" and db: "map_of (rootMsgs db) = (map_of (rootMsgs (zdb z)))(rv \<mapsto> (content, t))" "rootSubs db = rootSubs (zdb z)"
    and over: "\<And>p t. map_of (rootMsgs (zdb z)) rv = Some (p, t) \<Longrightarrow> (rv, p) \<in> set (raced z)"
    and race: "\<And>s sc. map_of (sessions z) s = Some sc \<Longrightarrow> aboutToWrite rv sc \<Longrightarrow> (rv, content) \<in> set (raced z')"
    and z': "settings z' = settings z" "sessions z' = sessions z" "subscribers z' = subscribers z" "zdb z' = db" "zlock z' = zlock z"
      "removed z' = removed z" "acked z' = acked z" "expired z' = expired z" "expiring z' = expiring z"
      "set (raced z) \<subseteq> set (raced z')" "arrived z' = insert (rv, content) (arrived z)" "set (stored z') \<subseteq> insert (rv, content) (set (stored z))"
  shows "zks_inv z'"
proof -
  have auth: "sub_auth z' = sub_auth z" using z' db(2) by (simp add: fun_eq_iff sub_auth_def sub_paid_def was_expired_def)
  have "reader_ok z' sc" if "reader_ok z sc" "map_of (sessions z) s = Some sc" for s sc
  proof (cases "reader sc")
    case (RdWrite tag r m i)
    then show ?thesis using that race [OF that(2)] z'(4,10) db(1) by (auto simp: reader_ok_def aboutToWrite_def)
  qed (use that auth in \<open>simp_all add: reader_ok_def\<close>)
  then have "sess_inv z' s sc" if "sess_inv z s sc" "map_of (sessions z) s = Some sc" for s sc
    using that auth unfolding sess_inv_def z'(7,11) by simp
  moreover have "db_inv z'"
  proof -
    have d: "db_inv z" using inv by (simp add: zks_inv_def)
    have "(r, p) \<in> arrived z'" if "map_of (rootMsgs db) r = Some (p, u)" for r p u
      using d that db(1) unfolding db_inv_def z'(11) by (auto split: if_splits)
    moreover have "r \<in> set (removed z) \<or> (\<exists>t. map_of (rootMsgs db) r = Some (p, t)) \<or> was_expired z DirMsgs r \<or> (r, p) \<in> set (raced z')"
      if "(r, p) \<in> set (stored z')" for r p
    proof (cases "(r, p) = (rv, content)")
      case True
      then show ?thesis using db(1) by simp
    next
      case False
      then have "(r, p) \<in> set (stored z)" using that z'(12) by blast
      then consider "r \<in> set (removed z)" | t where "map_of (rootMsgs (zdb z)) r = Some (p, t)" | "was_expired z DirMsgs r"
          | "(r, p) \<in> set (raced z)"
        using d unfolding db_inv_def by blast
      then show ?thesis
      proof cases
        case (2 u)
        then show ?thesis using over z'(10) db(1) by (cases "r = rv") auto
      qed (use z'(10) in auto)
    qed
    ultimately show ?thesis using d unfolding db_inv_def was_expired_def z'(1,4,6,7,8,9) by blast
  qed
  ultimately show ?thesis using inv unfolding zks_inv_def auth z'(2,3,5,7) by blast
qed

lemma racing_iff:
  "racing rv sid z \<longleftrightarrow> (\<exists>s sc. s \<noteq> sid \<and> map_of (sessions z) s = Some sc \<and> aboutToWrite rv sc)"
proof -
  have key: "s \<in> set (map fst (sessions z)) \<longleftrightarrow> map_of (sessions z) s \<noteq> None" for s by (simp add: map_of_eq_None_iff)
  show ?thesis unfolding racing_def Bex_def key by (auto split: option.splits)
qed

lemma zks_inv_routeWrite:
  assumes inv: "zks_inv z" and sc0: "map_of (sessions z) sid = Some sc0" and rd: "reader sc0 = RdWrite tag rv msg invc"
  shows "zks_inv (routeWrite env tag rv msg invc sid sc0 z)"
proof -
  have over: "(rv, p) \<in> set (raced z)" if "map_of (rootMsgs (zdb z)) rv = Some (p, t)" for p t
    using zks_inv_reader_ok [OF inv sc0] rd that by (simp add: reader_ok_def)
  define reply where "reply x = toWriter tag (RouteMessageReply x invc) (sc0\<lparr>reader := RdIdle\<rparr>)" for x
  have q: "quiet sc0 (reply x)" for x unfolding reply_def by (rule quiet_toWriter) simp_all
  have inv1: "zks_inv (setSession sid (reply x) z)" for x
    by (rule zks_inv_reader_same [OF inv sc0 q]) (simp_all add: reply_def)
  have upd: "map_of (sessions (setSession sid (reply x) z)) = (map_of (sessions z))(sid \<mapsto> reply x)" for x
    by (simp add: setSession_def)
  have race: "racing rv sid z" if "map_of (sessions (setSession sid (reply x) z)) s = Some sc" "aboutToWrite rv sc" for x s sc
  proof -
    have "reader (reply x) = RdIdle" by (simp add: reply_def)
    then have "s \<noteq> sid" using that by (auto simp: upd aboutToWrite_def)
    then show ?thesis using that by (auto simp: upd racing_iff)
  qed
  note written = zks_inv_written [OF inv1, where rv = rv and t = "pay_now env"]
  consider (ok) db where "WritePayload (pay_io env) (pay_now env) rv msg (zdb z) = (None, db)"
      "db = (zdb z)\<lparr>rootMsgs := AList.update rv (msg, pay_now env) (rootMsgs (zdb z))\<rparr>"
    | (part) e n where "WritePayload (pay_io env) (pay_now env) rv msg (zdb z) =
        (Some e, (zdb z)\<lparr>rootMsgs := AList.update rv (take n msg, pay_now env) (rootMsgs (zdb z))\<rparr>)" "write_leaves (pay_io env) rv = Some n"
    | (none) e where "WritePayload (pay_io env) (pay_now env) rv msg (zdb z) = (Some e, zdb z)" "write_leaves (pay_io env) rv = None"
    by (cases "write_fails (pay_io env) rv"; cases "write_leaves (pay_io env) rv") (auto simp: WritePayload_def)
  then show ?thesis
  proof cases
    case (ok db)
    show ?thesis unfolding routeWrite_def Let_def ok(1) reply_def [symmetric] prod.case option.case
      by (rule written [where db = db and content = msg])
        (use ok(2) over race in \<open>auto simp: setSession_def arrived_def\<close>)
  next
    case (part e n)
    let ?db = "(zdb z)\<lparr>rootMsgs := AList.update rv (take n msg, pay_now env) (rootMsgs (zdb z))\<rparr>"
    show ?thesis unfolding routeWrite_def Let_def part reply_def [symmetric] prod.case option.case
      by (rule written [where db = ?db and content = "take n msg"])
        (use over race in \<open>auto simp: setSession_def arrived_def\<close>)
  next
    case (none e)
    have "(setSession sid (reply x) z)\<lparr>zdb := zdb z, partial := partial z @ [], raced := raced z @ []\<rparr> = setSession sid (reply x) z" for x
      by (simp add: setSession_def)
    then show ?thesis using inv1 none unfolding routeWrite_def Let_def reply_def by simp
  qed
qed

lemma zks_inv_subscribeEnd:
  assumes inv: "zks_inv z" and sc0: "map_of (sessions z) sid = Some sc0" and auth: "\<And>rv. rv \<in> set add \<Longrightarrow> sub_auth z rv"
  shows "zks_inv (subscribeEnd env tag add del sid sc0 z)"
proof -
  obtain invc p where nxt: "nextSubInvoice env (settings z) (pay sc0) = (invc, p)" by fastforce
  let ?sc = "toWriter tag (SubscribeReply None invc) (sc0\<lparr>pay := p, msgSetC := Some (add, del), reader := RdIdle\<rparr>)"
  have q: "quiet sc0 ?sc" by (rule quiet_toWriter) simp_all
  have "zks_inv (setSession sid ?sc z)"
    by (rule zks_inv_quiet [OF inv sc0 q]) (use inv auth in \<open>simp_all add: zks_inv_def\<close>)
  moreover have "zks_inv (setSession sid (sc0\<lparr>alive := False, reader := RdIdle\<rparr>) z)"
    by (rule zks_inv_reader_same [OF inv sc0]) simp_all
  ultimately show ?thesis using nxt by (simp add: subscribeEnd_def)
qed

lemma zks_inv_subscribe:
  assumes inv: "zks_inv z" and sc0: "map_of (sessions z) sid = Some sc0"
  shows "zks_inv (handleSubscribeRoutedMessages env tag add del mark sid sc0 z)"
proof -
  have "zks_inv (setSession sid (sc0\<lparr>pay := p, alive := False\<rparr>) z)" for p
    by (rule zks_inv_reader_same [OF inv sc0]) simp_all
  moreover have "zks_inv (setSession sid (sc0\<lparr>pay := p, reader := RdSubs tag add del (add @ mark) n\<rparr>) z)" for p n
    by (rule zks_inv_reader_same [OF inv sc0]) (simp_all add: reader_ok_def)
  moreover have "zks_inv (subscribeEnd env tag add del sid sc0 z)" if "PayScheme (settings z) = PaySchemeFree"
    by (rule zks_inv_subscribeEnd [OF inv sc0]) (use that in \<open>simp add: sub_auth_def\<close>)
  ultimately show ?thesis using inv by (simp add: handleSubscribeRoutedMessages_def split: option.split prod.split sum.split)
qed

lemma zks_inv_subscribeNext:
  assumes inv: "zks_inv z" and sc0: "map_of (sessions z) sid = Some sc0" and rd: "reader sc0 = RdSubs tag add del needsPay n"
  shows "zks_inv (subscribeNext env tag add del needsPay n sid sc0 z)"
proof (cases needsPay)
  case Nil
  have "sub_auth z rv" if "rv \<in> set add" for rv using zks_inv_reader_ok [OF inv sc0] rd Nil that by (simp add: reader_ok_def)
  then show ?thesis using zks_inv_subscribeEnd [OF inv sc0] Nil by (simp add: subscribeNext_def)
next
  case (Cons rv rest)
  have known: "r \<in> set add \<Longrightarrow> r = rv \<or> r \<in> set rest \<or> sub_auth z r" for r
    using zks_inv_reader_ok [OF inv sc0] rd Cons by (auto simp: reader_ok_def)
  have q: "quiet sc0 (toWriter tag (SubscribeReply x i) (sc0\<lparr>reader := RdIdle\<rparr>))" for x i
    by (rule quiet_toWriter) simp_all
  have "zks_inv (setSession sid (toWriter tag (SubscribeReply x i) (sc0\<lparr>reader := RdIdle\<rparr>)) z)" for x i
    by (rule zks_inv_reader_same [OF inv sc0 q]) simp_all
  moreover have "zks_inv (setSession sid (sc0\<lparr>alive := False, reader := RdIdle\<rparr>) z)"
    by (rule zks_inv_reader_same [OF inv sc0]) simp_all
  moreover have "zks_inv (setSession sid (sc0\<lparr>reader := RdMark tag add del rv rest m\<rparr>) z)" for m
    by (rule zks_inv_reader_same [OF inv sc0]) (use known in \<open>simp_all add: reader_ok_def\<close>)
  moreover have "zks_inv (setSession sid (sc0\<lparr>reader := RdSubs tag add del rest n\<rparr>) z)" if "checkSub env rv n (zdb z) = Inr True"
  proof (rule zks_inv_reader_same [OF inv sc0])
    have "sub_auth z rv"
      using that by (auto simp: checkSub_def IsSubscriptionPaid_def sub_auth_def sub_paid_def split: if_splits)
    then show "reader (sc0\<lparr>reader := RdSubs tag add del rest n\<rparr>) = reader sc0 \<or> reader_ok z (sc0\<lparr>reader := RdSubs tag add del rest n\<rparr>)"
      using known by (auto simp: reader_ok_def)
  qed simp_all
  ultimately show ?thesis using Cons by (simp add: subscribeNext_def split: sum.split pay_error.split bool.split)
qed

lemma zks_inv_subscribeMark:
  assumes inv: "zks_inv z" and sc0: "map_of (sessions z) sid = Some sc0" and rd: "reader sc0 = RdMark tag add del rv needsPay n"
  shows "zks_inv (subscribeMark env tag add del rv needsPay n sid sc0 z)"
proof -
  obtain e db where st: "StoreSubscriptionPaid (pay_io env) (pay_now env) rv (zdb z) = (e, db)" by fastforce
  have msgs: "map_of (rootMsgs db) = map_of (rootMsgs (zdb z))"
    using fsdb.mark_rest(1) [of "pay_io env" "pay_now env" rv "zdb z"] st by simp
  have paid: "sub_paid (zdb z) r \<Longrightarrow> sub_paid db r" for r
    using fsdb.mark_mono [of "zdb z" r "pay_io env" "pay_now env" rv] st by simp
  have known: "r \<in> set add \<Longrightarrow> r = rv \<or> r \<in> set needsPay \<or> sub_auth z r" for r
    using zks_inv_reader_ok [OF inv sc0] rd by (simp add: reader_ok_def)
  have "zks_inv (setSession sid (sc0\<lparr>alive := False, reader := RdIdle\<rparr>) (z\<lparr>zdb := db\<rparr>))"
    by (rule zks_inv_reader_db [OF inv sc0 _ _ msgs paid]) simp_all
  moreover have "zks_inv (setSession sid (sc0\<lparr>reader := RdSubs tag add del needsPay n\<rparr>) (z\<lparr>zdb := db\<rparr>))" if "e = None"
  proof (rule zks_inv_reader_db [OF inv sc0 _ _ msgs paid])
    have "sub_paid db rv" using fsdb.mark_ok st that by simp
    then show "reader (sc0\<lparr>reader := RdSubs tag add del needsPay n\<rparr>) = reader sc0 \<or>
        reader_ok (z\<lparr>zdb := db\<rparr>) (sc0\<lparr>reader := RdSubs tag add del needsPay n\<rparr>)"
      using known paid by (auto simp: reader_ok_def sub_auth_def was_expired_def)
  qed simp_all
  ultimately show ?thesis using st by (simp add: subscribeMark_def split: option.split)
qed

lemma zks_inv_readerStep:
  assumes inv: "zks_inv z" and sc0: "map_of (sessions z) sid = Some sc0" and run: "readerStep env sid sc0 z = Some z'"
  shows "zks_inv z'"
  using run zks_inv_routeRedeem [OF inv sc0] zks_inv_routeStat [OF inv sc0] zks_inv_routeWrite [OF inv sc0]
    zks_inv_subscribeNext [OF inv sc0] zks_inv_subscribeMark [OF inv sc0]
  by (auto simp: readerStep_def split: reader_pc.splits)

lemma tag_index: "unat t < tagDepth \<Longrightarrow> of_nat (unat t) = (t :: u32)"
  by simp

lemma tags_full:
  assumes "tags_ok sc" "tagDepth \<le> length (stackC (tagStack sc))" "unat t < tagDepth"
  shows "t \<in> set (stackC (tagStack sc))"
proof -
  let ?A = "set (stackC (tagStack sc))" and ?B = "(of_nat :: nat \<Rightarrow> u32) ` {..<tagDepth}"
  have sub: "?A \<subseteq> ?B"
  proof
    fix x assume "x \<in> ?A"
    then have "unat x < tagDepth" using assms(1) by (simp add: tags_ok_def)
    then show "x \<in> ?B" by (intro image_eqI [of _ _ "unat x"]) simp_all
  qed
  have "card ?A = length (stackC (tagStack sc))" using assms(1) by (simp add: tags_ok_def distinct_card)
  moreover have "card ?B \<le> tagDepth" using card_image_le [of "{..<tagDepth}" "of_nat :: nat \<Rightarrow> u32"] by simp
  ultimately have "?A = ?B" using assms(2) by (intro card_seteq [OF _ sub]) auto
  moreover have "t \<in> ?B" using assms(3) by (intro image_eqI [of _ _ "unat t"]) simp_all
  ultimately show ?thesis by simp
qed

lemma of_nat_tag_eq: "i < tagDepth \<Longrightarrow> j < tagDepth \<Longrightarrow> (of_nat i :: u32) = of_nat j \<longleftrightarrow> i = j"
  by (auto simp: tagDepth_def of_nat_inverse dest: arg_cong [of _ _ unat])

lemma unat_of_nat_tag: "i < tagDepth \<Longrightarrow> unat (of_nat i :: u32) = i"
  by (simp add: tagDepth_def of_nat_inverse)

lemma tags_ok_ack:
  assumes "tags_ok sc" "unat tag < tagDepth" "tagMessage sc ! unat tag = Some w" "PushTag tag (tagStack sc) = (TagOk x, ts)"
  shows "tags_ok (sc\<lparr>tagMessage := (tagMessage sc)[unat tag := None], tagStack := ts\<rparr>)"
proof -
  have ts: "ts = (tagStack sc)\<lparr>stackC := stackC (tagStack sc) @ [tag]\<rparr>"
    using assms(1,4) by (auto simp: PushTag_def tags_ok_def split: if_splits)
  have free: "tag \<notin> set (stackC (tagStack sc))"
    using assms(1-3) tag_index [of tag] unfolding tags_ok_def by (metis option.distinct(1))
  have idx: "of_nat i = tag \<longleftrightarrow> i = unat tag" if "i < tagDepth" for i
    using that unat_of_nat_tag by auto
  show ?thesis
    using assms(1,2) free idx unfolding tags_ok_def ts by (auto simp: nth_list_update)
qed

lemma tags_ok_push:
  assumes "tags_ok sc" "PopTag (tagStack sc) = (TagOk tag, ts)"
  shows "tagMessage sc ! unat tag = None" "unat tag < tagDepth"
    "out_tag w = tag \<Longrightarrow> tags_ok (sc\<lparr>tagStack := ts, tagMessage := (tagMessage sc)[unat tag := Some w], writer := writer sc @ [w]\<rparr>)"
proof -
  obtain rest where stk: "stackC (tagStack sc) = tag # rest" and ts: "ts = (tagStack sc)\<lparr>stackC := rest\<rparr>"
    using assms by (auto simp: PopTag_def tags_ok_def split: list.splits)
  show lt: "unat tag < tagDepth" using assms(1) stk by (simp add: tags_ok_def)
  then show "tagMessage sc ! unat tag = None" using assms(1) stk by (simp add: tags_ok_def)
  have idx: "of_nat i = tag \<longleftrightarrow> i = unat tag" if "i < tagDepth" for i
    using that unat_of_nat_tag by auto
  show "tags_ok (sc\<lparr>tagStack := ts, tagMessage := (tagMessage sc)[unat tag := Some w], writer := writer sc @ [w]\<rparr>)" if "out_tag w = tag"
    using assms(1) lt idx stk that unfolding tags_ok_def ts by (auto simp: nth_list_update)
qed

lemma zks_inv_finishAck:
  assumes inv: "zks_inv z" and sc0: "map_of (sessions z) sid = Some sc0"
    and m: "\<And>w. m = Some w \<Longrightarrow> w \<in> set (writer sc0) \<and> tags_ok sc"
    and sc: "writer sc = writer sc0" "msgC sc = msgC sc0" "msgSetC sc = msgSetC sc0" "msgAckC sc = msgAckC sc0"
      "sessSubs sc = sessSubs sc0" "pc sc = pc sc0" "reader sc = reader sc0" "\<And>tag k. ackWaits sc = Some (tag, k) \<Longrightarrow> k = None"
  shows "zks_inv (finishAck m sid sc z)"
proof (cases m)
  case None
  then show ?thesis using inv by (simp add: finishAck_def)
next
  case (Some w)
  have w: "w \<in> set (writer sc0)" and tags: "tags_ok sc" using m [OF Some] by simp_all
  have s0: "sess_inv z sid sc0" using inv sc0 by (simp add: zks_inv_def)
  have want: "wanted sc = wanted sc0" by (simp add: wanted_def sc)
  have push: "pushed sc rv p = pushed sc0 rv p" for rv p by (simp add: pushed_def sc(1))
  have base: "sess_inv z sid sc" using s0 tags sc by (simp add: sess_inv_def want push reader_ok_def)
  have other: "zks_inv (setSession sid sc z)"
    by (rule zks_inv_session_same [OF inv sc0 base]) (simp_all add: sc)
  show ?thesis
  proof (cases "out_payload w")
    case (PushRoutedMessage rv p t)
    let ?z = "z\<lparr>acked := acked z @ [(sid, rv)]\<rparr>" and ?sc = "sc\<lparr>msgAckC := msgAckC sc @ [rv]\<rparr>"
    have g: "grows z ?z" by (auto simp: grows_def arrived_def)
    have d: "db_inv ?z" using inv by (fastforce simp: zks_inv_def db_inv_def arrived_def was_expired_def)
    have p1: "pushed ?sc rv' p' = pushed sc0 rv' p'" for rv' p' using push by (simp add: pushed_def)
    have "sess_inv ?z sid sc" using base g by (rule sess_inv_grows)
    then have s1: "sess_inv ?z sid ?sc"
      by (auto simp: sess_inv_def tags_ok_def wanted_def pushed_def reader_ok_def)
    have "zks_inv (setSession sid ?sc ?z)"
    proof (rule zks_inv_session [OF inv sc0 _ g d s1])
      show "(s, r) \<in> set (acked z) \<or> s = sid \<and> (\<exists>p. pushed ?sc r p)" if "(s, r) \<in> set (acked ?z)" for s r
        using that w PushRoutedMessage p1 by (auto simp: pushed_def)
      show "sub_auth ?z r" if "zlock ?z = Some (r, s)" for r s
        using that inv sub_auth_grows [OF g] by (auto simp: zks_inv_def)
      show "if s = sid then r \<in> set (sessSubs ?sc) \<and> pc ?sc \<noteq> PcDone else map_of (subscribers z) r = Some s"
        if "map_of (subscribers ?z) r = Some s" for r s
        by (rule subscribers_kept [OF inv sc0]) (use that sc in auto)
    qed (use sc(1) in auto)
    then show ?thesis using Some PushRoutedMessage by (simp add: finishAck_def)
  qed (use other Some in \<open>simp_all add: finishAck_def\<close>)
qed

lemma zks_inv_ack:
  assumes inv: "zks_inv z" and sc0: "map_of (sessions z) sid = Some sc0" and waits: "ackWaits sc0 = None"
    and tag: "unat tag < tagDepth"
  shows "zks_inv (handleAck tag sid sc0 z)"
proof -
  have s0: "sess_inv z sid sc0" using inv sc0 by (simp add: zks_inv_def)
  then have tags: "tags_ok sc0" by (simp add: sess_inv_def)
  let ?m = "tagMessage sc0 ! unat tag"
  let ?sc = "sc0\<lparr>tagMessage := (tagMessage sc0)[unat tag := None]\<rparr>"
  have blk: "blocking (tagStack sc0)" "stackC_cap (tagStack sc0) = tagDepth" using tags by (simp_all add: tags_ok_def)
  have m: "w \<in> set (writer sc0) \<and> out_tag w = tag" if "?m = Some w" for w
    using tags tag that tag_index [of tag] by (auto simp: tags_ok_def)
  show ?thesis
  proof (cases "length (stackC (tagStack sc0)) < tagDepth")
    case True
    then obtain ts where push: "PushTag tag (tagStack sc0) = (TagOk (), ts)" using blk by (simp add: PushTag_def)
    have "zks_inv (finishAck ?m sid (?sc\<lparr>tagStack := ts\<rparr>) z)"
      by (rule zks_inv_finishAck [OF inv sc0]) (use m tags_ok_ack [OF tags tag _ push] waits in auto)
    then show ?thesis using m push by (auto simp: handleAck_def Let_def split: option.splits)
  next
    case False
    then have "tag \<in> set (stackC (tagStack sc0))" using tags_full [OF tags _ tag] by simp
    then have none: "?m = None" using tags tag tag_index [of tag] by (auto simp: tags_ok_def)
    then have same: "(tagMessage sc0)[unat tag := None] = tagMessage sc0"
      by (metis list_update_id)
    have push: "PushTag tag (tagStack sc0) = (TagBlocks, tagStack sc0)" using blk False by (simp add: PushTag_def)
    let ?sc1 = "?sc\<lparr>ackWaits := Some (tag, None)\<rparr>"
    have "sess_inv z sid ?sc1"
      using s0 none same by (auto simp: sess_inv_def tags_ok_def wanted_def pushed_def reader_ok_def)
    then have "zks_inv (setSession sid ?sc1 z)" by (rule zks_inv_session_same [OF inv sc0]) simp_all
    then show ?thesis using none push by (simp add: handleAck_def Let_def)
  qed
qed

lemma zks_inv_request:
  assumes inv: "zks_inv z" and sc0: "map_of (sessions z) sid = Some sc0" and waits: "ackWaits sc0 = None"
  shows "zks_inv (handleRequest env tag msg sid sc0 z)"
proof -
  have quiet: "zks_inv (setSession sid sc z)" if "quiet sc0 sc" "msgSetC sc = msgSetC sc0" "reader sc = reader sc0" for sc
    by (rule zks_inv_reader_same [OF inv sc0]) (use that in simp_all)
  have w: "quiet sc0 (toWriter tag Pong sc0)" "quiet sc0 (toWriter tag (GetInvoiceReply i) (sc0\<lparr>pay := p\<rparr>))"
      "quiet sc0 (toWriter tag (RTDTReply r) (sc0\<lparr>pay := p\<rparr>))" for i p r
    by (rule quiet_toWriter; simp)+
  show ?thesis
    using inv zks_inv_ack [OF inv sc0 waits, of tag] zks_inv_route [OF inv sc0] zks_inv_subscribe [OF inv sc0]
      quiet [OF w(1)] quiet [OF w(2)] quiet [OF w(3)] quiet [of "sc0\<lparr>alive := False\<rparr>"] quiet [of "sc0\<lparr>pay := p, alive := False\<rparr>" for p]
    by (auto simp: handleRequest_def not_less le_less split: client_msg.splits prod.splits sum.splits option.splits)
qed

lemma delSubs_laws:
  "\<exists>l m a. delSubs rvs sc z = (sc\<lparr>sessSubs := l\<rparr>, z\<lparr>subscribers := m, activeSubs := a\<rparr>) \<and>
     set l \<subseteq> set (sessSubs sc) \<and>
     (\<forall>rv s. map_of m rv = Some s \<longrightarrow> map_of (subscribers z) rv = Some s \<and> (rv \<in> set (sessSubs sc) \<longrightarrow> rv \<in> set l))"
proof (induction rvs arbitrary: sc z)
  case Nil
  show ?case
    by (intro exI [of _ "sessSubs sc"] exI [of _ "subscribers z"] exI [of _ "activeSubs z"]) simp
next
  case (Cons rv rvs)
  show ?case
  proof (cases "rv \<in> set (sessSubs sc)")
    case False
    then show ?thesis using Cons.IH [of sc z] by simp
  next
    case True
    let ?sc = "sc\<lparr>sessSubs := removeAll rv (sessSubs sc)\<rparr>"
    let ?z = "z\<lparr>subscribers := AList.delete rv (subscribers z), activeSubs := activeSubs z - 1\<rparr>"
    obtain l m a where d: "delSubs rvs ?sc ?z = (?sc\<lparr>sessSubs := l\<rparr>, ?z\<lparr>subscribers := m, activeSubs := a\<rparr>)"
        "set l \<subseteq> set (sessSubs ?sc)"
        "\<forall>r s. map_of m r = Some s \<longrightarrow> map_of (subscribers ?z) r = Some s \<and> (r \<in> set (sessSubs ?sc) \<longrightarrow> r \<in> set l)"
      using Cons.IH [of ?sc ?z] by blast
    have "map_of (subscribers z) r = Some s \<and> (r \<in> set (sessSubs sc) \<longrightarrow> r \<in> set l)" if "map_of m r = Some s" for r s
    proof -
      have "map_of (subscribers ?z) r = Some s" "r \<in> set (sessSubs ?sc) \<longrightarrow> r \<in> set l" using d(3) that by blast+
      then show ?thesis by (simp split: if_splits)
    qed
    moreover have "set l \<subseteq> set (sessSubs sc)" using d(2) by auto
    ultimately show ?thesis using True d(1) by (intro exI [of _ l] exI [of _ m] exI [of _ a]) simp
  qed
qed

lemma addSubs_laws:
  "\<exists>l m a b. addSubs sid rvs sc z = (sc\<lparr>sessSubs := l\<rparr>, z\<lparr>subscribers := m, subsRecv := b, activeSubs := a\<rparr>) \<and>
     set l = set (sessSubs sc) \<union> set rvs \<and>
     (\<forall>rv s. map_of m rv = Some s \<longrightarrow> rv \<in> set rvs \<and> s = sid \<or> map_of (subscribers z) rv = Some s)"
proof (induction rvs arbitrary: sc z)
  case Nil
  show ?case
    by (intro exI [of _ "sessSubs sc"] exI [of _ "subscribers z"] exI [of _ "activeSubs z"] exI [of _ "subsRecv z"]) simp
next
  case (Cons rv rvs)
  let ?sc = "sc\<lparr>sessSubs := List.insert rv (sessSubs sc)\<rparr>"
  let ?z = "let other = (case map_of (subscribers z) rv of Some o' \<Rightarrow> o' \<noteq> sid | None \<Rightarrow> False)
        in z\<lparr>subscribers := AList.update rv sid (subscribers z), subsRecv := subsRecv z + 1,
             activeSubs := (if other then activeSubs z - 1 else activeSubs z) + 1\<rparr>"
  obtain l m a b where d: "addSubs sid rvs ?sc ?z = (?sc\<lparr>sessSubs := l\<rparr>, ?z\<lparr>subscribers := m, subsRecv := b, activeSubs := a\<rparr>)"
      "set l = set (sessSubs ?sc) \<union> set rvs"
      "\<forall>r s. map_of m r = Some s \<longrightarrow> r \<in> set rvs \<and> s = sid \<or> map_of (subscribers ?z) r = Some s"
    using Cons.IH [of ?sc ?z] by blast
  have "addSubs sid (rv # rvs) sc z = (sc\<lparr>sessSubs := l\<rparr>, z\<lparr>subscribers := m, subsRecv := b, activeSubs := a\<rparr>)"
    using d(1) by (simp add: Let_def)
  then show ?case using d(2,3) by (intro exI [of _ l] exI [of _ m] exI [of _ a] exI [of _ b]) (auto simp: Let_def split: if_splits)
qed

lemma exitSubs_laws:
  "\<exists>m a. exitSubs sid rvs z = z\<lparr>subscribers := m, activeSubs := a\<rparr> \<and>
     (\<forall>rv s. map_of m rv = Some s \<longrightarrow> map_of (subscribers z) rv = Some s \<and> (rv \<in> set rvs \<longrightarrow> s \<noteq> sid))"
proof (induction rvs arbitrary: z)
  case Nil
  show ?case by (intro exI [of _ "subscribers z"] exI [of _ "activeSubs z"]) simp
next
  case (Cons rv rvs)
  let ?z = "if map_of (subscribers z) rv = Some sid
        then z\<lparr>subscribers := AList.delete rv (subscribers z), activeSubs := activeSubs z - 1\<rparr> else z"
  obtain m a where d: "exitSubs sid rvs ?z = ?z\<lparr>subscribers := m, activeSubs := a\<rparr>"
      "\<forall>r s. map_of m r = Some s \<longrightarrow> map_of (subscribers ?z) r = Some s \<and> (r \<in> set rvs \<longrightarrow> s \<noteq> sid)"
    using Cons.IH [of ?z] by blast
  have "map_of (subscribers z) r = Some s \<and> (r \<in> set (rv # rvs) \<longrightarrow> s \<noteq> sid)" if "map_of m r = Some s" for r s
  proof -
    have "map_of (subscribers ?z) r = Some s" "r \<in> set rvs \<longrightarrow> s \<noteq> sid" using d(2) that by blast+
    then show ?thesis by (auto split: if_splits)
  qed
  moreover have "exitSubs sid (rv # rvs) z = z\<lparr>subscribers := m, activeSubs := a\<rparr>" using d(1) by simp
  ultimately show ?case by blast
qed

lemma zks_inv_lockSet:
  assumes inv: "zks_inv z" and sc0: "map_of (sessions z) sid = Some sc0" and pc: "pc sc0 = PcWantLock add del"
    and d: "delSubs del sc0 z = (sc1, z1)" and a: "addSubs sid add sc1 z1 = (sc2, z2)"
  shows "zks_inv (setSession sid (sc2\<lparr>pc := afterPush add\<rparr>) z2)"
proof -
  obtain l m x where del: "sc1 = sc0\<lparr>sessSubs := l\<rparr>" "z1 = z\<lparr>subscribers := m, activeSubs := x\<rparr>" "set l \<subseteq> set (sessSubs sc0)"
      "\<forall>rv s. map_of m rv = Some s \<longrightarrow> map_of (subscribers z) rv = Some s \<and> (rv \<in> set (sessSubs sc0) \<longrightarrow> rv \<in> set l)"
    using delSubs_laws [of del sc0 z] d by auto
  obtain l2 m2 y b where add: "sc2 = sc1\<lparr>sessSubs := l2\<rparr>" "z2 = z1\<lparr>subscribers := m2, subsRecv := b, activeSubs := y\<rparr>"
      "set l2 = set l \<union> set add" "\<forall>rv s. map_of m2 rv = Some s \<longrightarrow> rv \<in> set add \<and> s = sid \<or> map_of m rv = Some s"
    using addSubs_laws [of sid add sc1 z1] a del(1,2) by auto
  have s0: "sess_inv z sid sc0" using inv sc0 by (simp add: zks_inv_def)
  have "wanted (sc2\<lparr>pc := afterPush add\<rparr>) \<subseteq> wanted sc0"
    using del add pc by (auto simp: wanted_def afterPush_def)
  moreover have auth: "sub_auth z2 = sub_auth z" by (simp add: fun_eq_iff sub_auth_def was_expired_def add(2) del(2))
  moreover have g: "grows z z2" by (simp add: grows_def arrived_def add(2) del(2))
  ultimately have s2: "sess_inv z2 sid (sc2\<lparr>pc := afterPush add\<rparr>)"
    using sess_inv_grows [OF s0 g]
    by (auto simp: sess_inv_def tags_ok_def pushed_def reader_ok_def afterPush_def add(1) del(1))
  show ?thesis
  proof (rule zks_inv_session [OF inv sc0 _ _ _ s2])
    show "grows z z2" by (rule g)
    show "db_inv z2" using inv by (simp add: zks_inv_def db_inv_def arrived_def was_expired_def add(2) del(2))
    show "if s = sid then rv \<in> set (sessSubs (sc2\<lparr>pc := afterPush add\<rparr>)) \<and> pc (sc2\<lparr>pc := afterPush add\<rparr>) \<noteq> PcDone
        else map_of (subscribers z) rv = Some s" if "map_of (subscribers z2) rv = Some s" for rv s
    proof -
      have "rv \<in> set add \<and> s = sid \<or> map_of m rv = Some s" using that add(2,4) by simp
      moreover have "map_of (subscribers z) rv = Some sid \<Longrightarrow> rv \<in> set (sessSubs sc0)"
        using inv sc0 by (fastforce simp: zks_inv_def)
      ultimately show ?thesis using del(4) add(1,3) by (auto simp: afterPush_def)
    qed
    show "sub_auth z2 rv" if "zlock z2 = Some (rv, s)" for rv s
      using that inv unfolding auth by (auto simp: zks_inv_def add(2) del(2))
  qed (simp_all add: add(1,2) del(1,2))
qed

lemma zks_inv_exit:
  assumes inv: "zks_inv z" and sc0: "map_of (sessions z) sid = Some sc0" and pc: "pc sc0 = PcExit"
  shows "zks_inv (setSession sid (sc0\<lparr>pc := PcDone\<rparr>) (exitSubs sid (sessSubs sc0) z))"
proof -
  obtain m a where e: "exitSubs sid (sessSubs sc0) z = z\<lparr>subscribers := m, activeSubs := a\<rparr>"
      "\<forall>rv s. map_of m rv = Some s \<longrightarrow> map_of (subscribers z) rv = Some s \<and> (rv \<in> set (sessSubs sc0) \<longrightarrow> s \<noteq> sid)"
    using exitSubs_laws [of sid "sessSubs sc0" z] by blast
  let ?z = "z\<lparr>subscribers := m, activeSubs := a\<rparr>"
  have g: "grows z ?z" by (simp add: grows_def arrived_def)
  have d: "db_inv ?z" using inv by (simp add: zks_inv_def db_inv_def arrived_def was_expired_def)
  have "sess_inv z sid sc0" using inv sc0 by (simp add: zks_inv_def)
  then have "sess_inv ?z sid sc0" by (rule sess_inv_grows [OF _ g])
  then have s1: "sess_inv ?z sid (sc0\<lparr>pc := PcDone\<rparr>)"
    using pc by (auto simp: sess_inv_def tags_ok_def wanted_def pushed_def reader_ok_def)
  show ?thesis unfolding e(1)
  proof (rule zks_inv_session [OF inv sc0 _ g d s1])
    show "if s = sid then rv \<in> set (sessSubs (sc0\<lparr>pc := PcDone\<rparr>)) \<and> pc (sc0\<lparr>pc := PcDone\<rparr>) \<noteq> PcDone
        else map_of (subscribers z) rv = Some s" if "map_of (subscribers ?z) rv = Some s" for rv s
    proof -
      have "map_of (subscribers z) rv = Some s" "rv \<in> set (sessSubs sc0) \<longrightarrow> s \<noteq> sid" using that e(2) by simp_all
      moreover have "map_of (subscribers z) rv = Some sid \<Longrightarrow> rv \<in> set (sessSubs sc0)"
        using inv sc0 by (fastforce simp: zks_inv_def)
      ultimately show ?thesis by auto
    qed
    show "sub_auth ?z rv" if "zlock ?z = Some (rv, s)" for rv s
      using that inv sub_auth_grows [OF g] by (auto simp: zks_inv_def)
  qed simp_all
qed

lemma sess_inv_fields:
  assumes "sess_inv z sid sc0" "tagStack sc = tagStack sc0" "tagMessage sc = tagMessage sc0" "writer sc = writer sc0"
    "ackWaits sc = ackWaits sc0" "set (msgAckC sc) \<subseteq> set (msgAckC sc0)" "\<And>rv. rv \<in> wanted sc \<Longrightarrow> sub_auth z rv"
    "reader sc = reader sc0" "\<And>rv p t rvs. pc sc = PcTag rv p t rvs \<Longrightarrow> (rv, p) \<in> arrived z"
  shows "sess_inv z sid sc"
  using assms by (auto simp: sess_inv_def tags_ok_def pushed_def reader_ok_def)

lemma sess_inv_tag: "sess_inv z sid sc \<Longrightarrow> pc sc = PcTag rv p t rvs \<Longrightarrow> (rv, p) \<in> arrived z"
  by (simp add: sess_inv_def)

lemma zks_inv_fetch:
  assumes inv: "zks_inv z" and sc0: "map_of (sessions z) sid = Some sc0" and pc: "pc sc0 = PcPush (rv # rvs)"
  shows "zks_inv (setSession sid (sc0\<lparr>pc := fetchStored env rv rvs z\<rparr>) z)"
proof -
  have s0: "sess_inv z sid sc0" using inv sc0 by (simp add: zks_inv_def)
  have want: "r \<in> wanted (sc0\<lparr>pc := fetchStored env rv rvs z\<rparr>) \<Longrightarrow> sub_auth z r" for r
    using s0 pc by (auto simp: sess_inv_def wanted_def fetchStored_def afterPush_def split: sum.splits option.splits if_splits)
  have found: "(r, p) \<in> arrived z" if "fetchStored env rv rvs z = PcTag r p t l" for r p t l
  proof -
    have "map_of (rootMsgs (zdb z)) r = Some (p, t)"
      using that by (auto simp: fetchStored_def FetchPayload_def afterPush_def split: sum.splits option.splits if_splits)
    then show ?thesis using inv unfolding zks_inv_def db_inv_def by blast
  qed
  have "fetchStored env rv rvs z \<noteq> PcDone"
    by (auto simp: fetchStored_def afterPush_def split: sum.splits option.splits)
  then show ?thesis
    by (intro zks_inv_session_same [OF inv sc0 sess_inv_fields [OF s0]]) (use want found in auto)
qed

lemma zks_inv_pushStored:
  assumes inv: "zks_inv z" and sc0: "map_of (sessions z) sid = Some sc0" and pc: "pc sc0 = PcTag rv payload t rvs"
    and run: "pushStored rv payload t sc0 z = Some (sc, z1)"
  shows "zks_inv (setSession sid (sc\<lparr>pc := afterPush rvs\<rparr>) z1)"
proof -
  have s0: "sess_inv z sid sc0" using inv sc0 by (simp add: zks_inv_def)
  have auth: "r \<in> wanted (sc0\<lparr>pc := afterPush rvs\<rparr>) \<Longrightarrow> sub_auth z r" "sub_auth z rv" for r
    using s0 pc by (auto simp: sess_inv_def wanted_def afterPush_def split: if_splits)
  have st: "(rv, payload) \<in> arrived z" by (rule sess_inv_tag [OF s0 pc])
  have tags: "tags_ok sc0" using s0 by (simp add: sess_inv_def)
  obtain tag ts where pop: "PopTag (tagStack sc0) = (TagOk tag, ts)"
    using run tags by (auto simp: pushStored_def tags_ok_def PopTag_def split: list.splits)
  define w where "w = \<lparr>out_tag = tag, out_payload = PushRoutedMessage rv payload (time_unix (instant t))\<rparr>"
  have sc: "sc = sc0\<lparr>tagStack := ts, tagMessage := (tagMessage sc0)[unat tag := Some w], writer := writer sc0 @ [w]\<rparr>"
      and z1: "z1 = z\<lparr>rmsSent := rmsSent z + 1\<rparr>"
    using run pop tags_ok_push(1) [OF tags pop] by (auto simp: pushStored_def Let_def w_def)
  have g: "grows z z1" by (simp add: grows_def arrived_def z1)
  have same: "sub_auth z1 = sub_auth z" "arrived z1 = arrived z" by (simp_all add: fun_eq_iff sub_auth_def was_expired_def arrived_def z1)
  have rd: "reader_ok z1 (sc\<lparr>pc := afterPush rvs\<rparr>)"
    using reader_ok_grows [OF g zks_inv_reader_ok [OF inv sc0]] by (simp add: reader_ok_def sc)
  have tok: "tags_ok (sc\<lparr>pc := afterPush rvs\<rparr>)"
    using tags_ok_push(3) [OF tags pop, of w] by (simp add: sc w_def tags_ok_def)
  have "pushed (sc\<lparr>pc := afterPush rvs\<rparr>) r p \<longleftrightarrow> pushed sc0 r p \<or> r = rv \<and> p = payload" for r p
    by (auto simp: pushed_def sc w_def)
  moreover have "wanted (sc\<lparr>pc := afterPush rvs\<rparr>) = wanted (sc0\<lparr>pc := afterPush rvs\<rparr>)"
    by (simp add: wanted_def sc)
  ultimately have s1: "sess_inv z1 sid (sc\<lparr>pc := afterPush rvs\<rparr>)"
    using s0 tok auth st rd unfolding sess_inv_def same by (auto simp: z1 sc afterPush_def split: if_splits)
  show ?thesis
  proof (rule zks_inv_session [OF inv sc0 _ g _ s1])
    show "db_inv z1" using inv by (simp add: zks_inv_def db_inv_def arrived_def was_expired_def z1)
    show "if s = sid then r \<in> set (sessSubs (sc\<lparr>pc := afterPush rvs\<rparr>)) \<and> pc (sc\<lparr>pc := afterPush rvs\<rparr>) \<noteq> PcDone
        else map_of (subscribers z) r = Some s" if "map_of (subscribers z1) r = Some s" for r s
      by (rule subscribers_kept [OF inv sc0]) (use that in \<open>auto simp: sc z1 afterPush_def\<close>)
    show "sub_auth z1 r" if "zlock z1 = Some (r, s)" for r s
      using that inv unfolding same by (auto simp: zks_inv_def z1)
  qed (auto simp: sc z1)
qed

lemma zks_inv_takeAck:
  assumes inv: "zks_inv z" and sc0: "map_of (sessions z) sid = Some sc0" and pc: "pc sc0 = PcSelect"
    and i: "i < length (msgAckC sc0)"
    and run: "RemovePayload io (msgAckC sc0 ! i) (zdb z) = (r, db)"
    and sc: "sc = sc0\<lparr>msgAckC := take i (msgAckC sc0) @ drop (i + 1) (msgAckC sc0)\<rparr>"
  shows "r = None \<Longrightarrow> zks_inv (setSession sid sc (z\<lparr>zdb := db, removed := removed z @ [msgAckC sc0 ! i]\<rparr>))"
    and "r \<noteq> None \<Longrightarrow> zks_inv (setSession sid (sc\<lparr>pc := PcFailed, alive := False\<rparr>) (z\<lparr>zdb := db\<rparr>))"
proof -
  let ?rv = "msgAckC sc0 ! i"
  have s0: "sess_inv z sid sc0" using inv sc0 by (simp add: zks_inv_def)
  have subset: "set (msgAckC sc) \<subseteq> set (msgAckC sc0)" using set_take_subset set_drop_subset by (fastforce simp: sc)
  have acked: "(sid, ?rv) \<in> set (acked z)" using s0 i by (simp add: sess_inv_def)
  have paid: "sub_paid db = sub_paid (zdb z)" using fsdb.remove_rest(1) [of io ?rv "zdb z"] run by simp
  have auth: "sub_auth z rv" if "rv \<in> wanted sc0" for rv using s0 that by (simp add: sess_inv_def)
  {
    assume ok: "r = None"
    let ?z = "z\<lparr>zdb := db, removed := removed z @ [?rv]\<rparr>"
    have gone: "map_of (rootMsgs db) = (map_of (rootMsgs (zdb z)))(?rv := None)"
      using fsdb.remove_ok run ok by simp
    have g: "grows z ?z" using paid gone by (simp add: grows_def arrived_def)
    have "db_inv z" using inv by (simp add: zks_inv_def)
    then have d: "db_inv ?z" using acked gone unfolding db_inv_def arrived_def was_expired_def by auto
    have s1: "sess_inv ?z sid sc"
      by (rule sess_inv_fields [OF sess_inv_grows [OF s0 g]])
        (use subset auth sub_auth_grows [OF g] pc in \<open>auto simp: sc wanted_def\<close>)
    show "zks_inv (setSession sid sc ?z)"
    proof (rule zks_inv_session [OF inv sc0 _ g d s1])
      show "if s = sid then rv \<in> set (sessSubs sc) \<and> pc sc \<noteq> PcDone else map_of (subscribers z) rv = Some s"
        if "map_of (subscribers ?z) rv = Some s" for rv s
        by (rule subscribers_kept [OF inv sc0]) (use that pc in \<open>auto simp: sc\<close>)
      show "sub_auth ?z rv" if "zlock ?z = Some (rv, s)" for rv s
        using that inv sub_auth_grows [OF g] by (auto simp: zks_inv_def)
    qed (auto simp: sc)
  }
  assume "r \<noteq> None"
  then have db: "db = zdb z" using fsdb.remove_err run by auto
  have s1: "sess_inv z sid (sc\<lparr>pc := PcFailed, alive := False\<rparr>)"
    by (rule sess_inv_fields [OF s0]) (use subset auth in \<open>auto simp: sc wanted_def\<close>)
  have "zks_inv (setSession sid (sc\<lparr>pc := PcFailed, alive := False\<rparr>) z)"
    by (rule zks_inv_session_same [OF inv sc0 s1]) (simp_all add: sc)
  then show "zks_inv (setSession sid (sc\<lparr>pc := PcFailed, alive := False\<rparr>) (z\<lparr>zdb := db\<rparr>))" by (simp add: db)
qed

lemma sess_inv_new: "sess_inv z sid runNewSession"
proof -
  have "tags_ok runNewSession"
    by (auto simp: tags_ok_def runNewSession_def NewBlocking_def distinct_map inj_on_def of_nat_tag_eq unat_of_nat_tag)
  then show ?thesis by (simp add: sess_inv_def wanted_def pushed_def runNewSession_def reader_ok_def)
qed

lemma zks_inv_connect:
  assumes inv: "zks_inv z" and new: "map_of (sessions z) sid = None"
  shows "zks_inv (setSession sid runNewSession z)"
proof -
  let ?z = "setSession sid runNewSession z"
  have upd: "map_of (sessions ?z) = (map_of (sessions z))(sid \<mapsto> runNewSession)" by (simp add: setSession_def)
  have g: "grows z ?z" by (simp add: grows_def setSession_def arrived_def)
  have "sess_inv ?z s c" if "map_of (sessions ?z) s = Some c" for s c
    using that inv sess_inv_new sess_inv_grows [OF _ g] by (auto simp: upd zks_inv_def split: if_splits)
  moreover have "\<exists>c. map_of (sessions ?z) s = Some c \<and> rv \<in> set (sessSubs c) \<and> pc c \<noteq> PcDone"
    if "map_of (subscribers ?z) rv = Some s" for rv s
  proof -
    have "map_of (subscribers z) rv = Some s" using that by (simp add: setSession_def)
    then obtain c where c: "map_of (sessions z) s = Some c" "rv \<in> set (sessSubs c)" "pc c \<noteq> PcDone"
      using inv unfolding zks_inv_def by blast
    then have "s \<noteq> sid" using new by auto
    then show ?thesis using c by (auto simp: upd)
  qed
  moreover have "\<exists>c p. map_of (sessions ?z) s = Some c \<and> pushed c rv p" if "(s, rv) \<in> set (acked ?z)" for s rv
  proof -
    have "(s, rv) \<in> set (acked z)" using that by (simp add: setSession_def)
    then obtain c p where c: "map_of (sessions z) s = Some c" "pushed c rv p" using inv unfolding zks_inv_def by blast
    then have "s \<noteq> sid" using new by auto
    then show ?thesis using c by (auto simp: upd)
  qed
  moreover have "db_inv ?z" using inv by (simp add: zks_inv_def db_inv_def setSession_def arrived_def was_expired_def)
  moreover have "sub_auth ?z rv" if "zlock ?z = Some (rv, s)" for rv s
    using that inv sub_auth_grows [OF g] by (auto simp: zks_inv_def setSession_def)
  ultimately show ?thesis unfolding zks_inv_def by blast
qed

lemma zks_inv_fields:
  assumes "zks_inv z" "settings z' = settings z" "subscribers z' = subscribers z" "sessions z' = sessions z" "zdb z' = zdb z"
    "stored z' = stored z" "partial z' = partial z" "raced z' = raced z" "removed z' = removed z" "acked z' = acked z"
    "expired z' = expired z" "set (expiring z') \<subseteq> {x. expiry_due (settings z) x}" "\<And>rv s. zlock z' = Some (rv, s) \<Longrightarrow> sub_auth z rv"
  shows "zks_inv z'"
proof -
  have g: "grows z z'" using assms by (simp add: grows_def arrived_def)
  have d: "db_inv z'" using assms(1,2,5-12) by (auto simp: zks_inv_def db_inv_def arrived_def was_expired_def)
  show ?thesis
    using assms(1) d sess_inv_grows [OF _ g] sub_auth_grows [OF g] assms(13) unfolding zks_inv_def assms(3,4,10) by blast
qed

lemma zks_inv_expiring: "zks_inv z \<Longrightarrow> set (expiring z) \<subseteq> {x. expiry_due (settings z) x}"
  by (auto simp: zks_inv_def db_inv_def)

lemma zks_inv_expireFind:
  assumes inv: "zks_inv z" and run: "expireFind dir name now i z = Some z'"
  shows "zks_inv z'"
proof -
  obtain x where x: "expiry_due (settings z) x" "z' = z\<lparr>expiring := expiring z @ [x]\<rparr>"
    using run by (auto simp: expireFind_def Let_def split: option.splits if_splits)
  show ?thesis unfolding x(2)
    by (rule zks_inv_fields [OF inv]) (use zks_inv_expiring [OF inv] x(1) inv in \<open>auto simp: zks_inv_def\<close>)
qed

lemma zks_inv_expireRemove:
  assumes inv: "zks_inv z" and run: "expireRemove k io z = Some z'"
  shows "zks_inv z'"
proof -
  have k: "k < length (expiring z)" using run by (simp add: expireRemove_def split: if_splits)
  define x where "x = expiring z ! k"
  define rest where "rest = take k (expiring z) @ drop (k + 1) (expiring z)"
  have due: "expiry_due (settings z) x" "set rest \<subseteq> set (expiring z)"
    using zks_inv_expiring [OF inv] nth_mem [OF k] set_take_subset [of k "expiring z"] set_drop_subset [of "k + 1" "expiring z"]
    by (auto simp: x_def rest_def)
  have inv1: "zks_inv (z\<lparr>expiring := rest\<rparr>)"
    by (rule zks_inv_fields [OF inv]) (use zks_inv_expiring [OF inv] due(2) inv in \<open>auto simp: zks_inv_def\<close>)
  let ?z = "z\<lparr>expiring := rest, zdb := removeFile (ex_dir x) (ex_name x) (zdb z), expired := expired z @ [x]\<rparr>"
  have g: "grows (z\<lparr>expiring := rest\<rparr>) ?z"
    by (auto simp: grows_def arrived_def was_expired_def removeFile_def sub_paid_def split: db_dir.splits if_splits)
  have d: "db_inv ?z"
  proof -
    have "db_inv (z\<lparr>expiring := rest\<rparr>)" using inv1 by (simp add: zks_inv_def)
    then show ?thesis using due(1)
      by (auto simp: db_inv_def arrived_def was_expired_def removeFile_def split: db_dir.splits if_splits)
  qed
  have "zks_inv ?z" by (rule zks_inv_grows [OF inv1 g d]) simp_all
  then show ?thesis
    using run k inv1 by (auto simp: expireRemove_def Let_def x_def [symmetric] rest_def split: if_splits)
qed

lemma zks_inv_msgC:
  assumes inv: "zks_inv z" and sc0: "map_of (sessions z) sid = Some sc0" and auth: "sub_auth z rv"
  shows "zks_inv (setSession sid (sc0\<lparr>msgC := msgC sc0 @ [rv]\<rparr>) z)"
proof -
  have s0: "sess_inv z sid sc0" using inv sc0 by (simp add: zks_inv_def)
  have "sess_inv z sid (sc0\<lparr>msgC := msgC sc0 @ [rv]\<rparr>)"
    by (rule sess_inv_fields [OF s0]) (use s0 auth in \<open>auto simp: wanted_def sess_inv_def\<close>)
  then show ?thesis by (rule zks_inv_session_same [OF inv sc0]) simp_all
qed

lemma zks_inv_maybePushRM:
  assumes "zks_inv z"
  shows "zks_inv (maybePushRM rv z)"
proof -
  let ?z = "z\<lparr>rmsRecv := rmsRecv z + 1\<rparr>"
  have inv: "zks_inv ?z"
    by (rule zks_inv_fields [OF assms]) (use assms zks_inv_expiring [OF assms] in \<open>auto simp: zks_inv_def\<close>)
  show ?thesis
  proof (cases "map_of (subscribers z) rv")
    case None
    then show ?thesis using inv by (simp add: maybePushRM_def)
  next
    case (Some sid)
    then obtain sc where sc: "map_of (sessions z) sid = Some sc" "rv \<in> set (sessSubs sc)"
      using assms unfolding zks_inv_def by blast
    then have auth: "sub_auth ?z rv" using inv by (auto simp: zks_inv_def sess_inv_def wanted_def)
    have "zks_inv (setSession sid (sc\<lparr>msgC := msgC sc @ [rv]\<rparr>) ?z)"
      by (rule zks_inv_msgC [OF inv _ auth]) (use sc in simp)
    moreover have "zks_inv (?z\<lparr>zlock := Some (rv, sid)\<rparr>)" by (rule zks_inv_fields [OF inv]) (use auth zks_inv_expiring [OF inv] in auto)
    ultimately show ?thesis using Some sc by (simp add: maybePushRM_def Let_def)
  qed
qed

lemma zks_inv_subscribeStep:
  assumes inv: "zks_inv z" and run: "subscribeStep ev z = Some z'"
  shows "zks_inv z'"
proof -
  have s: "sess_inv z sid sc" if "map_of (sessions z) sid = Some sc" for sid sc using inv that by (simp add: zks_inv_def)
  have move: "zks_inv (setSession sid sc z)"
    if "map_of (sessions z) sid = Some sc0" "tagStack sc = tagStack sc0" "tagMessage sc = tagMessage sc0" "writer sc = writer sc0"
      "ackWaits sc = ackWaits sc0" "msgAckC sc = msgAckC sc0" "wanted sc \<subseteq> wanted sc0" "sessSubs sc = sessSubs sc0" "pc sc \<noteq> PcDone"
      "reader sc = reader sc0" "\<forall>rv p t rvs. pc sc \<noteq> PcTag rv p t rvs"
    for sid sc0 sc
    by (rule zks_inv_session_same [OF inv that(1) sess_inv_fields [OF s [OF that(1)]]])
      (use that s [OF that(1)] in \<open>auto simp: sess_inv_def\<close>)
  show ?thesis
  proof (cases ev)
    case (SvTakeSet sid)
    with run obtain sc0 where sc0: "map_of (sessions z) sid = Some sc0"
      by (auto simp: subscribeStep_def withSession_def Option.bind_eq_Some_conv)
    then obtain sc add del where sc: "map_of (sessions z) sid = Some sc" "pc sc = PcSelect" "msgSetC sc = Some (add, del)"
        and z': "z' = setSession sid (sc\<lparr>msgSetC := None, pc := PcWantLock add del\<rparr>) z"
      using run SvTakeSet by (cases "pc sc0"; cases "msgSetC sc0") (auto simp: subscribeStep_def withSession_def)
    show ?thesis unfolding z' by (rule move [OF sc(1)]) (use sc in \<open>auto simp: wanted_def\<close>)
  next
    case (SvLockSet sid)
    with run obtain sc0 where sc0: "map_of (sessions z) sid = Some sc0"
      by (auto simp: subscribeStep_def withSession_def Option.bind_eq_Some_conv)
    then obtain sc add del where sc: "map_of (sessions z) sid = Some sc" "pc sc = PcWantLock add del" "zlock z = None"
        and z': "z' = (let (sc, z) = delSubs del sc z; (sc, z) = addSubs sid add sc z in setSession sid (sc\<lparr>pc := afterPush add\<rparr>) z)"
      using run SvLockSet
      by (cases "pc sc0"; cases "zlock z") (auto simp: subscribeStep_def withSession_def Let_def case_prod_unfold)
    obtain sc1 z1 where d: "delSubs del sc z = (sc1, z1)" by fastforce
    obtain sc2 z2 where a: "addSubs sid add sc1 z1 = (sc2, z2)" by fastforce
    show ?thesis using zks_inv_lockSet [OF inv sc(1,2) d a] by (simp add: z' d a)
  next
    case (SvTakeMsg sid)
    with run obtain sc0 where sc0: "map_of (sessions z) sid = Some sc0"
      by (auto simp: subscribeStep_def withSession_def Option.bind_eq_Some_conv)
    then obtain sc rv rest where sc: "map_of (sessions z) sid = Some sc" "pc sc = PcSelect" "msgC sc = rv # rest"
        and z': "z' = setSession sid (sc\<lparr>msgC := rest, pc := PcPush [rv]\<rparr>) z"
      using run SvTakeMsg by (cases "pc sc0"; cases "msgC sc0") (auto simp: subscribeStep_def withSession_def)
    show ?thesis unfolding z' by (rule move [OF sc(1)]) (use sc in \<open>auto simp: wanted_def\<close>)
  next
    case (SvTakeAck sid i env)
    with run obtain sc where sc: "map_of (sessions z) sid = Some sc" "pc sc = PcSelect" "i < length (msgAckC sc)"
      by (auto simp: subscribeStep_def withSession_def Option.bind_eq_Some_conv split: if_splits)
    obtain r db where rm: "RemovePayload (pay_io env) (msgAckC sc ! i) (zdb z) = (r, db)" by fastforce
    show ?thesis
      using run SvTakeAck sc rm zks_inv_takeAck [OF inv sc rm refl]
      by (auto simp: subscribeStep_def withSession_def Let_def split: option.splits)
  next
    case (SvPushNext sid env)
    with run obtain sc where sc0: "map_of (sessions z) sid = Some sc"
      by (auto simp: subscribeStep_def withSession_def Option.bind_eq_Some_conv)
    obtain rvs0 where pc0: "pc sc = PcPush rvs0"
      using run SvPushNext sc0 by (cases "pc sc") (auto simp: subscribeStep_def withSession_def)
    obtain rv rvs where sc: "map_of (sessions z) sid = Some sc" "pc sc = PcPush (rv # rvs)"
        and z': "z' = setSession sid (sc\<lparr>pc := fetchStored env rv rvs z\<rparr>) z"
      using run SvPushNext sc0 pc0 by (cases rvs0) (auto simp: subscribeStep_def withSession_def)
    show ?thesis unfolding z' by (rule zks_inv_fetch [OF inv sc])
  next
    case (SvPushTag sid)
    with run obtain sc where sc0: "map_of (sessions z) sid = Some sc"
      by (auto simp: subscribeStep_def withSession_def Option.bind_eq_Some_conv)
    then obtain rv p t rvs sc1 z1 where sc: "map_of (sessions z) sid = Some sc" "pc sc = PcTag rv p t rvs"
        and p: "pushStored rv p t sc z = Some (sc1, z1)" and z': "z' = setSession sid (sc1\<lparr>pc := afterPush rvs\<rparr>) z1"
      using run SvPushTag by (cases "pc sc") (auto simp: subscribeStep_def withSession_def)
    show ?thesis unfolding z' by (rule zks_inv_pushStored [OF inv sc p])
  next
    case (SvCtxDone sid)
    with run obtain sc where sc: "map_of (sessions z) sid = Some sc" "pc sc = PcSelect"
        and z': "z' = setSession sid (sc\<lparr>pc := PcExit\<rparr>) z"
      by (auto simp: subscribeStep_def withSession_def Option.bind_eq_Some_conv split: if_splits)
    show ?thesis unfolding z' by (rule move [OF sc(1)]) (use sc in \<open>auto simp: wanted_def\<close>)
  next
    case (SvExitLock sid)
    with run obtain sc where sc: "map_of (sessions z) sid = Some sc" "pc sc = PcExit"
        and z': "z' = setSession sid (sc\<lparr>pc := PcDone\<rparr>) (exitSubs sid (sessSubs sc) z)"
      by (auto simp: subscribeStep_def withSession_def Option.bind_eq_Some_conv split: if_splits)
    show ?thesis unfolding z' by (rule zks_inv_exit [OF inv sc])
  qed (use run in \<open>simp_all add: subscribeStep_def\<close>)
qed

lemma zks_inv_step:
  assumes inv: "zks_inv z" and run: "zksStep ev z = Some z'"
  shows "zks_inv z'"
proof (cases ev)
  case (SvConnect sid)
  then show ?thesis using run zks_inv_connect [OF inv, of sid] by (auto simp: zksStep_def split: if_splits)
next
  case (SvDisconnect sid)
  with run obtain sc where sc: "map_of (sessions z) sid = Some sc" and z': "z' = setSession sid (sc\<lparr>alive := False\<rparr>) z"
    by (auto simp: zksStep_def withSession_def Option.bind_eq_Some_conv split: if_splits)
  show ?thesis unfolding z' by (rule zks_inv_reader_same [OF inv sc]) simp_all
next
  case (SvReader sid env)
  with run obtain sc where sc: "map_of (sessions z) sid = Some sc" and st: "readerStep env sid sc z = Some z'"
    by (auto simp: zksStep_def withSession_def Option.bind_eq_Some_conv split: if_splits)
  show ?thesis by (rule zks_inv_readerStep [OF inv sc st])
next
  case (SvExpireFind dir name now i)
  then show ?thesis using run zks_inv_expireFind [OF inv] by (simp add: zksStep_def split: if_splits)
next
  case (SvExpireRemove k io)
  then show ?thesis using run zks_inv_expireRemove [OF inv] by (simp add: zksStep_def split: if_splits)
next
  case (SvRequest sid env tag msg)
  with run obtain sc where sc: "map_of (sessions z) sid = Some sc" and z': "z' = handleRequest env tag msg sid sc z"
    by (auto simp: zksStep_def withSession_def Option.bind_eq_Some_conv split: if_splits)
  have "ackWaits sc = None"
    using run SvRequest sc by (cases "ackWaits sc") (auto simp: zksStep_def withSession_def split: if_splits)
  note sc = sc this
  show ?thesis unfolding z' by (rule zks_inv_request [OF inv sc])
next
  case (SvResumeAck sid)
  with run obtain sc tag m where sc: "map_of (sessions z) sid = Some sc" "ackWaits sc = Some (tag, m)"
    by (auto simp: zksStep_def withSession_def Option.bind_eq_Some_conv split: if_splits option.splits)
  obtain r ts where push: "PushTag tag (tagStack sc) = (r, ts)" by fastforce
  have z': "z' = finishAck m sid (sc\<lparr>tagStack := ts, ackWaits := None\<rparr>) z"
    using run SvResumeAck sc push by (cases r) (auto simp: zksStep_def withSession_def split: if_splits)
  have "m = None" using inv sc by (auto simp: zks_inv_def sess_inv_def)
  then show ?thesis using inv z' by (simp add: finishAck_def)
next
  case (SvPushLock i)
  let ?z = "z\<lparr>pushers := take i (pushers z) @ drop (i + 1) (pushers z)\<rparr>"
  have "zks_inv ?z" by (rule zks_inv_fields [OF inv]) (use inv zks_inv_expiring [OF inv] in \<open>auto simp: zks_inv_def\<close>)
  then have "zks_inv (maybePushRM (pushers z ! i) ?z)" by (rule zks_inv_maybePushRM)
  then show ?thesis using run SvPushLock by (auto simp: zksStep_def split: if_splits)
next
  case SvPushSend
  with run obtain rv sid sc where l: "zlock z = Some (rv, sid)" and sc: "map_of (sessions z) sid = Some sc"
      and z': "z' = setSession sid (sc\<lparr>msgC := msgC sc @ [rv]\<rparr>) (z\<lparr>zlock := None\<rparr>)"
    by (auto simp: zksStep_def withSession_def Option.bind_eq_Some_conv split: if_splits option.splits prod.splits)
  have inv1: "zks_inv (z\<lparr>zlock := None\<rparr>)" by (rule zks_inv_fields [OF inv]) (use zks_inv_expiring [OF inv] in simp_all)
  have "sub_auth z rv" using inv l unfolding zks_inv_def by blast
  then have auth: "sub_auth (z\<lparr>zlock := None\<rparr>) rv" by (simp add: sub_auth_def was_expired_def)
  show ?thesis unfolding z' by (rule zks_inv_msgC [OF inv1 _ auth]) (use sc in simp)
qed (use run zks_inv_subscribeStep [OF inv] in \<open>auto simp: zksStep_def split: if_splits\<close>)

lemma zks_reachable_inv: "zks_reachable cfg z \<Longrightarrow> zks_inv z"
proof (induction rule: zks_reachable.induct)
  case zks_init
  show ?case by (simp add: zks_inv_def db_inv_def NewServer_def NewFSDB_def)
next
  case (zks_step z ev z')
  then show ?case by (blast intro: zks_inv_step)
qed


section \<open>Properties\<close>



text \<open>C36: The tags of a session are never confused. In every reachable state, each of the 32 tags is
  either free, and then once in the pool, or on exactly one message waiting for its acknowledgement, and
  that message carries the tag and has been written to the client.\<close>

theorem session_tags_exclusive:
  assumes "zks_reachable cfg z" "map_of (sessions z) sid = Some sc" "i < tagDepth"
  shows "distinct (stackC (tagStack sc)) \<and>
    (tagMessage sc ! i = None \<longleftrightarrow> of_nat i \<in> set (stackC (tagStack sc))) \<and>
    (\<forall>w. tagMessage sc ! i = Some w \<longrightarrow> out_tag w = of_nat i \<and> w \<in> set (writer sc))"
  using zks_reachable_inv [OF assms(1)] assms(2,3) by (auto simp: zks_inv_def sess_inv_def tags_ok_def)

text \<open>The table of subscribers is sound: each entry names a session that exists, that has asked for the
  rendezvous point, that has not ended in the regular way, and, on a server that charges, the point is
  recorded as paid, or was until its record expired.\<close>

theorem subscribers_sound:
  assumes "zks_reachable cfg z" "map_of (subscribers z) rv = Some sid"
  shows "\<exists>sc. map_of (sessions z) sid = Some sc \<and> rv \<in> set (sessSubs sc) \<and> pc sc \<noteq> PcDone \<and>
    (PayScheme (settings z) = PaySchemeFree \<or> sub_paid (zdb z) rv \<or> was_expired z DirSubs rv)"
proof -
  have inv: "zks_inv z" by (rule zks_reachable_inv [OF assms(1)])
  then obtain sc where sc: "map_of (sessions z) sid = Some sc" "rv \<in> set (sessSubs sc)" "pc sc \<noteq> PcDone"
    using assms(2) unfolding zks_inv_def by blast
  then have "sub_auth z rv" using inv by (auto simp: zks_inv_def sess_inv_def wanted_def)
  then show ?thesis using sc by (auto simp: sub_auth_def)
qed

lemma zksRun_reachable: "zks_reachable cfg z \<Longrightarrow> zksRun evs z = Some z' \<Longrightarrow> zks_reachable cfg z'"
  by (induction evs arbitrary: z) (auto simp: Option.bind_eq_Some_conv intro: zks_step)

definition ex_free :: svr_settings where
  "ex_free = ex_svr\<lparr>PayScheme := PaySchemeFree\<rparr>"

definition ex_server :: "svr_settings \<Rightarrow> zks_event list \<Rightarrow> zks" where
  "ex_server cfg evs = (case zksRun evs (NewServer cfg) of Some z \<Rightarrow> z | None \<Rightarrow> NewServer cfg)"

definition ex_zks :: "zks_event list \<Rightarrow> zks" where
  "ex_zks evs = ex_server ex_free evs"

lemma ex_server_reachable: "zks_reachable cfg (ex_server cfg evs)"
  by (auto simp: ex_server_def intro: zksRun_reachable zks_init split: option.splits)

lemma ex_zks_reachable: "zks_reachable ex_free (ex_zks evs)"
  unfolding ex_zks_def by (rule ex_server_reachable)

text \<open>Session 1 subscribes to point 9, session 2 sends a message there, which is pushed to session 1.\<close>

definition ex_subscribe :: "nat \<Rightarrow> RVID list \<Rightarrow> RVID list \<Rightarrow> zks_event list" where
  "ex_subscribe sid add del = [SvRequest sid ex_pay_env 0 (SubscribeRoutedMessages add del []), SvTakeSet sid, SvLockSet sid] @
     map (\<lambda>_. SvPushNext sid ex_pay_env) add"

definition ex_route :: "nat \<Rightarrow> RVID \<Rightarrow> bytes \<Rightarrow> zks_event list" where
  "ex_route sid rv msg = [SvRequest sid ex_pay_env 0 (RouteMessage rv msg None), SvReader sid ex_pay_env, SvReader sid ex_pay_env]"

definition ex_delivery :: "zks_event list" where
  "ex_delivery = [SvConnect 1, SvConnect 2] @ ex_subscribe 1 [[9]] [] @ ex_route 2 [9] [5, 5] @
     [SvPushLock 0, SvTakeMsg 1, SvPushNext 1 ex_pay_env, SvPushTag 1]"

text \<open>The expiration loop, seven days after the beginning, removes the file of a point.\<close>

definition ex_expire :: "db_dir \<Rightarrow> RVID \<Rightarrow> zks_event list" where
  "ex_expire dir rv = [SvExpireFind dir rv (ex_at 170) 0, SvExpireRemove 0 ex_disk]"


abbreviation ex_sess1 :: sessionContext where
  "ex_sess1 \<equiv> the (map_of (sessions (ex_zks ex_delivery)) 1)"

lemma ex_sess1: "map_of (sessions (ex_zks ex_delivery)) 1 = Some ex_sess1"
  by code_simp

text \<open>The same on a server that charges: session 1 pays for the point, session 2 for the message, and the record of the
  subscription expires before the message is pushed.\<close>

definition ex_charged :: "zks_event list" where
  "ex_charged = [SvConnect 1, SvConnect 2, SvRequest 1 ex_pay_env 0 (GetInvoice PaySchemeDCRLN ActionSub),
     SvRequest 1 ex_pay_env 0 (SubscribeRoutedMessages [[9]] [] []), SvReader 1 ex_pay_env, SvReader 1 ex_pay_env, SvReader 1 ex_pay_env,
     SvTakeSet 1, SvLockSet 1, SvPushNext 1 ex_pay_env, SvRequest 2 ex_pay_env 0 (RouteMessage [9] [5, 5] (Some ex_hash)),
     SvReader 2 ex_pay_env, SvReader 2 ex_pay_env, SvReader 2 ex_pay_env] @ ex_expire DirSubs [9] @
     [SvPushLock 0, SvTakeMsg 1, SvPushNext 1 ex_pay_env, SvPushTag 1]"


theorem session_tags_exclusive_witness:
  "tagMessage ex_sess1 ! 0 \<noteq> None \<and> (0 :: u32) \<notin> set (stackC (tagStack ex_sess1)) \<and> distinct (stackC (tagStack ex_sess1))"
proof -
  have m: "tagMessage ex_sess1 ! 0 \<noteq> None" by code_simp
  have "0 < tagDepth" by (simp add: tagDepth_def)
  from session_tags_exclusive [OF ex_zks_reachable ex_sess1 this] m show ?thesis by simp
qed

theorem subscribers_sound_witness:
  "map_of (subscribers (ex_zks ex_delivery)) [9] = Some 1 \<and> [9] \<in> set (sessSubs ex_sess1)"
proof -
  have m: "map_of (subscribers (ex_zks ex_delivery)) [9] = Some 1" by code_simp
  from subscribers_sound [OF ex_zks_reachable m] m show ?thesis using ex_sess1 by auto
qed

section \<open>Runs that the code does not mean to have\<close>

text \<open>The session that \<open>maybePushRM\<close> waits for, with the lock held, no longer reads its channel.\<close>

definition stuck_on :: "RVID \<Rightarrow> nat \<Rightarrow> zks \<Rightarrow> bool" where
  "stuck_on rv sid z =
     (zlock z = Some (rv, sid) \<and>
      (case map_of (sessions z) sid of
         None \<Rightarrow> False
       | Some sc \<Rightarrow> msgC_cap \<le> length (msgC sc) \<and>
           (case pc sc of PcWantLock _ _ \<Rightarrow> True | PcExit \<Rightarrow> True | PcDone \<Rightarrow> True | PcFailed \<Rightarrow> True | _ \<Rightarrow> False)))"

text \<open>Three messages for a session whose client also sends a subscription: the channel has room for two, the third
  waits with the lock held, and the \<^verbatim>\<open>select\<close> takes the subscription, which needs the lock.\<close>

lemma deadlock_reached:
  "stuck_on [8] 1 (ex_zks ([SvConnect 1, SvConnect 2] @ ex_subscribe 1 [[6], [7], [8]] [] @
     concat (map (\<lambda>rv. ex_route 2 [rv] [5]) [6, 7, 8]) @
     [SvRequest 1 ex_pay_env 0 (SubscribeRoutedMessages [[3]] [] []), SvPushLock 0, SvPushLock 0, SvPushLock 0, SvTakeSet 1]))"
  by code_simp

text \<open>The error of a removal ends the loop without removing the subscriptions, and then two messages are
  enough to fill the channel of the session that is gone.\<close>

lemma deadlock_after_failed_removal:
  "stuck_on [8] 1 (ex_zks (ex_delivery @ ex_subscribe 1 [[6], [7], [8]] [] @
     [SvRequest 1 ex_pay_env 0 Acknowledge, SvTakeAck 1 0 (ex_pay_env\<lparr>pay_io := ex_disk\<lparr>remove_fails := \<lambda>_. True\<rparr>\<rparr>)] @
     concat (map (\<lambda>rv. ex_route 2 [rv] [5]) [6, 7, 8]) @
     [SvPushLock 0, SvPushLock 0, SvPushLock 0]))"
  by code_simp

text \<open>A client that acknowledges a tag twice, while another of its tags is out, ends the server.\<close>

lemma double_ack_panics:
  "crashed (ex_zks (ex_delivery @ ex_route 2 [7] [5] @ ex_subscribe 1 [[7]] [] @
     [SvPushTag 1, SvRequest 1 ex_pay_env 0 Acknowledge, SvRequest 1 ex_pay_env 0 Acknowledge]))"
  by code_simp

text \<open>So does any request with tag 32.\<close>

lemma tag_32_panics: "crashed (ex_zks [SvConnect 1, SvRequest 1 ex_pay_env 32 Ping])"
  by code_simp

text \<open>Session 1 unsubscribes from a point that session 2 has taken over: session 2 loses it.\<close>

lemma takeover_lost:
  "map_of (subscribers (ex_zks ([SvConnect 1, SvConnect 2] @ ex_subscribe 1 [[9]] [] @ ex_subscribe 2 [[9]] []))) [9] = Some 2 \<and>
   map_of (subscribers (ex_zks ([SvConnect 1, SvConnect 2] @ ex_subscribe 1 [[9]] [] @ ex_subscribe 2 [[9]] [] @
     ex_subscribe 1 [] [[9]]))) [9] = None"
  by code_simp

text \<open>Subscribing twice to a point counts twice, and leaving counts once.\<close>

lemma activeSubs_drifts:
  "activeSubs (ex_zks ([SvConnect 1] @ ex_subscribe 1 [[9]] [] @ ex_subscribe 1 [[9]] [] @ ex_subscribe 1 [] [[9]])) = 1"
  by code_simp

text \<open>Two sessions that look at a point before either writes: both messages are accepted, and the first is gone.\<close>

lemma accepted_message_lost:
  "let z = ex_zks [SvConnect 1, SvConnect 2, SvRequest 1 ex_pay_env 0 (RouteMessage [9] [5] None), SvRequest 2 ex_pay_env 0 (RouteMessage [9] [6] None),
       SvReader 1 ex_pay_env, SvReader 2 ex_pay_env, SvReader 1 ex_pay_env, SvReader 2 ex_pay_env]
   in stored z = [([9], [5]), ([9], [6])] \<and> map fst (rootMsgs (zdb z)) = [[9]] \<and> map (fst \<circ> snd) (rootMsgs (zdb z)) = [[6]]"
  by code_simp

text \<open>Two sessions name one invoice, and both check it before either redeems it: it pays for two messages.\<close>

lemma invoice_pays_twice:
  "stored (ex_server ex_svr [SvConnect 1, SvConnect 2, SvRequest 1 ex_pay_env 0 (RouteMessage [8] [5] (Some ex_hash)),
     SvRequest 2 ex_pay_env 0 (RouteMessage [9] [6] (Some ex_hash)), SvReader 1 ex_pay_env, SvReader 2 ex_pay_env,
     SvReader 1 ex_pay_env, SvReader 2 ex_pay_env, SvReader 1 ex_pay_env, SvReader 2 ex_pay_env]) = [([8], [5]), ([9], [6])]"
  by code_simp

text \<open>A message is acknowledged between the listing of the directory and its removal by the expiration loop: the loop meets a file that is
  gone, and the server ends.\<close>

lemma expiration_meets_ack:
  "crashed (ex_zks (ex_delivery @ [SvExpireFind DirMsgs [9] (ex_at 170) 0, SvRequest 1 ex_pay_env 0 Acknowledge, SvTakeAck 1 0 ex_pay_env,
     SvExpireRemove 0 ex_disk]))"
  by code_simp

text \<open>Such a state is for ever: whatever any session does, the lock stays with \<open>maybePushRM\<close>. Nobody can
  subscribe or leave any more, and no message is pushed on arrival, for any client of the server.\<close>

definition same_place :: "zks \<Rightarrow> zks \<Rightarrow> bool" where
  "same_place z z' =
     (zlock z' = zlock z \<and> (\<forall>s sc. map_of (sessions z) s = Some sc \<longrightarrow>
        (\<exists>sc'. map_of (sessions z') s = Some sc' \<and> pc sc' = pc sc \<and> msgC sc' = msgC sc)))"

lemma same_place_set:
  "map_of (sessions z) sid = Some sc \<Longrightarrow> sessions z1 = sessions z \<Longrightarrow> zlock z1 = zlock z \<Longrightarrow> pc sc' = pc sc \<Longrightarrow>
   msgC sc' = msgC sc \<Longrightarrow> same_place z (setSession sid sc' z1)"
  by (auto simp: same_place_def setSession_def)

lemma same_place_crash: "same_place z (z\<lparr>crashed := True\<rparr>)"
  by (simp add: same_place_def)

lemma same_place_reader:
  assumes "map_of (sessions z) sid = Some sc"
  shows "same_place z (handleRouteMessage env tag rv m pid sid sc z)"
    "same_place z (handleSubscribeRoutedMessages env tag add del mark sid sc z)"
    "readerStep env sid sc z = Some z' \<Longrightarrow> same_place z z'"
proof -
  note set = same_place_set [OF assms]
  have paid: "same_place z (routePaid env tag rv m sid (sc\<lparr>pay := p\<rparr>) (z\<lparr>zdb := db\<rparr>))" for tag rv m p db
    by (simp add: routePaid_def set split: prod.split)
  have ends: "same_place z (subscribeEnd env tag add del sid sc z)" for tag add del
    by (simp add: subscribeEnd_def toWriter_def set split: prod.split)
  have "same_place z (routeWrite env tag rv m i sid sc z)" for tag rv m i
    using set [of z] by (auto simp: routeWrite_def Let_def toWriter_def same_place_def setSession_def split: prod.split option.split)
  then show "readerStep env sid sc z = Some z' \<Longrightarrow> same_place z z'"
    using paid ends
    by (auto simp: readerStep_def routeRedeem_def routeStat_def subscribeNext_def subscribeMark_def toWriter_def set
        split: reader_pc.splits prod.split option.split list.split sum.split pay_error.split bool.split)
  have paid1: "same_place z (routePaid env tag rv m sid sc z)" for tag rv m using paid [of tag rv m "pay sc" "zdb z"] by simp
  show "same_place z (handleRouteMessage env tag rv m pid sid sc z)"
    by (simp add: handleRouteMessage_def toWriter_def set paid1 split: sum.split option.split)
  show "same_place z (handleSubscribeRoutedMessages env tag add del mark sid sc z)"
    by (simp add: handleSubscribeRoutedMessages_def set ends same_place_crash split: option.split prod.split sum.split)
qed

lemma same_place_request:
  assumes "map_of (sessions z) sid = Some sc"
  shows "same_place z (handleRequest env tag msg sid sc z)"
proof -
  note set = same_place_set [OF assms]
  have "same_place z (handleAck tag sid sc z)"
    by (simp add: handleAck_def finishAck_def Let_def set same_place_crash
        split: prod.split option.split tag_result.split out_payload.split)
  then show ?thesis
    by (simp add: handleRequest_def toWriter_def set same_place_crash same_place_reader [OF assms]
        split: client_msg.split prod.split sum.split option.split)
qed

lemma stuck_same_place: "stuck_on rv sid z \<Longrightarrow> same_place z z' \<Longrightarrow> stuck_on rv sid z'"
  by (fastforce simp: stuck_on_def same_place_def split: option.splits)

text \<open>A step of another session leaves the state of this one.\<close>

lemma stuck_other:
  "stuck_on rv sid z \<Longrightarrow> s \<noteq> sid \<Longrightarrow> sessions z1 = sessions z \<Longrightarrow> zlock z1 = zlock z \<Longrightarrow> stuck_on rv sid (setSession s sc z1)"
  by (simp add: stuck_on_def setSession_def)

definition needs_lock :: "sub_pc \<Rightarrow> zks \<Rightarrow> bool" where
  "needs_lock p z = (case p of PcWantLock _ _ \<Rightarrow> zlock z = None | PcExit \<Rightarrow> zlock z = None | PcDone \<Rightarrow> False | PcFailed \<Rightarrow> False | _ \<Rightarrow> True)"

definition moves_one :: "zks \<Rightarrow> zks \<Rightarrow> bool" where
  "moves_one z z' = (\<exists>s sc sc' z1. map_of (sessions z) s = Some sc \<and> z' = setSession s sc' z1 \<and> sessions z1 = sessions z \<and>
     zlock z1 = zlock z \<and> needs_lock (pc sc) z)"

lemma moves_oneI:
  "map_of (sessions z) s = Some sc \<Longrightarrow> needs_lock (pc sc) z \<Longrightarrow> sessions z1 = sessions z \<Longrightarrow> zlock z1 = zlock z \<Longrightarrow>
   moves_one z (setSession s sc' z1)"
  by (auto simp: moves_one_def)

lemma subscribeStep_moves_one:
  assumes "subscribeStep ev z = Some z'"
  shows "moves_one z z'"
proof -
  have session: "\<exists>sc. map_of (sessions z) s = Some sc" if "withSession s z f = Some z'" for s f
    using that by (auto simp: withSession_def Option.bind_eq_Some_conv)
  note step = subscribeStep_def withSession_def needs_lock_def
  show ?thesis
  proof (cases ev)
    case (SvLockSet s)
    with assms session obtain sc where sc: "map_of (sessions z) s = Some sc" by (auto simp: subscribeStep_def)
    then obtain add del where pc: "pc sc = PcWantLock add del" "zlock z = None"
      using assms SvLockSet by (cases "pc sc"; cases "zlock z") (auto simp: step)
    obtain l m a where d: "delSubs del sc z = (sc\<lparr>sessSubs := l\<rparr>, z\<lparr>subscribers := m, activeSubs := a\<rparr>)"
      using delSubs_laws by blast
    obtain l2 m2 a2 b where "addSubs s add (sc\<lparr>sessSubs := l\<rparr>) (z\<lparr>subscribers := m, activeSubs := a\<rparr>) =
        (sc\<lparr>sessSubs := l, sessSubs := l2\<rparr>, z\<lparr>subscribers := m, activeSubs := a, subscribers := m2, subsRecv := b, activeSubs := a2\<rparr>)"
      using addSubs_laws [of s add "sc\<lparr>sessSubs := l\<rparr>" "z\<lparr>subscribers := m, activeSubs := a\<rparr>"] by blast
    then show ?thesis using assms SvLockSet sc pc d by (auto simp: step intro!: moves_oneI)
  next
    case (SvExitLock s)
    with assms session obtain sc where sc: "map_of (sessions z) s = Some sc" by (auto simp: subscribeStep_def)
    obtain m a where "exitSubs s (sessSubs sc) z = z\<lparr>subscribers := m, activeSubs := a\<rparr>" using exitSubs_laws by blast
    then show ?thesis using assms SvExitLock sc by (auto simp: step split: if_splits intro!: moves_oneI)
  next
    case (SvPushNext s env)
    with assms session obtain sc where sc: "map_of (sessions z) s = Some sc" by (auto simp: subscribeStep_def)
    obtain rvs0 where pc: "pc sc = PcPush rvs0" using assms SvPushNext sc by (cases "pc sc") (auto simp: step)
    then show ?thesis using assms SvPushNext sc by (cases rvs0) (auto simp: step intro!: moves_oneI)
  next
    case (SvPushTag s)
    with assms session obtain sc where sc: "map_of (sessions z) s = Some sc" by (auto simp: subscribeStep_def)
    then obtain rv p t rvs sc1 z1 where pc: "pc sc = PcTag rv p t rvs" and p: "pushStored rv p t sc z = Some (sc1, z1)"
        and z': "z' = setSession s (sc1\<lparr>pc := afterPush rvs\<rparr>) z1"
      using assms SvPushTag by (cases "pc sc") (auto simp: step)
    have "sessions z1 = sessions z" "zlock z1 = zlock z"
      using p by (auto simp: pushStored_def Let_def split: prod.splits tag_result.splits if_splits)
    then show ?thesis unfolding z' using sc pc by (intro moves_oneI) (auto simp: needs_lock_def)
  next
    case (SvTakeAck s i env)
    with assms session obtain sc where sc: "map_of (sessions z) s = Some sc" by (auto simp: subscribeStep_def)
    then show ?thesis using assms SvTakeAck
      by (auto simp: step Let_def split: if_splits prod.splits option.splits intro!: moves_oneI)
  next
    case (SvTakeSet s)
    with assms session obtain sc where sc: "map_of (sessions z) s = Some sc" by (auto simp: subscribeStep_def)
    then show ?thesis using assms SvTakeSet by (cases "pc sc"; cases "msgSetC sc") (auto simp: step intro!: moves_oneI)
  next
    case (SvTakeMsg s)
    with assms session obtain sc where sc: "map_of (sessions z) s = Some sc" by (auto simp: subscribeStep_def)
    then show ?thesis using assms SvTakeMsg by (cases "pc sc"; cases "msgC sc") (auto simp: step intro!: moves_oneI)
  next
    case (SvCtxDone s)
    with assms session obtain sc where sc: "map_of (sessions z) s = Some sc" by (auto simp: subscribeStep_def)
    then show ?thesis using assms SvCtxDone by (auto simp: step split: if_splits intro!: moves_oneI)
  qed (use assms in \<open>auto simp: subscribeStep_def\<close>)
qed

lemma stuck_for_ever:
  assumes st: "stuck_on rv sid z" and run: "zksStep ev z = Some z'"
  shows "stuck_on rv sid z'"
proof (cases "subscribeStep ev z = Some z'")
  case True
  then obtain s sc sc' z1 where s: "map_of (sessions z) s = Some sc" "z' = setSession s sc' z1" "sessions z1 = sessions z" "zlock z1 = zlock z"
      "needs_lock (pc sc) z"
    using subscribeStep_moves_one unfolding moves_one_def by blast
  have "s \<noteq> sid" using s(1,5) st by (auto simp: stuck_on_def needs_lock_def split: sub_pc.splits)
  then show ?thesis using stuck_other [OF st _ s(3,4)] s(2) by simp
next
  case False
  show ?thesis
  proof (cases ev)
    case (SvConnect s)
    with run st have "s \<noteq> sid" "z' = setSession s runNewSession z"
      by (auto simp: zksStep_def stuck_on_def split: if_splits)
    then show ?thesis using stuck_other [OF st] by simp
  next
    case (SvDisconnect s)
    with run have "same_place z z'"
      by (auto simp: zksStep_def withSession_def Option.bind_eq_Some_conv split: if_splits intro: same_place_set)
    then show ?thesis by (rule stuck_same_place [OF st])
  next
    case (SvRequest s env tag msg)
    with run have "same_place z z'"
      by (auto simp: zksStep_def withSession_def Option.bind_eq_Some_conv split: if_splits intro: same_place_request)
    then show ?thesis by (rule stuck_same_place [OF st])
  next
    case (SvReader s env)
    with run have "same_place z z'"
      by (auto simp: zksStep_def withSession_def Option.bind_eq_Some_conv split: if_splits intro: same_place_reader(3))
    then show ?thesis by (rule stuck_same_place [OF st])
  next
    case (SvExpireFind dir name now i)
    with run have "same_place z z'"
      by (auto simp: zksStep_def expireFind_def Let_def same_place_def split: if_splits option.splits)
    then show ?thesis by (rule stuck_same_place [OF st])
  next
    case (SvExpireRemove k io)
    with run have "same_place z z'"
      by (auto simp: zksStep_def expireRemove_def Let_def same_place_def split: if_splits)
    then show ?thesis by (rule stuck_same_place [OF st])
  next
    case (SvResumeAck s)
    with run obtain sc tag m where sc: "map_of (sessions z) s = Some sc" "ackWaits sc = Some (tag, m)"
      by (auto simp: zksStep_def withSession_def Option.bind_eq_Some_conv split: if_splits option.splits)
    obtain r ts where push: "PushTag tag (tagStack sc) = (r, ts)" by fastforce
    have z': "z' = finishAck m s (sc\<lparr>tagStack := ts, ackWaits := None\<rparr>) z"
      using run SvResumeAck sc push by (cases r) (auto simp: zksStep_def withSession_def split: if_splits)
    have "same_place z z'"
      unfolding z' by (simp add: finishAck_def same_place_crash same_place_set [OF sc(1)] split: option.split out_payload.split)
    then show ?thesis by (rule stuck_same_place [OF st])
  qed (use run False st in \<open>auto simp: zksStep_def withSession_def stuck_on_def split: if_splits option.splits\<close>)
qed
end
