(* ===== verification/Rtdt_Server.thy ===== *)
theory Rtdt_Server
  imports Rtdt_Rpc Seqtracker
begin

text \<open>
  The real-time datagram server (\<^verbatim>\<open>src/rtdt/server\<close>): it hands the datagrams of a member of a session to the other
  members, for members who hold a join cookie and as far as the cookie's allowance goes.

  Connections, sessions, bindings of a peer to a session and payments are objects that the code shares by pointer. A
  pointer is an index into the list of all objects of its type ever made (\<open>rt_conns\<close>, \<open>rt_sess\<close>, \<open>rt_peers\<close>, \<open>rt_pays\<close>). A step of
  \<open>rtStep\<close> is the handling of one datagram, of one message of the handshake queue, of one tick of a timer or of one request for a
  listing of members; each reads the clock once. Steps of different goroutines interleave, but not the critical
  sections within them. The server has one listener, and an address is a number. Statistics and logging are left out,
  and the channel of requests for listings is not bounded.

  A write to the network may fail (\<open>write_fails\<close>). What is written is recorded in \<open>rt_out\<close> before encryption
  (\<open>packetOnWire\<close> is what then goes to the network). \<open>rt_halted\<close> is the server stopped by an error that a goroutine returns
  or by a panic, or with the lock of a session held for ever. The hash of a session's data is an argument of the configuration, as is the
  serialisation of a bitmap.
\<close>

section \<open>State\<close>

datatype rt_error =
    ErrJoinCookieInvalid | ErrJoinCookieWrongPeerID | ErrJoinCookieExpired | ErrSourcePeerNotInSession
  | ErrSourcePeerNotAdmin | ErrTargetPeerNotInSession | ErrBanned | ErrInvalidRotCookie | ErrExpiredRotCookie
  | ErrMismatchedOldSessId | ErrAlreadyUsedRotCookie | ErrNotInSession | ErrSizeChanged
  | ErrPingTooRecent | ErrPingTooLarge | ErrTooFewBytes | ErrUnknownCmd | ErrWrite

fun errorCode :: "rt_error \<Rightarrow> u64" where
  "errorCode ErrJoinCookieInvalid = 0x100000001"
| "errorCode ErrJoinCookieWrongPeerID = 0x100000002"
| "errorCode ErrJoinCookieExpired = 0x100000003"
| "errorCode ErrSourcePeerNotInSession = 0x100000005"
| "errorCode ErrSourcePeerNotAdmin = 0x100000006"
| "errorCode ErrTargetPeerNotInSession = 0x100000007"
| "errorCode ErrBanned = 0x100000008"
| "errorCode ErrInvalidRotCookie = 0x100000009"
| "errorCode ErrExpiredRotCookie = 0x10000000a"
| "errorCode ErrMismatchedOldSessId = 0x10000000b"
| "errorCode ErrAlreadyUsedRotCookie = 0x10000000c"
| "errorCode _ = 0"

record rt_cfg =
  rt_crypto :: crypto
  blake3_key :: "bytes \<Rightarrow> bytes"
  bmpWriteTo :: "u32 set \<Rightarrow> bytes"
  privKey :: "bytes option"
  cookieKey :: "key option"
  decodeCookieKeys :: "key list"
  maxPingInterval :: duration
  minPingInterval :: duration
  dropPaymentLoopInterval :: duration
  replyErrorCodes :: bool
  maxBanScore :: nat
  sessListingInterval :: duration
  minSessListingInterval :: duration
  disableForceListing :: bool
  rotateCookieLifetime :: duration

text \<open>A payment, a peer in a session, a session and a connection. \<open>bytesAllowance\<close> is an \<^verbatim>\<open>atomic.Int64\<close>.\<close>

record payment =
  bytesAllowance :: u64
  pay_tag :: u64
  pay_endTime :: time

record peer_session =
  ps_peerID :: u32
  ps_sess :: nat
  ps_size :: int
  ps_conn :: nat
  ps_isAdmin :: bool
  ps_payments :: "nat list"

record rt_session =
  ss_sid :: bytes
  ss_peers :: "nat list"
  lastMemberListing :: time
  bmp :: "u32 set"
  bmpBuf :: bytes
  bans :: "(u32, time) gomap"

record rt_conn =
  cn_addr :: nat
  lastRead :: time
  sessionKey :: key
  recvSeq :: tracker
  sendSeq :: u32
  lastRecvPingTime :: "time option"
  pending :: "bytes option"
  cn_sessions :: "(u32, nat) gomap"
  banScore :: nat

datatype halt = HaltNetwork | HaltMutex | HaltPanic

text \<open>The server. The last fields record what happened: the cookies with which peers joined sessions, the cookies redeemed for
  an allowance and for a rotation, the ids a session has had, what admins did, the bytes relayed, the data packets
  forwarded, and whether the arithmetic of an allowance has ever wrapped around.\<close>

record rt_join =
  jn_conn :: nat
  jn_peer :: u32
  jn_sess :: nat
  jn_sid :: bytes
  jn_admin :: bool

record rt_fwd =
  fw_src :: nat
  fw_srcID :: u32
  fw_dst :: nat
  fw_dstID :: u32
  fw_sess :: nat
  fw_in :: bytes
  fw_out :: bytes

record rt_state =
  rt_conns :: "rt_conn list"
  rt_sess :: "rt_session list"
  rt_peers :: "peer_session list"
  rt_pays :: "payment list"
  connTable :: "(nat, nat) gomap"
  sessTable :: "(bytes, nat) gomap"
  payTable :: "(u64, nat) gomap"
  rotPayments :: "(u64, time) gomap"
  forceSessListChan :: "nat list"
  unsessQueue :: "(bytes \<times> nat \<times> time) list"
  connsCount :: int
  pendingCount :: int
  rt_halted :: "halt option"
  rt_now :: time
  rt_out :: "(nat \<times> bytes) list"
  joined :: "rt_join list"
  redeemed :: "(u64 \<times> u64 \<times> u64) list"
  rotated :: "(u64 \<times> u64) list"
  sessIDs :: "(nat \<times> bytes) list"
  adminOps :: "(nat \<times> u32 \<times> nat) list"
  relayed :: int
  forwarded :: "rt_fwd list"
  wrapped :: bool

definition rt_newServer :: "time \<Rightarrow> rt_state" where
  "rt_newServer now =
     \<lparr>rt_conns = [], rt_sess = [], rt_peers = [], rt_pays = [], connTable = [], sessTable = [], payTable = [], rotPayments = [],
      forceSessListChan = [], unsessQueue = [], connsCount = 0, pendingCount = 0, rt_halted = None, rt_now = now, rt_out = [],
      joined = [], redeemed = [], rotated = [], sessIDs = [], adminOps = [], relayed = 0, forwarded = [], wrapped = False\<rparr>"

definition updConn :: "nat \<Rightarrow> (rt_conn \<Rightarrow> rt_conn) \<Rightarrow> rt_state \<Rightarrow> rt_state" where
  "updConn c f s = s\<lparr>rt_conns := (rt_conns s)[c := f (rt_conns s ! c)]\<rparr>"

definition updSess :: "nat \<Rightarrow> (rt_session \<Rightarrow> rt_session) \<Rightarrow> rt_state \<Rightarrow> rt_state" where
  "updSess p f s = s\<lparr>rt_sess := (rt_sess s)[p := f (rt_sess s ! p)]\<rparr>"

definition updPeer :: "nat \<Rightarrow> (peer_session \<Rightarrow> peer_session) \<Rightarrow> rt_state \<Rightarrow> rt_state" where
  "updPeer i f s = s\<lparr>rt_peers := (rt_peers s)[i := f (rt_peers s ! i)]\<rparr>"

definition addBanScore :: "nat \<Rightarrow> rt_state \<Rightarrow> rt_state" where
  "addBanScore c = updConn c (\<lambda>cn. cn\<lparr>banScore := banScore cn + 1\<rparr>)"

section \<open>Session ids\<close>

definition calcSessionID :: "rt_cfg \<Rightarrow> bytes \<Rightarrow> bytes \<Rightarrow> u32 \<Rightarrow> bytes" where
  "calcSessionID cfg ownerSecret serverSecret sz = blake3_key cfg (serverSecret @ ownerSecret @ put_u32_be sz)"

definition sessionIDFromJoinCookie :: "rt_cfg \<Rightarrow> join_cookie \<Rightarrow> bytes" where
  "sessionIDFromJoinCookie cfg jc = calcSessionID cfg (jc_OwnerSecret jc) (jc_ServerSecret jc) (jc_Size jc)"

definition oldSessionFromRotCookie :: "rt_cfg \<Rightarrow> rotate_cookie \<Rightarrow> bytes" where
  "oldSessionFromRotCookie cfg rc = calcSessionID cfg (rc_OldOwnerSecret rc) (rc_ServerSecret rc) (rc_Size rc)"

definition newSessionFromRotCookie :: "rt_cfg \<Rightarrow> rotate_cookie \<Rightarrow> bytes" where
  "newSessionFromRotCookie cfg rc = calcSessionID cfg (rc_NewOwnerSecret rc) (rc_ServerSecret rc) (rc_Size rc)"

section \<open>Payments\<close>

definition addPayment :: "nat \<Rightarrow> nat \<Rightarrow> rt_state \<Rightarrow> rt_state" where
  "addPayment ps p s =
     (if \<exists>q \<in> set (ps_payments (rt_peers s ! ps)). pay_tag (rt_pays s ! q) = pay_tag (rt_pays s ! p) then s
      else updPeer ps (\<lambda>x. x\<lparr>ps_payments := ps_payments x @ [p]\<rparr>) s)"

text \<open>The loop of \<open>deductAllowance\<close> over the payments that are left, with the amount \<open>n\<close> (an \<^verbatim>\<open>int64\<close>) still to be
  deducted. It returns the result, the payments kept, the state of all payments, and whether a subtraction wrapped around.\<close>

fun deductLoop :: "u64 \<Rightarrow> nat list \<Rightarrow> payment list \<Rightarrow> bool \<times> nat list \<times> payment list \<times> bool" where
  "deductLoop n [] pays = (False, [], pays, False)"
| "deductLoop n (i # is) pays =
     (if sint n \<le> 0 then (False, i # is, pays, False)
      else
        let newAllowance = bytesAllowance (pays ! i) - n;
            wr = sint (bytesAllowance (pays ! i)) - sint n \<noteq> sint newAllowance \<or> sint (- newAllowance) \<noteq> - sint newAllowance;
            pays = pays[i := (pays ! i)\<lparr>bytesAllowance := newAllowance\<rparr>]
        in if sint newAllowance < 0 then
             (case deductLoop (- newAllowance) is pays of (res, kept, pays, w) \<Rightarrow> (res, kept, pays, w \<or> wr))
           else (True, i # is, pays, wr))"

definition deductAllowance :: "nat \<Rightarrow> u64 \<Rightarrow> rt_state \<Rightarrow> bool \<times> rt_state" where
  "deductAllowance ps n s =
     (case deductLoop n (ps_payments (rt_peers s ! ps)) (rt_pays s) of
        (res, kept, pays, w) \<Rightarrow>
          (res, updPeer ps (\<lambda>x. x\<lparr>ps_payments := kept\<rparr>) (s\<lparr>rt_pays := pays, wrapped := wrapped s \<or> w\<rparr>)))"

text \<open>The cookie is valid, and its payment is looked up or redeemed.\<close>

definition validateJoinCookie ::
    "rt_cfg \<Rightarrow> key \<Rightarrow> time \<Rightarrow> u32 \<Rightarrow> bytes \<Rightarrow> rt_state \<Rightarrow> (rt_error + join_cookie \<times> nat) \<times> rt_state" where
  "validateJoinCookie cfg key now sourceID rawJc s =
     (case jc_Decrypt (rt_crypto cfg) rawJc key (decodeCookieKeys cfg) of
        Inl _ \<Rightarrow> (Inl ErrJoinCookieInvalid, s)
      | Inr jc \<Rightarrow>
          if jc_PeerID jc \<noteq> sourceID then (Inl ErrJoinCookieWrongPeerID, s)
          else if from_unix (sint (jc_EndTimestamp jc)) < now then (Inl ErrJoinCookieExpired, s)
          else (case map_of (payTable s) (jc_PaymentTag jc) of
                  Some p \<Rightarrow> (Inr (jc, p), s)
                | None \<Rightarrow>
                    let p = length (rt_pays s);
                        pay = \<lparr>bytesAllowance = jc_PublishAllowance jc, pay_tag = jc_PaymentTag jc,
                               pay_endTime = from_unix (sint (jc_EndTimestamp jc))\<rparr>
                    in (Inr (jc, p),
                        s\<lparr>rt_pays := rt_pays s @ [pay], payTable := AList.update (jc_PaymentTag jc) p (payTable s),
                          redeemed := redeemed s @ [(jc_PaymentTag jc, jc_EndTimestamp jc, jc_PublishAllowance jc)]\<rparr>)))"

definition dropStalePayments :: "time \<Rightarrow> rt_state \<Rightarrow> rt_state" where
  "dropStalePayments now s =
     s\<lparr>payTable := filter (\<lambda>(tag, p). \<not> pay_endTime (rt_pays s ! p) < now) (payTable s),
       rotPayments := filter (\<lambda>(tag, endTime). \<not> endTime < now) (rotPayments s)\<rparr>"

section \<open>Sessions\<close>

definition newSession :: "bytes \<Rightarrow> rt_session" where
  "newSession i = \<lparr>ss_sid = i, ss_peers = [], lastMemberListing = zero_time, bmp = {}, bmpBuf = [], bans = []\<rparr>"

definition RemovePeer :: "rt_cfg \<Rightarrow> nat \<Rightarrow> u32 \<Rightarrow> rt_state \<Rightarrow> bool \<times> bytes \<times> rt_state" where
  "RemovePeer cfg p i s =
     (let ss = rt_sess s ! p;
          ss = ss\<lparr>ss_peers := filter (\<lambda>ps. ps_peerID (rt_peers s ! ps) \<noteq> i) (ss_peers ss), bmp := bmp ss - {i},
                  bmpBuf := bmpWriteTo cfg (bmp ss - {i})\<rparr>
      in (ss_peers ss = [], ss_sid ss, updSess p (\<lambda>_. ss) s))"

definition PeerConn :: "nat \<Rightarrow> u32 \<Rightarrow> rt_state \<Rightarrow> nat option" where
  "PeerConn p i s = map_option (\<lambda>ps. ps_conn (rt_peers s ! ps)) (find (\<lambda>ps. ps_peerID (rt_peers s ! ps) = i) (ss_peers (rt_sess s ! p)))"

definition BanTarget :: "time \<Rightarrow> nat \<Rightarrow> u32 \<Rightarrow> duration \<Rightarrow> rt_state \<Rightarrow> rt_state" where
  "BanTarget now p i d = updSess p (\<lambda>ss. ss\<lparr>bans := AList.update i (now + d) (bans ss)\<rparr>)"

definition isBanned :: "time \<Rightarrow> u32 \<Rightarrow> rt_session \<Rightarrow> bool \<times> rt_session" where
  "isBanned now i ss =
     (case map_of (bans ss) i of
        None \<Rightarrow> (False, ss)
      | Some endBan \<Rightarrow>
          if endBan < now then (False, ss\<lparr>bans := AList.delete i (bans ss)\<rparr>) else (True, ss))"

text \<open>The session of an id, made if there is none.\<close>

definition loadSession :: "bytes \<Rightarrow> rt_state \<Rightarrow> nat \<times> rt_state" where
  "loadSession sessID s =
     (case map_of (sessTable s) sessID of
        Some p \<Rightarrow> (p, s)
      | None \<Rightarrow>
          let p = length (rt_sess s)
          in (p, s\<lparr>rt_sess := rt_sess s @ [newSession sessID], sessTable := AList.update sessID p (sessTable s),
                   sessIDs := sessIDs s @ [(p, sessID)]\<rparr>))"

definition newPeer :: "peer_session \<Rightarrow> rt_state \<Rightarrow> nat \<times> rt_state" where
  "newPeer ps s = (length (rt_peers s), s\<lparr>rt_peers := rt_peers s @ [ps]\<rparr>)"

text \<open>A peer new to the session. If the connection used the same id in another session, it is taken out there.\<close>

definition bindNew :: "rt_cfg \<Rightarrow> nat \<Rightarrow> peer_session \<Rightarrow> rt_state \<Rightarrow> rt_state" where
  "bindNew cfg c x s =
     (let (ps, s) = newPeer x s; p = ps_sess x; sourceID = ps_peerID x;
          s = updSess p (\<lambda>ss. ss\<lparr>ss_peers := ss_peers ss @ [ps]\<rparr>) s;
          oldPs = map_of (cn_sessions (rt_conns s ! c)) sourceID;
          s = updConn c (\<lambda>cn. cn\<lparr>cn_sessions := AList.update sourceID ps (cn_sessions cn)\<rparr>) s
      in case oldPs of
           Some old \<Rightarrow>
             if ps_sess (rt_peers s ! old) \<noteq> p then snd (snd (RemovePeer cfg (ps_sess (rt_peers s ! old)) sourceID s)) else s
         | None \<Rightarrow> s)"

text \<open>A peer whose id is in the session already (\<open>ps\<close>, at index \<open>idx\<close>). From another connection, a new peer takes its
  place in the session; the connection is bound to the old one.\<close>

definition bindReplace :: "nat \<Rightarrow> peer_session \<Rightarrow> nat \<Rightarrow> nat \<Rightarrow> rt_state \<Rightarrow> rt_state" where
  "bindReplace c x idx ps s =
     (let p = ps_sess x; sourceID = ps_peerID x in
      if ps_conn (rt_peers s ! ps) \<noteq> c then
        let (new, s) = newPeer x s;
            s = updSess p (\<lambda>ss. ss\<lparr>ss_peers := (ss_peers ss)[idx := new]\<rparr>) s;
            s = updConn (ps_conn (rt_peers s ! ps)) (\<lambda>cn. cn\<lparr>cn_sessions := AList.delete sourceID (cn_sessions cn)\<rparr>) s
        in updConn c (\<lambda>cn. cn\<lparr>cn_sessions := AList.update sourceID ps (cn_sessions cn)\<rparr>) s
      else if ps_sess (rt_peers s ! ps) \<noteq> p then
        updConn c (\<lambda>cn. cn\<lparr>cn_sessions := AList.update sourceID ps (cn_sessions cn)\<rparr>) s
      else s)"

definition RTDTMaxMessageSize :: nat where
  "RTDTMaxMessageSize = 65535"

fun findIndex :: "('a \<Rightarrow> bool) \<Rightarrow> 'a list \<Rightarrow> nat option" where
  "findIndex P [] = None"
| "findIndex P (x # xs) = (if P x then Some 0 else map_option Suc (findIndex P xs))"

text \<open>The peer is added to the bitmap of members and its serialisation.\<close>

definition addMember :: "rt_cfg \<Rightarrow> u32 \<Rightarrow> rt_session \<Rightarrow> rt_session" where
  "addMember cfg i ss =
     (let b = insert i (bmp ss); buf = bmpWriteTo cfg b
      in ss\<lparr>bmp := b, bmpBuf := (if length buf > RTDTMaxMessageSize then [] else buf)\<rparr>)"

definition bindPeer :: "rt_cfg \<Rightarrow> nat \<Rightarrow> peer_session \<Rightarrow> bytes \<Rightarrow> rt_state \<Rightarrow> rt_state" where
  "bindPeer cfg c x sessID s =
     (let p = ps_sess x; sourceID = ps_peerID x;
          s = s\<lparr>joined := joined s @ [\<lparr>jn_conn = c, jn_peer = sourceID, jn_sess = p, jn_sid = sessID, jn_admin = ps_isAdmin x\<rparr>]\<rparr>;
          s = (case findIndex (\<lambda>ps. ps_peerID (rt_peers s ! ps) = sourceID) (ss_peers (rt_sess s ! p)) of
                 None \<Rightarrow> bindNew cfg c x s
               | Some idx \<Rightarrow> bindReplace c x idx (ss_peers (rt_sess s ! p) ! idx) s)
      in updSess p (addMember cfg sourceID) s)"

text \<open>\<^verbatim>\<open>bindToSession\<close>. The return of \<open>ErrSizeChanged\<close> leaves the session's mutex locked. The peer to which the payment
  is added is loaded from the connection's map; where the map has none the pointer is nil and \<open>addPayment\<close> panics.\<close>

definition bindToSession ::
    "rt_cfg \<Rightarrow> time \<Rightarrow> nat \<Rightarrow> u32 \<Rightarrow> nat \<Rightarrow> bytes \<Rightarrow> u32 \<Rightarrow> bool \<Rightarrow> rt_state \<Rightarrow> (rt_error + nat) \<times> rt_state" where
  "bindToSession cfg now c sourceID pay sessID sz isAdmin s =
     (let (p, s) = loadSession sessID s; (banned, ss) = isBanned now sourceID (rt_sess s ! p); s = updSess p (\<lambda>_. ss) s in
      if banned then (Inl ErrBanned, s)
      else
        let psIdx = findIndex (\<lambda>ps. ps_peerID (rt_peers s ! ps) = sourceID) (ss_peers (rt_sess s ! p))
        in if (case psIdx of Some idx \<Rightarrow> ps_size (rt_peers s ! (ss_peers (rt_sess s ! p) ! idx)) \<noteq> uint sz | None \<Rightarrow> False)
           then (Inl ErrSizeChanged, s\<lparr>rt_halted := Some HaltMutex\<rparr>)
           else
             let s = bindPeer cfg c \<lparr>ps_peerID = sourceID, ps_sess = p, ps_size = uint sz, ps_conn = c, ps_isAdmin = isAdmin,
                                     ps_payments = []\<rparr> sessID s
             in (Inr p,
                 case map_of (cn_sessions (rt_conns s ! c)) sourceID of
                   Some ps \<Rightarrow> addPayment ps pay s
                 | None \<Rightarrow> s\<lparr>rt_halted := Some HaltPanic\<rparr>))"

definition removePeerSession :: "rt_cfg \<Rightarrow> nat \<Rightarrow> rt_state \<Rightarrow> rt_state" where
  "removePeerSession cfg ps s =
     (let p = ps_sess (rt_peers s ! ps);
          (empty, sessID, s) = RemovePeer cfg p (ps_peerID (rt_peers s ! ps)) s
      in if empty then s\<lparr>sessTable := AList.delete sessID (sessTable s)\<rparr>
         else s\<lparr>forceSessListChan := forceSessListChan s @ [p]\<rparr>)"

definition removeFromSession :: "rt_cfg \<Rightarrow> nat \<Rightarrow> u32 \<Rightarrow> rt_state \<Rightarrow> rt_error option \<times> rt_state" where
  "removeFromSession cfg c i s =
     (case map_of (cn_sessions (rt_conns s ! c)) i of
        None \<Rightarrow> (Some ErrNotInSession, s)
      | Some ps \<Rightarrow>
          (None, removePeerSession cfg ps (updConn c (\<lambda>cn. cn\<lparr>cn_sessions := AList.delete i (cn_sessions cn)\<rparr>) s)))"

definition removeFromAllSessions :: "rt_cfg \<Rightarrow> nat \<Rightarrow> rt_state \<Rightarrow> rt_state" where
  "removeFromAllSessions cfg c s = fold (\<lambda>(i, ps). removePeerSession cfg ps) (cn_sessions (rt_conns s ! c)) s"

definition kickFromSession ::
    "rt_cfg \<Rightarrow> time \<Rightarrow> nat \<Rightarrow> u32 \<Rightarrow> u32 \<Rightarrow> u32 \<Rightarrow> rt_state \<Rightarrow> (rt_error + nat) \<times> rt_state" where
  "kickFromSession cfg now inConn source kickTarget banDurSeconds s =
     (case map_of (cn_sessions (rt_conns s ! inConn)) source of
        None \<Rightarrow> (Inl ErrSourcePeerNotInSession, s)
      | Some ps \<Rightarrow>
          if \<not> ps_isAdmin (rt_peers s ! ps) then (Inl ErrSourcePeerNotAdmin, s)
          else
            let p = ps_sess (rt_peers s ! ps) in
            (case PeerConn p kickTarget s of
               None \<Rightarrow> (Inl ErrTargetPeerNotInSession, s)
             | Some targetConn \<Rightarrow>
                 let s = s\<lparr>adminOps := adminOps s @ [(inConn, source, p)]\<rparr>;
                     s = (if 0 < banDurSeconds then BanTarget now p kickTarget (uint banDurSeconds * second) s else s)
                 in (case removeFromSession cfg targetConn kickTarget s of
                       (Some e, s) \<Rightarrow> (Inl e, s)
                     | (None, s) \<Rightarrow> (Inr targetConn, s))))"

text \<open>A server without a cookie key dereferences nil when it opens the cookie.\<close>

definition rotateSessionCookies :: "rt_cfg \<Rightarrow> time \<Rightarrow> nat \<Rightarrow> u32 \<Rightarrow> bytes \<Rightarrow> rt_state \<Rightarrow> rt_error option \<times> rt_state" where
  "rotateSessionCookies cfg now inConn source rotCookie s =
     (case map_of (cn_sessions (rt_conns s ! inConn)) source of
        None \<Rightarrow> (Some ErrSourcePeerNotInSession, s)
      | Some ps \<Rightarrow>
          if \<not> ps_isAdmin (rt_peers s ! ps) then (Some ErrSourcePeerNotAdmin, s)
          else
            (case map_option (\<lambda>key. rc_Decrypt (rt_crypto cfg) rotCookie key (decodeCookieKeys cfg)) (cookieKey cfg) of
               None \<Rightarrow>
                 if length rotCookie < 24 + (4 + 32 * 3 + 4 + 8 + 8) + 16 then (Some ErrInvalidRotCookie, s)
                 else (None, s\<lparr>rt_halted := Some HaltPanic\<rparr>)
             | Some (Inl _) \<Rightarrow> (Some ErrInvalidRotCookie, s)
             | Some (Inr rc) \<Rightarrow>
                 let p = ps_sess (rt_peers s ! ps); cookieTime = from_unix (sint (rc_Timestamp rc)) in
                 if rotateCookieLifetime cfg < time_sub now cookieTime then (Some ErrExpiredRotCookie, s)
                 else if map_of (rotPayments s) (rc_PaymentTag rc) \<noteq> None then (Some ErrAlreadyUsedRotCookie, s)
                 else
                   let s = s\<lparr>rotPayments := AList.update (rc_PaymentTag rc) (cookieTime + rotateCookieLifetime cfg) (rotPayments s),
                             rotated := rotated s @ [(rc_PaymentTag rc, rc_Timestamp rc)]\<rparr>;
                       oldSessId = oldSessionFromRotCookie cfg rc; newSessId = newSessionFromRotCookie cfg rc
                   in if oldSessId \<noteq> ss_sid (rt_sess s ! p) then (Some ErrMismatchedOldSessId, s)
                      else if oldSessId = newSessId then (None, s)
                      else
                        (None,
                         (updSess p (\<lambda>ss. ss\<lparr>ss_sid := newSessId\<rparr>) s)
                           \<lparr>sessTable := AList.delete oldSessId (AList.update newSessId p (sessTable s)),
                            sessIDs := sessIDs s @ [(p, newSessId)], adminOps := adminOps s @ [(inConn, source, p)]\<rparr>)))"

section \<open>Writing\<close>

text \<open>What a message becomes on the network, and the check of its size; \<open>None\<close> is the error.\<close>

definition packetOnWire :: "rt_cfg \<Rightarrow> rt_conn \<Rightarrow> bytes \<Rightarrow> bytes \<Rightarrow> bytes option" where
  "packetOnWire cfg cn nonce msg =
     (if privKey cfg = None then Some msg
      else if length msg > 65536 - 24 - 16 then None
      else Some (nonce @ secretbox_seal (rt_crypto cfg) msg nonce (sessionKey cn)))"

record rt_env =
  write_fails :: "nat \<Rightarrow> bool"
  randv2 :: u64

definition listenerWrite :: "rt_cfg \<Rightarrow> rt_env \<Rightarrow> nat \<Rightarrow> bytes \<Rightarrow> rt_state \<Rightarrow> bool \<times> rt_state" where
  "listenerWrite cfg env c msg s =
     (if packetOnWire cfg (rt_conns s ! c) [] msg = None \<or> write_fails env c then (False, s)
      else (True, s\<lparr>rt_out := rt_out s @ [(c, msg)]\<rparr>))"

definition nextSendSeq :: "nat \<Rightarrow> rt_state \<Rightarrow> u32 \<times> rt_state" where
  "nextSendSeq c s =
     (let q = sendSeq (rt_conns s ! c) + 1 in (q, updConn c (\<lambda>cn. cn\<lparr>sendSeq := q\<rparr>) s))"

text \<open>A command from the server to a peer.\<close>

definition sendCmd :: "rt_cfg \<Rightarrow> rt_env \<Rightarrow> nat \<Rightarrow> u32 \<Rightarrow> server_cmd \<Rightarrow> rt_state \<Rightarrow> rt_error option \<times> rt_state" where
  "sendCmd cfg env c target cmd s =
     (let (q, s) = nextSendSeq c s;
          out = cmd_AppendFramed cmd \<lparr>fp_Target = target, fp_Source = 0, fp_Sequence = q, fp_Data = []\<rparr> [];
          (ok, s) = listenerWrite cfg env c out s
      in (if ok then None else Some ErrWrite, s))"

text \<open>The listing goes to every member, from a buffer of the maximal size.\<close>

definition sendSessionListing :: "rt_cfg \<Rightarrow> rt_env \<Rightarrow> time \<Rightarrow> nat \<Rightarrow> rt_state \<Rightarrow> rt_state" where
  "sendSessionListing cfg env now p s =
     (let payload = take (RTDTMaxMessageSize - 13) (bmpBuf (rt_sess s ! p));
          s = fold (\<lambda>ps s. snd (sendCmd cfg env (ps_conn (rt_peers s ! ps)) (ps_peerID (rt_peers s ! ps)) (MembersBitmap payload) s))
                (ss_peers (rt_sess s ! p)) s
      in updSess p (\<lambda>ss. ss\<lparr>lastMemberListing := now\<rparr>) s)"

definition forceListing :: "rt_cfg \<Rightarrow> rt_env \<Rightarrow> time \<Rightarrow> rt_state \<Rightarrow> rt_state" where
  "forceListing cfg env now s =
     (case forceSessListChan s of
        [] \<Rightarrow> s
      | p # ps \<Rightarrow>
          let s = s\<lparr>forceSessListChan := ps\<rparr> in
          if disableForceListing cfg \<or> time_sub now (lastMemberListing (rt_sess s ! p)) < minSessListingInterval cfg then s
          else sendSessionListing cfg env now p s)"

definition listTick :: "rt_cfg \<Rightarrow> rt_env \<Rightarrow> time \<Rightarrow> rt_state \<Rightarrow> rt_state" where
  "listTick cfg env now s =
     fold (sendSessionListing cfg env now)
       (filter (\<lambda>p. sessListingInterval cfg < time_sub now (lastMemberListing (rt_sess s ! p))) (map snd (sessTable s))) s"

section \<open>Commands of a peer\<close>

definition RTDTMaxPingPayloadSize :: nat where
  "RTDTMaxPingPayloadSize = 256"

definition handlePing :: "rt_cfg \<Rightarrow> rt_env \<Rightarrow> time \<Rightarrow> nat \<Rightarrow> u32 \<Rightarrow> bytes \<Rightarrow> rt_state \<Rightarrow> rt_error option \<times> rt_state" where
  "handlePing cfg env now c source payload s =
     (let oldPingTs = lastRecvPingTime (rt_conns s ! c);
          s = updConn c (\<lambda>cn. cn\<lparr>lastRecvPingTime := Some now\<rparr>) s
      in if (case oldPingTs of Some t \<Rightarrow> time_sub now t < minPingInterval cfg | None \<Rightarrow> False) then (Some ErrPingTooRecent, s)
         else if length payload > RTDTMaxPingPayloadSize then (Some ErrPingTooLarge, s)
         else sendCmd cfg env c source (PongCmd payload) s)"

text \<open>What a join asks for: the session, its size, the payment and whether the peer is an admin. Without a
  cookie key the server makes them up.\<close>

definition joinRequest ::
    "rt_cfg \<Rightarrow> rt_env \<Rightarrow> time \<Rightarrow> u32 \<Rightarrow> bytes \<Rightarrow> rt_state \<Rightarrow> (rt_error + bytes \<times> u32 \<times> nat \<times> bool) \<times> rt_state" where
  "joinRequest cfg env now source joinCookie s =
     (case cookieKey cfg of
        Some key \<Rightarrow>
          (case validateJoinCookie cfg key now source joinCookie s of
             (Inl e, s) \<Rightarrow> (Inl e, s)
           | (Inr (jc, pay), s) \<Rightarrow> (Inr (sessionIDFromJoinCookie cfg jc, jc_Size jc, pay, jc_IsAdmin jc), s))
      | None \<Rightarrow>
          let sessID = (replicate 32 0)[28 := ucast (drop_bit 24 source), 29 := ucast (drop_bit 16 source)];
              pay = length (rt_pays s);
              s = s\<lparr>rt_pays := rt_pays s @ [\<lparr>bytesAllowance = 10000000000, pay_tag = randv2 env,
                                              pay_endTime = now + dropPaymentLoopInterval cfg\<rparr>]\<rparr>
          in (Inr (sessID, push_bit 16 1, pay, source AND 1 = 1), s))"

definition replyCode :: "rt_cfg \<Rightarrow> rt_error option \<Rightarrow> u64" where
  "replyCode cfg err =
     (if replyErrorCodes cfg then (case err of Some e \<Rightarrow> errorCode e | None \<Rightarrow> 0) else 0)"

definition joinBind :: "rt_cfg \<Rightarrow> rt_env \<Rightarrow> time \<Rightarrow> nat \<Rightarrow> u32 \<Rightarrow> bytes \<Rightarrow> rt_state \<Rightarrow> (rt_error + nat) \<times> rt_state" where
  "joinBind cfg env now c source joinCookie s =
     (case joinRequest cfg env now source joinCookie s of
        (Inl e, s) \<Rightarrow> (Inl e, addBanScore c s)
      | (Inr (sessID, sz, pay, isAdmin), s) \<Rightarrow> bindToSession cfg now c source pay sessID sz isAdmin s)"

definition handleJoin :: "rt_cfg \<Rightarrow> rt_env \<Rightarrow> time \<Rightarrow> nat \<Rightarrow> u32 \<Rightarrow> bytes \<Rightarrow> rt_state \<Rightarrow> rt_error option \<times> rt_state" where
  "handleJoin cfg env now c source joinCookie s =
     (let (res, s) = joinBind cfg env now c source joinCookie s
      in if rt_halted s = Some HaltPanic then (None, s)
         else
           let code = replyCode cfg (case res of Inl e \<Rightarrow> Some e | Inr _ \<Rightarrow> None);
               (err, s) = sendCmd cfg env c source (JoinSessionReply code) s
           in (err, case res of Inl _ \<Rightarrow> s | Inr p \<Rightarrow> s\<lparr>forceSessListChan := forceSessListChan s @ [p]\<rparr>))"

definition handleKick :: "rt_cfg \<Rightarrow> rt_env \<Rightarrow> time \<Rightarrow> nat \<Rightarrow> u32 \<Rightarrow> bytes \<Rightarrow> rt_state \<Rightarrow> rt_error option \<times> rt_state" where
  "handleKick cfg env now c source payload s =
     (case cmd_FromBytes 0x07 payload of
        Some (KickPeer kickTarget banDurationSeconds) \<Rightarrow>
          let (res, s) = kickFromSession cfg now c source kickTarget banDurationSeconds s;
              s = (case res of
                     Inl _ \<Rightarrow> addBanScore c s
                   | Inr targetConn \<Rightarrow>
                       snd (sendCmd cfg env targetConn kickTarget (KickPeer kickTarget banDurationSeconds) s));
              code = replyCode cfg (case res of Inl e \<Rightarrow> Some e | Inr _ \<Rightarrow> None)
          in sendCmd cfg env c source (KickPeerReply kickTarget code) s
      | _ \<Rightarrow> (Some ErrTooFewBytes, s))"

definition connHandleInternalPkt :: "rt_cfg \<Rightarrow> rt_env \<Rightarrow> time \<Rightarrow> nat \<Rightarrow> framed_packet \<Rightarrow> rt_state \<Rightarrow> rt_error option \<times> rt_state" where
  "connHandleInternalPkt cfg env now c pkt s =
     (let (cmdType, payload) = ServerCmd pkt; source = fp_Source pkt in
      if cmdType = 0x01 then handlePing cfg env now c source payload s
      else if cmdType = 0x02 then (None, if length payload > RTDTMaxPingPayloadSize then addBanScore c s else s)
      else if cmdType = 0x05 then sendCmd cfg env c source LeaveSessionReply (snd (removeFromSession cfg c source s))
      else if cmdType = 0x03 then handleJoin cfg env now c source payload s
      else if cmdType = 0x07 then handleKick cfg env now c source payload s
      else if cmdType = 0x0a then
        (case rotateSessionCookies cfg now c source payload s of
           (Some e, s) \<Rightarrow> (Some e, s)
         | (None, s) \<Rightarrow>
             if rt_halted s = Some HaltPanic then (None, s)
             else sendCmd cfg env c source (RotateSessionCookiesReply (replyCode cfg None)) s)
      else (Some ErrUnknownCmd, s))"
section \<open>Reading\<close>

definition newConn :: "nat \<Rightarrow> time \<Rightarrow> rt_conn" where
  "newConn addr recvTime =
     \<lparr>cn_addr = addr, lastRead = recvTime, sessionKey = replicate 32 0, recvSeq = newTracker, sendSeq = 0, lastRecvPingTime = None,
      pending = None, cn_sessions = [], banScore = 0\<rparr>"

definition addConn :: "rt_conn \<Rightarrow> rt_state \<Rightarrow> rt_state" where
  "addConn cn s = s\<lparr>rt_conns := rt_conns s @ [cn], connTable := AList.update (cn_addr cn) (length (rt_conns s)) (connTable s)\<rparr>"

definition unsessionedQueueSize :: nat where
  "unsessionedQueueSize = 5"

text \<open>One message of the handshake queue. \<^verbatim>\<open>unsessMsgChan\<close> holds the buffers that are not in the queue.\<close>

definition handshakeNext :: "rt_cfg \<Rightarrow> rt_env \<Rightarrow> rt_state \<Rightarrow> rt_state" where
  "handshakeNext cfg env s =
     (case (privKey cfg, unsessQueue s) of
        (Some priv, (inb, addr, recvTime) # rest) \<Rightarrow>
          let s = s\<lparr>unsessQueue := rest\<rparr>;
              s = (if map_of (connTable s) addr \<noteq> None then s
                   else case sntrup_decapsulate (rt_crypto cfg) (take sntrup_CiphertextSize inb) priv of
                          None \<Rightarrow> s
                        | Some sessKey \<Rightarrow>
                            (addConn ((newConn addr recvTime)\<lparr>sessionKey := sessKey, pending := Some (take sntrup_CiphertextSize inb)\<rparr>) s)
                              \<lparr>pendingCount := pendingCount s + 1\<rparr>)
          in (case map_of (connTable s) addr of
                None \<Rightarrow> s
              | Some c \<Rightarrow>
                  (case pending (rt_conns s ! c) of
                     None \<Rightarrow> s
                   | Some ct \<Rightarrow>
                       if ct \<noteq> inb then s
                       else (case listenerWrite cfg env c ct s of
                               (True, s) \<Rightarrow> s
                             | (False, s) \<Rightarrow> s\<lparr>rt_halted := Some HaltNetwork\<rparr>)))
      | _ \<Rightarrow> s)"

text \<open>The connection a datagram belongs to, with the ciphertext to send again if it repeats the one of its handshake.\<close>

definition listenerReadConn :: "rt_cfg \<Rightarrow> bytes \<Rightarrow> nat \<Rightarrow> time \<Rightarrow> rt_state \<Rightarrow> (nat \<times> bytes option) option \<times> rt_state" where
  "listenerReadConn cfg inb addr recvTime s =
     (case map_of (connTable s) addr of
        Some c \<Rightarrow>
          (case pending (rt_conns s ! c) of
             None \<Rightarrow> (Some (c, None), s)
           | Some ct \<Rightarrow>
               if ct \<noteq> inb then
                 (Some (c, None),
                  (updConn c (\<lambda>cn. cn\<lparr>pending := None\<rparr>) s)\<lparr>pendingCount := pendingCount s - 1, connsCount := connsCount s + 1\<rparr>)
               else (Some (c, Some ct), addBanScore c s))
      | None \<Rightarrow>
          if privKey cfg = None then
            (Some (length (rt_conns s), None), (addConn (newConn addr recvTime) s)\<lparr>connsCount := connsCount s + 1\<rparr>)
          else if length inb < sntrup_CiphertextSize then (None, s)
          else if length (unsessQueue s) < unsessionedQueueSize then
            (None, s\<lparr>unsessQueue := unsessQueue s @ [(inb, addr, recvTime)]\<rparr>)
          else (None, s))"

text \<open>One datagram of \<open>listenerReadNext\<close>: the connection and the framed packet in it, if it is to be handled.\<close>

definition listenerReadNext :: "rt_cfg \<Rightarrow> rt_env \<Rightarrow> bytes \<Rightarrow> nat \<Rightarrow> time \<Rightarrow> rt_state \<Rightarrow> (nat \<times> bytes) option \<times> rt_state" where
  "listenerReadNext cfg env inb addr recvTime s =
     (case listenerReadConn cfg inb addr recvTime s of
        (None, s) \<Rightarrow> (None, s)
      | (Some (c, Some ct), s) \<Rightarrow>
          let s = updConn c (\<lambda>cn. cn\<lparr>lastRead := recvTime\<rparr>) s in
          (case listenerWrite cfg env c ct s of
             (True, s) \<Rightarrow> (None, s)
           | (False, s) \<Rightarrow> (None, s\<lparr>rt_halted := Some HaltNetwork\<rparr>))
      | (Some (c, None), s) \<Rightarrow>
          if privKey cfg = None then (Some (c, inb), updConn c (\<lambda>cn. cn\<lparr>lastRead := recvTime\<rparr>) s)
          else if length inb < 24 + 16 then (None, s)
          else (case secretbox_open (rt_crypto cfg) (drop 24 inb) (take 24 inb) (sessionKey (rt_conns s ! c)) of
                  None \<Rightarrow> (None, addBanScore c s)
                | Some b \<Rightarrow> (Some (c, b), updConn c (\<lambda>cn. cn\<lparr>lastRead := recvTime\<rparr>) s)))"

text \<open>The buffer of a framed packet: its fields are read and written in place.\<close>

definition setTarget :: "u32 \<Rightarrow> bytes \<Rightarrow> bytes" where
  "setTarget i b = put_u32_be i @ drop 4 b"

definition setSequence :: "u32 \<Rightarrow> bytes \<Rightarrow> bytes" where
  "setSequence q b = take 8 b @ put_u32_be q @ drop 12 b"

definition getTarget :: "bytes \<Rightarrow> u32" where
  "getTarget b = get_u32_be b"

definition getSource :: "bytes \<Rightarrow> u32" where
  "getSource b = get_u32_be (drop 4 b)"

definition getSequence :: "bytes \<Rightarrow> u32" where
  "getSequence b = get_u32_be (drop 8 b)"

definition toPacket :: "bytes \<Rightarrow> framed_packet" where
  "toPacket b = \<lparr>fp_Target = getTarget b, fp_Source = getSource b, fp_Sequence = getSequence b, fp_Data = drop 12 b\<rparr>"

text \<open>The packet goes to every peer in turn but those on the sender's connection, each time with the
  peer's id and the next sequence number of its connection.\<close>

fun forwardLoop :: "rt_cfg \<Rightarrow> rt_env \<Rightarrow> nat \<Rightarrow> nat \<Rightarrow> bytes \<Rightarrow> nat list \<Rightarrow> rt_state \<Rightarrow> rt_state" where
  "forwardLoop cfg env c p b [] s = s"
| "forwardLoop cfg env c p b (ps # pss) s =
     (let wp = rt_peers s ! ps in
      if ps_conn wp = c then forwardLoop cfg env c p b pss s
      else
        let (q, s) = nextSendSeq (ps_conn wp) s;
            out = setSequence q (setTarget (ps_peerID wp) b);
            (ok, s) = listenerWrite cfg env (ps_conn wp) out s;
            s = (if ok then s\<lparr>forwarded := forwarded s @
                   [\<lparr>fw_src = c, fw_srcID = getSource b, fw_dst = ps_conn wp, fw_dstID = ps_peerID wp, fw_sess = p,
                     fw_in = b, fw_out = out\<rparr>]\<rparr> else s)
        in forwardLoop cfg env c p b pss s)"

definition forwardData :: "rt_cfg \<Rightarrow> rt_env \<Rightarrow> nat \<Rightarrow> bytes \<Rightarrow> rt_state \<Rightarrow> rt_state" where
  "forwardData cfg env c b s =
     (case map_of (cn_sessions (rt_conns s ! c)) (getSource b) of
        None \<Rightarrow> addBanScore c s
      | Some srcPS \<Rightarrow>
          (case deductAllowance srcPS (of_nat (length b)) s of
             (False, s) \<Rightarrow> addBanScore c s
           | (True, s) \<Rightarrow>
               let s = s\<lparr>relayed := relayed s + int (length b)\<rparr>;
                   p = ps_sess (rt_peers s ! srcPS); sz = ps_size (rt_peers s ! srcPS);
                   writePeers = ss_peers (rt_sess s ! p)
               in if int (length writePeers) > sz
                  then forwardLoop cfg env c p b (take (nat sz) writePeers) (addBanScore c s)
                  else forwardLoop cfg env c p b writePeers s))"

definition handlePacket :: "rt_cfg \<Rightarrow> rt_env \<Rightarrow> time \<Rightarrow> nat \<Rightarrow> bytes \<Rightarrow> rt_state \<Rightarrow> rt_state" where
  "handlePacket cfg env now c b s =
     (if length b < 12 then addBanScore c s
      else
        let (ok, st) = MayAccept (getSequence b) (recvSeq (rt_conns s ! c));
            s = updConn c (\<lambda>cn. cn\<lparr>recvSeq := st\<rparr>) s
        in if \<not> ok then s
           else if getSource b \<noteq> getTarget b then
             (case connHandleInternalPkt cfg env now c (toPacket b) s of
                (None, s) \<Rightarrow> s
              | (Some _, s) \<Rightarrow> addBanScore c s)
           else forwardData cfg env c b s)"

definition readDatagram :: "rt_cfg \<Rightarrow> rt_env \<Rightarrow> time \<Rightarrow> nat \<Rightarrow> bytes \<Rightarrow> rt_state \<Rightarrow> rt_state" where
  "readDatagram cfg env now addr inb s =
     (case listenerReadNext cfg env inb addr now s of
        (None, s) \<Rightarrow> s
      | (Some (c, b), s) \<Rightarrow> handlePacket cfg env now c b s)"

definition removeConn :: "rt_cfg \<Rightarrow> nat \<times> nat \<Rightarrow> rt_state \<Rightarrow> rt_state" where
  "removeConn cfg = (\<lambda>(addr, c) s.
     let wasPending = pending (rt_conns s ! c) \<noteq> None;
         s = removeFromAllSessions cfg c s;
         s = s\<lparr>connTable := AList.delete addr (connTable s)\<rparr>
     in if wasPending then s\<lparr>pendingCount := pendingCount s - 1\<rparr> else s\<lparr>connsCount := connsCount s - 1\<rparr>)"

definition timeoutTick :: "rt_cfg \<Rightarrow> time \<Rightarrow> rt_state \<Rightarrow> rt_state" where
  "timeoutTick cfg now s =
     fold (removeConn cfg)
       (filter (\<lambda>(addr, c). maxPingInterval cfg < time_sub now (lastRead (rt_conns s ! c)) \<or> maxBanScore cfg \<le> banScore (rt_conns s ! c))
          (connTable s)) s"

section \<open>Steps\<close>

datatype rt_event =
    RtDatagram nat bytes
  | RtHandshake
  | RtForceListing
  | RtListTick
  | RtTimeoutTick
  | RtDropPayments

fun rtHandle :: "rt_cfg \<Rightarrow> rt_env \<Rightarrow> time \<Rightarrow> rt_event \<Rightarrow> rt_state \<Rightarrow> rt_state" where
  "rtHandle cfg env now (RtDatagram addr inb) s = readDatagram cfg env now addr inb s"
| "rtHandle cfg env now RtHandshake s = handshakeNext cfg env s"
| "rtHandle cfg env now RtForceListing s = forceListing cfg env now s"
| "rtHandle cfg env now RtListTick s = listTick cfg env now s"
| "rtHandle cfg env now RtTimeoutTick s = timeoutTick cfg now s"
| "rtHandle cfg env now RtDropPayments s = dropStalePayments now s"

text \<open>The clock is taken not to run backwards, and a datagram is at most as large as UDP allows.\<close>

fun rtEnabled :: "time \<Rightarrow> rt_event \<Rightarrow> rt_state \<Rightarrow> bool" where
  "rtEnabled now (RtDatagram addr inb) s \<longleftrightarrow> rt_halted s = None \<and> rt_now s \<le> now \<and> length inb \<le> RTDTMaxMessageSize"
| "rtEnabled now _ s \<longleftrightarrow> rt_halted s = None \<and> rt_now s \<le> now"

definition rtStep :: "rt_cfg \<Rightarrow> rt_env \<Rightarrow> time \<Rightarrow> rt_event \<Rightarrow> rt_state \<Rightarrow> rt_state" where
  "rtStep cfg env now ev s =
     (if rtEnabled now ev s then rtHandle cfg env now ev (s\<lparr>rt_now := now\<rparr>) else s)"

inductive rt_reachable :: "rt_cfg \<Rightarrow> rt_state \<Rightarrow> bool" for cfg where
  rt_start: "rt_reachable cfg (rt_newServer now)"
| rt_step: "rt_reachable cfg s \<Longrightarrow> rt_reachable cfg (rtStep cfg env now ev s)"
section \<open>Sessions and their members\<close>

text \<open>The part of the state that says who is in which session. The operations that do not touch it keep every
  property of it.\<close>

definition skel where
  "skel s =
     (map (\<lambda>ss. (ss_peers ss, bmp ss)) (rt_sess s),
      map (\<lambda>ps. (ps_peerID ps, ps_sess ps, ps_conn ps, ps_isAdmin ps)) (rt_peers s),
      map cn_sessions (rt_conns s), connTable s, sessTable s, forceSessListChan s, joined s, sessIDs s, adminOps s, forwarded s)"

lemma map_update_keeps: "(\<And>x. g (f x) = g x) \<Longrightarrow> map g (xs[i := f (xs ! i)]) = map g xs"
  by (cases "i < length xs") (simp_all add: map_update list_update_same_conv list_update_beyond)

lemma skel_updConn [simp]: "(\<And>x. cn_sessions (f x) = cn_sessions x) \<Longrightarrow> skel (updConn c f s) = skel s"
  by (simp add: skel_def updConn_def map_update_keeps)

lemma skel_updSess [simp]:
  "(\<And>x. ss_peers (f x) = ss_peers x) \<Longrightarrow> (\<And>x. bmp (f x) = bmp x) \<Longrightarrow> skel (updSess p f s) = skel s"
  by (simp add: skel_def updSess_def map_update_keeps)

lemma skel_updPeer [simp]:
  "(\<And>x. ps_peerID (f x) = ps_peerID x) \<Longrightarrow> (\<And>x. ps_sess (f x) = ps_sess x) \<Longrightarrow> (\<And>x. ps_conn (f x) = ps_conn x) \<Longrightarrow>
   (\<And>x. ps_isAdmin (f x) = ps_isAdmin x) \<Longrightarrow> skel (updPeer i f s) = skel s"
  by (simp add: skel_def updPeer_def map_update_keeps)

lemma skel_fields [simp]:
  "skel (s\<lparr>rt_pays := a\<rparr>) = skel s" "skel (s\<lparr>payTable := b\<rparr>) = skel s" "skel (s\<lparr>redeemed := c\<rparr>) = skel s"
  "skel (s\<lparr>wrapped := d\<rparr>) = skel s" "skel (s\<lparr>rotPayments := e\<rparr>) = skel s" "skel (s\<lparr>rotated := f\<rparr>) = skel s"
  "skel (s\<lparr>unsessQueue := g\<rparr>) = skel s" "skel (s\<lparr>connsCount := h\<rparr>) = skel s" "skel (s\<lparr>pendingCount := h\<rparr>) = skel s"
  "skel (s\<lparr>rt_halted := i\<rparr>) = skel s" "skel (s\<lparr>rt_now := j\<rparr>) = skel s" "skel (s\<lparr>rt_out := k\<rparr>) = skel s"
  "skel (s\<lparr>relayed := h\<rparr>) = skel s"
  by (simp_all add: skel_def)

lemma skel_addBanScore [simp]: "skel (addBanScore c s) = skel s"
  by (simp add: addBanScore_def)

lemma skel_addPayment [simp]: "skel (addPayment ps p s) = skel s"
  by (simp add: addPayment_def)

lemma skel_deductAllowance [simp]: "skel (snd (deductAllowance ps n s)) = skel s"
  by (simp add: deductAllowance_def split: prod.splits)

lemma skel_validateJoinCookie [simp]: "skel (snd (validateJoinCookie cfg key now i raw s)) = skel s"
  by (simp add: validateJoinCookie_def Let_def split: sum.splits option.splits)

lemma skel_joinRequest [simp]: "skel (snd (joinRequest cfg env now i raw s)) = skel s"
  by (auto simp: joinRequest_def Let_def split: sum.splits option.splits prod.splits)
    (metis skel_validateJoinCookie snd_conv)+

lemma skel_listenerWrite [simp]: "skel (snd (listenerWrite cfg env c msg s)) = skel s"
  by (simp add: listenerWrite_def)

lemma skel_nextSendSeq [simp]: "skel (snd (nextSendSeq c s)) = skel s"
  by (simp add: nextSendSeq_def Let_def)

lemma skel_sendCmd [simp]: "skel (snd (sendCmd cfg env c t cmd s)) = skel s"
  by (simp add: sendCmd_def Let_def case_prod_unfold)

lemma skel_fold: "(\<And>x s. skel (f x s) = skel s) \<Longrightarrow> skel (fold f xs s) = skel s"
  by (induction xs arbitrary: s) simp_all

lemma skel_sendSessionListing [simp]: "skel (sendSessionListing cfg env now p s) = skel s"
  by (simp add: sendSessionListing_def Let_def skel_fold)

lemma skel_listTick [simp]: "skel (listTick cfg env now s) = skel s"
  by (simp add: listTick_def skel_fold)

lemma skel_dropStalePayments [simp]: "skel (dropStalePayments now s) = skel s"
  by (simp add: dropStalePayments_def)

lemma skel_handlePing [simp]: "skel (snd (handlePing cfg env now c i payload s)) = skel s"
  by (simp add: handlePing_def Let_def split: option.splits)

text \<open>The invariant. A peer object was made by a join of its connection, a connection is bound only to peers of
  sessions it has joined, the bitmap of a session lists exactly its peers, and no two peers of a session have the same id.\<close>

definition sess_ok :: "rt_state \<Rightarrow> nat \<Rightarrow> bool" where
  "sess_ok s p \<longleftrightarrow>
     distinct (map (\<lambda>ps. ps_peerID (rt_peers s ! ps)) (ss_peers (rt_sess s ! p))) \<and>
     bmp (rt_sess s ! p) = (\<lambda>ps. ps_peerID (rt_peers s ! ps)) ` set (ss_peers (rt_sess s ! p))"

definition peers_ok :: "rt_state \<Rightarrow> nat \<Rightarrow> bool" where
  "peers_ok s p \<longleftrightarrow> (\<forall>ps \<in> set (ss_peers (rt_sess s ! p)). ps < length (rt_peers s) \<and> ps_sess (rt_peers s ! ps) = p)"

definition peer_ok :: "rt_state \<Rightarrow> nat \<Rightarrow> bool" where
  "peer_ok s ps \<longleftrightarrow>
     ps_sess (rt_peers s ! ps) < length (rt_sess s) \<and> ps_conn (rt_peers s ! ps) < length (rt_conns s) \<and>
     (\<exists>j \<in> set (joined s). jn_conn j = ps_conn (rt_peers s ! ps) \<and> jn_peer j = ps_peerID (rt_peers s ! ps) \<and>
        jn_sess j = ps_sess (rt_peers s ! ps) \<and> jn_admin j = ps_isAdmin (rt_peers s ! ps))"

definition bound_ok :: "rt_state \<Rightarrow> nat \<Rightarrow> u32 \<Rightarrow> nat \<Rightarrow> bool" where
  "bound_ok s c i ps \<longleftrightarrow>
     ps < length (rt_peers s) \<and> ps_peerID (rt_peers s ! ps) = i \<and>
     (\<exists>j \<in> set (joined s). jn_conn j = c \<and> jn_peer j = i \<and> jn_sess j = ps_sess (rt_peers s ! ps))"

definition fwd_ok :: "rt_state \<Rightarrow> rt_fwd \<Rightarrow> bool" where
  "fwd_ok s f \<longleftrightarrow>
     fw_src f \<noteq> fw_dst f \<and> fw_srcID f = getSource (fw_in f) \<and>
     (\<exists>q. fw_out f = setSequence q (setTarget (fw_dstID f) (fw_in f))) \<and> 12 \<le> length (fw_in f) \<and>
     (\<exists>j \<in> set (joined s). jn_conn j = fw_src f \<and> jn_peer j = fw_srcID f \<and> jn_sess j = fw_sess f) \<and>
     (\<exists>j \<in> set (joined s). jn_conn j = fw_dst f \<and> jn_peer j = fw_dstID f \<and> jn_sess j = fw_sess f)"

definition links_ok :: "rt_state \<Rightarrow> bool" where
  "links_ok s \<longleftrightarrow>
     (\<forall>p < length (rt_sess s). peers_ok s p) \<and>
     (\<forall>ps < length (rt_peers s). peer_ok s ps) \<and>
     (\<forall>c < length (rt_conns s). \<forall>(i, ps) \<in> set (cn_sessions (rt_conns s ! c)). bound_ok s c i ps) \<and>
     (\<forall>j \<in> set (joined s). jn_sess j < length (rt_sess s) \<and> (jn_sess j, jn_sid j) \<in> set (sessIDs s)) \<and>
     (\<forall>(i, p) \<in> set (sessTable s). p < length (rt_sess s) \<and> (p, i) \<in> set (sessIDs s)) \<and>
     (\<forall>(a, c) \<in> set (connTable s). c < length (rt_conns s)) \<and>
     (\<forall>p \<in> set (forceSessListChan s). p < length (rt_sess s)) \<and>
     (\<forall>(c, i, p) \<in> set (adminOps s). \<exists>j \<in> set (joined s). jn_peer j = i \<and> jn_sess j = p \<and> jn_admin j) \<and>
     (\<forall>f \<in> set (forwarded s). fwd_ok s f)"

definition rt_inv :: "rt_state \<Rightarrow> bool" where
  "rt_inv s \<longleftrightarrow> links_ok s \<and> (\<forall>p < length (rt_sess s). sess_ok s p)"

lemma skel_eqD:
  assumes "skel s = skel t"
  shows "length (rt_sess s) = length (rt_sess t)" "length (rt_peers s) = length (rt_peers t)"
    "length (rt_conns s) = length (rt_conns t)" "connTable s = connTable t" "sessTable s = sessTable t"
    "forceSessListChan s = forceSessListChan t" "joined s = joined t" "sessIDs s = sessIDs t" "adminOps s = adminOps t"
    "forwarded s = forwarded t"
    "p < length (rt_sess t) \<Longrightarrow> ss_peers (rt_sess s ! p) = ss_peers (rt_sess t ! p) \<and> bmp (rt_sess s ! p) = bmp (rt_sess t ! p)"
    "i < length (rt_peers t) \<Longrightarrow> ps_peerID (rt_peers s ! i) = ps_peerID (rt_peers t ! i) \<and> ps_sess (rt_peers s ! i) = ps_sess (rt_peers t ! i) \<and>
       ps_conn (rt_peers s ! i) = ps_conn (rt_peers t ! i) \<and> ps_isAdmin (rt_peers s ! i) = ps_isAdmin (rt_peers t ! i)"
    "c < length (rt_conns t) \<Longrightarrow> cn_sessions (rt_conns s ! c) = cn_sessions (rt_conns t ! c)"
  using assms unfolding skel_def prod.inject by (auto simp: list_eq_iff_nth_eq)

lemma sess_ok_frame:
  assumes "skel s = skel t" "p < length (rt_sess s)" "peers_ok s p"
  shows "sess_ok t p = sess_ok s p" "peers_ok t p"
proof -
  have same: "ps_peerID (rt_peers t ! i) = ps_peerID (rt_peers s ! i)" "ps_sess (rt_peers t ! i) = ps_sess (rt_peers s ! i)"
      "i < length (rt_peers t)"
    if "i \<in> set (ss_peers (rt_sess s ! p))" for i
    using skel_eqD(2,12) [OF assms(1) [symmetric]] assms(3) that by (auto simp: peers_ok_def)
  have sess: "ss_peers (rt_sess t ! p) = ss_peers (rt_sess s ! p)" "bmp (rt_sess t ! p) = bmp (rt_sess s ! p)"
    using skel_eqD(11) [OF assms(1) [symmetric]] assms(2) by auto
  have "map (\<lambda>ps. ps_peerID (rt_peers t ! ps)) (ss_peers (rt_sess s ! p)) =
      map (\<lambda>ps. ps_peerID (rt_peers s ! ps)) (ss_peers (rt_sess s ! p))"
    by (simp add: same)
  moreover from this have "(\<lambda>ps. ps_peerID (rt_peers t ! ps)) ` set (ss_peers (rt_sess s ! p)) =
      (\<lambda>ps. ps_peerID (rt_peers s ! ps)) ` set (ss_peers (rt_sess s ! p))"
    by (metis list.set_map)
  ultimately show "sess_ok t p = sess_ok s p"
    by (simp only: sess_ok_def sess)
  show "peers_ok t p"
    using assms(3) by (simp add: peers_ok_def sess same)
qed

lemma links_ok_frame:
  assumes "skel s = skel t" "links_ok s"
  shows "links_ok t"
proof -
  note eq = skel_eqD [OF assms(1) [symmetric]]
  have ok: "ps_peerID (rt_peers t ! i) = ps_peerID (rt_peers s ! i)" "ps_sess (rt_peers t ! i) = ps_sess (rt_peers s ! i)"
      "ps_conn (rt_peers t ! i) = ps_conn (rt_peers s ! i)" "ps_isAdmin (rt_peers t ! i) = ps_isAdmin (rt_peers s ! i)"
    if "i < length (rt_peers s)" for i
    using eq(12) [OF that] by auto
  have "peers_ok t p" if "p < length (rt_sess s)" for p
    using assms that by (intro sess_ok_frame(2) [OF assms(1)]) (auto simp: links_ok_def)
  moreover have "peer_ok t i" if "i < length (rt_peers s)" for i
    using assms(2) that by (simp add: links_ok_def peer_ok_def eq(1,3,7) ok)
  moreover have "bound_ok t c i ps" if "bound_ok s c i ps" for c i ps
    using that by (auto simp: bound_ok_def eq(2,7) ok)
  moreover have "fwd_ok t f = fwd_ok s f" for f
    by (simp add: fwd_ok_def eq)
  ultimately show ?thesis
    using assms(2) eq(13) unfolding links_ok_def by (fastforce simp: eq(1-10))
qed

lemma rt_inv_frame: "skel s = skel t \<Longrightarrow> rt_inv s \<Longrightarrow> rt_inv t"
  using links_ok_frame [of s t] sess_ok_frame(1) [of s t] skel_eqD(1) [of s t]
  by (auto simp: rt_inv_def links_ok_def)

lemma rt_inv_skel: "rt_inv s \<Longrightarrow> skel t = skel s \<Longrightarrow> rt_inv t"
  using rt_inv_frame [of s t] by simp

lemma updConn_sel [simp]:
  "rt_peers (updConn c f s) = rt_peers s" "rt_sess (updConn c f s) = rt_sess s" "rt_pays (updConn c f s) = rt_pays s"
  "connTable (updConn c f s) = connTable s" "sessTable (updConn c f s) = sessTable s" "payTable (updConn c f s) = payTable s"
  "rotPayments (updConn c f s) = rotPayments s" "forceSessListChan (updConn c f s) = forceSessListChan s"
  "joined (updConn c f s) = joined s" "sessIDs (updConn c f s) = sessIDs s" "adminOps (updConn c f s) = adminOps s"
  "forwarded (updConn c f s) = forwarded s" "rt_conns (updConn c f s) = (rt_conns s)[c := f (rt_conns s ! c)]"
  "redeemed (updConn c f s) = redeemed s" "rotated (updConn c f s) = rotated s" "relayed (updConn c f s) = relayed s"
  "wrapped (updConn c f s) = wrapped s" "rt_now (updConn c f s) = rt_now s" "rt_halted (updConn c f s) = rt_halted s"
  "connsCount (updConn c f s) = connsCount s" "pendingCount (updConn c f s) = pendingCount s"
  by (simp_all add: updConn_def)

lemma updSess_sel [simp]:
  "rt_peers (updSess c f s) = rt_peers s" "rt_conns (updSess c f s) = rt_conns s" "rt_pays (updSess c f s) = rt_pays s"
  "connTable (updSess c f s) = connTable s" "sessTable (updSess c f s) = sessTable s" "payTable (updSess c f s) = payTable s"
  "rotPayments (updSess c f s) = rotPayments s" "forceSessListChan (updSess c f s) = forceSessListChan s"
  "joined (updSess c f s) = joined s" "sessIDs (updSess c f s) = sessIDs s" "adminOps (updSess c f s) = adminOps s"
  "forwarded (updSess c f s) = forwarded s" "rt_sess (updSess c f s) = (rt_sess s)[c := f (rt_sess s ! c)]"
  "redeemed (updSess c f s) = redeemed s" "rotated (updSess c f s) = rotated s" "relayed (updSess c f s) = relayed s"
  "wrapped (updSess c f s) = wrapped s" "rt_now (updSess c f s) = rt_now s" "rt_halted (updSess c f s) = rt_halted s"
  "connsCount (updSess c f s) = connsCount s" "pendingCount (updSess c f s) = pendingCount s"
  by (simp_all add: updSess_def)

lemma ok_updConn [simp]:
  "peers_ok (updConn c f s) p = peers_ok s p" "peer_ok (updConn c f s) ps = peer_ok s ps" "sess_ok (updConn c f s) p = sess_ok s p"
  "bound_ok (updConn c f s) d i ps = bound_ok s d i ps" "fwd_ok (updConn c f s) w = fwd_ok s w"
  by (simp_all add: peers_ok_def peer_ok_def sess_ok_def bound_ok_def fwd_ok_def)

lemma ok_updSess [simp]:
  "peer_ok (updSess p f s) ps = peer_ok s ps" "bound_ok (updSess p f s) d i ps = bound_ok s d i ps" "fwd_ok (updSess p f s) w = fwd_ok s w"
  "q \<noteq> p \<Longrightarrow> peers_ok (updSess p f s) q = peers_ok s q" "q \<noteq> p \<Longrightarrow> sess_ok (updSess p f s) q = sess_ok s q"
  by (simp_all add: peers_ok_def peer_ok_def sess_ok_def bound_ok_def fwd_ok_def)

lemma links_updConn:
  assumes "links_ok s" "\<forall>(i, ps) \<in> set (cn_sessions (f (rt_conns s ! c))). bound_ok s c i ps"
  shows "links_ok (updConn c f s)"
proof -
  have "\<forall>(i, ps) \<in> set (cn_sessions ((rt_conns s)[c := f (rt_conns s ! c)] ! d)). bound_ok s d i ps" if "d < length (rt_conns s)" for d
    using assms that by (cases "d = c") (simp_all add: links_ok_def)
  then show ?thesis using assms(1) by (simp add: links_ok_def)
qed

lemma links_updSess:
  assumes "links_ok s"
    "\<And>x. x \<in> set (ss_peers (f (rt_sess s ! p))) \<Longrightarrow> x \<in> set (ss_peers (rt_sess s ! p)) \<or> x < length (rt_peers s) \<and> ps_sess (rt_peers s ! x) = p"
  shows "links_ok (updSess p f s)"
proof -
  have "peers_ok (updSess p f s) q" if q: "q < length (rt_sess s)" for q
  proof (cases "q = p")
    case True
    moreover have "peers_ok s q" using assms(1) q by (simp add: links_ok_def)
    ultimately show ?thesis using assms(2) q unfolding peers_ok_def by auto
  next
    case False
    then show ?thesis using assms(1) q by (simp add: links_ok_def)
  qed
  then show ?thesis using assms(1) by (simp add: links_ok_def)
qed

lemma RemovePeer_eq:
  "snd (snd (RemovePeer cfg p i s)) = updSess p (\<lambda>ss. ss\<lparr>ss_peers := filter (\<lambda>ps. ps_peerID (rt_peers s ! ps) \<noteq> i) (ss_peers ss),
     bmp := bmp ss - {i}, bmpBuf := bmpWriteTo cfg (bmp ss - {i})\<rparr>) s"
  by (simp add: RemovePeer_def Let_def updSess_def)

lemma links_RemovePeer: "links_ok s \<Longrightarrow> links_ok (snd (snd (RemovePeer cfg p i s)))"
  unfolding RemovePeer_eq by (rule links_updSess) auto

lemma sess_ok_RemovePeer: "sess_ok s q \<Longrightarrow> q < length (rt_sess s) \<Longrightarrow> sess_ok (snd (snd (RemovePeer cfg p i s))) q"
  unfolding RemovePeer_eq
  by (cases "q = p") (auto simp: sess_ok_def distinct_map_filter)

lemma rt_inv_RemovePeer: "rt_inv s \<Longrightarrow> rt_inv (snd (snd (RemovePeer cfg p i s)))"
  by (auto simp: rt_inv_def links_RemovePeer sess_ok_RemovePeer) (simp add: RemovePeer_eq sess_ok_RemovePeer [unfolded RemovePeer_eq])

lemma ok_fields [simp]:
  "peers_ok (s\<lparr>forceSessListChan := a\<rparr>) p = peers_ok s p" "peer_ok (s\<lparr>forceSessListChan := a\<rparr>) ps = peer_ok s ps"
  "sess_ok (s\<lparr>forceSessListChan := a\<rparr>) p = sess_ok s p" "bound_ok (s\<lparr>forceSessListChan := a\<rparr>) c i ps = bound_ok s c i ps"
  "fwd_ok (s\<lparr>forceSessListChan := a\<rparr>) w = fwd_ok s w"
  "peers_ok (s\<lparr>sessTable := b\<rparr>) p = peers_ok s p" "peer_ok (s\<lparr>sessTable := b\<rparr>) ps = peer_ok s ps"
  "sess_ok (s\<lparr>sessTable := b\<rparr>) p = sess_ok s p" "bound_ok (s\<lparr>sessTable := b\<rparr>) c i ps = bound_ok s c i ps"
  "fwd_ok (s\<lparr>sessTable := b\<rparr>) w = fwd_ok s w"
  "peers_ok (s\<lparr>connTable := d\<rparr>) p = peers_ok s p" "peer_ok (s\<lparr>connTable := d\<rparr>) ps = peer_ok s ps"
  "sess_ok (s\<lparr>connTable := d\<rparr>) p = sess_ok s p" "bound_ok (s\<lparr>connTable := d\<rparr>) c i ps = bound_ok s c i ps"
  "fwd_ok (s\<lparr>connTable := d\<rparr>) w = fwd_ok s w"
  "peers_ok (s\<lparr>adminOps := e\<rparr>) p = peers_ok s p" "peer_ok (s\<lparr>adminOps := e\<rparr>) ps = peer_ok s ps"
  "sess_ok (s\<lparr>adminOps := e\<rparr>) p = sess_ok s p" "bound_ok (s\<lparr>adminOps := e\<rparr>) c i ps = bound_ok s c i ps"
  "fwd_ok (s\<lparr>adminOps := e\<rparr>) w = fwd_ok s w"
  "peers_ok (s\<lparr>forwarded := f\<rparr>) p = peers_ok s p" "peer_ok (s\<lparr>forwarded := f\<rparr>) ps = peer_ok s ps"
  "sess_ok (s\<lparr>forwarded := f\<rparr>) p = sess_ok s p" "bound_ok (s\<lparr>forwarded := f\<rparr>) c i ps = bound_ok s c i ps"
  "fwd_ok (s\<lparr>forwarded := f\<rparr>) w = fwd_ok s w"
  by (simp_all add: peers_ok_def peer_ok_def sess_ok_def bound_ok_def fwd_ok_def)

lemma rt_inv_forceList: "rt_inv s \<Longrightarrow> p < length (rt_sess s) \<Longrightarrow> rt_inv (s\<lparr>forceSessListChan := forceSessListChan s @ [p]\<rparr>)"
  by (simp add: rt_inv_def links_ok_def)

lemma rt_inv_forceTake: "rt_inv s \<Longrightarrow> forceSessListChan s = q # qs \<Longrightarrow> rt_inv (s\<lparr>forceSessListChan := qs\<rparr>)"
  by (simp add: rt_inv_def links_ok_def)

lemma rt_inv_dropSess: "rt_inv s \<Longrightarrow> rt_inv (s\<lparr>sessTable := AList.delete i (sessTable s)\<rparr>)"
  using set_delete_subset [of i "sessTable s"] by (auto simp: rt_inv_def links_ok_def)

lemma rt_inv_dropConn: "rt_inv s \<Longrightarrow> rt_inv (s\<lparr>connTable := AList.delete a (connTable s)\<rparr>)"
  using set_delete_subset [of a "connTable s"] by (auto simp: rt_inv_def links_ok_def)

lemma rt_inv_adminOp:
  "rt_inv s \<Longrightarrow> \<exists>j \<in> set (joined s). jn_peer j = k \<and> jn_sess j = p \<and> jn_admin j \<Longrightarrow> rt_inv (s\<lparr>adminOps := adminOps s @ [(c, k, p)]\<rparr>)"
  by (simp add: rt_inv_def links_ok_def)

lemma rt_inv_forwarded: "rt_inv s \<Longrightarrow> fwd_ok s w \<Longrightarrow> rt_inv (s\<lparr>forwarded := forwarded s @ [w]\<rparr>)"
  by (simp add: rt_inv_def links_ok_def)


lemma ok_sessIDs [simp]:
  "peers_ok (s\<lparr>sessIDs := a\<rparr>) p = peers_ok s p" "peer_ok (s\<lparr>sessIDs := a\<rparr>) ps = peer_ok s ps"
  "sess_ok (s\<lparr>sessIDs := a\<rparr>) p = sess_ok s p" "bound_ok (s\<lparr>sessIDs := a\<rparr>) c i ps = bound_ok s c i ps"
  "fwd_ok (s\<lparr>sessIDs := a\<rparr>) w = fwd_ok s w"
  by (simp_all add: peers_ok_def peer_ok_def sess_ok_def bound_ok_def fwd_ok_def)

lemma rt_inv_rename:
  assumes "rt_inv s" "p < length (rt_sess s)" "set T \<subseteq> insert (n, p) (set (sessTable s))"
  shows "rt_inv (s\<lparr>sessTable := T, sessIDs := sessIDs s @ [(p, n)]\<rparr>)"
proof -
  have "\<forall>(i, q) \<in> set T. q < length (rt_sess s) \<and> (q, i) \<in> set (sessIDs s @ [(p, n)])"
    using assms by (fastforce simp: rt_inv_def links_ok_def)
  then show ?thesis using assms(1) by (simp add: rt_inv_def links_ok_def)
qed

lemma rt_invD:
  assumes "rt_inv s"
  shows "ps < length (rt_peers s) \<Longrightarrow> peer_ok s ps"
    and "c < length (rt_conns s) \<Longrightarrow> map_of (cn_sessions (rt_conns s ! c)) i = Some ps \<Longrightarrow> bound_ok s c i ps"
    and "p < length (rt_sess s) \<Longrightarrow> peers_ok s p" and "p < length (rt_sess s) \<Longrightarrow> sess_ok s p"
    and "map_of (connTable s) a = Some c \<Longrightarrow> c < length (rt_conns s)"
    and "map_of (sessTable s) k = Some p \<Longrightarrow> p < length (rt_sess s) \<and> (p, k) \<in> set (sessIDs s)"
  using assms by (auto simp: rt_inv_def links_ok_def dest!: map_of_SomeD)

lemma bound_okD: "links_ok s \<Longrightarrow> c < length (rt_conns s) \<Longrightarrow> (i, ps) \<in> set (cn_sessions (rt_conns s ! c)) \<Longrightarrow> bound_ok s c i ps"
  by (auto simp: links_ok_def)

lemma rt_inv_removePeerSession:
  assumes "rt_inv s" "ps < length (rt_peers s)"
  shows "rt_inv (removePeerSession cfg ps s)"
proof -
  let ?p = "ps_sess (rt_peers s ! ps)" and ?i = "ps_peerID (rt_peers s ! ps)"
  obtain e k t where r: "RemovePeer cfg ?p ?i s = (e, k, t)" by (metis prod_cases3)
  have "rt_inv t" "length (rt_sess t) = length (rt_sess s)"
    using rt_inv_RemovePeer [OF assms(1), of cfg ?p ?i] RemovePeer_eq [of cfg ?p ?i s] by (simp_all add: r)
  moreover have "?p < length (rt_sess s)"
    using rt_invD(1) [OF assms] by (simp add: peer_ok_def)
  ultimately show ?thesis
    by (simp add: removePeerSession_def Let_def r rt_inv_dropSess rt_inv_forceList)
qed

lemma removePeerSession_sel [simp]:
  "rt_peers (removePeerSession cfg ps s) = rt_peers s" "rt_conns (removePeerSession cfg ps s) = rt_conns s"
  by (simp_all add: removePeerSession_def Let_def RemovePeer_def)

lemma links_unbind:
  assumes "links_ok s" "c < length (rt_conns s)"
  shows "links_ok (updConn c (\<lambda>cn. cn\<lparr>cn_sessions := AList.delete i (cn_sessions cn)\<rparr>) s)"
  using assms set_delete_subset [of i "cn_sessions (rt_conns s ! c)"]
  by (intro links_updConn) (auto dest: bound_okD)

lemma rt_inv_unbind:
  "rt_inv s \<Longrightarrow> c < length (rt_conns s) \<Longrightarrow> rt_inv (updConn c (\<lambda>cn. cn\<lparr>cn_sessions := AList.delete i (cn_sessions cn)\<rparr>) s)"
  using links_unbind [of s c i] by (simp add: rt_inv_def)

lemma rt_inv_removeFromSession:
  assumes "rt_inv s" "c < length (rt_conns s)"
  shows "rt_inv (snd (removeFromSession cfg c i s))"
  using assms rt_invD(2) [OF assms(1,2)]
  by (auto simp: removeFromSession_def bound_ok_def intro!: rt_inv_removePeerSession rt_inv_unbind split: option.splits)

lemma rt_inv_removeAll:
  "rt_inv s \<Longrightarrow> \<forall>(i, ps) \<in> set xs. ps < length (rt_peers s) \<Longrightarrow> rt_inv (fold (\<lambda>(i, ps). removePeerSession cfg ps) xs s)"
  by (induction xs arbitrary: s) (auto simp: rt_inv_removePeerSession)

lemma rt_inv_removeFromAllSessions:
  assumes "rt_inv s" "c < length (rt_conns s)"
  shows "rt_inv (removeFromAllSessions cfg c s)"
proof -
  have "\<forall>(i, ps) \<in> set (cn_sessions (rt_conns s ! c)). ps < length (rt_peers s)"
    using assms by (auto simp: rt_inv_def links_ok_def bound_ok_def)
  with assms(1) show ?thesis
    unfolding removeFromAllSessions_def by (rule rt_inv_removeAll)
qed

lemma PeerConn_ok:
  assumes "rt_inv s" "p < length (rt_sess s)" "PeerConn p i s = Some c"
  shows "c < length (rt_conns s)"
proof -
  from assms(3) obtain ps where "find (\<lambda>ps. ps_peerID (rt_peers s ! ps) = i) (ss_peers (rt_sess s ! p)) = Some ps"
      and c: "c = ps_conn (rt_peers s ! ps)"
    by (auto simp: PeerConn_def)
  then have "ps \<in> set (ss_peers (rt_sess s ! p))" by (metis find_Some_iff nth_mem)
  with rt_invD(3) [OF assms(1,2)] have "ps < length (rt_peers s)" by (simp add: peers_ok_def)
  with rt_invD(1) [OF assms(1)] c show ?thesis by (simp add: peer_ok_def)
qed

text \<open>An admin's rights come from a cookie for the session.\<close>

lemma admin_granted:
  assumes "rt_inv s" "c < length (rt_conns s)" "map_of (cn_sessions (rt_conns s ! c)) i = Some ps" "ps_isAdmin (rt_peers s ! ps)"
  shows "ps < length (rt_peers s)" "ps_sess (rt_peers s ! ps) < length (rt_sess s)"
    "\<exists>j \<in> set (joined s). jn_peer j = i \<and> jn_sess j = ps_sess (rt_peers s ! ps) \<and> jn_admin j"
  using rt_invD(2) [OF assms(1-3)] rt_invD(1) [OF assms(1), of ps] assms(4) by (auto simp: bound_ok_def peer_ok_def)

lemma rt_inv_kickFromSession:
  assumes "rt_inv s" "c < length (rt_conns s)"
  shows "rt_inv (snd (kickFromSession cfg now c i k d s))"
proof (cases "map_of (cn_sessions (rt_conns s ! c)) i")
  case (Some ps)
  let ?p = "ps_sess (rt_peers s ! ps)"
  show ?thesis
  proof (cases "ps_isAdmin (rt_peers s ! ps) \<and> PeerConn ?p k s \<noteq> None")
    case True
    then obtain t where t: "PeerConn ?p k s = Some t" by blast
    note adm = admin_granted [OF assms Some conjunct1 [OF True]]
    define s1 where "s1 = s\<lparr>adminOps := adminOps s @ [(c, i, ?p)]\<rparr>"
    define s2 where "s2 = (if 0 < d then BanTarget now ?p k (uint d * second) s1 else s1)"
    have "rt_inv s1" unfolding s1_def by (rule rt_inv_adminOp [OF assms(1) adm(3)])
    then have "rt_inv s2" unfolding s2_def by (auto intro: rt_inv_skel simp: BanTarget_def)
    moreover have "t < length (rt_conns s2)"
      using PeerConn_ok [OF assms(1) adm(2) t] by (simp add: s2_def s1_def BanTarget_def)
    ultimately have "rt_inv (snd (removeFromSession cfg t k s2))" by (rule rt_inv_removeFromSession)
    with True t Some show ?thesis
      by (auto simp: kickFromSession_def Let_def s1_def [symmetric] s2_def [symmetric] split: prod.splits option.splits)
  next
    case False
    with Some assms(1) show ?thesis by (auto simp: kickFromSession_def Let_def)
  qed
qed (simp add: kickFromSession_def assms(1))

lemma rt_inv_rotateSessionCookies:
  assumes "rt_inv s" "c < length (rt_conns s)"
  shows "rt_inv (snd (rotateSessionCookies cfg now c i raw s))"
proof (cases "map_of (cn_sessions (rt_conns s ! c)) i")
  case (Some ps)
  let ?p = "ps_sess (rt_peers s ! ps)"
  have sk: "rt_inv (s\<lparr>rotPayments := a, rotated := b\<rparr>)" "rt_inv (s\<lparr>rt_halted := h\<rparr>)" for a b h
    by (rule rt_inv_skel [OF assms(1)], simp)+
  have rot: "rt_inv ((updSess ?p (\<lambda>ss. ss\<lparr>ss_sid := n\<rparr>) (s\<lparr>rotPayments := a, rotated := b\<rparr>))
      \<lparr>sessTable := AList.delete old (AList.update n ?p (sessTable s)), sessIDs := sessIDs s @ [(?p, n)],
       adminOps := adminOps s @ [(c, i, ?p)]\<rparr>)" (is "rt_inv ?t")
    if "ps_isAdmin (rt_peers s ! ps)" for n a b old
  proof -
    note adm = admin_granted [OF assms Some that]
    have inv: "rt_inv (updSess ?p (\<lambda>ss. ss\<lparr>ss_sid := n\<rparr>) (s\<lparr>rotPayments := a, rotated := b, adminOps := adminOps s @ [(c, i, ?p)]\<rparr>))"
      by (rule rt_inv_skel [OF rt_inv_adminOp [OF assms(1) adm(3), of c]]) (simp, simp add: skel_def)
    have "set (AList.delete old (AList.update n ?p (sessTable s))) \<subseteq> insert (n, ?p) (set (sessTable s))"
      using set_delete_subset [of old "AList.update n ?p (sessTable s)"] set_update_subset [of n ?p "sessTable s"] by blast
    then show ?thesis
      by (intro rt_inv_skel [OF rt_inv_rename [OF inv, of ?p "AList.delete old (AList.update n ?p (sessTable s))" n]])
        (simp_all add: adm(2) skel_def)
  qed
  show ?thesis
    using Some assms(1) sk rot
    by (auto simp: rotateSessionCookies_def Let_def split: option.splits sum.splits)
qed (simp add: rotateSessionCookies_def assms(1))

lemma findIndex_None: "findIndex P xs = None \<longleftrightarrow> (\<forall>x \<in> set xs. \<not> P x)"
  by (induction xs) auto

lemma findIndex_Some: "findIndex P xs = Some i \<Longrightarrow> i < length xs \<and> P (xs ! i)"
  by (induction xs arbitrary: i) (auto split: if_splits)

lemma rt_inv_newPeer:
  assumes "rt_inv s" "ps_sess x < length (rt_sess s)" "ps_conn x < length (rt_conns s)"
    "\<exists>j \<in> set (joined s). jn_conn j = ps_conn x \<and> jn_peer j = ps_peerID x \<and> jn_sess j = ps_sess x \<and> jn_admin j = ps_isAdmin x"
  shows "rt_inv (s\<lparr>rt_peers := rt_peers s @ [x]\<rparr>)" (is "rt_inv ?t")
proof -
  have old: "rt_peers ?t ! i = rt_peers s ! i" if "i < length (rt_peers s)" for i
    using that by (simp add: nth_append)
  have "peers_ok ?t p \<and> sess_ok ?t p" if "p < length (rt_sess s)" for p
  proof -
    have in_range: "\<And>i. i \<in> set (ss_peers (rt_sess s ! p)) \<Longrightarrow> rt_peers ?t ! i = rt_peers s ! i"
      using rt_invD(3) [OF assms(1) that] old by (simp add: peers_ok_def)
    then have "map (\<lambda>ps. ps_peerID (rt_peers ?t ! ps)) (ss_peers (rt_sess s ! p)) =
        map (\<lambda>ps. ps_peerID (rt_peers s ! ps)) (ss_peers (rt_sess s ! p))" by simp
    moreover from this have "(\<lambda>ps. ps_peerID (rt_peers ?t ! ps)) ` set (ss_peers (rt_sess s ! p)) =
        (\<lambda>ps. ps_peerID (rt_peers s ! ps)) ` set (ss_peers (rt_sess s ! p))" by (metis list.set_map)
    moreover have "rt_sess ?t = rt_sess s" by simp
    ultimately have "sess_ok ?t p = sess_ok s p" by (simp only: sess_ok_def)
    moreover have "peers_ok ?t p"
      using rt_invD(3) [OF assms(1) that] in_range by (auto simp: peers_ok_def)
    ultimately show ?thesis using rt_invD(4) [OF assms(1) that] by simp
  qed
  moreover have "peer_ok ?t ps" if "ps < length (rt_peers ?t)" for ps
  proof (cases "ps < length (rt_peers s)")
    case True
    then show ?thesis using rt_invD(1) [OF assms(1) True] by (simp add: peer_ok_def nth_append)
  next
    case False
    with that have "ps = length (rt_peers s)" by simp
    with assms show ?thesis by (simp add: peer_ok_def)
  qed
  moreover have "bound_ok ?t c i ps" if "bound_ok s c i ps" for c i ps
    using that by (auto simp: bound_ok_def nth_append)
  moreover have "fwd_ok ?t w = fwd_ok s w" for w by (simp add: fwd_ok_def)
  ultimately show ?thesis
    using assms(1) bound_okD [of s] by (fastforce simp: rt_inv_def links_ok_def)
qed

lemma rt_inv_joined:
  assumes "rt_inv s" "jn_sess j < length (rt_sess s)" "(jn_sess j, jn_sid j) \<in> set (sessIDs s)"
  shows "rt_inv (s\<lparr>joined := joined s @ [j]\<rparr>)" (is "rt_inv ?t")
proof -
  have "peers_ok ?t p = peers_ok s p" "sess_ok ?t p = sess_ok s p" for p
    by (simp_all add: peers_ok_def sess_ok_def)
  moreover have "peer_ok s ps \<Longrightarrow> peer_ok ?t ps" "bound_ok s c i ps \<Longrightarrow> bound_ok ?t c i ps" "fwd_ok s w \<Longrightarrow> fwd_ok ?t w" for c i ps w
    by (auto simp: peer_ok_def bound_ok_def fwd_ok_def)
  ultimately show ?thesis
    using assms bound_okD [of s] by (fastforce simp: rt_inv_def links_ok_def)
qed

lemma rt_inv_loadSession:
  assumes "rt_inv s" "loadSession k s = (p, t)"
  shows "rt_inv t \<and> p < length (rt_sess t) \<and> (p, k) \<in> set (sessIDs t) \<and> rt_conns t = rt_conns s"
proof (cases "map_of (sessTable s) k")
  case (Some q)
  then show ?thesis using assms rt_invD(6) [OF assms(1) Some] by (simp add: loadSession_def)
next
  case None
  let ?s = "s\<lparr>rt_sess := rt_sess s @ [newSession k]\<rparr>"
  have "peers_ok ?s q \<and> sess_ok ?s q" if "q < length (rt_sess ?s)" for q
  proof (cases "q < length (rt_sess s)")
    case True
    then show ?thesis using rt_invD(3,4) [OF assms(1) True] by (simp add: peers_ok_def sess_ok_def nth_append)
  next
    case False
    with that have "q = length (rt_sess s)" by simp
    then show ?thesis by (simp add: peers_ok_def sess_ok_def newSession_def)
  qed
  moreover have "peer_ok s ps \<Longrightarrow> peer_ok ?s ps" "bound_ok ?s c i ps = bound_ok s c i ps" "fwd_ok ?s w = fwd_ok s w" for c i ps w
    by (auto simp: peer_ok_def bound_ok_def fwd_ok_def)
  ultimately have "rt_inv ?s"
    using assms(1) by (fastforce simp: rt_inv_def links_ok_def)
  from rt_inv_rename [OF this, of "length (rt_sess s)" "AList.update k (length (rt_sess s)) (sessTable s)" k]
  have "rt_inv (?s\<lparr>sessTable := AList.update k (length (rt_sess s)) (sessTable s), sessIDs := sessIDs s @ [(length (rt_sess s), k)]\<rparr>)"
    using set_update_subset [of k "length (rt_sess s)" "sessTable s"] by simp
  then show ?thesis using assms(2) None by (auto simp: loadSession_def Let_def)
qed

lemma rt_inv_isBanned: "rt_inv s \<Longrightarrow> rt_inv (updSess p (\<lambda>_. snd (isBanned now i (rt_sess s ! p))) s)"
proof -
  have "updSess p (\<lambda>_. snd (isBanned now i (rt_sess s ! p))) s = updSess p (\<lambda>ss. snd (isBanned now i ss)) s"
    by (simp add: updSess_def)
  moreover have "ss_peers (snd (isBanned now i ss)) = ss_peers ss" "bmp (snd (isBanned now i ss)) = bmp ss" for ss
    by (simp_all add: isBanned_def split: option.splits)
  ultimately show "rt_inv s \<Longrightarrow> ?thesis" by (metis rt_inv_skel skel_updSess)
qed

text \<open>The session to which a peer is being added has its bitmap not yet updated; the invariant holds for all others.\<close>

lemma rt_inv_addMember:
  assumes "links_ok s" "\<And>q. q < length (rt_sess s) \<Longrightarrow> q \<noteq> p \<Longrightarrow> sess_ok s q"
    "p < length (rt_sess s) \<Longrightarrow> distinct (map (\<lambda>ps. ps_peerID (rt_peers s ! ps)) (ss_peers (rt_sess s ! p)))"
    "p < length (rt_sess s) \<Longrightarrow> insert i (bmp (rt_sess s ! p)) = (\<lambda>ps. ps_peerID (rt_peers s ! ps)) ` set (ss_peers (rt_sess s ! p))"
  shows "rt_inv (updSess p (addMember cfg i) s)"
proof -
  have "links_ok (updSess p (addMember cfg i) s)"
    using assms(1) by (rule links_updSess) (simp add: addMember_def Let_def)
  moreover have "sess_ok (updSess p (addMember cfg i) s) q" if "q < length (rt_sess s)" for q
    using assms(2-4) that by (cases "q = p") (auto simp: sess_ok_def addMember_def Let_def)
  ultimately show ?thesis by (simp add: rt_inv_def)
qed

lemma links_bind:
  assumes "links_ok s" "c < length (rt_conns s)" "bound_ok s c i ps"
  shows "links_ok (updConn c (\<lambda>cn. cn\<lparr>cn_sessions := AList.update i ps (cn_sessions cn)\<rparr>) s)"
  using assms set_update_subset [of i ps "cn_sessions (rt_conns s ! c)"]
  by (intro links_updConn) (auto dest: bound_okD)

lemma RemovePeer_sel [simp]:
  "rt_peers (snd (snd (RemovePeer cfg p i s))) = rt_peers s" "rt_conns (snd (snd (RemovePeer cfg p i s))) = rt_conns s"
  "length (rt_sess (snd (snd (RemovePeer cfg p i s)))) = length (rt_sess s)"
  "q \<noteq> p \<Longrightarrow> rt_sess (snd (snd (RemovePeer cfg p i s))) ! q = rt_sess s ! q" "joined (snd (snd (RemovePeer cfg p i s))) = joined s"
  by (simp_all add: RemovePeer_eq)

lemma rt_inv_bindNew:
  assumes "rt_inv s" "p < length (rt_sess s)" "c < length (rt_conns s)" "ps_sess x = p" "ps_conn x = c"
    "\<exists>j \<in> set (joined s). jn_conn j = c \<and> jn_peer j = ps_peerID x \<and> jn_sess j = p \<and> jn_admin j = ps_isAdmin x"
    "\<forall>ps \<in> set (ss_peers (rt_sess s ! p)). ps_peerID (rt_peers s ! ps) \<noteq> ps_peerID x"
  shows "rt_inv (updSess p (addMember cfg (ps_peerID x)) (bindNew cfg c x s))"
proof -
  let ?i = "ps_peerID x" and ?n = "length (rt_peers s)"
  define s1 where "s1 = s\<lparr>rt_peers := rt_peers s @ [x]\<rparr>"
  define s2 where "s2 = updSess p (\<lambda>ss. ss\<lparr>ss_peers := ss_peers ss @ [?n]\<rparr>) s1"
  define s3 where "s3 = updConn c (\<lambda>cn. cn\<lparr>cn_sessions := AList.update ?i ?n (cn_sessions cn)\<rparr>) s2"
  have inv1: "rt_inv s1"
    unfolding s1_def by (rule rt_inv_newPeer) (use assms in auto)
  have "links_ok s2"
    unfolding s2_def by (rule links_updSess) (use inv1 assms(4) in \<open>auto simp: rt_inv_def s1_def\<close>)
  then have l3: "links_ok s3"
    unfolding s3_def by (rule links_bind) (use assms in \<open>auto simp: s2_def s1_def bound_ok_def\<close>)
  have o3: "sess_ok s3 q" if "q < length (rt_sess s)" "q \<noteq> p" for q
    using inv1 that by (simp add: s3_def s2_def rt_inv_def) (simp add: s1_def)
  have pids: "map (\<lambda>ps. ps_peerID (rt_peers s3 ! ps)) (ss_peers (rt_sess s3 ! p)) =
      map (\<lambda>ps. ps_peerID (rt_peers s ! ps)) (ss_peers (rt_sess s ! p)) @ [?i]"
    using rt_invD(3) [OF assms(1,2)] assms(2) by (auto simp: s3_def s2_def s1_def peers_ok_def nth_append)
  have b3: "bmp (rt_sess s3 ! p) = bmp (rt_sess s ! p)" "length (rt_sess s3) = length (rt_sess s)"
    using assms(2) by (simp_all add: s3_def s2_def s1_def)
  define t where "t = bindNew cfg c x s"
  have t: "t = s3 \<or> (\<exists>q. q \<noteq> p \<and> t = snd (snd (RemovePeer cfg q ?i s3)))"
    using assms(4) by (auto simp: t_def bindNew_def newPeer_def Let_def s3_def s2_def s1_def split: option.splits)
  have "links_ok t" "\<And>q. q < length (rt_sess s) \<Longrightarrow> q \<noteq> p \<Longrightarrow> sess_ok t q"
    using t l3 o3 b3 by (auto intro: links_RemovePeer sess_ok_RemovePeer)
  moreover have "rt_sess t ! p = rt_sess s3 ! p" "rt_peers t = rt_peers s3" "length (rt_sess t) = length (rt_sess s)"
    using t b3 by auto
  moreover have "distinct (map (\<lambda>ps. ps_peerID (rt_peers s3 ! ps)) (ss_peers (rt_sess s3 ! p)))"
    using rt_invD(4) [OF assms(1,2)] assms(7) unfolding pids by (auto simp: sess_ok_def)
  moreover have "insert ?i (bmp (rt_sess s3 ! p)) = (\<lambda>ps. ps_peerID (rt_peers s3 ! ps)) ` set (ss_peers (rt_sess s3 ! p))"
    using rt_invD(4) [OF assms(1,2)] arg_cong [OF pids, of set] by (simp add: sess_ok_def b3)
  ultimately show ?thesis
    unfolding t_def [symmetric] by (intro rt_inv_addMember) simp_all
qed

lemma map_update_nth: "i < length xs \<Longrightarrow> f y = f (xs ! i) \<Longrightarrow> map f (xs[i := y]) = map f xs"
  by (simp add: map_update list_update_same_conv)

lemma rt_inv_bindReplace:
  assumes "rt_inv s" "p < length (rt_sess s)" "c < length (rt_conns s)" "ps_sess x = p" "ps_conn x = c"
    "\<exists>j \<in> set (joined s). jn_conn j = c \<and> jn_peer j = ps_peerID x \<and> jn_sess j = p \<and> jn_admin j = ps_isAdmin x"
    "idx < length (ss_peers (rt_sess s ! p))" "ps = ss_peers (rt_sess s ! p) ! idx" "ps_peerID (rt_peers s ! ps) = ps_peerID x"
  shows "rt_inv (updSess p (addMember cfg (ps_peerID x)) (bindReplace c x idx ps s))"
proof -
  let ?i = "ps_peerID x" and ?n = "length (rt_peers s)" and ?xs = "ss_peers (rt_sess s ! p)"
  have mem: "ps \<in> set ?xs" using assms(7,8) by simp
  have ps: "ps < ?n" "ps_sess (rt_peers s ! ps) = p" using rt_invD(3) [OF assms(1,2)] mem by (auto simp: peers_ok_def)
  have pc: "ps_conn (rt_peers s ! ps) < length (rt_conns s)" using rt_invD(1) [OF assms(1) ps(1)] by (simp add: peer_ok_def)
  have okp: "insert ?i (bmp (rt_sess s ! p)) = bmp (rt_sess s ! p)"
    using rt_invD(4) [OF assms(1,2)] imageI [OF mem, of "\<lambda>ps. ps_peerID (rt_peers s ! ps)"] assms(9) by (simp add: sess_ok_def insert_absorb)
  show ?thesis
  proof (cases "ps_conn (rt_peers s ! ps) = c")
    case True
    then have "bindReplace c x idx ps s = s" using ps assms(4) by (simp add: bindReplace_def Let_def)
    moreover have "rt_inv (updSess p (addMember cfg ?i) s)"
      using assms(1) rt_invD(4) [OF assms(1)] okp by (intro rt_inv_addMember) (auto simp: rt_inv_def sess_ok_def)
    ultimately show ?thesis by simp
  next
    case False
    define s1 where "s1 = s\<lparr>rt_peers := rt_peers s @ [x]\<rparr>"
    define s2 where "s2 = updSess p (\<lambda>ss. ss\<lparr>ss_peers := (ss_peers ss)[idx := ?n]\<rparr>) s1"
    define s3 where "s3 = updConn (ps_conn (rt_peers s2 ! ps)) (\<lambda>cn. cn\<lparr>cn_sessions := AList.delete ?i (cn_sessions cn)\<rparr>) s2"
    define s4 where "s4 = updConn c (\<lambda>cn. cn\<lparr>cn_sessions := AList.update ?i ps (cn_sessions cn)\<rparr>) s3"
    have inv1: "rt_inv s1" unfolding s1_def by (rule rt_inv_newPeer) (use assms in auto)
    have old: "rt_peers s2 ! i = rt_peers s ! i" if "i < ?n" for i using that by (simp add: s2_def s1_def nth_append)
    have "links_ok s2" unfolding s2_def
      by (rule links_updSess) (use inv1 assms(4) set_update_subset_insert [of ?xs idx ?n] in \<open>auto simp: rt_inv_def s1_def\<close>)
    then have "links_ok s3"
      unfolding s3_def by (rule links_unbind) (use pc in \<open>simp add: old [OF ps(1)]\<close>, simp add: s2_def s1_def)
    then have "links_ok s4" unfolding s4_def
      by (rule links_bind) (use assms ps in \<open>auto simp: s3_def s2_def s1_def bound_ok_def nth_append\<close>)
    moreover have "sess_ok s4 q" if "q < length (rt_sess s)" "q \<noteq> p" for q
      using inv1 that by (simp add: s4_def s3_def s2_def rt_inv_def) (simp add: s1_def)
    moreover have pids: "map (\<lambda>ps. ps_peerID (rt_peers s4 ! ps)) (ss_peers (rt_sess s4 ! p)) = map (\<lambda>ps. ps_peerID (rt_peers s ! ps)) ?xs"
    proof -
      have "map (\<lambda>ps. ps_peerID (rt_peers s4 ! ps)) (?xs[idx := ?n]) = map (\<lambda>ps. ps_peerID (rt_peers s4 ! ps)) ?xs"
        using assms(7-9) ps(1) by (intro map_update_nth) (simp_all add: s4_def s3_def s2_def s1_def nth_append)
      also have "\<dots> = map (\<lambda>ps. ps_peerID (rt_peers s ! ps)) ?xs"
        using rt_invD(3) [OF assms(1,2)] by (auto simp: s4_def s3_def s2_def s1_def nth_append peers_ok_def)
      finally show ?thesis using assms(2) by (simp add: s4_def s3_def s2_def s1_def)
    qed
    moreover have "bmp (rt_sess s4 ! p) = bmp (rt_sess s ! p)" "length (rt_sess s4) = length (rt_sess s)"
      using assms(2) by (simp_all add: s4_def s3_def s2_def s1_def)
    moreover have "(\<lambda>ps. ps_peerID (rt_peers s4 ! ps)) ` set (ss_peers (rt_sess s4 ! p)) = (\<lambda>ps. ps_peerID (rt_peers s ! ps)) ` set ?xs"
      using pids by (metis list.set_map)
    ultimately have "rt_inv (updSess p (addMember cfg ?i) s4)"
      using rt_invD(4) [OF assms(1,2)] okp
      by (intro rt_inv_addMember) (simp_all add: sess_ok_def)
    moreover have "bindReplace c x idx ps s = s4"
      using False by (simp add: bindReplace_def newPeer_def Let_def s4_def s3_def s2_def s1_def nth_append ps assms(4))
    ultimately show ?thesis by simp
  qed
qed

lemma rt_inv_bindPeer:
  assumes "rt_inv s" "p < length (rt_sess s)" "c < length (rt_conns s)" "ps_sess x = p" "ps_conn x = c" "(p, k) \<in> set (sessIDs s)"
  shows "rt_inv (bindPeer cfg c x k s)"
proof -
  let ?j = "\<lparr>jn_conn = c, jn_peer = ps_peerID x, jn_sess = p, jn_sid = k, jn_admin = ps_isAdmin x\<rparr>"
  define s1 where "s1 = s\<lparr>joined := joined s @ [?j]\<rparr>"
  have i1: "rt_inv s1" unfolding s1_def using assms by (intro rt_inv_joined) simp_all
  have s1: "rt_sess s1 = rt_sess s" "rt_conns s1 = rt_conns s" "joined s1 = joined s @ [?j]"
    by (simp_all add: s1_def)
  let ?idx = "findIndex (\<lambda>ps. ps_peerID (rt_peers s1 ! ps) = ps_peerID x) (ss_peers (rt_sess s1 ! p))"
  have "rt_inv (updSess p (addMember cfg (ps_peerID x))
      (case ?idx of None \<Rightarrow> bindNew cfg c x s1 | Some n \<Rightarrow> bindReplace c x n (ss_peers (rt_sess s1 ! p) ! n) s1))"
  proof (cases ?idx)
    case None
    then have "\<forall>ps \<in> set (ss_peers (rt_sess s1 ! p)). ps_peerID (rt_peers s1 ! ps) \<noteq> ps_peerID x" by (simp add: findIndex_None)
    with None show ?thesis
      using rt_inv_bindNew [OF i1, of p c x cfg] assms s1 by simp
  next
    case (Some n)
    from findIndex_Some [OF this] show ?thesis
      using rt_inv_bindReplace [OF i1, of p c x n _ cfg] assms s1 Some by simp
  qed
  then show ?thesis by (simp only: bindPeer_def Let_def assms(4) s1_def)
qed

lemma bindPeer_lengths [simp]:
  "length (rt_sess (bindPeer cfg c x k s)) = length (rt_sess s)" "length (rt_conns (bindPeer cfg c x k s)) = length (rt_conns s)"
  by (auto simp: bindPeer_def bindNew_def bindReplace_def newPeer_def Let_def split: option.splits)

text \<open>The outcomes of \<open>bindToSession\<close>: refused or stuck with the sessions as they were, or bound, with the payment
  added unless the server panics.\<close>

lemma bindToSession_cases:
  assumes "bindToSession cfg now c i pay k sz adm s = (res, t)" "loadSession k s = (p, s1)"
  defines "s2 \<equiv> updSess p (\<lambda>_. snd (isBanned now i (rt_sess s1 ! p))) s1"
  obtains e where "res = Inl e" "t = s2 \<or> t = s2\<lparr>rt_halted := Some HaltMutex\<rparr>"
  | x u where "res = Inr p" "ps_sess x = p" "ps_conn x = c" "ps_peerID x = i" "ps_payments x = []" "u = bindPeer cfg c x k s2"
      "t = u\<lparr>rt_halted := Some HaltPanic\<rparr> \<and> map_of (cn_sessions (rt_conns u ! c)) i = None \<or>
       (\<exists>ps. map_of (cn_sessions (rt_conns u ! c)) i = Some ps \<and> t = addPayment ps pay u)"
proof -
  let ?x = "\<lparr>ps_peerID = i, ps_sess = p, ps_size = uint sz, ps_conn = c, ps_isAdmin = adm, ps_payments = []\<rparr>"
  obtain b ss where bn: "isBanned now i (rt_sess s1 ! p) = (b, ss)" by (cases "isBanned now i (rt_sess s1 ! p)")
  then have s2: "s2 = updSess p (\<lambda>_. ss) s1" by (simp add: s2_def)
  have "bindToSession cfg now c i pay k sz adm s =
      (if b then (Inl ErrBanned, s2)
       else if (case findIndex (\<lambda>ps. ps_peerID (rt_peers s2 ! ps) = i) (ss_peers (rt_sess s2 ! p)) of
                  Some idx \<Rightarrow> ps_size (rt_peers s2 ! (ss_peers (rt_sess s2 ! p) ! idx)) \<noteq> uint sz | None \<Rightarrow> False)
       then (Inl ErrSizeChanged, s2\<lparr>rt_halted := Some HaltMutex\<rparr>)
       else (Inr p, case map_of (cn_sessions (rt_conns (bindPeer cfg c ?x k s2) ! c)) i of
               Some ps \<Rightarrow> addPayment ps pay (bindPeer cfg c ?x k s2)
             | None \<Rightarrow> (bindPeer cfg c ?x k s2)\<lparr>rt_halted := Some HaltPanic\<rparr>))"
    by (simp only: bindToSession_def assms(2) Let_def prod.case bn s2)
  then show ?thesis
    using assms(1) that(1) that(2) [of ?x "bindPeer cfg c ?x k s2"] by (auto split: if_splits option.splits)
qed

lemma rt_inv_bindToSession:
  assumes "rt_inv s" "c < length (rt_conns s)" "bindToSession cfg now c i pay k sz adm s = (res, t)"
  shows "rt_inv t \<and> (\<forall>p. res = Inr p \<longrightarrow> p < length (rt_sess t)) \<and> length (rt_conns t) = length (rt_conns s)"
proof -
  obtain p s1 where ld: "loadSession k s = (p, s1)" by (cases "loadSession k s")
  note l = rt_inv_loadSession [OF assms(1) ld]
  define s2 where "s2 = updSess p (\<lambda>_. snd (isBanned now i (rt_sess s1 ! p))) s1"
  have i2: "rt_inv s2" unfolding s2_def using l by (simp add: rt_inv_isBanned)
  have len: "length (rt_sess s2) = length (rt_sess s1)" "rt_conns s2 = rt_conns s" "sessIDs s2 = sessIDs s1"
    using l by (simp_all add: s2_def)
  show ?thesis
    using assms(3) ld
  proof (cases rule: bindToSession_cases)
    case (1 e)
    then show ?thesis using i2 len l by (auto simp: s2_def [symmetric] intro: rt_inv_skel)
  next
    case (2 x u)
    then have u: "u = bindPeer cfg c x k s2" by (simp add: s2_def)
    have "rt_inv u" unfolding u by (rule rt_inv_bindPeer [of _ p]) (use i2 l len assms(2) 2 in auto)
    moreover have "skel t = skel u" using 2 by auto
    ultimately show ?thesis
      using u len l 2(1) skel_eqD(1,3) [of t u] by (auto intro: rt_inv_skel)
  qed
qed

lemma length_rt_conns_sendCmd [simp]: "length (rt_conns (snd (sendCmd cfg env c t cmd s))) = length (rt_conns s)"
  by (simp add: sendCmd_def nextSendSeq_def listenerWrite_def Let_def)

lemma length_rt_sess_sendCmd [simp]: "length (rt_sess (snd (sendCmd cfg env c t cmd s))) = length (rt_sess s)"
  by (simp add: sendCmd_def nextSendSeq_def listenerWrite_def Let_def)

lemma rt_inv_sendCmd: "rt_inv s \<Longrightarrow> rt_inv (snd (sendCmd cfg env c t cmd s))"
  by (rule rt_inv_skel) simp_all

lemma rt_inv_joinBind:
  assumes "rt_inv s" "c < length (rt_conns s)" "joinBind cfg env now c i raw s = (res, t)"
  shows "rt_inv t \<and> (\<forall>p. res = Inr p \<longrightarrow> p < length (rt_sess t)) \<and> length (rt_conns t) = length (rt_conns s)"
proof -
  obtain r s1 where jr: "joinRequest cfg env now i raw s = (r, s1)" by (cases "joinRequest cfg env now i raw s")
  have "skel s1 = skel s" using skel_joinRequest [of cfg env now i raw s] by (simp add: jr)
  then have s1: "rt_inv s1" "c < length (rt_conns s1)" "length (rt_conns s1) = length (rt_conns s)"
    using assms by (auto intro: rt_inv_skel dest: skel_eqD(3))
  show ?thesis
  proof (cases r)
    case (Inl e)
    then have "t = addBanScore c s1" "res = Inl e" using assms(3) jr by (simp_all add: joinBind_def)
    then show ?thesis using s1 by (auto intro: rt_inv_skel simp: addBanScore_def)
  next
    case (Inr a)
    obtain k sz pay adm where "a = (k, sz, pay, adm)" by (metis prod_cases4)
    with Inr assms(3) jr have "bindToSession cfg now c i pay k sz adm s1 = (res, t)" by (simp add: joinBind_def)
    from rt_inv_bindToSession [OF s1(1,2) this] s1(3) show ?thesis by simp
  qed
qed

lemma rt_inv_handleJoin:
  assumes "rt_inv s" "c < length (rt_conns s)"
  shows "rt_inv (snd (handleJoin cfg env now c i raw s))"
proof -
  obtain res t where jb: "joinBind cfg env now c i raw s = (res, t)" by (cases "joinBind cfg env now c i raw s")
  from rt_inv_joinBind [OF assms jb] show ?thesis
    by (auto simp: handleJoin_def jb Let_def case_prod_unfold intro!: rt_inv_forceList rt_inv_sendCmd split: sum.splits)
qed

lemma rt_inv_handleKick:
  assumes "rt_inv s" "c < length (rt_conns s)"
  shows "rt_inv (snd (handleKick cfg env now c i payload s))"
proof -
  have "rt_inv (snd (sendCmd cfg env c i cmd (case res of Inl e \<Rightarrow> addBanScore c t | Inr d \<Rightarrow> snd (sendCmd cfg env d k cmd' t))))"
    if "kickFromSession cfg now c i k d s = (res, t)" for k d res t cmd cmd'
  proof -
    have "rt_inv t" using rt_inv_kickFromSession [OF assms, of cfg now i k d] that by simp
    then show ?thesis by (cases res) (auto intro!: rt_inv_sendCmd intro: rt_inv_skel)
  qed
  then show ?thesis
    using assms(1) by (auto simp: handleKick_def Let_def split: option.splits server_cmd.splits prod.splits)
qed

lemma rt_inv_connHandleInternalPkt:
  assumes "rt_inv s" "c < length (rt_conns s)"
  shows "rt_inv (snd (connHandleInternalPkt cfg env now c pkt s))"
proof -
  note rot = rt_inv_rotateSessionCookies [OF assms]
  have "rt_inv (snd (handlePing cfg env now c i p s))" "rt_inv (addBanScore c s)" for i p
    by (rule rt_inv_skel [OF assms(1)], simp)+
  then show ?thesis
    using assms rt_inv_removeFromSession [OF assms] rt_inv_handleJoin [OF assms] rt_inv_handleKick [OF assms]
    by (auto simp: connHandleInternalPkt_def Let_def case_prod_unfold intro: rt_inv_sendCmd rot split: option.splits)
qed

lemma rt_inv_forwardLoop:
  assumes "rt_inv s" "12 \<le> length b" "\<exists>j \<in> set (joined s). jn_conn j = c \<and> jn_peer j = getSource b \<and> jn_sess j = p"
    "\<forall>ps \<in> set pss. ps < length (rt_peers s) \<and> ps_sess (rt_peers s ! ps) = p"
  shows "rt_inv (forwardLoop cfg env c p b pss s)"
  using assms
proof (induction pss arbitrary: s)
  case (Cons ps pss)
  let ?wp = "rt_peers s ! ps"
  show ?case
  proof (cases "ps_conn ?wp = c")
    case True
    then show ?thesis using Cons by simp
  next
    case False
    obtain q s1 where n: "nextSendSeq (ps_conn ?wp) s = (q, s1)" by (cases "nextSendSeq (ps_conn ?wp) s")
    let ?out = "setSequence q (setTarget (ps_peerID ?wp) b)"
    obtain ok s2 where w: "listenerWrite cfg env (ps_conn ?wp) ?out s1 = (ok, s2)" by (cases "listenerWrite cfg env (ps_conn ?wp) ?out s1")
    have "skel s2 = skel s"
      using skel_nextSendSeq [of "ps_conn ?wp" s] skel_listenerWrite [of cfg env "ps_conn ?wp" ?out s1] by (simp add: n w)
    then have s2: "rt_inv s2" "joined s2 = joined s" "skel s2 = skel s" using Cons.prems(1) by (auto intro: rt_inv_skel dest: skel_eqD(7))
    let ?f = "\<lparr>fw_src = c, fw_srcID = getSource b, fw_dst = ps_conn ?wp, fw_dstID = ps_peerID ?wp, fw_sess = p, fw_in = b, fw_out = ?out\<rparr>"
    have "peer_ok s ps" using rt_invD(1) [OF Cons.prems(1)] Cons.prems(4) by simp
    then have "fwd_ok s2 ?f" using Cons.prems(2-4) False by (auto simp: fwd_ok_def peer_ok_def s2)
    then have "rt_inv (s2\<lparr>forwarded := forwarded s2 @ [?f]\<rparr>)" by (rule rt_inv_forwarded [OF s2(1)])
    moreover define s3 where "s3 = (if ok then s2\<lparr>forwarded := forwarded s2 @ [?f]\<rparr> else s2)"
    ultimately have "rt_inv s3" "joined s3 = joined s" using s2 by auto
    moreover have "\<forall>ps \<in> set pss. ps < length (rt_peers s3) \<and> ps_sess (rt_peers s3 ! ps) = p"
      using Cons.prems(4) skel_eqD(2) [OF s2(3)] skel_eqD(12) [OF s2(3)] by (simp add: s3_def)
    ultimately have "rt_inv (forwardLoop cfg env c p b pss s3)"
      using Cons.prems(2,3) by (intro Cons.IH) simp_all
    then show ?thesis using False by (simp add: n w Let_def s3_def)
  qed
qed simp

lemma rt_inv_forwardData:
  assumes "rt_inv s" "c < length (rt_conns s)" "12 \<le> length b"
  shows "rt_inv (forwardData cfg env c b s)"
proof (cases "map_of (cn_sessions (rt_conns s ! c)) (getSource b)")
  case None
  then show ?thesis by (auto simp: forwardData_def intro: rt_inv_skel [OF assms(1)])
next
  case (Some ps)
  obtain ok s1 where d: "deductAllowance ps (of_nat (length b)) s = (ok, s1)" by (cases "deductAllowance ps (of_nat (length b)) s")
  have sk: "skel s1 = skel s" using skel_deductAllowance [of ps "of_nat (length b)" s] by (simp add: d)
  define s2 where "s2 = s1\<lparr>relayed := relayed s1 + int (length b)\<rparr>"
  have inv: "rt_inv s2" "rt_inv (addBanScore c s2)" "rt_inv (addBanScore c s1)" unfolding s2_def
    using sk by (auto intro!: rt_inv_skel [OF assms(1)])
  have sk2: "skel s2 = skel s" using sk by (simp add: s2_def)
  have bd: "bound_ok s c (getSource b) ps" by (rule rt_invD(2) [OF assms(1,2) Some])
  let ?p = "ps_sess (rt_peers s2 ! ps)"
  have p: "?p = ps_sess (rt_peers s ! ps)" using skel_eqD(12) [OF sk2] bd by (simp add: bound_ok_def)
  then have "?p < length (rt_sess s2)"
    using rt_invD(1) [OF assms(1), of ps] bd skel_eqD(1) [OF sk2] by (simp add: bound_ok_def peer_ok_def)
  from rt_invD(3) [OF inv(1) this]
  have mem: "\<forall>q \<in> set (ss_peers (rt_sess s2 ! ?p)). q < length (rt_peers s2) \<and> ps_sess (rt_peers s2 ! q) = ?p"
    by (simp add: peers_ok_def)
  have j: "\<exists>j \<in> set (joined s2). jn_conn j = c \<and> jn_peer j = getSource b \<and> jn_sess j = ?p"
    using bd p skel_eqD(7) [OF sk2] by (simp add: bound_ok_def)
  have "rt_inv (forwardLoop cfg env c ?p b (ss_peers (rt_sess s2 ! ?p)) s2)"
    by (rule rt_inv_forwardLoop [OF inv(1) assms(3) j mem])
  moreover have "rt_inv (forwardLoop cfg env c ?p b (take n (ss_peers (rt_sess s2 ! ?p))) (addBanScore c s2))" for n
    by (rule rt_inv_forwardLoop [OF inv(2) assms(3)])
      (use j mem in \<open>simp_all add: addBanScore_def\<close>, blast dest: in_set_takeD)
  ultimately show ?thesis
    using Some d inv(3) by (cases ok) (auto simp: forwardData_def Let_def s2_def [symmetric])
qed

lemma rt_inv_handlePacket:
  assumes "rt_inv s" "c < length (rt_conns s)"
  shows "rt_inv (handlePacket cfg env now c b s)"
proof -
  obtain ok st where m: "MayAccept (getSequence b) (recvSeq (rt_conns s ! c)) = (ok, st)" by (cases "MayAccept (getSequence b) (recvSeq (rt_conns s ! c))")
  define s1 where "s1 = updConn c (\<lambda>cn. cn\<lparr>recvSeq := st\<rparr>) s"
  have s1: "rt_inv s1" "c < length (rt_conns s1)" using assms by (auto simp: s1_def intro: rt_inv_skel)
  have "rt_inv (case connHandleInternalPkt cfg env now c (toPacket b) s1 of (None, s) \<Rightarrow> s | (Some _, s) \<Rightarrow> addBanScore c s)"
    using rt_inv_connHandleInternalPkt [OF s1, of cfg env now "toPacket b"]
    by (auto intro: rt_inv_skel split: prod.splits option.splits)
  moreover have "rt_inv (addBanScore c s)" by (rule rt_inv_skel [OF assms(1)]) simp
  ultimately show ?thesis
    using rt_inv_forwardData [OF s1] s1(1) by (auto simp: handlePacket_def m Let_def s1_def [symmetric])
qed

lemma addConn_sel [simp]:
  "rt_sess (addConn cn s) = rt_sess s" "rt_peers (addConn cn s) = rt_peers s" "rt_pays (addConn cn s) = rt_pays s"
  "sessTable (addConn cn s) = sessTable s" "payTable (addConn cn s) = payTable s" "rotPayments (addConn cn s) = rotPayments s"
  "forceSessListChan (addConn cn s) = forceSessListChan s" "joined (addConn cn s) = joined s" "sessIDs (addConn cn s) = sessIDs s"
  "adminOps (addConn cn s) = adminOps s" "forwarded (addConn cn s) = forwarded s" "redeemed (addConn cn s) = redeemed s"
  "rotated (addConn cn s) = rotated s" "relayed (addConn cn s) = relayed s" "wrapped (addConn cn s) = wrapped s"
  "rt_now (addConn cn s) = rt_now s"
  by (simp_all add: addConn_def)

lemma rt_inv_addConn:
  assumes "rt_inv s" "cn_sessions cn = []"
  shows "rt_inv (addConn cn s)" (is "rt_inv ?t")
proof -
  have "peers_ok ?t = peers_ok s" "sess_ok ?t = sess_ok s" "bound_ok ?t = bound_ok s" "fwd_ok ?t = fwd_ok s"
    by (intro ext; simp add: addConn_def peers_ok_def sess_ok_def bound_ok_def fwd_ok_def)+
  moreover have "peer_ok s ps \<Longrightarrow> peer_ok ?t ps" for ps by (auto simp: peer_ok_def addConn_def)
  moreover have "\<forall>(i, ps) \<in> set (cn_sessions (rt_conns ?t ! c)). bound_ok s c i ps" if "c < length (rt_conns ?t)" for c
  proof (cases "c < length (rt_conns s)")
    case True
    then show ?thesis using assms(1) by (simp add: rt_inv_def links_ok_def addConn_def nth_append)
  next
    case False
    with that have "c = length (rt_conns s)" by (simp add: addConn_def)
    with assms(2) show ?thesis by (simp add: addConn_def)
  qed
  moreover have "\<forall>(a, c) \<in> set (connTable ?t). c < length (rt_conns ?t)"
    using assms(1) set_update_subset [of "cn_addr cn" "length (rt_conns s)" "connTable s"]
    by (fastforce simp: rt_inv_def links_ok_def addConn_def)
  ultimately show ?thesis
    using assms(1) unfolding rt_inv_def links_ok_def by simp
qed

lemma rt_inv_listenerReadConn:
  assumes "rt_inv s" "listenerReadConn cfg inb addr now s = (r, t)"
  shows "rt_inv t \<and> (\<forall>c ct. r = Some (c, ct) \<longrightarrow> c < length (rt_conns t))"
proof (cases "map_of (connTable s) addr")
  case (Some c)
  have "c < length (rt_conns s)" by (rule rt_invD(5) [OF assms(1) Some])
  with Some assms show ?thesis
    by (auto simp: listenerReadConn_def addBanScore_def intro!: rt_inv_skel [OF assms(1)] split: option.splits if_splits)
next
  case None
  have "rt_inv ((addConn (newConn addr now) s)\<lparr>connsCount := n\<rparr>)" for n
    by (rule rt_inv_skel [OF rt_inv_addConn [OF assms(1), of "newConn addr now"]]) (simp_all add: newConn_def)
  moreover have "length (rt_conns s) < length (rt_conns (addConn (newConn addr now) s))" by (simp add: addConn_def)
  ultimately show ?thesis
    using None assms by (auto simp: listenerReadConn_def intro: rt_inv_skel [OF assms(1)] split: if_splits)
qed

lemma rt_inv_readDatagram:
  assumes "rt_inv s"
  shows "rt_inv (readDatagram cfg env now addr inb s)"
proof -
  obtain r t where rc: "listenerReadConn cfg inb addr now s = (r, t)" by (cases "listenerReadConn cfg inb addr now s")
  note t = rt_inv_listenerReadConn [OF assms rc]
  let ?u = "\<lambda>c. updConn c (\<lambda>cn. cn\<lparr>lastRead := now\<rparr>) t"
  have u: "rt_inv (?u c)" "rt_inv (addBanScore c t)" for c using t by (auto intro: rt_inv_skel)
  have w: "rt_inv v \<and> rt_inv (v\<lparr>rt_halted := h\<rparr>)" if "listenerWrite cfg env c ct (?u c) = (ok, v)" for c ct ok v h
    using u(1) [of c] that by (auto simp: listenerWrite_def intro: rt_inv_skel split: if_splits)
  have "rt_inv (handlePacket cfg env now c b (?u c))" if "r = Some (c, ct)" for c ct b
    using that t u by (intro rt_inv_handlePacket) auto
  then show ?thesis
    using t u w by (auto simp: readDatagram_def listenerReadNext_def rc Let_def split: option.splits prod.splits bool.splits)
qed

lemma rt_inv_handshakeNext:
  assumes "rt_inv s"
  shows "rt_inv (handshakeNext cfg env s)"
proof (cases "\<exists>priv inb addr now rest. privKey cfg = Some priv \<and> unsessQueue s = (inb, addr, now) # rest")
  case True
  then obtain priv inb addr now rest where q: "privKey cfg = Some priv" "unsessQueue s = (inb, addr, now) # rest" by blast
  define s1 where "s1 = s\<lparr>unsessQueue := rest\<rparr>"
  define s2 where "s2 = (if map_of (connTable s1) addr \<noteq> None then s1
      else case sntrup_decapsulate (rt_crypto cfg) (take sntrup_CiphertextSize inb) priv of
             None \<Rightarrow> s1
           | Some sessKey \<Rightarrow> (addConn ((newConn addr now)\<lparr>sessionKey := sessKey, pending := Some (take sntrup_CiphertextSize inb)\<rparr>) s1)
               \<lparr>pendingCount := pendingCount s1 + 1\<rparr>)"
  have eq: "handshakeNext cfg env s =
      (case map_of (connTable s2) addr of
         None \<Rightarrow> s2
       | Some c \<Rightarrow>
           (case pending (rt_conns s2 ! c) of
              None \<Rightarrow> s2
            | Some ct \<Rightarrow>
                if ct \<noteq> inb then s2
                else (case listenerWrite cfg env c ct s2 of (True, s) \<Rightarrow> s | (False, s) \<Rightarrow> s\<lparr>rt_halted := Some HaltNetwork\<rparr>)))"
    by (simp only: handshakeNext_def q prod.case option.case list.case Let_def s1_def s2_def)
  have "rt_inv s1" unfolding s1_def by (rule rt_inv_skel [OF assms]) simp
  then have "rt_inv s2"
    by (auto simp: s2_def newConn_def intro!: rt_inv_addConn rt_inv_skel [OF rt_inv_addConn [OF \<open>rt_inv s1\<close>]] split: option.splits)
  moreover have "rt_inv v \<and> rt_inv (v\<lparr>rt_halted := h\<rparr>)" if "listenerWrite cfg env c ct s2 = (ok, v)" for c ct ok v h
    using \<open>rt_inv s2\<close> that by (auto simp: listenerWrite_def intro: rt_inv_skel split: if_splits)
  ultimately show ?thesis
    unfolding eq by (auto split: option.splits prod.splits bool.splits)
next
  case False
  then have "handshakeNext cfg env s = s" by (auto simp: handshakeNext_def split: option.splits list.splits)
  with assms show ?thesis by simp
qed

lemma removeFromAllSessions_conns [simp]: "rt_conns (removeFromAllSessions cfg c s) = rt_conns s"
proof -
  have "rt_conns (fold (\<lambda>(i, ps). removePeerSession cfg ps) xs s) = rt_conns s" for xs
    by (induction xs arbitrary: s) (auto simp: case_prod_unfold)
  then show ?thesis by (simp add: removeFromAllSessions_def)
qed

lemma rt_inv_removeConn:
  assumes "rt_inv s" "c < length (rt_conns s)"
  shows "rt_inv (removeConn cfg (a, c) s)"
  using rt_inv_dropConn [OF rt_inv_removeFromAllSessions [OF assms, of cfg], of a]
  by (auto simp: removeConn_def Let_def intro: rt_inv_skel)

lemma removeConn_conns [simp]: "rt_conns (removeConn cfg x s) = rt_conns s"
  by (cases x) (simp add: removeConn_def Let_def)

lemma rt_inv_removeConns:
  "rt_inv s \<Longrightarrow> \<forall>(a, c) \<in> set xs. c < length (rt_conns s) \<Longrightarrow> rt_inv (fold (removeConn cfg) xs s)"
  by (induction xs arbitrary: s) (auto simp: rt_inv_removeConn)

lemma rt_inv_timeoutTick: "rt_inv s \<Longrightarrow> rt_inv (timeoutTick cfg now s)"
  unfolding timeoutTick_def by (rule rt_inv_removeConns) (auto simp: rt_inv_def links_ok_def)

lemma rt_inv_forceListing: "rt_inv s \<Longrightarrow> rt_inv (forceListing cfg env now s)"
  by (auto simp: forceListing_def Let_def intro: rt_inv_skel [OF rt_inv_forceTake] rt_inv_forceTake split: list.splits)

lemma rt_inv_step: "rt_inv s \<Longrightarrow> rt_inv (rtStep cfg env now ev s)"
proof -
  assume inv: "rt_inv s"
  have "rt_inv (s\<lparr>rt_now := now\<rparr>)" by (rule rt_inv_skel [OF inv]) simp
  then have "rt_inv (rtHandle cfg env now ev (s\<lparr>rt_now := now\<rparr>))"
    by (cases ev) (auto simp: rt_inv_readDatagram rt_inv_handshakeNext rt_inv_forceListing rt_inv_timeoutTick intro: rt_inv_skel)
  with inv show ?thesis by (simp add: rtStep_def)
qed

lemma rt_inv_reachable: "rt_reachable cfg s \<Longrightarrow> rt_inv s"
proof (induction rule: rt_reachable.induct)
  case (rt_start now)
  show ?case by (simp add: rt_inv_def links_ok_def rt_newServer_def)
qed (rule rt_inv_step)
end
