(* ===== verification/Rtdt_Correct.thy ===== *)
theory Rtdt_Correct
  imports Rtdt_Server
begin

text \<open>
  The payments of the datagram server: what a deduction takes from the allowances, that a cookie is redeemed at most once, and that no more
  is relayed than the redeemed cookies allow. The invariants of sessions (\<open>rt_inv\<close>), payments (\<open>pay_inv\<close>) and of the payments that
  peers hold (\<open>held_ok\<close>) hold in every reachable state (\<open>rt_all_reachable\<close>). Operations that leave the payments alone are
  covered by one view of the state, \<open>payv\<close>.
\<close>

section \<open>Payments and rotations\<close>

text \<open>The part of the state that holds the payments, and the operations that leave it alone.\<close>

definition payv where
  "payv s = (rt_pays s, payTable s, rotPayments s, redeemed s, rotated s, relayed s, wrapped s, rt_now s)"

lemma payv_upd [simp]:
  "payv (updConn c f s) = payv s" "payv (updSess p g s) = payv s" "payv (updPeer i h s) = payv s"
  by (simp_all add: payv_def updPeer_def)

lemma payv_fields [simp]:
  "payv (s\<lparr>rt_conns := a\<rparr>) = payv s" "payv (s\<lparr>rt_sess := b\<rparr>) = payv s" "payv (s\<lparr>rt_peers := c\<rparr>) = payv s"
  "payv (s\<lparr>connTable := d\<rparr>) = payv s" "payv (s\<lparr>sessTable := e\<rparr>) = payv s" "payv (s\<lparr>forceSessListChan := f\<rparr>) = payv s"
  "payv (s\<lparr>unsessQueue := g\<rparr>) = payv s" "payv (s\<lparr>connsCount := h\<rparr>) = payv s" "payv (s\<lparr>pendingCount := h\<rparr>) = payv s"
  "payv (s\<lparr>rt_halted := i\<rparr>) = payv s" "payv (s\<lparr>rt_out := k\<rparr>) = payv s" "payv (s\<lparr>joined := l\<rparr>) = payv s"
  "payv (s\<lparr>sessIDs := m\<rparr>) = payv s" "payv (s\<lparr>adminOps := n\<rparr>) = payv s" "payv (s\<lparr>forwarded := q\<rparr>) = payv s"
  by (simp_all add: payv_def)

lemma payv_simple [simp]:
  "payv (addBanScore c s) = payv s" "payv (addPayment ps p s) = payv s" "payv (snd (snd (RemovePeer cfg q i s))) = payv s"
  "payv (snd (loadSession k s)) = payv s" "payv (snd (newPeer x s)) = payv s" "payv (BanTarget now q i d s) = payv s"
  "payv (snd (nextSendSeq c s)) = payv s" "payv (snd (listenerWrite cfg env c msg s)) = payv s" "payv (addConn cn s) = payv s"
  by (simp_all add: addBanScore_def addPayment_def RemovePeer_eq loadSession_def newPeer_def BanTarget_def nextSendSeq_def
      listenerWrite_def addConn_def Let_def split: option.splits)

lemma payv_sendCmd [simp]: "payv (snd (sendCmd cfg env c t cmd s)) = payv s"
  by (simp add: sendCmd_def Let_def case_prod_unfold)

lemma payv_bindNew [simp]: "payv (bindNew cfg c x s) = payv s"
  by (simp add: bindNew_def Let_def newPeer_def split: option.splits)

lemma payv_bindReplace [simp]: "payv (bindReplace c x idx ps s) = payv s"
  by (simp add: bindReplace_def Let_def newPeer_def)

lemma payv_bindPeer [simp]: "payv (bindPeer cfg c x k s) = payv s"
  by (simp add: bindPeer_def Let_def split: option.splits)

lemma payv_bindToSession [simp]: "payv (snd (bindToSession cfg now c i pay k sz adm s)) = payv s"
  by (simp add: bindToSession_def Let_def case_prod_unfold split: option.splits)

lemma payv_removePeerSession [simp]: "payv (removePeerSession cfg ps s) = payv s"
  by (simp add: removePeerSession_def Let_def case_prod_unfold)

lemma payv_removeFromSession [simp]: "payv (snd (removeFromSession cfg c i s)) = payv s"
  by (simp add: removeFromSession_def split: option.splits)

lemma payv_fold: "(\<And>x s. payv (f x s) = payv s) \<Longrightarrow> payv (fold f xs s) = payv s"
  by (induction xs arbitrary: s) simp_all

lemma payv_ticks [simp]:
  "payv (sendSessionListing cfg env now p s) = payv s" "payv (forceListing cfg env now s) = payv s" "payv (listTick cfg env now s) = payv s"
  "payv (removeFromAllSessions cfg c s) = payv s" "payv (removeConn cfg x s) = payv s" "payv (timeoutTick cfg now s) = payv s"
proof -
  show l: "payv (sendSessionListing cfg env now p s) = payv s" for p s
    by (simp add: sendSessionListing_def Let_def payv_fold)
  show "payv (forceListing cfg env now s) = payv s" "payv (listTick cfg env now s) = payv s"
    by (simp_all add: forceListing_def listTick_def Let_def payv_fold l split: list.splits)
  show r: "payv (removeFromAllSessions cfg c s) = payv s" for c s
    by (simp add: removeFromAllSessions_def payv_fold case_prod_unfold)
  show c: "payv (removeConn cfg x s) = payv s" for x s
    by (simp add: removeConn_def Let_def r case_prod_unfold)
  show "payv (timeoutTick cfg now s) = payv s"
    by (simp add: timeoutTick_def payv_fold c)
qed

lemma payv_kickFromSession [simp]: "payv (snd (kickFromSession cfg now c i k d s)) = payv s"
  by (simp add: kickFromSession_def Let_def case_prod_unfold split: option.splits)

lemma payv_handleKick [simp]: "payv (snd (handleKick cfg env now c i payload s)) = payv s"
  by (simp add: handleKick_def Let_def case_prod_unfold split: option.splits server_cmd.splits sum.splits)

lemma payv_handlePing [simp]: "payv (snd (handlePing cfg env now c i payload s)) = payv s"
  by (simp add: handlePing_def Let_def split: option.splits)

lemma payv_forwardLoop [simp]: "payv (forwardLoop cfg env c p b pss s) = payv s"
  by (induction pss arbitrary: s) (simp_all add: Let_def case_prod_unfold)

lemma payv_listenerReadNext [simp]: "payv (snd (listenerReadNext cfg env inb addr now s)) = payv s"
  by (simp add: listenerReadNext_def listenerReadConn_def Let_def case_prod_unfold split: option.splits bool.splits)

lemma payv_handshakeNext [simp]: "payv (handshakeNext cfg env s) = payv s"
  by (simp add: handshakeNext_def Let_def case_prod_unfold split: option.splits list.splits bool.splits prod.splits)


text \<open>What can still be sent: the sum of the positive allowances.\<close>

definition unspent :: "payment list \<Rightarrow> int" where
  "unspent pays = (\<Sum>p \<leftarrow> pays. max 0 (sint (bytesAllowance p)))"

lemma unspent_update:
  "i < length pays \<Longrightarrow> unspent (pays[i := q]) = unspent pays - max 0 (sint (bytesAllowance (pays ! i))) + max 0 (sint (bytesAllowance q))"
proof (induction pays arbitrary: i)
  case (Cons p pays)
  then show ?case by (cases i) (simp_all add: unspent_def)
qed simp

lemma unspent_append [simp]: "unspent (xs @ ys) = unspent xs + unspent ys"
  by (simp add: unspent_def)

text \<open>A deduction that succeeds uses up at least what was asked for, whatever debts the payments carry, unless the
  arithmetic wraps around.\<close>

lemma deductLoop_spends:
  assumes "deductLoop n is pays = (res, kept, pays', w)" "0 < sint n" "\<forall>i \<in> set is. i < length pays" "\<not> w"
  shows "unspent pays' + (if res then sint n else 0) \<le> unspent pays"
  using assms
proof (induction n "is" pays arbitrary: res kept pays' w rule: deductLoop.induct)
  case (2 n i "is" pays)
  let ?a = "bytesAllowance (pays ! i)"
  let ?new = "?a - n"
  let ?pays = "pays[i := (pays ! i)\<lparr>bytesAllowance := ?new\<rparr>]"
  have i: "i < length pays" using "2.prems"(3) by simp
  show ?case
  proof (cases "sint ?new < 0")
    case True
    obtain res1 kept1 pays1 w1 where rec: "deductLoop (- ?new) is ?pays = (res1, kept1, pays1, w1)"
      by (metis prod_cases4)
    with "2.prems"(1,2) True have eqs: "res = res1" "pays' = pays1"
        "w \<longleftrightarrow> w1 \<or> sint ?a - sint n \<noteq> sint ?new \<or> sint (- ?new) \<noteq> - sint ?new"
      by (auto simp: Let_def)
    then have num: "sint ?new = sint ?a - sint n" "sint (- ?new) = sint n - sint ?a" "\<not> w1"
      using "2.prems"(4) by auto
    have "unspent pays1 + (if res1 then sint (- ?new) else 0) \<le> unspent ?pays"
      using "2.IH" [OF _ refl refl refl True rec] "2.prems"(2,3) num True by auto
    moreover have "unspent ?pays = unspent pays - max 0 (sint ?a)"
      using i True by (simp add: unspent_update)
    ultimately show ?thesis using eqs(1,2) num(2) by (auto split: if_splits)
  next
    case False
    with "2.prems" have "res" "pays' = ?pays" "sint ?new = sint ?a - sint n"
      by (auto simp: Let_def)
    then show ?thesis using i False "2.prems"(2) by (simp add: unspent_update)
  qed
qed simp

lemma update_allowance_keeps:
  "pay_tag (pays[i := (pays ! i)\<lparr>bytesAllowance := v\<rparr>] ! j) = pay_tag (pays ! j) \<and>
   pay_endTime (pays[i := (pays ! i)\<lparr>bytesAllowance := v\<rparr>] ! j) = pay_endTime (pays ! j)"
proof (cases "i < length pays")
  case True
  then show ?thesis by (simp add: nth_list_update)
next
  case False
  then show ?thesis by (simp add: list_update_beyond)
qed

lemma deductLoop_keeps:
  "deductLoop n is pays = (res, kept, pays', w) \<Longrightarrow>
   length pays' = length pays \<and> (\<forall>j. pay_tag (pays' ! j) = pay_tag (pays ! j) \<and> pay_endTime (pays' ! j) = pay_endTime (pays ! j))"
proof (induction n "is" pays arbitrary: res kept pays' w rule: deductLoop.induct)
  case (2 n i "is" pays)
  note upd = update_allowance_keeps
  let ?new = "bytesAllowance (pays ! i) - n"
  let ?pays = "pays[i := (pays ! i)\<lparr>bytesAllowance := ?new\<rparr>]"
  obtain res1 kept1 pays1 w1 where rec: "deductLoop (- ?new) is ?pays = (res1, kept1, pays1, w1)"
    by (metis prod_cases4)
  have "pays' = pays \<or> pays' = ?pays \<or> pays' = pays1 \<and> 0 < sint n \<and> sint ?new < 0"
    using "2.prems" rec by (auto simp: Let_def split: if_splits)
  moreover have "length pays1 = length pays \<and>
      (\<forall>j. pay_tag (pays1 ! j) = pay_tag (pays ! j) \<and> pay_endTime (pays1 ! j) = pay_endTime (pays ! j))"
    if "0 < sint n" "sint ?new < 0"
    using "2.IH" [OF _ refl refl refl that(2) rec] that(1) by (simp add: upd)
  ultimately show ?case by (auto simp: upd)
qed simp

lemma deductLoop_kept: "deductLoop n is pays = (res, kept, pays', w) \<Longrightarrow> set kept \<subseteq> set is"
proof (induction n "is" pays arbitrary: res kept pays' w rule: deductLoop.induct)
  case (2 n i "is" pays)
  let ?new = "bytesAllowance (pays ! i) - n"
  let ?pays = "pays[i := (pays ! i)\<lparr>bytesAllowance := ?new\<rparr>]"
  obtain res1 kept1 pays1 w1 where rec: "deductLoop (- ?new) is ?pays = (res1, kept1, pays1, w1)"
    by (metis prod_cases4)
  have "kept = i # is \<or> kept = kept1 \<and> 0 < sint n \<and> sint ?new < 0"
    using "2.prems" rec by (auto simp: Let_def split: if_splits)
  moreover have "set kept1 \<subseteq> set is" if "0 < sint n" "sint ?new < 0"
    using "2.IH" [OF _ refl refl refl that(2) rec] that(1) by simp
  ultimately show ?case by auto
qed simp

text \<open>The invariant of the payments: an entry leaves the table of redeemed payments only when its cookie has
  expired, so that no cookie is redeemed twice; and what was relayed is covered by what was redeemed.\<close>

definition cookie_gone :: "rt_state \<Rightarrow> u64 \<Rightarrow> bool" where
  "cookie_gone s e \<longleftrightarrow> from_unix (sint e) < rt_now s"

definition redeemed_ok :: "rt_state \<Rightarrow> bool" where
  "redeemed_ok s \<longleftrightarrow>
     (\<forall>(t, e, a) \<in> set (redeemed s). cookie_gone s e \<or>
        (\<exists>p. map_of (payTable s) t = Some p \<and> pay_endTime (rt_pays s ! p) = from_unix (sint e)))"

definition rotated_ok :: "rt_cfg \<Rightarrow> rt_state \<Rightarrow> bool" where
  "rotated_ok cfg s \<longleftrightarrow>
     (\<forall>(t, ts) \<in> set (rotated s). from_unix (sint ts) + rotateCookieLifetime cfg < rt_now s \<or>
        map_of (rotPayments s) t = Some (from_unix (sint ts) + rotateCookieLifetime cfg))"

definition pay_inv :: "rt_cfg \<Rightarrow> rt_state \<Rightarrow> bool" where
  "pay_inv cfg s \<longleftrightarrow>
     wf_map (payTable s) \<and> wf_map (rotPayments s) \<and> (\<forall>(t, p) \<in> set (payTable s). p < length (rt_pays s)) \<and>
     distinct (map (\<lambda>(t, e, a). (t, e)) (redeemed s)) \<and> redeemed_ok s \<and> distinct (rotated s) \<and> rotated_ok cfg s \<and>
     (\<not> wrapped s \<longrightarrow> relayed s + unspent (rt_pays s) \<le> (\<Sum>(t, e, a) \<leftarrow> redeemed s. max 0 (sint a)))"

lemma pay_inv_frame: "pay_inv cfg s \<Longrightarrow> payv t = payv s \<Longrightarrow> pay_inv cfg t"
  by (simp add: pay_inv_def payv_def redeemed_ok_def rotated_ok_def cookie_gone_def)

lemma pay_inv_now:
  assumes "pay_inv cfg s" "rt_now s \<le> now"
  shows "pay_inv cfg (s\<lparr>rt_now := now\<rparr>)"
proof -
  have "redeemed_ok s \<Longrightarrow> redeemed_ok (s\<lparr>rt_now := now\<rparr>)" "rotated_ok cfg s \<Longrightarrow> rotated_ok cfg (s\<lparr>rt_now := now\<rparr>)"
    using assms(2) by (fastforce simp: redeemed_ok_def rotated_ok_def cookie_gone_def)+
  with assms(1) show ?thesis by (simp add: pay_inv_def)
qed

lemma map_of_filter_wf:
  "wf_map m \<Longrightarrow> map_of (filter P m) k = (case map_of m k of None \<Rightarrow> None | Some v \<Rightarrow> if P (k, v) then Some v else None)"
proof (induction m)
  case (Cons x m)
  obtain a b where x: "x = (a, b)" by (cases x)
  have "map_of m a = None" using Cons.prems x by (simp add: wf_map_def map_of_eq_None_iff)
  with Cons x show ?case by (auto simp: wf_map_def split: option.splits)
qed simp

lemma wf_map_filter [simp]: "wf_map m \<Longrightarrow> wf_map (filter P m)"
  by (simp add: wf_map_def distinct_map_filter)

lemma pay_inv_dropStalePayments:
  assumes "pay_inv cfg s" "rt_now s = now"
  shows "pay_inv cfg (dropStalePayments now s)"
proof -
  let ?t = "dropStalePayments now s"
  have wf: "wf_map (payTable s)" "wf_map (rotPayments s)" using assms(1) by (auto simp: pay_inv_def)
  have "redeemed_ok ?t" if ok: "redeemed_ok s"
    unfolding redeemed_ok_def
  proof clarify
    fix t e a assume "(t, e, a) \<in> set (redeemed ?t)"
      and none: "\<nexists>p. map_of (payTable ?t) t = Some p \<and> pay_endTime (rt_pays ?t ! p) = from_unix (sint e)"
    show "cookie_gone ?t e"
    proof (rule ccontr)
      assume "\<not> cookie_gone ?t e"
      with \<open>(t, e, a) \<in> set (redeemed ?t)\<close> ok assms(2) obtain p where
          "map_of (payTable s) t = Some p" "pay_endTime (rt_pays s ! p) = from_unix (sint e)" "\<not> from_unix (sint e) < now"
        by (fastforce simp: redeemed_ok_def dropStalePayments_def cookie_gone_def)
      with none wf show False by (simp add: dropStalePayments_def map_of_filter_wf)
    qed
  qed
  moreover have "rotated_ok cfg ?t" if ok: "rotated_ok cfg s"
    unfolding rotated_ok_def
  proof clarify
    fix t ts assume "(t, ts) \<in> set (rotated ?t)"
      "map_of (rotPayments ?t) t \<noteq> Some (from_unix (sint ts) + rotateCookieLifetime cfg)"
    moreover from this(1) ok have "from_unix (sint ts) + rotateCookieLifetime cfg < rt_now s \<or>
        map_of (rotPayments s) t = Some (from_unix (sint ts) + rotateCookieLifetime cfg)"
      by (auto simp: rotated_ok_def dropStalePayments_def)
    ultimately show "from_unix (sint ts) + rotateCookieLifetime cfg < rt_now ?t"
      using wf assms(2) by (auto simp: dropStalePayments_def map_of_filter_wf split: if_splits)
  qed
  ultimately show ?thesis
    using assms(1) by (auto simp: pay_inv_def dropStalePayments_def)
qed


lemma pay_inv_validateJoinCookie:
  assumes "pay_inv cfg s" "rt_now s = now" "validateJoinCookie cfg key now i raw s = (res, t)"
  shows "pay_inv cfg t"
proof (cases "t = s")
  case False
  then obtain jc :: join_cookie where t: "map_of (payTable s) (jc_PaymentTag jc) = None" "\<not> from_unix (sint (jc_EndTimestamp jc)) < now"
      "t = s\<lparr>rt_pays := rt_pays s @ [\<lparr>bytesAllowance = jc_PublishAllowance jc, pay_tag = jc_PaymentTag jc,
               pay_endTime = from_unix (sint (jc_EndTimestamp jc))\<rparr>],
             payTable := AList.update (jc_PaymentTag jc) (length (rt_pays s)) (payTable s),
             redeemed := redeemed s @ [(jc_PaymentTag jc, jc_EndTimestamp jc, jc_PublishAllowance jc)]\<rparr>"
  proof (cases "jc_Decrypt (rt_crypto cfg) raw key (decodeCookieKeys cfg)")
    case (Inr jc)
    with assms(3) False that [of jc] show ?thesis
      by (simp add: validateJoinCookie_def Let_def split: if_splits option.splits)
  qed (use assms(3) False in \<open>simp add: validateJoinCookie_def\<close>)
  have ok: "redeemed_ok s" "\<forall>(u, p) \<in> set (payTable s). p < length (rt_pays s)" "wf_map (payTable s)"
    using assms(1) by (auto simp: pay_inv_def)
  have new: "(jc_PaymentTag jc, jc_EndTimestamp jc, a) \<notin> set (redeemed s)" for a
    using ok(1) t(1,2) assms(2) by (fastforce simp: redeemed_ok_def cookie_gone_def)
  have "redeemed_ok t"
    unfolding redeemed_ok_def
  proof clarify
    fix u e a assume "(u, e, a) \<in> set (redeemed t)"
      and none: "\<nexists>p. map_of (payTable t) u = Some p \<and> pay_endTime (rt_pays t ! p) = from_unix (sint e)"
    with t(3) have in_s: "(u, e, a) \<in> set (redeemed s)" by auto
    show "cookie_gone t e"
    proof (rule ccontr)
      assume "\<not> cookie_gone t e"
      with in_s ok(1) t(3) obtain p where p: "map_of (payTable s) u = Some p" "pay_endTime (rt_pays s ! p) = from_unix (sint e)"
        by (fastforce simp: redeemed_ok_def cookie_gone_def)
      moreover have "p < length (rt_pays s)" using ok(2) map_of_SomeD [OF p(1)] by auto
      moreover have "u \<noteq> jc_PaymentTag jc" using p(1) t(1) by auto
      ultimately show False using none by (simp add: t(3) nth_append)
    qed
  qed
  moreover have "\<forall>(u, p) \<in> set (payTable t). p < length (rt_pays t)"
    using ok(2) set_update_subset [of "jc_PaymentTag jc" "length (rt_pays s)" "payTable s"] by (fastforce simp: t(3))
  moreover have "distinct (map (\<lambda>(t, e, a). (t, e)) (redeemed t))"
    using assms(1) new by (auto simp: pay_inv_def t(3))
  moreover have "rotated_ok cfg t = rotated_ok cfg s" by (simp add: rotated_ok_def t(3))
  ultimately show ?thesis
    using assms(1) unfolding pay_inv_def by (simp add: t(3)) (simp add: unspent_def)
qed (use assms in simp)

lemma pay_inv_joinBind:
  assumes "pay_inv cfg s" "rt_now s = now" "cookieKey cfg = Some key"
  shows "pay_inv cfg (snd (joinBind cfg env now c i raw s))"
proof -
  obtain r t where v: "validateJoinCookie cfg key now i raw s = (r, t)" by (cases "validateJoinCookie cfg key now i raw s")
  have "pay_inv cfg t" by (rule pay_inv_validateJoinCookie [OF assms(1,2) v])
  moreover have "payv (snd (joinBind cfg env now c i raw s)) = payv t"
    using v assms(3) by (auto simp: joinBind_def joinRequest_def split: sum.splits prod.splits)
  ultimately show ?thesis by (rule pay_inv_frame)
qed

lemma pay_inv_handleJoin:
  assumes "pay_inv cfg s" "rt_now s = now" "cookieKey cfg = Some key"
  shows "pay_inv cfg (snd (handleJoin cfg env now c i raw s))"
proof -
  have "payv (snd (handleJoin cfg env now c i raw s)) = payv (snd (joinBind cfg env now c i raw s))"
    by (simp add: handleJoin_def Let_def case_prod_unfold split: sum.splits)
  with pay_inv_joinBind [OF assms] show ?thesis by (rule pay_inv_frame)
qed

lemma rotated_okD:
  "rotated_ok cfg s \<Longrightarrow> (t, ts) \<in> set (rotated s) \<Longrightarrow>
   from_unix (sint ts) + rotateCookieLifetime cfg < rt_now s \<or> map_of (rotPayments s) t = Some (from_unix (sint ts) + rotateCookieLifetime cfg)"
  by (auto simp: rotated_ok_def)

lemma pay_inv_rotateSessionCookies:
  assumes "pay_inv cfg s" "rt_now s = now" "rotateCookieLifetime cfg < 2 ^ 63 - 1"
  shows "pay_inv cfg (snd (rotateSessionCookies cfg now c i raw s))"
proof (cases "payv (snd (rotateSessionCookies cfg now c i raw s)) = payv s")
  case True
  with assms(1) show ?thesis by (rule pay_inv_frame)
next
  case False
  let ?t = "snd (rotateSessionCookies cfg now c i raw s)"
  from False obtain rc :: rotate_cookie where r: "\<not> rotateCookieLifetime cfg < time_sub now (from_unix (sint (rc_Timestamp rc)))"
      "map_of (rotPayments s) (rc_PaymentTag rc) = None"
      "payv ?t = payv (s\<lparr>rotPayments := AList.update (rc_PaymentTag rc) (from_unix (sint (rc_Timestamp rc)) + rotateCookieLifetime cfg) (rotPayments s),
         rotated := rotated s @ [(rc_PaymentTag rc, rc_Timestamp rc)]\<rparr>)" (is "_ = payv ?u")
    by (auto simp: rotateSessionCookies_def Let_def split: option.splits sum.splits if_splits)
  have fresh: "\<not> from_unix (sint (rc_Timestamp rc)) + rotateCookieLifetime cfg < now"
    using r(1) assms(3) by (simp add: time_sub_def)
  have ok: "rotated_ok cfg s" using assms(1) by (simp add: pay_inv_def)
  have "(rc_PaymentTag rc, rc_Timestamp rc) \<notin> set (rotated s)"
    using ok r(2) fresh assms(2) by (fastforce simp: rotated_ok_def)
  moreover have "rotated_ok cfg ?u"
    unfolding rotated_ok_def using r(2) by (auto dest!: rotated_okD [OF ok] split: if_splits)
  moreover have "redeemed_ok ?u = redeemed_ok s" by (simp add: redeemed_ok_def cookie_gone_def)
  ultimately have "pay_inv cfg ?u" using assms(1) by (simp add: pay_inv_def)
  then show ?thesis using r(3) by (rule pay_inv_frame)
qed

lemma pay_inv_connHandleInternalPkt:
  assumes "pay_inv cfg s" "rt_now s = now" "cookieKey cfg = Some key" "rotateCookieLifetime cfg < 2 ^ 63 - 1"
  shows "pay_inv cfg (snd (connHandleInternalPkt cfg env now c pkt s))"
proof -
  let ?t = "snd (connHandleInternalPkt cfg env now c pkt s)" and ?i = "fp_Source pkt" and ?d = "snd (ServerCmd pkt)"
  have "payv ?t = payv s \<or> payv ?t = payv (snd (handleJoin cfg env now c ?i ?d s)) \<or>
      payv ?t = payv (snd (rotateSessionCookies cfg now c ?i ?d s))"
    by (simp add: connHandleInternalPkt_def Let_def case_prod_unfold split: option.splits)
  with pay_inv_frame [OF assms(1)] pay_inv_frame [OF pay_inv_handleJoin [OF assms(1-3)]]
    pay_inv_frame [OF pay_inv_rotateSessionCookies [OF assms(1,2,4)]]
  show ?thesis by blast
qed

text \<open>A peer holds only payments that exist.\<close>

definition held_ok :: "rt_state \<Rightarrow> bool" where
  "held_ok s \<longleftrightarrow> (\<forall>x \<in> set (rt_peers s). \<forall>i \<in> set (ps_payments x). i < length (rt_pays s))"

lemma payv_pays: "payv t = payv s \<Longrightarrow> rt_pays t = rt_pays s"
  by (simp add: payv_def)

lemma held_frame: "held_ok s \<Longrightarrow> rt_peers t = rt_peers s \<Longrightarrow> payv t = payv s \<Longrightarrow> held_ok t"
  unfolding held_ok_def by (drule payv_pays) simp

lemma peers_simple [simp]:
  "rt_peers (addBanScore c s) = rt_peers s" "rt_peers (snd (loadSession k s)) = rt_peers s"
  "rt_peers (BanTarget now q i d s) = rt_peers s" "rt_peers (snd (nextSendSeq c s)) = rt_peers s"
  "rt_peers (snd (listenerWrite cfg env c msg s)) = rt_peers s"
  by (simp_all add: addBanScore_def loadSession_def BanTarget_def nextSendSeq_def listenerWrite_def Let_def split: option.splits)

lemma peers_sendCmd [simp]: "rt_peers (snd (sendCmd cfg env c t cmd s)) = rt_peers s"
  by (simp add: sendCmd_def Let_def case_prod_unfold)

lemma peers_removeFromSession [simp]: "rt_peers (snd (removeFromSession cfg c i s)) = rt_peers s"
  by (simp add: removeFromSession_def split: option.splits)

lemma peers_fold: "(\<And>x s. rt_peers (f x s) = rt_peers s) \<Longrightarrow> rt_peers (fold f xs s) = rt_peers s"
  by (induction xs arbitrary: s) simp_all

lemma peers_ticks [simp]:
  "rt_peers (forceListing cfg env now s) = rt_peers s" "rt_peers (listTick cfg env now s) = rt_peers s"
  "rt_peers (timeoutTick cfg now s) = rt_peers s" "rt_peers (dropStalePayments now s) = rt_peers s"
proof -
  have l: "rt_peers (sendSessionListing cfg env now p s) = rt_peers s" for p s
    by (simp add: sendSessionListing_def Let_def peers_fold)
  show "rt_peers (forceListing cfg env now s) = rt_peers s" "rt_peers (listTick cfg env now s) = rt_peers s"
    by (simp_all add: forceListing_def listTick_def Let_def peers_fold l split: list.splits)
  have r: "rt_peers (removeFromAllSessions cfg c s) = rt_peers s" for c s
    by (simp add: removeFromAllSessions_def peers_fold case_prod_unfold)
  have "rt_peers (removeConn cfg x s) = rt_peers s" for x s
    by (simp add: removeConn_def Let_def r case_prod_unfold)
  then show "rt_peers (timeoutTick cfg now s) = rt_peers s"
    by (simp add: timeoutTick_def peers_fold)
qed (simp add: dropStalePayments_def)

lemma peers_handlers [simp]:
  "rt_peers (snd (handleKick cfg env now c i payload s)) = rt_peers s" "rt_peers (snd (handlePing cfg env now c i payload s)) = rt_peers s"
  "rt_peers (snd (rotateSessionCookies cfg now c i raw s)) = rt_peers s" "rt_peers (snd (listenerReadNext cfg env inb addr now s)) = rt_peers s"
  "rt_peers (handshakeNext cfg env s) = rt_peers s"
proof -
  have "rt_peers (snd (kickFromSession cfg now c i k d s)) = rt_peers s" for k d
    by (simp add: kickFromSession_def Let_def case_prod_unfold split: option.splits)
  then show "rt_peers (snd (handleKick cfg env now c i payload s)) = rt_peers s"
    by (simp add: handleKick_def Let_def case_prod_unfold split: option.splits server_cmd.splits sum.splits)
qed (simp_all add: handlePing_def rotateSessionCookies_def listenerReadNext_def listenerReadConn_def handshakeNext_def Let_def
    case_prod_unfold split: option.splits bool.splits sum.splits list.splits prod.splits)

lemma held_upd:
  assumes "held_ok s" "\<forall>i \<in> set (ps_payments (f (rt_peers s ! ps))). i < length (rt_pays s)"
  shows "held_ok (updPeer ps f s)"
  using assms set_update_subset_insert [of "rt_peers s" ps "f (rt_peers s ! ps)"] by (auto simp: held_ok_def updPeer_def)

lemma held_old: "held_ok s \<Longrightarrow> ps < length (rt_peers s) \<Longrightarrow> i \<in> set (ps_payments (rt_peers s ! ps)) \<Longrightarrow> i < length (rt_pays s)"
  by (auto simp: held_ok_def)

lemma held_addPayment:
  "held_ok s \<Longrightarrow> p < length (rt_pays s) \<Longrightarrow> ps < length (rt_peers s) \<Longrightarrow> held_ok (addPayment ps p s)"
  by (auto simp: addPayment_def intro!: held_upd dest: held_old)

lemma held_newPeer: "held_ok s \<Longrightarrow> ps_payments x = [] \<Longrightarrow> held_ok (s\<lparr>rt_peers := rt_peers s @ [x]\<rparr>)"
  by (auto simp: held_ok_def)

lemma bindPeer_peers: "rt_peers (bindPeer cfg c x k s) = rt_peers s \<or> rt_peers (bindPeer cfg c x k s) = rt_peers s @ [x]"
  by (auto simp: bindPeer_def bindNew_def bindReplace_def newPeer_def Let_def split: option.splits)

lemma held_bindToSession:
  assumes "held_ok s" "rt_inv s" "c < length (rt_conns s)" "pay < length (rt_pays s)"
  shows "held_ok (snd (bindToSession cfg now c i pay k sz adm s))"
proof -
  obtain res t where bt: "bindToSession cfg now c i pay k sz adm s = (res, t)" by (cases "bindToSession cfg now c i pay k sz adm s")
  obtain p s1 where ld: "loadSession k s = (p, s1)" by (cases "loadSession k s")
  define s2 where "s2 = updSess p (\<lambda>_. snd (isBanned now i (rt_sess s1 ! p))) s1"
  have s2: "rt_peers s2 = rt_peers s" "payv s2 = payv s"
    using payv_simple(4) [of k s] peers_simple(2) [of k s] by (simp_all add: s2_def ld)
  note inv = rt_inv_bindToSession [OF assms(2,3) bt]
  from bt ld have "held_ok t"
  proof (cases rule: bindToSession_cases)
    case (1 e)
    then show ?thesis using s2 by (auto simp: s2_def [symmetric] intro: held_frame [OF assms(1)])
  next
    case (2 x u)
    have "u = bindPeer cfg c x k s2" using 2 by (simp add: s2_def)
    then have "rt_peers u = rt_peers s \<or> rt_peers u = rt_peers s @ [x]" "payv u = payv s"
      using bindPeer_peers [of cfg c x k s2] by (simp_all add: s2)
    then have held: "held_ok u" "rt_pays u = rt_pays s"
      using 2(5) assms(1) payv_pays [of u s] by (auto simp: held_ok_def)
    have "skel t = skel u" using 2(7) by auto
    then have inv_u: "rt_inv u" "c < length (rt_conns u)"
      using inv assms(3) skel_eqD(3) [of t u] by (auto intro: rt_inv_skel [of t])
    show ?thesis
      using 2(7) held assms(4) rt_invD(2) [OF inv_u]
      by (auto simp: bound_ok_def intro: held_frame [OF held(1)] held_addPayment)
  qed
  then show ?thesis by (simp add: bt)
qed

lemma held_joinBind:
  assumes "held_ok s" "rt_inv s" "c < length (rt_conns s)" "pay_inv cfg s" "cookieKey cfg = Some key"
  shows "held_ok (snd (joinBind cfg env now c i raw s))"
proof -
  obtain r t where v: "validateJoinCookie cfg key now i raw s = (r, t)" by (cases "validateJoinCookie cfg key now i raw s")
  have grown: "length (rt_pays s) \<le> length (rt_pays t)" "rt_peers t = rt_peers s"
    using v by (auto simp: validateJoinCookie_def Let_def split: sum.splits if_splits option.splits)
  have held: "held_ok t" using assms(1) grown by (auto simp: held_ok_def dest: order.strict_trans2)
  have sk: "skel t = skel s" using skel_validateJoinCookie [of cfg key now i raw s] by (simp add: v)
  then have inv: "rt_inv t" "c < length (rt_conns t)"
    using assms(2,3) skel_eqD(3) [OF sk] by (auto intro: rt_inv_skel)
  have "p < length (rt_pays t)" if "r = Inr (jc, p)" for jc p
  proof -
    have tab: "\<And>u q. map_of (payTable s) u = Some q \<Longrightarrow> q < length (rt_pays s)"
      using assms(4) by (auto simp: pay_inv_def dest!: map_of_SomeD)
    show ?thesis
      using v that tab by (auto simp: validateJoinCookie_def Let_def split: sum.splits if_splits option.splits)
  qed
  then show ?thesis
    using v held held_bindToSession [OF held inv]
    by (auto simp: joinBind_def joinRequest_def assms(5) intro: held_frame [OF held] split: sum.splits prod.splits)
qed

lemma deductAllowance_eq:
  assumes "deductAllowance ps n s = (res, t)" "held_ok s" "ps < length (rt_peers s)" "0 < sint n"
  shows "held_ok t" "payTable t = payTable s \<and> rotPayments t = rotPayments s \<and> redeemed t = redeemed s \<and> rotated t = rotated s \<and>
      relayed t = relayed s \<and> rt_now t = rt_now s"
    "length (rt_pays t) = length (rt_pays s) \<and> (\<forall>j. pay_endTime (rt_pays t ! j) = pay_endTime (rt_pays s ! j))"
    "\<not> wrapped t \<Longrightarrow> \<not> wrapped s \<and> unspent (rt_pays t) + (if res then sint n else 0) \<le> unspent (rt_pays s)"
proof -
  obtain kept pays w where d: "deductLoop n (ps_payments (rt_peers s ! ps)) (rt_pays s) = (res, kept, pays, w)"
    using assms(1) by (auto simp: deductAllowance_def split: prod.splits)
  then have t: "t = updPeer ps (\<lambda>x. x\<lparr>ps_payments := kept\<rparr>) (s\<lparr>rt_pays := pays, wrapped := wrapped s \<or> w\<rparr>)"
    using assms(1) by (simp add: deductAllowance_def)
  have len: "length pays = length (rt_pays s)" using deductLoop_keeps [OF d] by simp
  have idx: "\<forall>i \<in> set (ps_payments (rt_peers s ! ps)). i < length (rt_pays s)" using held_old [OF assms(2,3)] by blast
  have "set kept \<subseteq> set (ps_payments (rt_peers s ! ps))" by (rule deductLoop_kept [OF d])
  then have "\<forall>i \<in> set kept. i < length pays" using idx len by auto
  moreover have "held_ok (s\<lparr>rt_pays := pays, wrapped := wrapped s \<or> w\<rparr>)" using assms(2) len by (simp add: held_ok_def)
  ultimately show "held_ok t" unfolding t by (intro held_upd) simp_all
  show "payTable t = payTable s \<and> rotPayments t = rotPayments s \<and> redeemed t = redeemed s \<and> rotated t = rotated s \<and>
      relayed t = relayed s \<and> rt_now t = rt_now s" by (simp add: t updPeer_def)
  show "length (rt_pays t) = length (rt_pays s) \<and> (\<forall>j. pay_endTime (rt_pays t ! j) = pay_endTime (rt_pays s ! j))"
    using deductLoop_keeps [OF d] by (simp add: t updPeer_def)
  show "\<not> wrapped s \<and> unspent (rt_pays t) + (if res then sint n else 0) \<le> unspent (rt_pays s)" if "\<not> wrapped t"
    using deductLoop_spends [OF d assms(4) idx] that by (simp add: t updPeer_def)
qed

text \<open>The three invariants together, over every step.\<close>

definition rt_all :: "rt_cfg \<Rightarrow> rt_state \<Rightarrow> bool" where
  "rt_all cfg s \<longleftrightarrow> rt_inv s \<and> pay_inv cfg s \<and> held_ok s"

text \<open>What the theorems about payments assume of the configuration: the server checks cookies, rotation cookies live for less
  than the longest duration, and opening a box does not lengthen it.\<close>

definition cfg_ok :: "rt_cfg \<Rightarrow> bool" where
  "cfg_ok cfg \<longleftrightarrow> cookieKey cfg \<noteq> None \<and> rotateCookieLifetime cfg < 2 ^ 63 - 1 \<and> secretbox_sized (rt_crypto cfg)"

lemma sint_length: "n \<le> RTDTMaxMessageSize \<Longrightarrow> sint (of_nat n :: u64) = int n"
  by (simp add: RTDTMaxMessageSize_def signed_of_nat signed_take_bit_int_eq_self)

lemma forwardData_payments:
  assumes "rt_all cfg s" "c < length (rt_conns s)" "12 \<le> length b" "length b \<le> RTDTMaxMessageSize"
  shows "pay_inv cfg (forwardData cfg env c b s) \<and> held_ok (forwardData cfg env c b s)"
proof (cases "map_of (cn_sessions (rt_conns s ! c)) (getSource b)")
  case None
  then show ?thesis
    using assms(1) by (auto simp: forwardData_def rt_all_def intro: pay_inv_frame held_frame)
next
  case (Some ps)
  have inv: "rt_inv s" "pay_inv cfg s" "held_ok s" using assms(1) by (auto simp: rt_all_def)
  have ps: "ps < length (rt_peers s)" using rt_invD(2) [OF inv(1) assms(2) Some] by (simp add: bound_ok_def)
  have n: "sint (of_nat (length b) :: u64) = int (length b)" by (rule sint_length [OF assms(4)])
  obtain ok t where d: "deductAllowance ps (of_nat (length b)) s = (ok, t)" by (cases "deductAllowance ps (of_nat (length b)) s")
  have "0 < sint (of_nat (length b) :: u64)" using n assms(3) by auto
  note dd = deductAllowance_eq [OF d inv(3) ps this]
  let ?u = "t\<lparr>relayed := relayed t + (if ok then int (length b) else 0)\<rparr>"
  have "redeemed_ok ?u = redeemed_ok s" "rotated_ok cfg ?u = rotated_ok cfg s"
    using dd(2,3) by (simp_all add: redeemed_ok_def rotated_ok_def cookie_gone_def)
  then have "pay_inv cfg ?u"
    using inv(2) dd(2-4) n by (auto simp: pay_inv_def)
  moreover have "held_ok ?u" using dd(1) by (simp add: held_ok_def)
  moreover have "payv (forwardData cfg env c b s) = payv ?u" "rt_peers (forwardData cfg env c b s) = rt_peers ?u"
  proof -
    have loop: "rt_peers (forwardLoop cfg env c p b pss s) = rt_peers s" for p pss s
      by (induction pss arbitrary: s) (simp_all add: Let_def case_prod_unfold)
    show "payv (forwardData cfg env c b s) = payv ?u" "rt_peers (forwardData cfg env c b s) = rt_peers ?u"
      using Some d by (cases ok; simp add: forwardData_def Let_def loop; simp add: payv_def)+
  qed
  ultimately show ?thesis by (metis pay_inv_frame held_frame)
qed

lemma handlePacket_payments:
  assumes "rt_all cfg s" "c < length (rt_conns s)" "length b \<le> RTDTMaxMessageSize" "rt_now s = now" "cfg_ok cfg"
  shows "pay_inv cfg (handlePacket cfg env now c b s) \<and> held_ok (handlePacket cfg env now c b s)"
proof -
  have inv: "rt_inv s" "pay_inv cfg s" "held_ok s" using assms(1) by (auto simp: rt_all_def)
  obtain key where key: "cookieKey cfg = Some key" and life: "rotateCookieLifetime cfg < 2 ^ 63 - 1"
    using assms(5) by (auto simp: cfg_ok_def)
  obtain ok st where m: "MayAccept (getSequence b) (recvSeq (rt_conns s ! c)) = (ok, st)" by (cases "MayAccept (getSequence b) (recvSeq (rt_conns s ! c))")
  define s1 where "s1 = updConn c (\<lambda>cn. cn\<lparr>recvSeq := st\<rparr>) s"
  have s1: "rt_inv s1" "pay_inv cfg s1" "held_ok s1" "c < length (rt_conns s1)" "rt_now s1 = now"
    using inv assms(2,4) by (auto simp: s1_def intro: rt_inv_skel pay_inv_frame held_frame)
  then have all1: "rt_all cfg s1" by (simp add: rt_all_def)
  let ?t = "snd (connHandleInternalPkt cfg env now c (toPacket b) s1)"
  have pay: "pay_inv cfg ?t" by (rule pay_inv_connHandleInternalPkt [OF s1(2,5) key life])
  have "rt_peers ?t = rt_peers s1 \<and> payv ?t = payv s1 \<or> held_ok ?t"
  proof -
    let ?i = "fp_Source (toPacket b)" and ?d = "snd (ServerCmd (toPacket b))"
    have hj: "held_ok (snd (joinBind cfg env now c ?i ?d s1))" by (rule held_joinBind [OF s1(3,1,4,2) key])
    have "held_ok (snd (handleJoin cfg env now c ?i ?d s1))"
      using hj by (auto simp: handleJoin_def Let_def case_prod_unfold intro: held_frame [OF hj] split: sum.splits)
    moreover have "held_ok (snd (rotateSessionCookies cfg now c ?i ?d s1))"
      using s1(3) by (auto simp: held_ok_def rotateSessionCookies_def Let_def split: option.splits sum.splits)
    moreover have "held_ok v \<Longrightarrow> held_ok (snd (sendCmd cfg env c t cmd v))" for t cmd v by (rule held_frame) simp_all
    ultimately show ?thesis
      by (auto simp: connHandleInternalPkt_def Let_def case_prod_unfold split: option.splits)
  qed
  then have held: "held_ok ?t" using held_frame [OF s1(3)] by blast
  have "payv (addBanScore c v) = payv v" "rt_peers (addBanScore c v) = rt_peers v" for v by simp_all
  then show ?thesis
    using inv s1 pay held forwardData_payments [OF all1 s1(4) _ assms(3), of env]
    by (auto simp: handlePacket_def m Let_def s1_def [symmetric] intro: pay_inv_frame held_frame split: prod.splits option.splits)
qed

lemma rt_all_step:
  assumes "rt_all cfg s" "cfg_ok cfg"
  shows "rt_all cfg (rtStep cfg env now ev s)"
proof (cases "rtEnabled now ev s")
  case False
  with assms show ?thesis by (simp add: rtStep_def)
next
  case True
  define s0 where "s0 = s\<lparr>rt_now := now\<rparr>"
  have "rt_now s \<le> now" using True by (cases ev) simp_all
  then have s0: "rt_inv s0" "pay_inv cfg s0" "held_ok s0" "rt_now s0 = now"
    using assms(1) by (auto simp: s0_def rt_all_def held_ok_def intro: rt_inv_skel pay_inv_now)
  have "pay_inv cfg (rtHandle cfg env now ev s0) \<and> held_ok (rtHandle cfg env now ev s0)"
  proof (cases ev)
    case (RtDatagram addr inb)
    obtain r t where rn: "listenerReadNext cfg env inb addr now s0 = (r, t)" by (cases "listenerReadNext cfg env inb addr now s0")
    have pt: "payv t = payv s0" "rt_peers t = rt_peers s0"
      using payv_listenerReadNext [of cfg env inb addr now s0] peers_handlers(4) [of cfg env inb addr now s0] by (simp_all add: rn)
    then have t: "pay_inv cfg t" "held_ok t" "rt_now t = now"
      using s0 by (auto intro: pay_inv_frame held_frame simp: payv_def)
    show ?thesis
    proof (cases r)
      case None
      then show ?thesis using t RtDatagram by (simp add: readDatagram_def rn)
    next
      case (Some cb)
      obtain c b where cb: "cb = (c, b)" by (cases cb)
      have "rt_inv t \<and> c < length (rt_conns t) \<and> length b \<le> length inb"
      proof -
        obtain q v where rc: "listenerReadConn cfg inb addr now s0 = (q, v)" by (cases "listenerReadConn cfg inb addr now s0")
        note v = rt_inv_listenerReadConn [OF s0(1) rc]
        have short: "length m \<le> length inb" if "secretbox_open (rt_crypto cfg) (drop 24 inb) n k = Some m" for m n k
        proof -
          have "length (drop 24 inb) = length m + secretbox_overhead (rt_crypto cfg)"
            using assms(2) that by (simp only: cfg_ok_def secretbox_sized_def)
          then show ?thesis by simp
        qed
        have "q = Some (c, None) \<and> t = updConn c (\<lambda>cn. cn\<lparr>lastRead := now\<rparr>) v \<and> length b \<le> length inb"
          using rn rc Some cb short
          by (auto simp: listenerReadNext_def Let_def split: option.splits prod.splits bool.splits if_splits)
        then show ?thesis using v by (auto intro: rt_inv_skel)
      qed
      moreover have "length inb \<le> RTDTMaxMessageSize" using True RtDatagram by simp
      ultimately have "pay_inv cfg (handlePacket cfg env now c b t) \<and> held_ok (handlePacket cfg env now c b t)"
        using t assms(2) by (intro handlePacket_payments) (auto simp: rt_all_def)
      then show ?thesis using Some cb RtDatagram by (simp add: readDatagram_def rn)
    qed
  next
    case RtDropPayments
    then show ?thesis
      using s0 by (simp add: pay_inv_dropStalePayments) (simp add: held_ok_def dropStalePayments_def)
  qed (use s0 in \<open>auto intro: pay_inv_frame held_frame\<close>)
  moreover have "rt_inv (rtStep cfg env now ev s)" using assms(1) by (simp add: rt_all_def rt_inv_step)
  ultimately show ?thesis using True by (simp add: rt_all_def rtStep_def s0_def)
qed

lemma rt_all_reachable:
  assumes "rt_reachable cfg s" "cfg_ok cfg"
  shows "rt_all cfg s"
  using assms(1)
proof (induction rule: rt_reachable.induct)
  case (rt_start now)
  have "rt_inv (rt_newServer now)" by (rule rt_inv_reachable [OF rt_reachable.rt_start])
  then show ?case
    by (simp add: rt_all_def pay_inv_def held_ok_def redeemed_ok_def rotated_ok_def rt_newServer_def unspent_def)
qed (rule rt_all_step [OF _ assms(2)])
end
