(* ===== verification/Rtdt_Promises.thy ===== *)
theory Rtdt_Promises
  imports Rtdt_Correct
begin

text \<open>
  What the real-time datagram server promises: data stays among those who have joined a session with a valid cookie and
  reaches all of them, an allowance is spent at most once, a peer who is kicked stays out until the ban ends. Then a
  run of the server on concrete datagrams, and runs on which it goes wrong.
\<close>

section \<open>Joins\<close>

lemma joined_bindPeer [simp]:
  "joined (bindPeer cfg c x k s) =
     joined s @ [\<lparr>jn_conn = c, jn_peer = ps_peerID x, jn_sess = ps_sess x, jn_sid = k, jn_admin = ps_isAdmin x\<rparr>]"
  by (auto simp: bindPeer_def bindNew_def bindReplace_def newPeer_def Let_def split: option.splits)

lemma joined_addPayment [simp]: "joined (addPayment ps p s) = joined s"
  by (simp add: addPayment_def updPeer_def)

lemma bindToSession_bound:
  assumes "bindToSession cfg now c i pay k sz adm s = (Inr p, t)"
  shows "joined t = joined s @ [\<lparr>jn_conn = c, jn_peer = i, jn_sess = p, jn_sid = k, jn_admin = adm\<rparr>] \<and>
    p = fst (loadSession k s) \<and> \<not> fst (isBanned now i (rt_sess (snd (loadSession k s)) ! p))"
proof -
  have "joined (snd (loadSession k s)) = joined s" by (simp add: loadSession_def Let_def split: option.split)
  then show ?thesis
    using assms by (auto simp: bindToSession_def Let_def updSess_def split: prod.splits if_splits option.splits)
qed

section \<open>Bans\<close>

definition banv where
  "banv s = (map bans (rt_sess s), joined s, adminOps s)"

lemma banv_upd [simp]:
  "banv (updConn c f s) = banv s" "(\<And>x. bans (g x) = bans x) \<Longrightarrow> banv (updSess p g s) = banv s" "banv (updPeer i h s) = banv s"
  by (simp_all add: banv_def updConn_def updSess_def updPeer_def map_update_keeps)

lemma banv_fields [simp]:
  "banv (s\<lparr>rt_conns := a\<rparr>) = banv s" "banv (s\<lparr>rt_peers := c\<rparr>) = banv s" "banv (s\<lparr>rt_pays := e1\<rparr>) = banv s"
  "banv (s\<lparr>connTable := d\<rparr>) = banv s" "banv (s\<lparr>sessTable := e\<rparr>) = banv s" "banv (s\<lparr>payTable := e2\<rparr>) = banv s"
  "banv (s\<lparr>rotPayments := e3\<rparr>) = banv s" "banv (s\<lparr>forceSessListChan := f\<rparr>) = banv s"
  "banv (s\<lparr>unsessQueue := g\<rparr>) = banv s" "banv (s\<lparr>connsCount := h\<rparr>) = banv s" "banv (s\<lparr>pendingCount := h\<rparr>) = banv s"
  "banv (s\<lparr>rt_halted := i\<rparr>) = banv s" "banv (s\<lparr>rt_now := j\<rparr>) = banv s" "banv (s\<lparr>rt_out := k\<rparr>) = banv s"
  "banv (s\<lparr>redeemed := l\<rparr>) = banv s" "banv (s\<lparr>rotated := r\<rparr>) = banv s" "banv (s\<lparr>sessIDs := m\<rparr>) = banv s"
  "banv (s\<lparr>relayed := h\<rparr>) = banv s" "banv (s\<lparr>forwarded := q\<rparr>) = banv s" "banv (s\<lparr>wrapped := w\<rparr>) = banv s"
  by (simp_all add: banv_def)

lemma banv_RemovePeer [simp]: "banv (snd (snd (RemovePeer cfg q i s))) = banv s"
  by (cases "q < length (rt_sess s)")
    (simp_all add: banv_def RemovePeer_def Let_def updSess_def map_update list_update_same_conv list_update_beyond)

lemma banv_simple [simp]:
  "banv (addBanScore c s) = banv s" "banv (addPayment ps p s) = banv s" "banv (snd (deductAllowance ps n s)) = banv s"
  "banv (snd (nextSendSeq c s)) = banv s" "banv (snd (listenerWrite cfg env c msg s)) = banv s" "banv (addConn cn s) = banv s"
  "banv (dropStalePayments now s) = banv s" "banv (snd (validateJoinCookie cfg key now i raw s)) = banv s"
  by (simp_all add: addBanScore_def addPayment_def deductAllowance_def nextSendSeq_def listenerWrite_def addConn_def
      dropStalePayments_def validateJoinCookie_def Let_def split: option.splits prod.splits sum.splits)

lemma banv_sendCmd [simp]: "banv (snd (sendCmd cfg env c t cmd s)) = banv s"
  by (simp add: sendCmd_def Let_def case_prod_unfold)

lemma banv_joinRequest [simp]: "banv (snd (joinRequest cfg env now i raw s)) = banv s"
  by (auto simp: joinRequest_def Let_def split: sum.splits option.splits prod.splits)
    (metis banv_simple(8) snd_conv)+

lemma banv_bind [simp]:
  "banv (bindNew cfg c x s) = banv s" "banv (bindReplace c x idx ps s) = banv s"
  by (simp_all add: bindNew_def bindReplace_def Let_def newPeer_def split: option.splits)

lemma banv_removePeerSession [simp]: "banv (removePeerSession cfg ps s) = banv s"
  by (simp add: removePeerSession_def Let_def case_prod_unfold)

lemma banv_removeFromSession [simp]: "banv (snd (removeFromSession cfg c i s)) = banv s"
  by (simp add: removeFromSession_def split: option.splits)

lemma banv_fold: "(\<And>x s. banv (f x s) = banv s) \<Longrightarrow> banv (fold f xs s) = banv s"
  by (induction xs arbitrary: s) simp_all

lemma banv_ticks [simp]:
  "banv (forceListing cfg env now s) = banv s" "banv (listTick cfg env now s) = banv s" "banv (timeoutTick cfg now s) = banv s"
proof -
  have l: "banv (sendSessionListing cfg env now p s) = banv s" for p s
    by (simp add: sendSessionListing_def Let_def banv_fold)
  show "banv (forceListing cfg env now s) = banv s" "banv (listTick cfg env now s) = banv s"
    by (simp_all add: forceListing_def listTick_def Let_def banv_fold l split: list.splits)
  have r: "banv (removeFromAllSessions cfg c s) = banv s" for c s
    by (simp add: removeFromAllSessions_def banv_fold case_prod_unfold)
  have "banv (removeConn cfg x s) = banv s" for x s
    by (simp add: removeConn_def Let_def r case_prod_unfold)
  then show "banv (timeoutTick cfg now s) = banv s"
    by (simp add: timeoutTick_def banv_fold)
qed

lemma banv_forwardLoop [simp]: "banv (forwardLoop cfg env c p b pss s) = banv s"
  by (induction pss arbitrary: s) (simp_all add: Let_def case_prod_unfold)

lemma banv_handlers [simp]:
  "banv (snd (handlePing cfg env now c i payload s)) = banv s" "banv (snd (listenerReadNext cfg env inb addr now s)) = banv s"
  "banv (handshakeNext cfg env s) = banv s"
  by (simp_all add: handlePing_def listenerReadNext_def listenerReadConn_def handshakeNext_def Let_def case_prod_unfold
      split: option.splits bool.splits list.splits prod.splits)

lemma banv_forwardData [simp]: "banv (forwardData cfg env c b s) = banv s"
proof (cases "map_of (cn_sessions (rt_conns s ! c)) (getSource b)")
  case (Some ps)
  obtain ok t where d: "deductAllowance ps (of_nat (length b)) s = (ok, t)" by (cases "deductAllowance ps (of_nat (length b)) s")
  then have "banv t = banv s" using banv_simple(3) [of ps "of_nat (length b)" s] by simp
  then show ?thesis using Some d by (cases ok) (simp_all add: forwardData_def Let_def)
qed (simp add: forwardData_def)

text \<open>A ban of peer \<open>i\<close> from session \<open>p\<close> until at least \<open>E\<close> is kept, and no join of the peer is recorded, until an admin
  acts again in the session.\<close>

definition acts :: "nat \<Rightarrow> rt_state \<Rightarrow> (nat \<times> u32 \<times> nat) list" where
  "acts p s = filter (\<lambda>(c, i, q). q = p) (adminOps s)"

definition joins :: "u32 \<Rightarrow> nat \<Rightarrow> rt_state \<Rightarrow> rt_join list" where
  "joins i p s = filter (\<lambda>j. jn_peer j = i \<and> jn_sess j = p) (joined s)"

definition ban_kept :: "nat \<Rightarrow> u32 \<Rightarrow> time \<Rightarrow> rt_state \<Rightarrow> rt_state \<Rightarrow> bool" where
  "ban_kept p i E s0 s \<longleftrightarrow>
     length (acts p s0) < length (acts p s) \<or>
     acts p s = acts p s0 \<and> joins i p s = joins i p s0 \<and> p < length (rt_sess s) \<and>
     (\<exists>e \<ge> E. map_of (bans (rt_sess s ! p)) i = Some e)"

lemma ban_kept_frame:
  assumes "banv t = banv s"
  shows "ban_kept p i E s0 t = ban_kept p i E s0 s"
proof -
  have m: "map bans (rt_sess t) = map bans (rt_sess s)" "joined t = joined s" "adminOps t = adminOps s"
    using assms by (simp_all add: banv_def)
  have l: "length (rt_sess t) = length (rt_sess s)" using m(1) by (metis length_map)
  then have "bans (rt_sess t ! p) = bans (rt_sess s ! p)" if "p < length (rt_sess s)" using m(1) that by (metis nth_map)
  then show ?thesis using m l by (auto simp: ban_kept_def acts_def joins_def)
qed

lemma ban_kept_loadSession:
  assumes "ban_kept p i E s0 s"
  shows "ban_kept p i E s0 (snd (loadSession k s))"
  using assms by (auto simp: loadSession_def Let_def ban_kept_def acts_def joins_def nth_append split: option.split)

lemma ban_kept_isBanned:
  assumes "ban_kept p i E s0 s" "now \<le> E"
  shows "ban_kept p i E s0 (updSess q (\<lambda>_. snd (isBanned now k (rt_sess s ! q))) s)"
proof -
  have "map_of (bans (snd (isBanned now k ss))) i = map_of (bans ss) i"
    if "map_of (bans ss) i = Some e" "E \<le> e" for ss e
    using that assms(2) by (auto simp: isBanned_def delete_conv' split: option.splits)
  then show ?thesis
    using assms(1) by (cases "q = p") (auto simp: ban_kept_def acts_def joins_def updSess_def)
qed

lemma ban_kept_bindPeer:
  assumes "ban_kept p i E s0 s" "ps_peerID x \<noteq> i \<or> ps_sess x \<noteq> p \<or> length (acts p s0) < length (acts p s)"
  shows "ban_kept p i E s0 (bindPeer cfg c x k s)"
proof -
  let ?s = "s\<lparr>joined := joined s @ [\<lparr>jn_conn = c, jn_peer = ps_peerID x, jn_sess = ps_sess x, jn_sid = k, jn_admin = ps_isAdmin x\<rparr>]\<rparr>"
  have "ban_kept p i E s0 ?s" using assms by (auto simp: ban_kept_def acts_def joins_def)
  moreover have "banv (bindPeer cfg c x k s) = banv ?s"
    by (auto simp: bindPeer_def Let_def addMember_def split: option.split)
  ultimately show ?thesis using ban_kept_frame by blast
qed

lemma ban_kept_bindToSession:
  assumes "ban_kept p i E s0 s" "now \<le> E" "bindToSession cfg now c k pay sid sz adm s = (res, t)"
  shows "ban_kept p i E s0 t"
proof -
  obtain q s1 where q: "loadSession sid s = (q, s1)" by (cases "loadSession sid s")
  define s2 where "s2 = updSess q (\<lambda>_. snd (isBanned now k (rt_sess s1 ! q))) s1"
  have b1: "ban_kept p i E s0 s1" using ban_kept_loadSession [OF assms(1), of sid] q by simp
  have b2: "ban_kept p i E s0 s2" unfolding s2_def by (rule ban_kept_isBanned [OF b1 assms(2)])
  from assms(3) q show ?thesis
  proof (cases rule: bindToSession_cases)
    case (1 e)
    then have "banv t = banv s2" by (auto simp: s2_def)
    then show ?thesis using b2 ban_kept_frame by blast
  next
    case (2 x u)
    have "\<not> fst (isBanned now k (rt_sess s1 ! q))"
      using bindToSession_bound [of cfg now c k pay sid sz adm s q t] assms(3) 2(1) q by simp
    then have "k \<noteq> i \<or> q \<noteq> p \<or> length (acts p s0) < length (acts p s1)"
      using b1 assms(2) by (auto simp: ban_kept_def isBanned_def)
    then have "ban_kept p i E s0 u"
      using 2 b2 by (auto simp: s2_def acts_def intro!: ban_kept_bindPeer)
    then show ?thesis
      using 2(7) ban_kept_frame [of t u] by auto
  qed
qed

lemma ban_kept_act:
  assumes "ban_kept p i E s0 s" "adminOps t = adminOps s @ [(c, k, q)]" "joined t = joined s" "length (rt_sess t) = length (rt_sess s)"
    "q = p \<or> bans (rt_sess t ! p) = bans (rt_sess s ! p)"
  shows "ban_kept p i E s0 t"
  using assms by (auto simp: ban_kept_def acts_def joins_def)

lemma ban_kept_kick:
  assumes "ban_kept p i E s0 s"
  shows "ban_kept p i E s0 (snd (kickFromSession cfg now c j k d s))"
proof (cases "map_of (cn_sessions (rt_conns s ! c)) j")
  case (Some ps)
  let ?q = "ps_sess (rt_peers s ! ps)"
  let ?s = "s\<lparr>adminOps := adminOps s @ [(c, j, ?q)]\<rparr>"
  let ?t = "if 0 < d then BanTarget now ?q k (uint d * second) ?s else ?s"
  have "ban_kept p i E s0 ?t"
    by (rule ban_kept_act [OF assms, of _ c j ?q]; cases "?q = p") (auto simp: BanTarget_def updSess_def)
  then have "ban_kept p i E s0 (snd (removeFromSession cfg b k ?t))" for b
    using ban_kept_frame [OF banv_removeFromSession] by blast
  then show ?thesis
    using assms Some by (auto simp: kickFromSession_def Let_def split: option.splits prod.splits) (metis snd_conv)+
qed (simp add: kickFromSession_def assms)

lemma ban_kept_rotate:
  assumes "ban_kept p i E s0 s"
  shows "ban_kept p i E s0 (snd (rotateSessionCookies cfg now c j raw s))"
proof -
  have "ban_kept p i E s0 t" if "banv t = banv s" for t using that assms ban_kept_frame by blast
  moreover have "ban_kept p i E s0 t"
    if "adminOps t = adminOps s @ [x]" "joined t = joined s" "map bans (rt_sess t) = map bans (rt_sess s)" for t x
  proof -
    obtain a b q where x: "x = (a, b, q)" by (cases x)
    have l: "length (rt_sess t) = length (rt_sess s)" using that(3) by (metis length_map)
    have "bans (rt_sess t ! p) = bans (rt_sess s ! p)" if "p < length (rt_sess s)" using l that \<open>map bans _ = _\<close> by (metis nth_map)
    then show ?thesis using assms that(1,2) l x by (auto simp: ban_kept_def acts_def joins_def)
  qed
  ultimately show ?thesis
    by (auto simp: rotateSessionCookies_def Let_def updSess_def map_update_keeps split: option.splits sum.splits)
qed

lemma ban_kept_handleJoin:
  assumes "ban_kept p i E s0 s" "now \<le> E"
  shows "ban_kept p i E s0 (snd (handleJoin cfg env now c k raw s))"
proof -
  obtain r t where j: "joinBind cfg env now c k raw s = (r, t)" by (cases "joinBind cfg env now c k raw s")
  obtain q u where q: "joinRequest cfg env now k raw s = (q, u)" by (cases "joinRequest cfg env now k raw s")
  have "banv u = banv s" using banv_joinRequest [of cfg env now k raw s] by (simp add: q)
  then have "ban_kept p i E s0 u" using assms(1) ban_kept_frame by blast
  then have t: "ban_kept p i E s0 t"
    using j q assms(2) ban_kept_frame [OF banv_simple(1)]
    by (auto simp: joinBind_def split: sum.splits intro: ban_kept_bindToSession)
  have "banv (snd (handleJoin cfg env now c k raw s)) = banv t"
    by (simp add: handleJoin_def j Let_def case_prod_unfold split: sum.split)
  then show ?thesis using t ban_kept_frame by blast
qed

lemma ban_kept_internal:
  assumes "ban_kept p i E s0 s" "now \<le> E"
  shows "ban_kept p i E s0 (snd (connHandleInternalPkt cfg env now c pkt s))"
proof -
  note fr = ban_kept_frame [of _ _ p i E s0]
  have k: "ban_kept p i E s0 (snd (handleKick cfg env now c j raw s))" for j raw
  proof -
    have "banv (snd (handleKick cfg env now c j raw s)) =
        (case cmd_FromBytes 0x07 raw of Some (KickPeer a d) \<Rightarrow> banv (snd (kickFromSession cfg now c j a d s)) | _ \<Rightarrow> banv s)"
      by (auto simp: handleKick_def Let_def case_prod_unfold split: option.split server_cmd.split sum.split)
    then have "banv (snd (handleKick cfg env now c j raw s)) = banv s \<or>
        (\<exists>a d. banv (snd (handleKick cfg env now c j raw s)) = banv (snd (kickFromSession cfg now c j a d s)))"
      by (auto split: option.splits server_cmd.splits)
    then show ?thesis using fr assms(1) ban_kept_kick [OF assms(1)] by blast
  qed
  have r: "ban_kept p i E s0 (snd (case rotateSessionCookies cfg now c j raw s of
           (Some e, s) \<Rightarrow> (Some e, s)
         | (None, s) \<Rightarrow> if rt_halted s = Some HaltPanic then (None, s)
             else sendCmd cfg env c j cmd s))" for j raw cmd
  proof -
    obtain r t where "rotateSessionCookies cfg now c j raw s = (r, t)" by (cases "rotateSessionCookies cfg now c j raw s")
    moreover from this have "ban_kept p i E s0 t" using ban_kept_rotate [OF assms(1)] by (metis snd_conv)
    ultimately show ?thesis using fr [OF banv_sendCmd] by (auto split: option.split)
  qed
  show ?thesis
    using assms k r ban_kept_handleJoin [OF assms] fr [OF banv_sendCmd] fr [OF banv_removeFromSession] fr [OF banv_handlers(1)]
      fr [OF banv_simple(1)]
    by (auto simp: connHandleInternalPkt_def Let_def split: prod.split)
qed

lemma ban_kept_step:
  assumes "ban_kept p i E s0 s" "now \<le> E"
  shows "ban_kept p i E s0 (rtStep cfg env now ev s)"
proof -
  have s: "ban_kept p i E s0 (s\<lparr>rt_now := now\<rparr>)" (is "ban_kept p i E s0 ?s") using assms(1) ban_kept_frame [of ?s s] by simp
  have h: "ban_kept p i E s0 (handlePacket cfg env now c b t)" if "ban_kept p i E s0 t" for c b t
  proof -
    obtain ok st where m: "MayAccept (getSequence b) (recvSeq (rt_conns t ! c)) = (ok, st)" by (cases "MayAccept (getSequence b) (recvSeq (rt_conns t ! c))")
    let ?t = "updConn c (\<lambda>cn. cn\<lparr>recvSeq := st\<rparr>) t"
    have t: "ban_kept p i E s0 ?t" using that ban_kept_frame [OF banv_upd(1)] by blast
    have "ban_kept p i E s0 (snd (connHandleInternalPkt cfg env now c (toPacket b) ?t))" by (rule ban_kept_internal [OF t assms(2)])
    then show ?thesis
      using that t ban_kept_frame [OF banv_simple(1)] ban_kept_frame [OF banv_forwardData]
      by (auto simp: handlePacket_def m Let_def split: prod.splits option.splits)
  qed
  have "ban_kept p i E s0 (rtHandle cfg env now ev ?s)"
  proof (cases ev)
    case (RtDatagram addr inb)
    obtain r t where "listenerReadNext cfg env inb addr now ?s = (r, t)" by (cases "listenerReadNext cfg env inb addr now ?s")
    moreover from this have "ban_kept p i E s0 t" using s ban_kept_frame [OF banv_handlers(2)] by (metis snd_conv)
    ultimately show ?thesis using h RtDatagram by (auto simp: readDatagram_def split: option.split)
  qed (use s in \<open>auto simp: ban_kept_frame [OF banv_ticks(1)] ban_kept_frame [OF banv_ticks(2)] ban_kept_frame [OF banv_ticks(3)]
      ban_kept_frame [OF banv_handlers(3)] ban_kept_frame [OF banv_simple(7)]\<close>)
  then show ?thesis using assms(1) by (simp add: rtStep_def)
qed

text \<open>A run until time \<open>E\<close>.\<close>

inductive rt_run :: "rt_cfg \<Rightarrow> time \<Rightarrow> rt_state \<Rightarrow> rt_state \<Rightarrow> bool" for cfg E where
  run_refl: "rt_run cfg E s s"
| run_step: "rt_run cfg E s t \<Longrightarrow> now \<le> E \<Longrightarrow> rt_run cfg E s (rtStep cfg env now ev t)"

section \<open>Promises\<close>

lemma get_u32_be_take: "4 \<le> length xs \<Longrightarrow> get_u32_be (take n xs @ ys) = get_u32_be xs" if "4 \<le> n" for n
  using that by (simp add: get_u32_be_def min_def)

lemma fwd_packet:
  assumes "12 \<le> length b"
  shows "fp_FromBytes (setSequence q (setTarget d b)) =
    Some \<lparr>fp_Target = d, fp_Source = getSource b, fp_Sequence = q, fp_Data = drop 12 b\<rparr>"
proof -
  have "get_u32_be (take 4 (drop 4 b) @ r) = get_u32_be (drop 4 b)" for r
    using assms by (intro get_u32_be_take) auto
  then show ?thesis using assms by (simp add: fp_FromBytes_def setSequence_def setTarget_def getSource_def)
qed




text \<open>Only admins kick peers and rename sessions: whenever the server has done so for a peer, the peer had joined
  that session with a cookie that makes it an admin.\<close>

theorem admin_only:
  assumes "rt_reachable cfg s" "(c, i, p) \<in> set (adminOps s)"
  shows "\<exists>j \<in> set (joined s). jn_peer j = i \<and> jn_sess j = p \<and> jn_admin j"
  using rt_inv_reachable [OF assms(1)] assms(2) by (fastforce simp: rt_inv_def links_ok_def)

text \<open>The listing of the members of a session is exact: the bitmap holds the ids of its peers and no other, and no two peers of
  a session have the same id.\<close>

theorem members_exact:
  assumes "rt_reachable cfg s" "p < length (rt_sess s)"
  shows "bmp (rt_sess s ! p) = (\<lambda>ps. ps_peerID (rt_peers s ! ps)) ` set (ss_peers (rt_sess s ! p)) \<and>
    distinct (map (\<lambda>ps. ps_peerID (rt_peers s ! ps)) (ss_peers (rt_sess s ! p)))"
  using rt_inv_reachable [OF assms(1)] assms(2) by (simp add: rt_inv_def sess_ok_def)

text \<open>C16: What is relayed is paid for. No cookie is redeemed twice, and as long as the arithmetic of the allowances has not
  wrapped around, the number of bytes that the server has relayed is at most the sum of the allowances of the redeemed cookies.\<close>

theorem allowance_respected:
  assumes "rt_reachable cfg s" "cfg_ok cfg" "\<not> wrapped s"
  shows "distinct (map (\<lambda>(t, e, a). (t, e)) (redeemed s)) \<and> relayed s \<le> (\<Sum>(t, e, a) \<leftarrow> redeemed s. max 0 (sint a))"
proof -
  have "pay_inv cfg s" using rt_all_reachable [OF assms(1,2)] by (simp add: rt_all_def)
  moreover have "0 \<le> unspent (rt_pays s)" unfolding unspent_def by (intro sum_list_nonneg) auto
  ultimately show ?thesis using assms(3) by (auto simp: pay_inv_def)
qed

text \<open>A cookie that rotates the secret of a session is used at most once.\<close>

theorem rotation_once:
  assumes "rt_reachable cfg s" "cfg_ok cfg"
  shows "distinct (rotated s)"
  using rt_all_reachable [OF assms] by (simp add: rt_all_def pay_inv_def)

lemma forwardLoop_reaches:
  assumes "\<And>d. \<not> write_fails env d" "privKey cfg = None \<or> length b \<le> 65536 - 24 - 16" "12 \<le> length b"
  shows "\<exists>fs. forwarded (forwardLoop cfg env c p b pss s) = forwarded s @ fs \<and>
    map (\<lambda>f. (fw_dst f, fw_dstID f, fw_in f)) fs =
      map (\<lambda>ps. (ps_conn (rt_peers s ! ps), ps_peerID (rt_peers s ! ps), b)) (filter (\<lambda>ps. ps_conn (rt_peers s ! ps) \<noteq> c) pss)"
proof (induction pss arbitrary: s)
  case (Cons ps pss)
  have "length (setSequence q (setTarget i b)) = length b" for q i using assms(3) by (simp add: setSequence_def setTarget_def)
  then have w: "listenerWrite cfg env d (setSequence q (setTarget i b)) u =
      (True, u\<lparr>rt_out := rt_out u @ [(d, setSequence q (setTarget i b))]\<rparr>)" for d q i u
    using assms by (auto simp: listenerWrite_def packetOnWire_def)
  show ?case
  proof (cases "ps_conn (rt_peers s ! ps) = c")
    case False
    define d where "d = ps_conn (rt_peers s ! ps)"
    define i where "i = ps_peerID (rt_peers s ! ps)"
    define f where "f = \<lparr>fw_src = c, fw_srcID = getSource b, fw_dst = d, fw_dstID = i, fw_sess = p, fw_in = b,
        fw_out = setSequence (sendSeq (rt_conns s ! d) + 1) (setTarget i b)\<rparr>"
    define u where "u = updConn d (\<lambda>cn. cn\<lparr>sendSeq := sendSeq (rt_conns s ! d) + 1\<rparr>) s"
    define t where "t = u\<lparr>rt_out := rt_out u @ [(d, setSequence (sendSeq (rt_conns s ! d) + 1) (setTarget i b))],
        forwarded := forwarded u @ [f]\<rparr>"
    have "forwardLoop cfg env c p b (ps # pss) s = forwardLoop cfg env c p b pss t"
      using False by (simp add: Let_def nextSendSeq_def w d_def [symmetric] i_def [symmetric] f_def t_def u_def)
    moreover have "rt_peers t = rt_peers s" "forwarded t = forwarded s @ [f]" by (simp_all add: t_def u_def)
    moreover have "(fw_dst f, fw_dstID f, fw_in f) = (d, i, b)" by (simp add: f_def)
    moreover obtain fs where "forwarded (forwardLoop cfg env c p b pss t) = forwarded t @ fs"
      "map (\<lambda>f. (fw_dst f, fw_dstID f, fw_in f)) fs =
        map (\<lambda>ps. (ps_conn (rt_peers t ! ps), ps_peerID (rt_peers t ! ps), b)) (filter (\<lambda>ps. ps_conn (rt_peers t ! ps) \<noteq> c) pss)"
      using Cons.IH by blast
    ultimately show ?thesis
      using False by (intro exI [of _ "f # fs"]) (simp add: d_def i_def)
  qed (use Cons.IH [of s] in simp)
qed simp

text \<open>C24: Data reaches every member. When a peer with enough allowance sends a packet to a session of no more peers than the
  peer's cookie allows, and the network accepts every write, then the server hands the packet exactly once to each
  peer of the session on another connection, in order, and to nobody else.\<close>

theorem relay_reaches_all:
  assumes "map_of (cn_sessions (rt_conns s ! c)) (getSource b) = Some ps" "fst (deductAllowance ps (of_nat (length b)) s)"
    "int (length (ss_peers (rt_sess s ! ps_sess (rt_peers s ! ps)))) \<le> ps_size (rt_peers s ! ps)"
    "\<And>d. \<not> write_fails env d" "privKey cfg = None \<or> length b \<le> 65536 - 24 - 16" "12 \<le> length b" "ps < length (rt_peers s)"
  shows "\<exists>fs. forwarded (forwardData cfg env c b s) = forwarded s @ fs \<and>
    map (\<lambda>f. (fw_dst f, fw_dstID f, fw_in f)) fs =
      map (\<lambda>q. (ps_conn (rt_peers s ! q), ps_peerID (rt_peers s ! q), b))
        (filter (\<lambda>q. ps_conn (rt_peers s ! q) \<noteq> c) (ss_peers (rt_sess s ! ps_sess (rt_peers s ! ps))))"
proof -
  let ?p = "ps_sess (rt_peers s ! ps)"
  obtain t where d: "deductAllowance ps (of_nat (length b)) s = (True, t)"
    using assms(2) by (cases "deductAllowance ps (of_nat (length b)) s") auto
  then obtain k pays w where "t = updPeer ps (\<lambda>x. x\<lparr>ps_payments := k\<rparr>) (s\<lparr>rt_pays := pays, wrapped := w\<rparr>)"
    by (auto simp: deductAllowance_def split: prod.splits)
  then have same: "ps_conn (rt_peers t ! q) = ps_conn (rt_peers s ! q)" "ps_peerID (rt_peers t ! q) = ps_peerID (rt_peers s ! q)"
      "ps_size (rt_peers t ! q) = ps_size (rt_peers s ! q)" "ps_sess (rt_peers t ! q) = ps_sess (rt_peers s ! q)"
      "rt_sess t = rt_sess s" "forwarded t = forwarded s" for q
    using assms(7) by (auto simp: updPeer_def nth_list_update)
  let ?t = "t\<lparr>relayed := relayed t + int (length b)\<rparr>"
  have "forwardData cfg env c b s = forwardLoop cfg env c ?p b (ss_peers (rt_sess s ! ?p)) ?t"
    using assms(1,3) by (simp add: forwardData_def d Let_def same)
  then show ?thesis
    using forwardLoop_reaches [OF assms(4-6), of c ?p "ss_peers (rt_sess s ! ?p)" ?t] by (simp add: same)
qed

section \<open>A run\<close>

definition ex_rt :: rt_cfg where
  "ex_rt = \<lparr>rt_crypto = ex_crypto, blake3_key = (\<lambda>b. b), bmpWriteTo = (\<lambda>s. if 5 \<in> s then [5] else [1]), privKey = None,
     cookieKey = Some ex_cookie_key, decodeCookieKeys = [], maxPingInterval = 60 * second, minPingInterval = 5 * second,
     dropPaymentLoopInterval = 3600 * second, replyErrorCodes = True, maxBanScore = 50, sessListingInterval = 30 * second,
     minSessListingInterval = 5 * second, disableForceListing = False, rotateCookieLifetime = 300 * second\<rparr>"

definition ex_io_rt :: rt_env where
  "ex_io_rt = \<lparr>write_fails = (\<lambda>_. False), randv2 = 0\<rparr>"

definition ex_jc :: "byte \<Rightarrow> u32 \<Rightarrow> u64 \<Rightarrow> u64 \<Rightarrow> bool \<Rightarrow> join_cookie" where
  "ex_jc k i tag allowance adm = \<lparr>jc_ServerSecret = replicate 32 1, jc_OwnerSecret = replicate 32 k, jc_Size = 3, jc_PeerID = i,
     jc_EndTimestamp = 3600, jc_PublishAllowance = allowance, jc_PaymentTag = tag, jc_IsAdmin = adm\<rparr>"

definition ex_raw :: "join_cookie \<Rightarrow> bytes" where
  "ex_raw jc = jc_Encrypt ex_crypto jc [] ex_cookie_key (replicate 24 0)"

definition ex_sid :: "byte \<Rightarrow> bytes" where
  "ex_sid k = replicate 32 1 @ replicate 32 k @ put_u32_be 3"

definition ex_packet :: "u32 \<Rightarrow> u32 \<Rightarrow> u32 \<Rightarrow> bytes \<Rightarrow> bytes" where
  "ex_packet t i q d = appendPacketHeader \<lparr>fp_Target = t, fp_Source = i, fp_Sequence = q, fp_Data = []\<rparr> [] @ d"

definition ex_join :: "nat \<Rightarrow> u32 \<Rightarrow> byte \<Rightarrow> u32 \<Rightarrow> u64 \<Rightarrow> u64 \<Rightarrow> bool \<Rightarrow> rt_event" where
  "ex_join addr q k i tag a adm = RtDatagram addr (ex_packet 0 i q (3 # ex_raw (ex_jc k i tag a adm)))"

definition ex_send :: "nat \<Rightarrow> u32 \<Rightarrow> u32 \<Rightarrow> rt_event" where
  "ex_send addr q i = RtDatagram addr (ex_packet i i q [42])"

definition ex_kick :: "nat \<Rightarrow> u32 \<Rightarrow> u32 \<Rightarrow> u32 \<Rightarrow> u32 \<Rightarrow> rt_event" where
  "ex_kick addr q i target secs = RtDatagram addr (ex_packet 0 i q (7 # put_u32_be target @ put_u32_be secs))"

lemma ex_packet_simps [simp]:
  "length (ex_packet t i q d) = 12 + length d" "getTarget (ex_packet t i q d) = t" "getSource (ex_packet t i q d) = i"
  "getSequence (ex_packet t i q d) = q" "drop 12 (ex_packet t i q d) = d"
  by (simp_all add: ex_packet_def appendPacketHeader_def getTarget_def getSource_def getSequence_def)

lemma length_ex_raw [simp]: "length (ex_raw (ex_jc k i tag a adm)) = 157"
proof -
  have "length (jc_data (ex_jc k i tag a adm)) = 101" by (rule length_cookie_data) (simp_all add: ex_jc_def)
  then show ?thesis by (simp add: ex_raw_def jc_Encrypt_def sealCookie_def) (simp add: ex_crypto_def ex_cookie_key_def)
qed

lemma ex_opens [simp]: "jc_Decrypt ex_crypto (ex_raw (ex_jc k i tag a adm)) ex_cookie_key [] = Inr (ex_jc k i tag a adm)"
proof -
  let ?j = "ex_jc k i tag a adm"
  have "wf_cookie (JoinCookie ?j)" by (simp add: ex_jc_def)
  moreover have "cookie_laws ex_crypto [ex_cookie_key, ex_cookie_key]" by (rule ex_cookie_laws) (simp add: ex_cookie_key_def)
  ultimately show ?thesis
    using join_kind.decrypt_seal [of ex_crypto ex_cookie_key ex_cookie_key "[]" "replicate 24 0" "JoinCookie ?j" ?j]
    by (simp add: ex_raw_def)
qed

lemma ex_sid_eq [simp]: "sessionIDFromJoinCookie ex_rt (ex_jc k i tag a adm) = ex_sid k"
  by (simp add: sessionIDFromJoinCookie_def calcSessionID_def ex_rt_def ex_jc_def ex_sid_def)

lemma ex_sid_inj [simp]: "ex_sid k = ex_sid l \<longleftrightarrow> k = l"
  by (simp add: ex_sid_def replicate_eq_replicate)

lemma ex_rt_sel [simp]: "rt_crypto ex_rt = ex_crypto" "privKey ex_rt = None" "cookieKey ex_rt = Some ex_cookie_key"
  "decodeCookieKeys ex_rt = []" "replyErrorCodes ex_rt = True" "bmpWriteTo ex_rt B = (if 5 \<in> B then [5] else [1])"
  by (simp_all add: ex_rt_def)

lemma ex_jc_sel [simp]: 
  "jc_Size (ex_jc k i tag a adm) = 3"
  "jc_PeerID (ex_jc k i tag a adm) = i" "jc_EndTimestamp (ex_jc k i tag a adm) = 3600" "jc_PublishAllowance (ex_jc k i tag a adm) = a"
  "jc_PaymentTag (ex_jc k i tag a adm) = tag" "jc_IsAdmin (ex_jc k i tag a adm) = adm"
  by (simp_all add: ex_jc_def)

lemma ex_sendCmd:
  "sendCmd ex_rt ex_io_rt c i cmd s =
     (None, (updConn c (\<lambda>cn. cn\<lparr>sendSeq := sendSeq cn + 1\<rparr>) s)
        \<lparr>rt_out := rt_out s @ [(c, ex_packet i 0 (sendSeq (rt_conns s ! c) + 1) (cmd_type cmd # cmd_payload cmd))]\<rparr>)"
  by (simp add: sendCmd_def nextSendSeq_def Let_def listenerWrite_def packetOnWire_def ex_io_rt_def ex_packet_def
      cmd_AppendFramed_def updConn_def)

lemmas ex_defs = joinBind_def joinRequest_def validateJoinCookie_def bindToSession_def loadSession_def isBanned_def bindPeer_def bindNew_def bindReplace_def
  newPeer_def addMember_def addPayment_def updSess_def updConn_def updPeer_def newSession_def newConn_def addConn_def addBanScore_def rt_newServer_def
  RTDTMaxMessageSize_def rtStep_def readDatagram_def listenerReadNext_def listenerReadConn_def handlePacket_def
  connHandleInternalPkt_def ServerCmd_def toPacket_def handleJoin_def replyCode_def ex_sendCmd Let_def
  MayAccept_def newTracker_def from_unix_def second_def RemovePeer_def winSize_def forwardData_def deductAllowance_def
  nextSendSeq_def listenerWrite_def packetOnWire_def ex_join_def ex_send_def ex_kick_def


lemma write_fails_ex [simp]: "write_fails ex_io_rt = (\<lambda>_. False)"
  by (simp add: ex_io_rt_def)

definition ex_s2 :: rt_state where
  "ex_s2 = rtStep ex_rt ex_io_rt second (ex_join 20 1 1 6 2 1000 False)
     (rtStep ex_rt ex_io_rt second (ex_join 10 1 1 5 1 1000 True) (rt_newServer 0))"

definition ex_s3 :: rt_state where
  "ex_s3 = rtStep ex_rt ex_io_rt second (ex_send 10 2 5) ex_s2"

lemma ex_reachable: "rt_reachable ex_rt ex_s2" "rt_reachable ex_rt ex_s3"
  by (simp_all add: ex_s3_def ex_s2_def rt_reachable.intros)

definition ex_fwd :: rt_fwd where
  "ex_fwd = \<lparr>fw_src = 0, fw_srcID = 5, fw_dst = 1, fw_dstID = 6, fw_sess = 0, fw_in = ex_packet 5 5 2 [42],
     fw_out = setSequence 2 (setTarget 6 (ex_packet 5 5 2 [42]))\<rparr>"

lemma ex_s3_eq: "forwarded ex_s3 = [ex_fwd]" "relayed ex_s3 = 13" "redeemed ex_s3 = [(1, 3600, 1000), (2, 3600, 1000)]" "\<not> wrapped ex_s3"
  by (simp_all add: ex_s3_def ex_s2_def ex_defs ex_fwd_def)

lemma ex_cfg_ok: "cfg_ok ex_rt"
  by (simp add: cfg_ok_def ex_rt_def second_def ex_crypto_laws)


definition ex_one :: rt_state where
  "ex_one = addConn (newConn 10 second) (rt_newServer 0)"


definition ex_kicked :: rt_state where
  "ex_kicked = snd (kickFromSession ex_rt second 0 5 6 60 ex_s2)"

definition ex_later :: rt_state where
  "ex_later = rtStep ex_rt ex_io_rt (61 * second) (ex_join 20 2 1 6 2 1000 False) ex_kicked"


theorem relay_reaches_all_witness:
  "map (\<lambda>f. (fw_dst f, fw_dstID f)) (forwarded (forwardData ex_rt ex_io_rt 0 (ex_packet 5 5 2 [42]) ex_s2)) = [(1, 6)]"
proof -
  let ?b = "ex_packet 5 5 2 [42]"
  have f: "map (\<lambda>f. (fw_dst f, fw_dstID f)) fs = [(1, 6)]" if "map (\<lambda>f. (fw_dst f, fw_dstID f, fw_in f)) fs = [(1, 6, ?b)]" for fs
    using that by auto
  have "map_of (cn_sessions (rt_conns ex_s2 ! 0)) (getSource ?b) = Some 0" "fst (deductAllowance 0 (of_nat (length ?b)) ex_s2)"
      "int (length (ss_peers (rt_sess ex_s2 ! ps_sess (rt_peers ex_s2 ! 0)))) \<le> ps_size (rt_peers ex_s2 ! 0)"
      "0 < length (rt_peers ex_s2)" "forwarded ex_s2 = []"
      "map (\<lambda>q. (ps_conn (rt_peers ex_s2 ! q), ps_peerID (rt_peers ex_s2 ! q), ?b))
        (filter (\<lambda>q. ps_conn (rt_peers ex_s2 ! q) \<noteq> 0) (ss_peers (rt_sess ex_s2 ! ps_sess (rt_peers ex_s2 ! 0)))) = [(1, 6, ?b)]"
    by (simp_all add: ex_s2_def ex_defs)
  then show ?thesis
    using relay_reaches_all [of ex_s2 0 ?b 0 ex_io_rt ex_rt] f by auto
qed

definition ex_kick_run :: rt_state where
  "ex_kick_run = rtStep ex_rt ex_io_rt second (ex_kick 10 2 5 6 60) ex_s2"

lemma ex_kick_run_eq: "adminOps ex_kick_run = [(0, 5, 0)]" "map jn_peer (joined ex_kick_run) = [5, 6]"
  "map jn_admin (joined ex_kick_run) = [True, False]"
  by (simp_all add: ex_kick_run_def ex_s2_def kickFromSession_def PeerConn_def BanTarget_def removeFromSession_def handleKick_def
      cmd_FromBytes_def removePeerSession_def ex_defs)

theorem admin_only_witness: "map jn_peer (filter jn_admin (joined ex_kick_run)) = [5]"
proof -
  have "rt_reachable ex_rt ex_kick_run" unfolding ex_kick_run_def by (intro rt_reachable.intros ex_reachable)
  from admin_only [OF this, of 0 5 0] obtain j where "j \<in> set (joined ex_kick_run)" "jn_peer j = 5" "jn_admin j"
    by (auto simp: ex_kick_run_eq)
  with ex_kick_run_eq(2,3) show ?thesis by (cases "joined ex_kick_run") auto
qed

theorem members_exact_witness: "bmp (rt_sess ex_s2 ! 0) = {5, 6}"
proof -
  have "0 < length (rt_sess ex_s2)" "map (\<lambda>ps. ps_peerID (rt_peers ex_s2 ! ps)) (ss_peers (rt_sess ex_s2 ! 0)) = [5, 6]"
    by (simp_all add: ex_s2_def ex_defs)
  then show ?thesis
    using members_exact [OF ex_reachable(1), of 0] by (metis list.set_map list.simps(15) set_empty2 list.set(1))
qed

theorem allowance_respected_witness: "relayed ex_s3 \<le> 2000"
  using allowance_respected [OF ex_reachable(2) ex_cfg_ok ex_s3_eq(4)] by (simp add: ex_s3_eq)

theorem rotation_once_witness: "distinct (rotated ex_s3)"
  by (rule rotation_once [OF ex_reachable(2) ex_cfg_ok])

section \<open>Runs that go wrong\<close>

lemmas ex_more_defs = kickFromSession_def PeerConn_def BanTarget_def removeFromSession_def handleKick_def cmd_FromBytes_def
  removePeerSession_def

text \<open>Two connections that use the same peer id in two sessions crash the server: with the fifth join the connection's map has no
  entry for the peer, and the payment is added to a nil pointer.\<close>

definition ex_swap3 :: rt_state where
  "ex_swap3 =
     rtStep ex_rt ex_io_rt second (ex_join 10 2 2 5 3 1000 False)
       (rtStep ex_rt ex_io_rt second (ex_join 20 1 2 5 2 1000 False)
         (rtStep ex_rt ex_io_rt second (ex_join 10 1 1 5 1 1000 True) (rt_newServer 0)))"

lemma five_joins_panic:
  "rt_halted (rtStep ex_rt ex_io_rt second (ex_join 10 3 2 5 5 1000 False)
     (rtStep ex_rt ex_io_rt second (ex_join 20 2 1 5 4 1000 False) ex_swap3)) = Some HaltPanic"
  by (simp add: ex_swap3_def ex_defs)

text \<open>After three of these joins the first connection is bound to the peer object that the second one made, and although it
  has moved to the second session it is still a member of the first: data sent there goes to it.\<close>

lemma ghost_receives_data:
  "map_of (cn_sessions (rt_conns ex_swap3 ! 0)) 5 = Some 1 \<and> ps_conn (rt_peers ex_swap3 ! 1) = 1 \<and>
   ss_sid (rt_sess ex_swap3 ! ps_sess (rt_peers ex_swap3 ! 1)) = ex_sid 2 \<and>
   map (\<lambda>f. (fw_dst f, fw_sess f))
     (forwarded (rtStep ex_rt ex_io_rt second (ex_send 30 2 7)
       (rtStep ex_rt ex_io_rt second (ex_join 30 1 1 7 6 1000 False) ex_swap3))) = [(0, 0)]"
  by (simp add: ex_swap3_def ex_defs)

text \<open>A connection that takes over the peer id of an admin with a cookie that does not make it an admin kicks another peer.\<close>

lemma takeover_keeps_admin:
  "adminOps (rtStep ex_rt ex_io_rt second (ex_kick 30 2 5 6 60)
     (rtStep ex_rt ex_io_rt second (ex_join 30 1 1 5 3 1000 False) ex_s2)) = [(2, 5, 0)]"
  by (simp add: ex_s2_def ex_defs ex_more_defs)

text \<open>When the last other peer leaves, the session is dropped with its bans, and a banned peer joins again.\<close>

lemma ban_lost_when_empty:
  "fst (joinBind ex_rt ex_io_rt (2 * second) 1 6 (ex_raw (ex_jc 1 6 2 1000 False))
     (snd (removeFromSession ex_rt 0 5 ex_kicked))) = Inr 1"
  by (simp add: ex_kicked_def ex_s2_def ex_defs ex_more_defs)

text \<open>A peer that moves to another session leaves an empty session in the table.\<close>

lemma empty_session_stays:
  "map (\<lambda>(i, p). (i, ss_peers (rt_sess s ! p))) (sessTable s) = [(ex_sid 1, []), (ex_sid 2, [1])]"
  if "s = rtStep ex_rt ex_io_rt second (ex_join 10 2 2 5 2 1000 False)
        (rtStep ex_rt ex_io_rt second (ex_join 10 1 1 5 1 1000 True) (rt_newServer 0))"
  by (simp add: that ex_defs)

text \<open>The debt of exhausted payments. When a payment does not cover a packet its allowance becomes negative, and the payment is
  dropped from the peer; but joining again with its cookie adds it again, and then its debt is added to the amount
  that the next payment is charged. With twenty cookies the amounts overflow after some rounds, and the allowance
  becomes positive.\<close>

fun debtLoop :: "u64 \<Rightarrow> u64 list \<Rightarrow> bool \<times> u64 list" where
  "debtLoop n [] = (False, [])"
| "debtLoop n (a # as) =
     (if sint n \<le> 0 then (False, a # as)
      else if sint (a - n) < 0 then (case debtLoop (- (a - n)) as of (r, bs) \<Rightarrow> (r, (a - n) # bs))
      else (True, (a - n) # as))"

lemma deductLoop_debt:
  "j \<le> length pays \<Longrightarrow> (case deductLoop n [j..<length pays] pays of (res, kept, pays', w) \<Rightarrow>
     (res, map bytesAllowance pays')) =
   (case debtLoop n (map bytesAllowance (drop j pays)) of (res, as) \<Rightarrow> (res, map bytesAllowance (take j pays) @ as))"
proof (induction "length pays - j" arbitrary: j n pays)
  case (Suc k)
  let ?a = "bytesAllowance (pays ! j)"
  let ?pays = "pays[j := (pays ! j)\<lparr>bytesAllowance := ?a - n\<rparr>]"
  have j: "j < length pays" using Suc(2) by simp
  then have up: "[j..<length pays] = j # [Suc j..<length pays]" "drop j pays = pays ! j # drop (Suc j) pays"
      "take j pays @ [pays ! j] = take (Suc j) pays" "take (Suc j) ?pays = take j pays @ [(pays ! j)\<lparr>bytesAllowance := ?a - n\<rparr>]"
    by (simp_all add: upt_conv_Cons Cons_nth_drop_Suc take_Suc_conv_app_nth)
  have IH: "(case deductLoop m [Suc j..<length pays] ?pays of (res, kept, pays', w) \<Rightarrow> (res, map bytesAllowance pays')) =
    (case debtLoop m (map bytesAllowance (drop (Suc j) pays)) of (res, as) \<Rightarrow> (res, map bytesAllowance (take j pays) @ (?a - n) # as))" for m
    using Suc(1) [of ?pays "Suc j" m] Suc(2) j by (simp add: up(4))
  have e: "map bytesAllowance pays = map bytesAllowance (take j pays) @ ?a # map bytesAllowance (drop (Suc j) pays)"
    using j by (metis id_take_nth_drop list.simps(9) map_append)
  have e2: "map bytesAllowance ?pays = map bytesAllowance (take j pays) @ (?a - n) # map bytesAllowance (drop (Suc j) pays)"
    using j by (simp add: e map_update list_update_append)
  show ?case
    using IH [of "- (?a - n)"] e e2 by (simp add: up(1,2) Let_def split: prod.splits)
qed simp

fun debtRounds :: "nat \<Rightarrow> u64 list \<Rightarrow> bool \<times> u64 list" where
  "debtRounds 0 as = (False, as)"
| "debtRounds (Suc k) as =
     (case debtLoop 65535 as of (True, bs) \<Rightarrow> (True, bs) | (False, bs) \<Rightarrow> debtRounds k bs)"

lemma debtRounds_numeral: "debtRounds (numeral k) as =
     (case debtLoop 65535 as of (True, bs) \<Rightarrow> (True, bs) | (False, bs) \<Rightarrow> debtRounds (pred_numeral k) bs)"
  by (simp add: numeral_eq_Suc)
lemma debt_overflows: "fst (debtRounds 40 [0, 0, 0, 0, 0, 0, 0, 0, 0, 0, 0, 0, 0, 0, 0, 0, 0, 0, 0, 0])"
  by (simp add: debtRounds_numeral)
end
