(* ===== verification/Rtdt_System.thy ===== *)
theory Rtdt_System
  imports Server_Rtdt Rtdt_Promises
begin

text \<open>
  The two servers together: the cookies that the server (\<open>Server_Rtdt\<close>) issues for a real-time session, and what the datagram
  server (\<open>Rtdt_Server\<close>) does with them. The two share the key of the cookies and nothing else.
\<close>

section \<open>From the appointment to the members\<close>

lemma loadSession_bound:
  assumes "bindToSession cfg now c i pay k sz adm s = (Inr p, t)"
  shows "map_of (sessTable t) k = Some p"
proof -
  obtain q s1 where l: "loadSession k s = (q, s1)" by (cases "loadSession k s")
  then have q: "map_of (sessTable s1) k = Some q"
    by (auto simp: loadSession_def Let_def update_conv' split: option.splits)
  have bp: "sessTable (bindPeer cfg c x k' s') = sessTable s'" for x k' s'
    by (auto simp: bindPeer_def bindNew_def bindReplace_def newPeer_def RemovePeer_def Let_def split: option.splits)
  from assms l show ?thesis
  proof (cases rule: bindToSession_cases)
    case (2 x u)
    then show ?thesis using q bp by (auto simp: addPayment_def updPeer_def)
  qed simp
qed

lemma joinBind_with:
  assumes "cookieKey cfg = Some key" "jc_Decrypt (rt_crypto cfg) raw key (decodeCookieKeys cfg) = Inr jc"
    "joinBind cfg env now c i raw s = (Inr p, t)"
  obtains pay s1 where "sessTable s1 = sessTable s"
    "bindToSession cfg now c i pay (sessionIDFromJoinCookie cfg jc) (jc_Size jc) (jc_IsAdmin jc) s1 = (Inr p, t)"
proof -
  obtain r s1 where v: "validateJoinCookie cfg key now i raw s = (r, s1)" by (cases "validateJoinCookie cfg key now i raw s")
  then have "sessTable s1 = sessTable s \<and> ((\<exists>e. r = Inl e) \<or> (\<exists>pay. r = Inr (jc, pay)))"
    using assms(2) by (auto simp: validateJoinCookie_def Let_def split: option.splits if_splits)
  then show ?thesis
    using that assms(1,3) v by (auto simp: joinBind_def joinRequest_def)
qed

lemma joinBind_peer:
  assumes "cookieKey cfg = Some key" "jc_Decrypt (rt_crypto cfg) raw key (decodeCookieKeys cfg) = Inr jc"
    "joinBind cfg env now c i raw s = (Inr p, t)"
  shows "i = jc_PeerID jc"
  using assms by (auto simp: joinBind_def joinRequest_def validateJoinCookie_def Let_def split: prod.splits option.splits if_splits)

lemma joins_meet:
  assumes "cookieKey cfg = Some key" "jc_Decrypt (rt_crypto cfg) raw1 key (decodeCookieKeys cfg) = Inr jc1"
    "jc_Decrypt (rt_crypto cfg) raw2 key (decodeCookieKeys cfg) = Inr jc2"
    "sessionIDFromJoinCookie cfg jc1 = sessionIDFromJoinCookie cfg jc2"
    "joinBind cfg env1 now1 c1 i1 raw1 s = (Inr p, t)" "joinBind cfg env2 now2 c2 i2 raw2 t = (Inr q, u)"
  shows "p = q"
proof -
  obtain pay1 s1 where b1: "bindToSession cfg now1 c1 i1 pay1 (sessionIDFromJoinCookie cfg jc1) (jc_Size jc1) (jc_IsAdmin jc1) s1 = (Inr p, t)"
    by (rule joinBind_with [OF assms(1,2,5)])
  obtain pay2 s2 where b2: "sessTable s2 = sessTable t"
      "bindToSession cfg now2 c2 i2 pay2 (sessionIDFromJoinCookie cfg jc2) (jc_Size jc2) (jc_IsAdmin jc2) s2 = (Inr q, u)"
    by (rule joinBind_with [OF assms(1,3,6)])
  have "map_of (sessTable s2) (sessionIDFromJoinCookie cfg jc2) = Some p"
    using loadSession_bound [OF b1] b2(1) assms(4) by simp
  then show ?thesis using bindToSession_bound [OF b2(2)] by (simp add: loadSession_def)
qed

lemma appointed_cookie:
  assumes "handleGetRTDTAppointCookie env cfg sessionCookie owner peers old pay = Some (Inr (GetRTDTAppointCookiesReply cs rot), pay')"
    "handleAppointRTDTServer env1 cfg (cs ! n) pay1 = Some (Inr (AppointRTDTServerReply j addr pub), pay1')" "n < length peers"
    "RTDTCookieKey cfg = Some key" "cookie_laws (svrCrypto cfg) (key # key # RTDTDecodeCookieKeys cfg)"
    "\<And>i. length (randomNonce env i) = 24" "length owner = 32" "length (randomNonce env1 0) = 24"
    "cookie_laws (svrCrypto cfg) (key # rkey # rkeys)" "key \<in> set (rkey # rkeys)"
  obtains sc m ac where "sc_Decrypt (svrCrypto cfg) sessionCookie key (RTDTDecodeCookieKeys cfg) = Inr sc"
    "jc_Decrypt (svrCrypto cfg) j rkey rkeys = Inr (joinCookie env1 ac m)"
    "ac = \<lparr>ac_ServerSecret = sc_ServerSecret sc, ac_OwnerSecret = owner, ac_Size = sc_Size sc, ac_PeerID = ap_ID (peers ! n),
             ac_AllowedAsPublisher = ap_AllowedAsPublisher (peers ! n), ac_IsAdmin = ap_IsAdmin (peers ! n)\<rparr>"
proof -
  obtain sc where sc: "sc_Decrypt (svrCrypto cfg) sessionCookie key (RTDTDecodeCookieKeys cfg) = Inr sc"
      "cs = appointCookies env cfg key sc owner 0 peers"
    using assms(1,4) by (auto simp: handleGetRTDTAppointCookie_def withKey_opened split: option.splits prod.splits sum.splits if_splits)
  let ?ac = "\<lparr>ac_ServerSecret = sc_ServerSecret sc, ac_OwnerSecret = owner, ac_Size = sc_Size sc, ac_PeerID = ap_ID (peers ! n),
             ac_AllowedAsPublisher = ap_AllowedAsPublisher (peers ! n), ac_IsAdmin = ap_IsAdmin (peers ! n)\<rparr>"
  have m: "map (\<lambda>c. ac_Decrypt (svrCrypto cfg) c key (RTDTDecodeCookieKeys cfg)) cs =
      map (\<lambda>p. Inr \<lparr>ac_ServerSecret = sc_ServerSecret sc, ac_OwnerSecret = owner, ac_Size = sc_Size sc, ac_PeerID = ap_ID p,
                      ac_AllowedAsPublisher = ap_AllowedAsPublisher p, ac_IsAdmin = ap_IsAdmin p\<rparr>) peers"
    unfolding sc(2) by (rule appointCookies_open [OF assms(4-6) sc_Decrypt_wf [OF sc(1)] assms(7)])
  have len: "length cs = length peers" using arg_cong [OF m, of length] by simp
  have ac: "ac_Decrypt (svrCrypto cfg) (cs ! n) key (RTDTDecodeCookieKeys cfg) = Inr ?ac"
    using arg_cong [OF m, of "\<lambda>xs. xs ! n"] len assms(3) by simp
  obtain k a paid mb where r: "RTDTCookieKey cfg = Some k" "ac_Decrypt (svrCrypto cfg) (cs ! n) k (RTDTDecodeCookieKeys cfg) = Inr a"
    "j = jc_Encrypt (svrCrypto cfg) (joinCookie env1 a mb) [] k (randomNonce env1 0)"
    by (rule appoint_reply [OF assms(2)])
  then have "j = jc_Encrypt (svrCrypto cfg) (joinCookie env1 ?ac mb) [] key (randomNonce env1 0)" using assms(4) ac by simp
  moreover have "jc_Decrypt (svrCrypto cfg) (jc_Encrypt (svrCrypto cfg) (joinCookie env1 ?ac mb) [] key (randomNonce env1 0)) rkey rkeys =
      Inr (joinCookie env1 ?ac mb)"
    using sc_Decrypt_wf [OF sc(1)] assms(7) by (intro cookies_open(3) [OF assms(9,8,10)]) simp_all
  ultimately show ?thesis by (intro that [OF sc(1) _ refl, of mb]) simp
qed



text \<open>Nothing stands in the way of peer \<open>i\<close> in a session: it is not banned, and if it is a member already then with the same size.\<close>

definition mayEnter :: "time \<Rightarrow> u32 \<Rightarrow> u32 \<Rightarrow> bytes \<Rightarrow> rt_state \<Rightarrow> bool" where
  "mayEnter now i sz k s \<longleftrightarrow>
     (case map_of (sessTable s) k of
        None \<Rightarrow> True
      | Some p \<Rightarrow> p < length (rt_sess s) \<and> \<not> fst (isBanned now i (rt_sess s ! p)) \<and>
          list_all (\<lambda>ps. ps_peerID (rt_peers s ! ps) = i \<longrightarrow> ps_size (rt_peers s ! ps) = uint sz) (ss_peers (rt_sess s ! p)))"

lemma isBanned_peers [simp]: "ss_peers (snd (isBanned now i ss)) = ss_peers ss"
  by (auto simp: isBanned_def split: option.split)

lemma bindToSession_mayEnter:
  assumes "mayEnter now i sz k s"
  shows "fst (bindToSession cfg now c i pay k sz adm s) = Inr (fst (loadSession k s))"
proof -
  obtain p s1 where l: "loadSession k s = (p, s1)" by (cases "loadSession k s")
  obtain b ss where b: "isBanned now i (rt_sess s1 ! p) = (b, ss)" by (cases "isBanned now i (rt_sess s1 ! p)")
  have peers: "ss_peers ss = ss_peers (rt_sess s1 ! p)" using isBanned_peers [of now i "rt_sess s1 ! p"] by (simp add: b)
  have "\<not> b \<and> p < length (rt_sess s1) \<and>
      list_all (\<lambda>ps. ps_peerID (rt_peers s1 ! ps) = i \<longrightarrow> ps_size (rt_peers s1 ! ps) = uint sz) (ss_peers (rt_sess s1 ! p))"
    using assms l b by (auto simp: mayEnter_def loadSession_def Let_def newSession_def isBanned_def split: option.splits)
  then show ?thesis
    using peers findIndex_Some
    by (fastforce simp: bindToSession_def l b Let_def list_all_iff split: option.splits)
qed


section \<open>A session from its creation to its first members\<close>

definition ex_two :: rt_state where
  "ex_two = addConn (newConn 20 second) ex_one"

lemma ex_cookie_key_eq: "ex_cookie_key = ex_key"
  by (simp add: ex_cookie_key_def)

lemma ex_fetch:
  "handleAppointRTDTServer ex_pay_env ex_svr (ex_cs ! 0) ex_rt_pay =
     Some (Inr (AppointRTDTServerReply (ex_join_raw 5) ''rtdt'' None), ex_rt_pay\<lparr>lnPublishInRTSessHash := None\<rparr>)"
  "handleAppointRTDTServer ex_pay_env ex_svr (ex_cs ! 1) ex_rt_pay =
     Some (Inr (AppointRTDTServerReply (ex_join_raw 6) ''rtdt'' None), ex_rt_pay\<lparr>lnPublishInRTSessHash := None\<rparr>)"
proof -
  have "length ex_cs = 2" using arg_cong [OF ex_cs_open, of length] by simp
  then show "handleAppointRTDTServer ex_pay_env ex_svr (ex_cs ! 0) ex_rt_pay =
     Some (Inr (AppointRTDTServerReply (ex_join_raw 5) ''rtdt'' None), ex_rt_pay\<lparr>lnPublishInRTSessHash := None\<rparr>)"
    "handleAppointRTDTServer ex_pay_env ex_svr (ex_cs ! 1) ex_rt_pay =
     Some (Inr (AppointRTDTServerReply (ex_join_raw 6) ''rtdt'' None), ex_rt_pay\<lparr>lnPublishInRTSessHash := None\<rparr>)"
    using arg_cong [OF ex_cs_open, of "\<lambda>xs. xs ! 0"] arg_cong [OF ex_cs_open, of "\<lambda>xs. xs ! 1"] by (simp_all add: ex_appointed)
qed

lemma ex_join_sel:
  "jc_EndTimestamp (joinCookie ex_pay_env (ex_appoint 3 i) 3) = 3700"
  "sessionIDFromJoinCookie ex_rt (joinCookie ex_pay_env (ex_appoint 3 i) 3) = replicate 32 3 @ replicate 32 1 @ put_u32_be 3"
  "jc_PeerID (joinCookie ex_pay_env (ex_appoint 3 i) 3) = i" "jc_Size (joinCookie ex_pay_env (ex_appoint 3 i) 3) = 3"
  "jc_PaymentTag (joinCookie ex_pay_env (ex_appoint 3 i) 3) = 11"
  by (simp_all add: joinCookie_def ex_pay_env_def ex_appoint_def hour_def second_def time_unix_def from_unix_def sessionIDFromJoinCookie_def
      calcSessionID_def ex_rt_def)

definition ex_meet1 :: rt_state where
  "ex_meet1 = snd (joinBind ex_rt ex_io_rt second 0 5 (ex_join_raw 5) ex_two)"

lemma ex_meet:
  "joinBind ex_rt ex_io_rt second 0 5 (ex_join_raw 5) ex_two = (Inr 0, ex_meet1)"
  "fst (joinBind ex_rt ex_io_rt second 1 6 (ex_join_raw 6) ex_meet1) = Inr 0"
  by (rule prod_eqI)
    (simp_all add: ex_meet1_def ex_two_def ex_one_def ex_cookie_key_eq ex_join_sel ex_defs del: joinCookie_sel)



end
