(* ===== verification/Sendq.thy ===== *)
theory Sendq
  imports ShortID
begin

text \<open>
  The send queue of the client, from \<^verbatim>\<open>src/client/client_sendq.go\<close> and
  \<^verbatim>\<open>src/client/clientdb/sendqueue.go\<close>: outbound messages are stored in one file per message, with
  the users it still has to go to, before they are handed to the message queue, and the files that
  are left over are sent again when the client starts. Composing and decomposing a message (signing,
  JSON, compression), the users that are known, the outcome of queueing and of sending are
  parameters; the files are a map from the random identifier of an element to the element. The
  lemmas show where every destination of a message ends up, that the loop over the left-over
  messages returns after at most five attempts for each, and what it leaves in the database.
\<close>

section \<open>Elements and their storage\<close>

record SendQueueFileChunk =
  fc_Filename :: string
  fc_Offset :: nat
  fc_Size :: nat
  fc_RMType :: string
  fc_FileID :: string
  fc_Index :: int

record SendQueueElement =
  el_ID :: bytes
  el_Type :: string
  Dests :: "bytes list"
  el_Msg :: bytes
  el_Priority :: nat
  AddTs :: int
  el_FileChunk :: "SendQueueFileChunk option"

type_synonym sendq_db = "(bytes, SendQueueElement) gomap"

datatype sq_error =
    ErrCompose | ErrDecompose | ErrChunk | ErrRMTooLarge | ErrSubsysExiting | ErrPriority
  | ErrSendqNotFound | ErrNoRandomID | ErrSendqOther

text \<open>
  What the queue relies on: the composition of messages, the files chunks are read from, the reply
  message of a chunk, the largest message size, the local user, the users with a session, the users
  whose session is stopped and the outcome of handing a message to the message queue.
\<close>

record 'm sendq_env =
  compose :: "'m \<Rightarrow> bytes option"
  decompose :: "bytes \<Rightarrow> 'm option"
  files :: "string \<Rightarrow> bytes option"
  chunkReply :: "string \<Rightarrow> int \<Rightarrow> bytes \<Rightarrow> 'm"
  MaxMsgSize :: nat
  myID :: bytes
  byID :: "bytes \<Rightarrow> bool"
  isStopped :: "bytes \<Rightarrow> bool"
  QueueRM :: "bytes \<Rightarrow> 'm \<Rightarrow> sq_error option"

definition RMCFTGetChunkReply :: string where
  "RMCFTGetChunkReply = ''ftgetchunkreply''"

definition ReadChunkData :: "('m, 'z) sendq_env_scheme \<Rightarrow> SendQueueFileChunk \<Rightarrow> bytes option" where
  "ReadChunkData env fc =
    (case files env (fc_Filename fc) of
      None \<Rightarrow> None
    | Some b \<Rightarrow>
        (let out = take (fc_Size fc) (drop (fc_Offset fc) b)
         in if length out = fc_Size fc then Some out else None))"

definition FileChunk_RM :: "('m, 'z) sendq_env_scheme \<Rightarrow> SendQueueFileChunk \<Rightarrow> 'm option" where
  "FileChunk_RM env fc =
    (if fc_RMType fc = RMCFTGetChunkReply
     then map_option (chunkReply env (fc_FileID fc) (fc_Index fc)) (ReadChunkData env fc)
     else None)"

definition randomIDInDir :: "bytes list \<Rightarrow> sendq_db \<Rightarrow> bytes option" where
  "randomIDInDir draws db = List.find (\<lambda>i. map_of db i = None) (take 999999999 draws)"

definition AddToSendQueue ::
  "bytes list \<Rightarrow> int \<Rightarrow> string \<Rightarrow> bytes list \<Rightarrow> bytes \<Rightarrow> SendQueueFileChunk option \<Rightarrow> nat
     \<Rightarrow> sendq_db \<Rightarrow> (sq_error + bytes) \<times> sendq_db" where
  "AddToSendQueue draws now typ dests msg fileChunk priority db =
    (case randomIDInDir draws db of
      None \<Rightarrow> (Inl ErrNoRandomID, db)
    | Some i \<Rightarrow>
        (Inr i, AList.update i \<lparr>el_ID = i, el_Type = typ, Dests = dests, el_Msg = msg,
           el_Priority = priority, AddTs = now, el_FileChunk = fileChunk\<rparr> db))"

definition RemoveFromSendQueue :: "bytes \<Rightarrow> bytes \<Rightarrow> sendq_db \<Rightarrow> sq_error option \<times> sendq_db" where
  "RemoveFromSendQueue i dest db =
    (case map_of db i of
      None \<Rightarrow> (Some ErrSendqNotFound, db)
    | Some el \<Rightarrow>
        (let ds = remove1 dest (Dests el)
         in if ds = [] then (None, AList.delete i db)
            else (None, AList.update i (el\<lparr>Dests := ds\<rparr>) db)))"

text \<open>Elements without destinations are removed while listing; the others come in the order they were added.\<close>

definition ListSendQueue :: "sendq_db \<Rightarrow> SendQueueElement list \<times> sendq_db" where
  "ListSendQueue db =
    (sort_key AddTs (filter (\<lambda>el. Dests el \<noteq> []) (map snd db)),
     filter (\<lambda>(i, el). Dests el \<noteq> []) db)"

definition SendQueueLen :: "sendq_db \<Rightarrow> nat \<times> nat" where
  "SendQueueLen db = (length db, sum_list (map (\<lambda>(i, el). length (Dests el)) db))"

record UnackedRM =
  un_UID :: bytes
  un_Encrypted :: bytes
  un_RV :: bytes
  un_PayEvent :: string

type_synonym unacked_db = "(bytes \<times> bytes, UnackedRM) gomap"

definition StoreUserUnackedRM :: "bytes \<Rightarrow> bytes \<Rightarrow> bytes \<Rightarrow> string \<Rightarrow> unacked_db \<Rightarrow> unacked_db" where
  "StoreUserUnackedRM u encrypted rv payEvent db =
    AList.update (u, rv) \<lparr>un_UID = u, un_Encrypted = encrypted, un_RV = rv, un_PayEvent = payEvent\<rparr> db"

definition RemoveUserUnackedRMWithRV :: "bytes \<Rightarrow> bytes \<Rightarrow> unacked_db \<Rightarrow> bool \<times> unacked_db" where
  "RemoveUserUnackedRMWithRV u rv db = (map_of db (u, rv) \<noteq> None, AList.delete (u, rv) db)"

definition ListUnackedUserRMs :: "unacked_db \<Rightarrow> UnackedRM list" where
  "ListUnackedUserRMs db = map snd db"

section \<open>Sending through the queue\<close>

datatype 'm rmOrFileChunk = SendRM 'm | SendChunk SendQueueFileChunk

definition EstimateRoutedRMWireSize :: "nat \<Rightarrow> nat" where
  "EstimateRoutedRMWireSize n = (n + 2) div 3 * 4 + 512"

text \<open>
  \<^verbatim>\<open>slices.DeleteFunc\<close> moves the kept elements to the front of the array and clears the rest of it;
  the array belongs to the caller, who goes on using it at its full length.
\<close>

definition zeroID :: bytes where
  "zeroID = replicate 32 0"

definition deleteMine :: "bytes \<Rightarrow> bytes list \<Rightarrow> bytes list \<times> bytes list" where
  "deleteMine me dests =
    (let kept = filter (\<lambda>d. d \<noteq> me) dests
     in (kept, kept @ replicate (length dests - length kept) zeroID))"

definition addToSendQ ::
  "('m, 'z) sendq_env_scheme \<Rightarrow> bytes list \<Rightarrow> int \<Rightarrow> string \<Rightarrow> 'm rmOrFileChunk \<Rightarrow> nat \<Rightarrow> bytes list
     \<Rightarrow> sendq_db \<Rightarrow> (sq_error + bytes) \<times> sendq_db" where
  "addToSendQ env draws now typ item priority dests db =
    (let (mine, _) = deleteMine (myID env) dests
     in case (case item of
          SendChunk fc \<Rightarrow> Inr ([], Some fc, EstimateRoutedRMWireSize (fc_Size fc))
        | SendRM rm \<Rightarrow>
            (case compose env rm of
              None \<Rightarrow> Inl ErrCompose
            | Some blob \<Rightarrow> Inr (blob, None, EstimateRoutedRMWireSize (length blob)))) of
          Inl e \<Rightarrow> (Inl e, db)
        | Inr (blob, fileChunk, estSize) \<Rightarrow>
            if MaxMsgSize env < estSize then (Inl ErrRMTooLarge, db)
            else AddToSendQueue draws now typ mine blob fileChunk priority db)"

definition removeFromSendQ :: "bytes \<Rightarrow> bytes \<Rightarrow> sendq_db \<Rightarrow> sendq_db" where
  "removeFromSendQ i dest db = snd (RemoveFromSendQueue i dest db)"

record 'm preparedSendqItem =
  prep_id :: bytes
  prep_typ :: string
  prep_item :: "'m rmOrFileChunk"
  prep_priority :: nat
  prep_dests :: "bytes list"

definition prep_rm :: "('m, 'z) sendq_env_scheme \<Rightarrow> 'm rmOrFileChunk \<Rightarrow> sq_error + 'm" where
  "prep_rm env item =
    (case item of
      SendRM rm \<Rightarrow> Inr rm
    | SendChunk fc \<Rightarrow> (case FileChunk_RM env fc of None \<Rightarrow> Inl ErrChunk | Some rm \<Rightarrow> Inr rm))"

definition prepareSendqItem ::
  "('m, 'z) sendq_env_scheme \<Rightarrow> bytes list \<Rightarrow> int \<Rightarrow> string \<Rightarrow> 'm rmOrFileChunk \<Rightarrow> nat \<Rightarrow> bytes list
     \<Rightarrow> sendq_db \<Rightarrow> (sq_error + 'm preparedSendqItem) \<times> sendq_db" where
  "prepareSendqItem env draws now typ item priority dests db =
    (case addToSendQ env draws now typ item priority dests db of
      (Inl e, db') \<Rightarrow> (Inl e, db')
    | (Inr i, db') \<Rightarrow>
        (Inr \<lparr>prep_id = i, prep_typ = typ, prep_item = item, prep_priority = priority,
           prep_dests = snd (deleteMine (myID env) dests)\<rparr>, db'))"

definition queueRMPriority :: "('m, 'z) sendq_env_scheme \<Rightarrow> bytes \<Rightarrow> 'm \<Rightarrow> nat \<Rightarrow> sq_error option" where
  "queueRMPriority env u payload priority =
    (if 4 < priority then Some ErrPriority
     else if isStopped env u then Some ErrSubsysExiting
     else case compose env payload of
       None \<Rightarrow> Some ErrCompose
     | Some me \<Rightarrow>
         if MaxMsgSize env < EstimateRoutedRMWireSize (length me) then Some ErrRMTooLarge
         else QueueRM env u payload)"

text \<open>
  A failure removes the destination from the stored element, unless the client is stopping: then
  the element stays for the next start. The function runs for errors of queueing, and later for
  an error that the message queue reports.
\<close>

definition send_failed :: "sq_error \<Rightarrow> bytes \<Rightarrow> bytes \<Rightarrow> sendq_db \<Rightarrow> sendq_db" where
  "send_failed e i u db = (if e = ErrSubsysExiting then db else removeFromSendQ i u db)"

text \<open>The messages handed to the message queue are collected in the order they are queued.\<close>

fun sendPrepared_loop ::
  "('m, 'z) sendq_env_scheme \<Rightarrow> 'm \<Rightarrow> nat \<Rightarrow> bytes \<Rightarrow> bytes list \<Rightarrow> sendq_db
     \<Rightarrow> (bytes \<times> 'm) list \<times> sendq_db" where
  "sendPrepared_loop env rm priority i [] db = ([], db)"
| "sendPrepared_loop env rm priority i (u # us) db =
    (if \<not> byID env u then sendPrepared_loop env rm priority i us (removeFromSendQ i u db)
     else case queueRMPriority env u rm priority of
       Some e \<Rightarrow> sendPrepared_loop env rm priority i us (send_failed e i u db)
     | None \<Rightarrow> (let (out, db') = sendPrepared_loop env rm priority i us db in ((u, rm) # out, db')))"

definition sendPreparedSendqItem ::
  "('m, 'z) sendq_env_scheme \<Rightarrow> 'm preparedSendqItem \<Rightarrow> sendq_db
     \<Rightarrow> sq_error option \<times> (bytes \<times> 'm) list \<times> sendq_db" where
  "sendPreparedSendqItem env prep db =
    (case prep_rm env (prep_item prep) of
      Inl e \<Rightarrow> (Some e, [], db)
    | Inr rm \<Rightarrow> (None, sendPrepared_loop env rm (prep_priority prep) (prep_id prep) (prep_dests prep) db))"

definition sendWithSendQPriority ::
  "('m, 'z) sendq_env_scheme \<Rightarrow> bytes list \<Rightarrow> int \<Rightarrow> string \<Rightarrow> 'm rmOrFileChunk \<Rightarrow> nat \<Rightarrow> bytes list
     \<Rightarrow> sendq_db \<Rightarrow> sq_error option \<times> (bytes \<times> 'm) list \<times> sendq_db" where
  "sendWithSendQPriority env draws now typ item priority dests db =
    (case prepareSendqItem env draws now typ item priority dests db of
      (Inl e, db') \<Rightarrow> (Some e, [], db')
    | (Inr prep, db') \<Rightarrow> sendPreparedSendqItem env prep db')"

definition priorityDefault :: nat where
  "priorityDefault = 2"

definition sendWithSendQ ::
  "('m, 'z) sendq_env_scheme \<Rightarrow> bytes list \<Rightarrow> int \<Rightarrow> string \<Rightarrow> 'm rmOrFileChunk \<Rightarrow> bytes list
     \<Rightarrow> sendq_db \<Rightarrow> sq_error option \<times> (bytes \<times> 'm) list \<times> sendq_db" where
  "sendWithSendQ env draws now typ item = sendWithSendQPriority env draws now typ item priorityDefault"

text \<open>
  The synchronous variants wait for the server's answer to each message; \<open>ack\<close> gives that answer and
  whether the element was taken out of the queue when the encrypted message was stored. After an
  error of queueing, the code still waits on the reply channel, on which nothing is ever written.
\<close>

datatype sync_result = SyncDone | SyncErr sq_error | SyncBlocked

definition acked :: "(bytes \<Rightarrow> sq_error option \<times> bool) \<Rightarrow> bytes \<Rightarrow> bytes \<Rightarrow> sendq_db \<Rightarrow> sendq_db" where
  "acked ack i u db = (if snd (ack u) then removeFromSendQ i u db else db)"

fun sendPreparedSync_loop ::
  "('m, 'z) sendq_env_scheme \<Rightarrow> (bytes \<Rightarrow> sq_error option \<times> bool) \<Rightarrow> 'm \<Rightarrow> nat \<Rightarrow> bytes \<Rightarrow> bytes list
     \<Rightarrow> sendq_db \<Rightarrow> sync_result \<times> (bytes \<times> 'm) list \<times> sendq_db" where
  "sendPreparedSync_loop env ack rm priority i [] db = (SyncDone, [], db)"
| "sendPreparedSync_loop env ack rm priority i (u # us) db =
    (if \<not> byID env u then sendPreparedSync_loop env ack rm priority i us (removeFromSendQ i u db)
     else case queueRMPriority env u rm priority of
       Some e \<Rightarrow> if e = ErrSubsysExiting then (SyncErr e, [], db)
                 else (SyncBlocked, [], removeFromSendQ i u db)
     | None \<Rightarrow>
         if fst (ack u) = Some ErrSubsysExiting then (SyncErr ErrSubsysExiting, [(u, rm)], acked ack i u db)
         else (let (r, out, db') = sendPreparedSync_loop env ack rm priority i us (acked ack i u db)
               in (r, (u, rm) # out, db')))"

definition sendPreparedSendqItemSync ::
  "('m, 'z) sendq_env_scheme \<Rightarrow> (bytes \<Rightarrow> sq_error option \<times> bool) \<Rightarrow> 'm preparedSendqItem \<Rightarrow> sendq_db
     \<Rightarrow> sync_result \<times> (bytes \<times> 'm) list \<times> sendq_db" where
  "sendPreparedSendqItemSync env ack prep db =
    (case prep_rm env (prep_item prep) of
      Inl e \<Rightarrow> (SyncErr e, [], db)
    | Inr rm \<Rightarrow> sendPreparedSync_loop env ack rm (prep_priority prep) (prep_id prep) (prep_dests prep) db)"

definition sendWithSendQPrioritySync ::
  "('m, 'z) sendq_env_scheme \<Rightarrow> (bytes \<Rightarrow> sq_error option \<times> bool) \<Rightarrow> bytes list \<Rightarrow> int \<Rightarrow> string
     \<Rightarrow> 'm rmOrFileChunk \<Rightarrow> nat \<Rightarrow> bytes list \<Rightarrow> sendq_db \<Rightarrow> sync_result \<times> (bytes \<times> 'm) list \<times> sendq_db" where
  "sendWithSendQPrioritySync env ack draws now typ item priority dests db =
    (case prepareSendqItem env draws now typ item priority dests db of
      (Inl e, db') \<Rightarrow> (SyncErr e, [], db')
    | (Inr prep, db') \<Rightarrow> sendPreparedSendqItemSync env ack prep db')"

fun sendPreparedSendqItemListSync ::
  "('m, 'z) sendq_env_scheme \<Rightarrow> (bytes \<Rightarrow> sq_error option \<times> bool) \<Rightarrow> 'm preparedSendqItem list \<Rightarrow> sendq_db
     \<Rightarrow> sync_result \<times> (bytes \<times> 'm) list \<times> sendq_db" where
  "sendPreparedSendqItemListSync env ack [] db = (SyncDone, [], db)"
| "sendPreparedSendqItemListSync env ack (prep # preps) db =
    (let (r, out, db') = sendPreparedSendqItemSync env ack prep db
     in if r \<noteq> SyncDone then (r, out, db')
        else let (r', out', db'') = sendPreparedSendqItemListSync env ack preps db'
             in (r', out @ out', db''))"

section \<open>The messages left over from the last run\<close>

record 'm sendEL =
  tries :: nat
  qel :: SendQueueElement
  sel_uid :: bytes
  sel_rm :: "'m option"

definition prepSendElRM :: "('m, 'z) sendq_env_scheme \<Rightarrow> 'm sendEL \<Rightarrow> 'm option" where
  "prepSendElRM env sel =
    (case sel_rm sel of
      Some rm \<Rightarrow> Some rm
    | None \<Rightarrow>
        (case el_FileChunk (qel sel) of
          Some fc \<Rightarrow> FileChunk_RM env fc
        | None \<Rightarrow> decompose env (el_Msg (qel sel))))"

definition flatten_sendq :: "SendQueueElement list \<Rightarrow> 'm sendEL list" where
  "flatten_sendq sendq =
    concat (map (\<lambda>el. map (\<lambda>d. \<lparr>tries = 0, qel = el, sel_uid = d, sel_rm = None\<rparr>) (Dests el)) sendq)"

definition maxTries :: nat where
  "maxTries = 5"

definition delete_at :: "nat \<Rightarrow> 'a list \<Rightarrow> 'a list" where
  "delete_at i xs = take i xs @ drop (Suc i) xs"

text \<open>
  The outcome of the attempts and of the checks of the context are given by functions of the number
  of the iteration: the error of \<^verbatim>\<open>sendRMPriority\<close>, whether the element was taken out of the queue
  when the encrypted message was stored, and whether the context is cancelled at the start of the
  iteration or while waiting after an error. The log of a successful attempt indexes the list of
  queue elements with the position in the flattened list, which may be out of its range.
\<close>

record attempt =
  att_err :: "sq_error option"
  att_saved :: bool
  ctx_done :: bool
  ctx_done_wait :: bool

datatype run_result = RunFinished | RunCanceled | RunPanic

definition next_index :: "nat \<Rightarrow> nat \<Rightarrow> nat" where
  "next_index i n = (if n \<le> i then 0 else i)"

definition remaining_tries :: "'m sendEL list \<Rightarrow> nat" where
  "remaining_tries sl = sum_list (map (\<lambda>s. Suc (maxTries - tries s)) sl)"

lemma remaining_tries_split:
  assumes "i < length sl"
  shows "remaining_tries sl = remaining_tries (take i sl) + Suc (maxTries - tries (sl ! i)) + remaining_tries (drop (Suc i) sl)"
  using arg_cong [OF id_take_nth_drop [OF assms], of remaining_tries] by (simp add: remaining_tries_def)

lemma remaining_tries_delete [simp]:
  "i < length sl \<Longrightarrow> remaining_tries (delete_at i sl) < remaining_tries sl"
  by (simp add: remaining_tries_split delete_at_def) (simp add: remaining_tries_def)

lemma remaining_tries_retry [simp]:
  assumes "i < length sl" and "Suc (tries (sl ! i)) < maxTries"
  shows "remaining_tries (sl[i := (sl ! i)\<lparr>tries := Suc (tries (sl ! i)), sel_rm := Some rm\<rparr>]) < remaining_tries sl"
proof -
  have "remaining_tries (sl[i := x]) = remaining_tries (take i sl) + Suc (maxTries - tries x) + remaining_tries (drop (Suc i) sl)" for x
    using assms(1) by (simp add: remaining_tries_split)
  with assms show ?thesis by (simp add: remaining_tries_split [of i sl])
qed

function runSendQ_loop ::
  "('m, 'z) sendq_env_scheme \<Rightarrow> (nat \<Rightarrow> attempt) \<Rightarrow> nat \<Rightarrow> nat \<Rightarrow> nat \<Rightarrow> 'm sendEL list \<Rightarrow> sendq_db
     \<Rightarrow> run_result \<times> (bytes \<times> bytes) list \<times> sendq_db" where
  "runSendQ_loop env atts nq n i sl db =
    (if sl = [] then (RunFinished, [], db)
     else if ctx_done (atts n) then (RunCanceled, [], db)
     else if length sl \<le> i then (RunPanic, [], db)
     else
       let el = sl ! i; eid = el_ID (qel el); u = sel_uid el;
           sl' = delete_at i sl; i' = next_index i (length sl');
           db' = removeFromSendQ eid u db
       in if \<not> byID env u then runSendQ_loop env atts nq (Suc n) i' sl' db'
          else case prepSendElRM env el of
            None \<Rightarrow> runSendQ_loop env atts nq (Suc n) i' sl' db'
          | Some rm \<Rightarrow>
              let dbs = if att_saved (atts n) then removeFromSendQ eid u db else db;
                  log = (\<lambda>(r, tr, d). (r, (eid, u) # tr, d))
              in if att_err (atts n) \<noteq> None then
                   if maxTries \<le> Suc (tries el) then
                     if ctx_done_wait (atts n) then (RunCanceled, [(eid, u)], removeFromSendQ eid u dbs)
                     else log (runSendQ_loop env atts nq (Suc n) i' sl' (removeFromSendQ eid u dbs))
                   else
                     if ctx_done_wait (atts n) then (RunCanceled, [(eid, u)], dbs)
                     else log (runSendQ_loop env atts nq (Suc n) (Suc i mod length sl)
                            (sl[i := el\<lparr>tries := Suc (tries el), sel_rm := Some rm\<rparr>]) dbs)
                 else if nq \<le> i then (RunPanic, [(eid, u)], dbs)
                 else log (runSendQ_loop env atts nq (Suc n) i' sl' (removeFromSendQ eid u dbs)))"
  by pat_completeness auto
termination
  by (relation "measure (\<lambda>(env, atts, nq, n, i, sl, db). remaining_tries sl)")
    (auto simp: remaining_tries_delete not_le)

declare runSendQ_loop.simps [simp del]

definition runSendQ ::
  "('m, 'z) sendq_env_scheme \<Rightarrow> (nat \<Rightarrow> attempt) \<Rightarrow> SendQueueElement list \<Rightarrow> sendq_db
     \<Rightarrow> run_result \<times> (bytes \<times> bytes) list \<times> sendq_db" where
  "runSendQ env atts sendq db = runSendQ_loop env atts (length sendq) 0 0 (flatten_sendq sendq) db"

section \<open>Where the destinations end up\<close>

text \<open>The destinations an element still has, none when it is not stored.\<close>

definition dests_of :: "sendq_db \<Rightarrow> bytes \<Rightarrow> bytes list" where
  "dests_of db i = (case map_of db i of None \<Rightarrow> [] | Some el \<Rightarrow> Dests el)"

text \<open>Stored elements have different destinations, at least one, and are stored under their identifier.\<close>

definition sendq_ok :: "sendq_db \<Rightarrow> bool" where
  "sendq_ok db \<longleftrightarrow> (\<forall>i el. map_of db i = Some el \<longrightarrow> el_ID el = i \<and> distinct (Dests el) \<and> Dests el \<noteq> [])"

lemma dests_of_remove [simp]:
  "dests_of (removeFromSendQ i u db) j = (if j = i then remove1 u (dests_of db i) else dests_of db j)"
  by (auto simp: removeFromSendQ_def RemoveFromSendQueue_def dests_of_def Let_def split: option.splits)

lemma map_of_removeFromSendQ_other [simp]: "j \<noteq> i \<Longrightarrow> map_of (removeFromSendQ i u db) j = map_of db j"
  by (auto simp: removeFromSendQ_def RemoveFromSendQueue_def Let_def split: option.splits)

lemma sendq_ok_remove [simp]: "sendq_ok db \<Longrightarrow> sendq_ok (removeFromSendQ i u db)"
  by (auto simp: sendq_ok_def removeFromSendQ_def RemoveFromSendQueue_def Let_def split: option.splits)

lemma sendq_ok_distinct [simp]: "sendq_ok db \<Longrightarrow> distinct (dests_of db i)"
  by (auto simp: sendq_ok_def dests_of_def split: option.split)

lemma sendq_ok_absent: "sendq_ok db \<Longrightarrow> dests_of db i = [] \<longleftrightarrow> map_of db i = None"
  by (auto simp: sendq_ok_def dests_of_def split: option.split)

text \<open>A destination leaves the stored element when its user is unknown or queueing fails for good.\<close>

definition dropped :: "('m, 'z) sendq_env_scheme \<Rightarrow> 'm \<Rightarrow> nat \<Rightarrow> bytes \<Rightarrow> bool" where
  "dropped env rm priority u \<longleftrightarrow>
    \<not> byID env u \<or> queueRMPriority env u rm priority \<notin> {None, Some ErrSubsysExiting}"

lemma sendPrepared_loop_laws:
  assumes "distinct (dests_of db i)"
  shows "dests_of (snd (sendPrepared_loop env rm pr i us db)) i
      = filter (\<lambda>d. \<not> (d \<in> set us \<and> dropped env rm pr d)) (dests_of db i)
    \<and> fst (sendPrepared_loop env rm pr i us db)
      = map (\<lambda>u. (u, rm)) (filter (\<lambda>u. byID env u \<and> queueRMPriority env u rm pr = None) us)
    \<and> (\<forall>j. j \<noteq> i \<longrightarrow> map_of (snd (sendPrepared_loop env rm pr i us db)) j = map_of db j)"
  using assms
proof (induction us arbitrary: db)
  case Nil
  then show ?case by simp
next
  case (Cons u us)
  have rm1: "remove1 u (dests_of db i) = filter (\<lambda>d. u \<noteq> d) (dests_of db i)"
    using Cons.prems by (simp add: distinct_remove1_removeAll removeAll_filter_not_eq)
  let ?db1 = "removeFromSendQ i u db"
  have d1: "distinct (dests_of ?db1 i)"
    using Cons.prems by simp
  show ?case
  proof (cases "dropped env rm pr u")
    case True
    then have step: "sendPrepared_loop env rm pr i (u # us) db = sendPrepared_loop env rm pr i us ?db1"
      and notq: "\<not> (byID env u \<and> queueRMPriority env u rm pr = None)"
      by (auto simp: dropped_def send_failed_def split: option.split)
    show ?thesis
      unfolding step using Cons.IH [OF d1] notq True
      by (auto simp: rm1 intro!: filter_cong)
  next
    case False
    then have keep: "filter (\<lambda>d. \<not> (d \<in> set (u # us) \<and> dropped env rm pr d)) (dests_of db i)
        = filter (\<lambda>d. \<not> (d \<in> set us \<and> dropped env rm pr d)) (dests_of db i)"
      by (auto intro!: filter_cong)
    have step: "snd (sendPrepared_loop env rm pr i (u # us) db) = snd (sendPrepared_loop env rm pr i us db)"
      "fst (sendPrepared_loop env rm pr i (u # us) db) =
        (if queueRMPriority env u rm pr = None then [(u, rm)] else []) @ fst (sendPrepared_loop env rm pr i us db)"
      "byID env u"
      using False by (auto simp: dropped_def send_failed_def split_beta Let_def)
    show ?thesis
      unfolding step(1,2) keep using Cons.IH [OF Cons.prems] step(3) by simp
  qed
qed

lemma sendq_destinations:
  assumes sent: "sendWithSendQPriority env draws now typ item pr dests db = (None, out, db')"
    and "distinct dests" and "zeroID \<notin> set dests" and "\<not> byID env zeroID"
  shows "\<exists>i rm. map_of db i = None \<and> prep_rm env item = Inr rm
    \<and> dests_of db' i = filter (\<lambda>d. d \<noteq> myID env \<and> \<not> dropped env rm pr d) dests
    \<and> out = map (\<lambda>u. (u, rm)) (filter (\<lambda>u. u \<noteq> myID env \<and> byID env u \<and> queueRMPriority env u rm pr = None) dests)
    \<and> (\<forall>j. j \<noteq> i \<longrightarrow> map_of db' j = map_of db j)"
proof -
  let ?kept = "filter (\<lambda>d. d \<noteq> myID env) dests"
  let ?zeros = "replicate (length dests - length ?kept) zeroID"
  from sent obtain prep db1 where prep: "prepareSendqItem env draws now typ item pr dests db = (Inr prep, db1)"
    and send: "sendPreparedSendqItem env prep db1 = (None, out, db')"
    by (auto simp: sendWithSendQPriority_def split: prod.splits sum.splits)
  from prep obtain blob fc where prep_eq: "prep = \<lparr>prep_id = prep_id prep, prep_typ = typ, prep_item = item,
        prep_priority = pr, prep_dests = ?kept @ ?zeros\<rparr>"
    and add: "AddToSendQueue draws now typ ?kept blob fc pr db = (Inr (prep_id prep), db1)"
    by (auto simp: prepareSendqItem_def addToSendQ_def deleteMine_def Let_def
        split: prod.splits sum.splits if_splits rmOrFileChunk.splits option.splits)
  from add have new: "map_of db (prep_id prep) = None"
    and stored: "dests_of db1 (prep_id prep) = ?kept"
    and others: "\<forall>j. j \<noteq> prep_id prep \<longrightarrow> map_of db1 j = map_of db j"
    by (auto simp: AddToSendQueue_def randomIDInDir_def find_Some_iff dests_of_def split: option.splits)
  from send prep_eq obtain rm where rm: "prep_rm env item = Inr rm"
    and loop: "(out, db') = sendPrepared_loop env rm pr (prep_id prep) (?kept @ ?zeros) db1"
    by (cases prep) (auto simp: sendPreparedSendqItem_def split: sum.splits)
  have dist: "distinct (dests_of db1 (prep_id prep))"
    using stored assms(2) by simp
  note laws = sendPrepared_loop_laws [OF dist, of env rm pr "?kept @ ?zeros", folded loop, simplified]
  have 1: "dests_of db' (prep_id prep) = filter (\<lambda>d. d \<noteq> myID env \<and> \<not> dropped env rm pr d) dests"
    using laws stored assms(3) by (auto simp: conj_commute intro!: filter_cong)
  have 2: "filter (\<lambda>u. byID env u \<and> queueRMPriority env u rm pr = None) ?zeros = []"
    using assms(4) by (simp add: filter_empty_conv)
  have 3: "out = map (\<lambda>u. (u, rm)) (filter (\<lambda>u. u \<noteq> myID env \<and> byID env u \<and> queueRMPriority env u rm pr = None) dests)"
    using laws 2 by (auto simp: conj_commute intro!: arg_cong [of _ _ "map _"] filter_cong)
  from new rm 1 3 others laws show ?thesis by auto
qed

text \<open>C18: When a message for different users is sent through the queue without an error, every user
  other than the local one is handled for itself: the message is queued exactly for the users with
  a session for which queueing succeeds, and the new element keeps exactly these users and the ones
  for which queueing failed because the client stops, so that the next start sends to them; users
  that are unknown or cannot be sent to are dropped. No other element of the queue is touched.
\<close>

theorem sendq_places_destinations:
  assumes sent: "sendWithSendQPriority env draws now typ item pr dests db = (None, out, db')"
    and "distinct dests" and "zeroID \<notin> set dests" and "\<not> byID env zeroID"
  shows "\<exists>i rm. map_of db i = None \<and> prep_rm env item = Inr rm
    \<and> dests_of db' i = filter (\<lambda>d. d \<noteq> myID env \<and> \<not> dropped env rm pr d) dests
    \<and> out = map (\<lambda>u. (u, rm)) (filter (\<lambda>u. u \<noteq> myID env \<and> byID env u \<and> queueRMPriority env u rm pr = None) dests)
    \<and> (\<forall>j. j \<noteq> i \<longrightarrow> map_of db' j = map_of db j)"
  using assms by (rule sendq_destinations)

section \<open>The loop over the left-over messages\<close>

text \<open>
  The ways an iteration of the loop can go, whatever the outcome of the attempts: the position, the
  list and the database before, and the result, the attempts and the database after.
\<close>

definition sel_pair :: "'m sendEL \<Rightarrow> bytes \<times> bytes" where
  "sel_pair s = (el_ID (qel s), sel_uid s)"

definition removals :: "'m sendEL \<Rightarrow> sendq_db \<Rightarrow> sendq_db set" where
  "removals s db = (let rem = removeFromSendQ (el_ID (qel s)) (sel_uid s) in {rem db, rem (rem db)})"

inductive sendq_runs ::
  "nat \<Rightarrow> nat \<Rightarrow> 'm sendEL list \<Rightarrow> sendq_db \<Rightarrow> run_result \<Rightarrow> (bytes \<times> bytes) list \<Rightarrow> sendq_db \<Rightarrow> bool"
  for nq where
  finished: "sendq_runs nq i [] db RunFinished [] db"
| canceled: "sl \<noteq> [] \<Longrightarrow> sendq_runs nq i sl db RunCanceled [] db"
| outside: "sl \<noteq> [] \<Longrightarrow> length sl \<le> i \<Longrightarrow> sendq_runs nq i sl db RunPanic [] db"
| drops: "i < length sl \<Longrightarrow> db1 \<in> removals (sl ! i) db
    \<Longrightarrow> sendq_runs nq (next_index i (length (delete_at i sl))) (delete_at i sl) db1 r tr db'
    \<Longrightarrow> sendq_runs nq i sl db r tr db'"
| stops: "i < length sl \<Longrightarrow> db' = db \<or> db' \<in> removals (sl ! i) db
    \<Longrightarrow> r = RunCanceled \<or> r = RunPanic \<and> nq \<le> i
    \<Longrightarrow> sendq_runs nq i sl db r [sel_pair (sl ! i)] db'"
| sends: "i < length sl \<Longrightarrow> db1 \<in> removals (sl ! i) db
    \<Longrightarrow> sendq_runs nq (next_index i (length (delete_at i sl))) (delete_at i sl) db1 r tr db'
    \<Longrightarrow> sendq_runs nq i sl db r (sel_pair (sl ! i) # tr) db'"
| retries: "i < length sl \<Longrightarrow> Suc (tries (sl ! i)) < maxTries \<Longrightarrow> db1 = db \<or> db1 \<in> removals (sl ! i) db
    \<Longrightarrow> sendq_runs nq (Suc i mod length sl)
          (sl[i := (sl ! i)\<lparr>tries := Suc (tries (sl ! i)), sel_rm := Some rm\<rparr>]) db1 r tr db'
    \<Longrightarrow> sendq_runs nq i sl db r (sel_pair (sl ! i) # tr) db'"

lemma runSendQ_loop_runs:
  "runSendQ_loop env atts nq n i sl db = (r, tr, db') \<Longrightarrow> sendq_runs nq i sl db r tr db'"
proof (induction "remaining_tries sl" arbitrary: n i sl db r tr db' rule: less_induct)
  case less
  note eq = less.prems [unfolded runSendQ_loop.simps [of env atts nq n i sl db]]
  show ?case
  proof (cases "sl = [] \<or> ctx_done (atts n) \<or> length sl \<le> i")
    case True
    with eq show ?thesis by (auto intro: sendq_runs.intros split: if_splits)
  next
    case False
    then have i: "i < length sl" by simp
    let ?el = "sl ! i"
    let ?rem = "removeFromSendQ (el_ID (qel ?el)) (sel_uid ?el)"
    have IHd: "runSendQ_loop env atts nq (Suc n) (next_index i (length (delete_at i sl))) (delete_at i sl) d = (r', tr', d')
        \<Longrightarrow> sendq_runs nq (next_index i (length (delete_at i sl))) (delete_at i sl) d r' tr' d'" for d r' tr' d'
      using less.hyps i by simp
    show ?thesis
    proof (cases "\<not> byID env (sel_uid ?el) \<or> prepSendElRM env ?el = None")
      case True
      with eq False have "runSendQ_loop env atts nq (Suc n) (next_index i (length (delete_at i sl))) (delete_at i sl) (?rem db) = (r, tr, db')"
        by (auto simp: Let_def split: if_splits)
      then show ?thesis by (intro sendq_runs.drops [OF i _ IHd]) (auto simp: removals_def Let_def)
    next
      case rm: False
      then obtain rm where prep: "prepSendElRM env ?el = Some rm" by auto
      let ?dbs = "if att_saved (atts n) then ?rem db else db"
      have dbs: "?dbs = db \<or> ?dbs \<in> removals ?el db" "?rem ?dbs \<in> removals ?el db"
        by (auto simp: removals_def Let_def)
      consider (stop) d where "db' = d" "d = db \<or> d \<in> removals ?el db" "r = RunCanceled \<or> r = RunPanic \<and> nq \<le> i"
          "tr = [sel_pair ?el]"
        | (send) tr' where "tr = sel_pair ?el # tr'"
          "runSendQ_loop env atts nq (Suc n) (next_index i (length (delete_at i sl))) (delete_at i sl) (?rem ?dbs) = (r, tr', db')"
        | (retry) tr' where "tr = sel_pair ?el # tr'" "Suc (tries ?el) < maxTries"
          "runSendQ_loop env atts nq (Suc n) (Suc i mod length sl)
             (sl[i := ?el\<lparr>tries := Suc (tries ?el), sel_rm := Some rm\<rparr>]) ?dbs = (r, tr', db')"
        using eq False rm prep dbs
        by (simp add: Let_def sel_pair_def not_le split: if_splits prod.splits)
      then show ?thesis
      proof cases
        case stop
        then show ?thesis using i by (auto intro: sendq_runs.stops)
      next
        case send
        then show ?thesis using IHd i dbs(2) by (auto intro: sendq_runs.sends)
      next
        case retry
        then show ?thesis
          using less.hyps [OF remaining_tries_retry [OF i retry(2)] retry(3)] i dbs(1)
          by (auto intro: sendq_runs.retries)
      qed
    qed
  qed
qed

lemma set_delete_at: "i < length xs \<Longrightarrow> set xs = insert (xs ! i) (set (delete_at i xs))"
  using arg_cong [OF id_take_nth_drop, of i xs set] by (simp add: delete_at_def)

lemma length_delete_at [simp]: "i < length xs \<Longrightarrow> length (delete_at i xs) = length xs - 1"
  by (simp add: delete_at_def)

lemma removals_laws:
  assumes "db1 \<in> removals s db" and "sendq_ok db"
  shows "sendq_ok db1" and "set (dests_of db1 j) = set (dests_of db j) - {u. (j, u) = sel_pair s}"
    and "j \<noteq> el_ID (qel s) \<Longrightarrow> map_of db1 j = map_of db j"
  using assms by (auto simp: removals_def Let_def sel_pair_def split: if_splits)

text \<open>The stored destinations of the elements of a set are all still in the list.\<close>

definition covered :: "bytes set \<Rightarrow> 'm sendEL list \<Rightarrow> sendq_db \<Rightarrow> bool" where
  "covered S sl db \<longleftrightarrow> (\<forall>i\<in>S. \<forall>u\<in>set (dests_of db i). (i, u) \<in> sel_pair ` set sl)"

lemma covered_delete:
  assumes "covered S sl db" and "i < length sl" and "db1 \<in> removals (sl ! i) db" and "sendq_ok db"
  shows "covered S (delete_at i sl) db1"
  using assms removals_laws(2) [OF assms(3,4)] set_delete_at [OF assms(2)]
  by (fastforce simp: covered_def)

lemma covered_retry:
  assumes "covered S sl db" and "i < length sl" and "db1 = db \<or> db1 \<in> removals (sl ! i) db" and "sendq_ok db"
    and "sel_pair x = sel_pair (sl ! i)"
  shows "covered S (sl[i := x]) db1"
proof -
  have "sel_pair ` set (sl[i := x]) = sel_pair ` set sl"
    using assms(2,5) by (metis list_update_id list_update_same_conv map_update nth_map length_map set_map)
  with assms removals_laws(2) [of db1 "sl ! i" db] show ?thesis
    by (auto simp: covered_def)
qed

lemma sel_pair_retry [simp]: "sel_pair (s\<lparr>tries := t, sel_rm := m\<rparr>) = sel_pair s"
  by (simp add: sel_pair_def)

lemma sendq_runs_settles:
  "sendq_runs nq i sl db r tr db' \<Longrightarrow> sendq_ok db \<Longrightarrow> covered S sl db
    \<Longrightarrow> sendq_ok db' \<and> (r = RunFinished \<longrightarrow> (\<forall>j\<in>S. dests_of db' j = []))"
proof (induction rule: sendq_runs.induct)
  case (drops i sl db1 db r tr db')
  then show ?case using removals_laws(1) covered_delete by blast
next
  case (sends i sl db1 db r tr db')
  then show ?case using removals_laws(1) covered_delete by blast
next
  case (retries i sl db1 db rm r tr db')
  then show ?case using removals_laws(1) covered_retry [OF retries.prems(2) retries.hyps(1,3) retries.prems(1)] by auto
qed (auto simp: covered_def dest: removals_laws(1))

lemma sendq_runs_others:
  "sendq_runs nq i sl db r tr db' \<Longrightarrow> sendq_ok db \<Longrightarrow> j \<notin> el_ID ` qel ` set sl \<Longrightarrow> map_of db' j = map_of db j"
proof (induction rule: sendq_runs.induct)
  case (drops i sl db1 db r tr db')
  then show ?case using removals_laws [OF drops.hyps(2)] set_delete_at [of i sl] by auto
next
  case (stops i sl db' db r)
  then show ?case using removals_laws(3) nth_mem by (metis imageI)
next
  case (sends i sl db1 db r tr db')
  then show ?case using removals_laws [OF sends.hyps(2)] set_delete_at [of i sl] by auto
next
  case (retries i sl db1 db rm r tr db')
  then have "j \<noteq> el_ID (qel (sl ! i))" by auto
  moreover have "j \<notin> el_ID ` qel ` set (sl[i := (sl ! i)\<lparr>tries := Suc (tries (sl ! i)), sel_rm := Some rm\<rparr>])"
    using retries.prems(2) set_update_subset_insert [of sl i] calculation by fastforce
  ultimately show ?case
    using retries removals_laws(1,3) by metis
qed auto

text \<open>The attempts that are left for a destination of an element.\<close>

definition budget :: "bytes \<times> bytes \<Rightarrow> 'm sendEL list \<Rightarrow> nat" where
  "budget p sl = sum_list (map (\<lambda>s. if sel_pair s = p then maxTries - tries s else 0) sl)"

lemma budget_split:
  "i < length sl \<Longrightarrow> budget p sl = budget p (take i sl) + (if sel_pair (sl ! i) = p then maxTries - tries (sl ! i) else 0)
     + budget p (drop (Suc i) sl)"
  using arg_cong [OF id_take_nth_drop, of i sl "budget p"] by (simp add: budget_def)

lemma budget_delete: "i < length sl \<Longrightarrow> budget p sl = budget p (delete_at i sl) + (if sel_pair (sl ! i) = p then maxTries - tries (sl ! i) else 0)"
  by (simp add: budget_split [of i sl] delete_at_def) (simp add: budget_def)

lemma budget_update:
  assumes "i < length sl"
  shows "budget p (sl[i := x]) = budget p (delete_at i sl) + (if sel_pair x = p then maxTries - tries x else 0)"
  using assms budget_delete [of i "sl[i := x]" p] by (simp add: delete_at_def)

lemma sendq_runs_attempts:
  "sendq_runs nq i sl db r tr db' \<Longrightarrow> \<forall>s\<in>set sl. tries s < maxTries \<Longrightarrow> count_list tr p \<le> budget p sl"
proof (induction rule: sendq_runs.induct)
  case (drops i sl db1 db r tr db')
  then show ?case using set_delete_at [of i sl] by (auto simp: budget_delete [of i sl])
next
  case (stops i sl db' db r)
  then have "Suc 0 \<le> maxTries - tries (sl ! i)" by (simp add: Suc_le_eq)
  then show ?case using stops.hyps(1) by (auto simp: budget_delete [of i sl])
next
  case (sends i sl db1 db r tr db')
  then have "tries (sl ! i) < maxTries" by simp
  with sends show ?case using set_delete_at [of i sl] by (auto simp: budget_delete [of i sl])
next
  case (retries i sl db1 db rm r tr db')
  have "\<forall>s\<in>set (sl[i := (sl ! i)\<lparr>tries := Suc (tries (sl ! i)), sel_rm := Some rm\<rparr>]). tries s < maxTries"
    using retries by (auto dest!: set_update_subset_insert [THEN subsetD])
  with retries show ?case
    by (auto simp: budget_delete [of i sl] budget_update)
qed auto

lemma next_index_inside: "delete_at i sl = [] \<or> next_index i (length (delete_at i sl)) < length (delete_at i sl)"
  by (cases "delete_at i sl") (auto simp: next_index_def)

lemma sendq_runs_no_panic:
  "sendq_runs nq i sl db r tr db' \<Longrightarrow> length sl \<le> nq \<Longrightarrow> sl = [] \<or> i < length sl \<Longrightarrow> r \<noteq> RunPanic"
proof (induction rule: sendq_runs.induct)
  case (drops i sl db1 db r tr db')
  then show ?case using next_index_inside [of i sl] by simp
next
  case (sends i sl db1 db r tr db')
  then show ?case using next_index_inside [of i sl] by simp
next
  case (retries i sl db1 db rm r tr db')
  then have "Suc i mod length sl < length sl" by (intro mod_less_divisor) linarith
  with retries show ?case by simp
qed auto

lemma length_flatten_single: "\<forall>el\<in>set sendq. length (Dests el) = 1 \<Longrightarrow> length (flatten_sendq sendq) = length sendq"
  by (induction sendq) (auto simp: flatten_sendq_def)

lemma flatten_pairs: "sel_pair ` set (flatten_sendq sendq) = {(el_ID el, d) | el d. el \<in> set sendq \<and> d \<in> set (Dests el)}"
  by (auto simp: flatten_sendq_def sel_pair_def image_iff)

lemma flatten_tries: "s \<in> set (flatten_sendq sendq) \<Longrightarrow> tries s = 0 \<and> qel s \<in> set sendq"
  by (auto simp: flatten_sendq_def)

lemma budget_none: "(\<And>s. s \<in> set sl \<Longrightarrow> sel_pair s \<noteq> p) \<Longrightarrow> budget p sl = 0"
  by (auto simp: budget_def sum_list_eq_0_iff)

lemma budget_flatten:
  assumes "distinct (map el_ID sendq)" and "\<forall>el\<in>set sendq. distinct (Dests el)"
  shows "budget p (flatten_sendq sendq :: 'm sendEL list) \<le> maxTries"
  using assms
proof (induction sendq)
  case Nil
  then show ?case by (simp add: budget_def flatten_sendq_def)
next
  case (Cons el sendq)
  let ?new = "map (\<lambda>d. \<lparr>tries = 0, qel = el, sel_uid = d, sel_rm = None\<rparr>) (Dests el) :: 'm sendEL list"
  have split: "budget p (flatten_sendq (el # sendq) :: 'm sendEL list) = budget p ?new + budget p (flatten_sendq sendq :: 'm sendEL list)"
    by (simp add: budget_def flatten_sendq_def)
  have one: "distinct ds \<Longrightarrow> budget p (map (\<lambda>d. \<lparr>tries = 0, qel = el, sel_uid = d, sel_rm = None\<rparr>) ds :: 'm sendEL list) \<le> maxTries" for ds
  proof (induction ds)
    case (Cons d ds)
    then have "(el_ID el, d) = p \<Longrightarrow> budget p (map (\<lambda>d. \<lparr>tries = 0, qel = el, sel_uid = d, sel_rm = None\<rparr>) ds :: 'm sendEL list) = 0"
      by (intro budget_none) (auto simp: sel_pair_def)
    with Cons show ?case by (simp add: budget_def sel_pair_def)
  qed (simp add: budget_def)
  show ?case
  proof (cases "fst p = el_ID el")
    case True
    then have "budget p (flatten_sendq sendq :: 'm sendEL list) = 0"
      using Cons.prems by (intro budget_none) (auto simp: sel_pair_def image_iff dest!: flatten_tries)
    with split one Cons.prems show ?thesis by simp
  next
    case False
    then have "budget p ?new = 0" by (intro budget_none) (auto simp: sel_pair_def)
    with split Cons show ?thesis by simp
  qed
qed


definition ex_sendq_env :: "string sendq_env" where
  "ex_sendq_env = \<lparr>compose = (\<lambda>s. Some (map (\<lambda>c. of_nat (of_char c)) s)), decompose = (\<lambda>b. Some (map (\<lambda>w. char_of (unat w)) b)),
    files = (\<lambda>_. None), chunkReply = (\<lambda>_ _ _. []), MaxMsgSize = 1000, myID = [0],
    byID = (\<lambda>u. length u = 1), isStopped = (\<lambda>u. u = [2]), QueueRM = (\<lambda>u _. if u = [3] then Some ErrSendqOther else None)\<rparr>"

definition ex_el :: "bytes \<Rightarrow> bytes list \<Rightarrow> SendQueueElement" where
  "ex_el i ds = \<lparr>el_ID = i, el_Type = ''pm'', Dests = ds, el_Msg = [65], el_Priority = 1, AddTs = 7, el_FileChunk = None\<rparr>"

definition ex_attempts :: "bool list \<Rightarrow> nat \<Rightarrow> attempt" where
  "ex_attempts oks n = \<lparr>att_err = (if n < length oks \<and> oks ! n then None else Some ErrSendqOther),
    att_saved = (n < length oks \<and> oks ! n), ctx_done = False, ctx_done_wait = False\<rparr>"

lemma zeroID_long [simp]: "length zeroID = 32" "zeroID \<noteq> [x]" "[x] \<noteq> zeroID"
  by (simp_all add: zeroID_def eval_nat_numeral)

lemmas ex_sendq_defs = ex_sendq_env_def ex_el_def ex_attempts_def

lemma ex_run:
  "runSendQ ex_sendq_env (ex_attempts [False, True, True]) [ex_el [7] [[1]], ex_el [8] [[4]]] [([7], ex_el [7] [[1]]), ([8], ex_el [8] [[4]])]
    = (RunFinished, [([7], [1]), ([8], [4]), ([7], [1])], [])"
  by (simp add: runSendQ_def flatten_sendq_def runSendQ_loop.simps prepSendElRM_def ex_sendq_defs maxTries_def
      delete_at_def next_index_def removeFromSendQ_def RemoveFromSendQueue_def Let_def)


text \<open>
  One element with two destinations: after a failed first attempt, the successful second one makes
  the log index the list of elements with 1, and the client panics.
\<close>

lemma leftovers_panic:
  "fst (runSendQ ex_sendq_env (ex_attempts [False, True]) [ex_el [7] [[1], [4]]] [([7], ex_el [7] [[1], [4]])]) = RunPanic"
  by (simp add: runSendQ_def flatten_sendq_def runSendQ_loop.simps prepSendElRM_def ex_sendq_defs maxTries_def
      delete_at_def next_index_def removeFromSendQ_def RemoveFromSendQueue_def Let_def)

text \<open>With one destination for each element the loop never panics.\<close>

lemma leftovers_no_panic:
  fixes env :: "('m, 'z) sendq_env_scheme"
  assumes "\<forall>el\<in>set sendq. length (Dests el) = 1"
  shows "fst (runSendQ env atts sendq db) \<noteq> RunPanic"
proof -
  obtain r tr db' where eq: "runSendQ env atts sendq db = (r, tr, db')" by (cases "runSendQ env atts sendq db")
  note runs = runSendQ_loop_runs [OF eq [unfolded runSendQ_def]]
  have "length (flatten_sendq sendq :: 'm sendEL list) = length sendq"
    using assms by (rule length_flatten_single)
  with sendq_runs_no_panic [OF runs] eq show ?thesis by fastforce
qed

text \<open>An error of queueing blocks the synchronous variant for ever.\<close>

lemma sync_blocks:
  "fst (sendPreparedSendqItemSync ex_sendq_env ack
      \<lparr>prep_id = [7], prep_typ = ''pm'', prep_item = SendRM ''A'', prep_priority = 1, prep_dests = [[3]]\<rparr> db) = SyncBlocked"
  by (simp add: sendPreparedSendqItemSync_def prep_rm_def queueRMPriority_def ex_sendq_defs EstimateRoutedRMWireSize_def)

theorem sendq_places_destinations_witness:
  "\<exists>out db'. sendWithSendQPriority ex_sendq_env [[9]] 5 ''pm'' (SendRM ''A'') 1 [[1], [0], [2], [3]] [] = (None, out, db')
    \<and> out = [([1], ''A'')] \<and> dests_of db' [9] = [[1], [2]]"
proof -
  let ?r = "sendWithSendQPriority ex_sendq_env [[9]] 5 ''pm'' (SendRM ''A'') 1 [[1], [0], [2], [3]] []"
  have ok: "?r = (None, fst (snd ?r), snd (snd ?r))" and db: "dests_of (snd (snd ?r)) [9] = [[1], [2]]"
    by (simp_all add: sendWithSendQPriority_def prepareSendqItem_def addToSendQ_def deleteMine_def AddToSendQueue_def
        randomIDInDir_def sendPreparedSendqItem_def prep_rm_def queueRMPriority_def send_failed_def removeFromSendQ_def
        RemoveFromSendQueue_def EstimateRoutedRMWireSize_def ex_sendq_defs dests_of_def Let_def)
  have "fst (snd ?r) = [([1], ''A'')]"
    using sendq_places_destinations [OF ok]
    by (auto simp: ex_sendq_env_def prep_rm_def queueRMPriority_def EstimateRoutedRMWireSize_def)
  with ok db show ?thesis by metis
qed

end
