(* ===== verification/Remote_Users.thy ===== *)
theory Remote_Users
  imports ShortID "HOL-Library.Sublist"
begin

text \<open>
  The list of remote users of the client, from \<^verbatim>\<open>src/client/remoteuser.go\<close>: the users with a
  session by their identity, with the nick the client shows for each. The list is guarded by a
  mutex; an operation that runs while the mutex is held does not return, which is the value
  \<^term>\<open>None\<close>. The comparison of nicks (a Unicode collator) is a parameter. The lemmas show that the
  search for a free nick ends and finds one, that the nicks of the list stay different, and that
  adding a user to a stopped list leaves the mutex held for ever.
\<close>

section \<open>The list\<close>

record RemoteUser =
  ru_nick :: string
  ru_ignored :: bool

record remoteUserList =
  rul_m :: "(bytes, RemoteUser) gomap"
  rul_stopped :: bool
  rul_locked :: bool

datatype rul_error = RemoteUserExiting | AlreadyHaveUser bytes | UserNotFound

definition newRemoteUserList :: remoteUserList where
  "newRemoteUserList = \<lparr>rul_m = [], rul_stopped = False, rul_locked = False\<rparr>"

fun Itoa :: "nat \<Rightarrow> string" where
  "Itoa n = (if n < 10 then [char_of (48 + n)] else Itoa (n div 10) @ [char_of (48 + n mod 10)])"

declare Itoa.simps [simp del]

definition isDupe ::
  "(string \<Rightarrow> string \<Rightarrow> bool) \<Rightarrow> string \<Rightarrow> bytes \<Rightarrow> (bytes, RemoteUser) gomap \<Rightarrow> string \<Rightarrow> bool" where
  "isDupe same myNick uid m nick \<longleftrightarrow>
    same nick myNick
    \<or> list_ex (\<lambda>(ruid, ru). ruid \<noteq> uid \<and> (same (ru_nick ru) nick \<or> prefix nick (id_String ruid))) m"

text \<open>The nick that is tried in the round \<open>i\<close>; the first round has number 2 and tries the nick itself.\<close>

definition nick_try :: "string \<Rightarrow> nat \<Rightarrow> string" where
  "nick_try orig i = (if i = 2 then orig else orig @ ''_'' @ Itoa (i - 1))"

fun uniqueNick_loop ::
  "nat \<Rightarrow> (string \<Rightarrow> string \<Rightarrow> bool) \<Rightarrow> string \<Rightarrow> bytes \<Rightarrow> (bytes, RemoteUser) gomap \<Rightarrow> string \<Rightarrow> nat \<Rightarrow> string option" where
  "uniqueNick_loop 0 same myNick uid m orig i = None"
| "uniqueNick_loop (Suc fuel) same myNick uid m orig i =
    (if isDupe same myNick uid m (nick_try orig i)
     then uniqueNick_loop fuel same myNick uid m orig (Suc i)
     else Some (nick_try orig i))"

definition uniqueNick ::
  "(string \<Rightarrow> string \<Rightarrow> bool) \<Rightarrow> string \<Rightarrow> bytes \<Rightarrow> string \<Rightarrow> (bytes, RemoteUser) gomap \<Rightarrow> string option" where
  "uniqueNick same nick uid myNick m = uniqueNick_loop (length m + 3) same myNick uid m nick 2"

text \<open>The lock is taken at the start of every operation.\<close>

definition rul_add ::
  "(string \<Rightarrow> string \<Rightarrow> bool) \<Rightarrow> bytes \<Rightarrow> RemoteUser \<Rightarrow> string \<Rightarrow> remoteUserList
     \<Rightarrow> (rul_error option \<times> remoteUserList) option" where
  "rul_add same uid ru myNick rul =
    (if rul_locked rul then None
     else if rul_stopped rul then Some (Some RemoteUserExiting, rul\<lparr>rul_locked := True\<rparr>)
     else case map_of (rul_m rul) uid of
       Some _ \<Rightarrow> Some (Some (AlreadyHaveUser uid), rul)
     | None \<Rightarrow>
         (case uniqueNick same (ru_nick ru) uid myNick (rul_m rul) of
           None \<Rightarrow> None
         | Some nick \<Rightarrow> Some (None, rul\<lparr>rul_m := AList.update uid (ru\<lparr>ru_nick := nick\<rparr>) (rul_m rul)\<rparr>)))"

definition rul_del :: "bytes \<Rightarrow> remoteUserList \<Rightarrow> remoteUserList option" where
  "rul_del uid rul = (if rul_locked rul then None else Some (rul\<lparr>rul_m := AList.delete uid (rul_m rul)\<rparr>))"

definition rul_byID :: "bytes \<Rightarrow> remoteUserList \<Rightarrow> (rul_error + RemoteUser) option" where
  "rul_byID uid rul =
    (if rul_locked rul then None
     else Some (case map_of (rul_m rul) uid of None \<Rightarrow> Inl UserNotFound | Some ru \<Rightarrow> Inr ru))"

definition rul_byNick :: "(string \<Rightarrow> string \<Rightarrow> bool) \<Rightarrow> string \<Rightarrow> remoteUserList \<Rightarrow> (rul_error + bytes) option" where
  "rul_byNick same nick rul =
    (if rul_locked rul then None
     else Some (case List.find (\<lambda>(uid, ru). same (ru_nick ru) nick \<or> 4 < length nick \<and> prefix nick (id_String uid)) (rul_m rul) of
       None \<Rightarrow> Inl UserNotFound | Some (uid, ru) \<Rightarrow> Inr uid))"

definition userList :: "bool \<Rightarrow> remoteUserList \<Rightarrow> bytes list option" where
  "userList onlyNotIgnored rul =
    (if rul_locked rul then None
     else Some (map fst (filter (\<lambda>(uid, ru). \<not> (onlyNotIgnored \<and> ru_ignored ru)) (rul_m rul))))"

definition nicksWithPrefix :: "(string \<Rightarrow> string \<Rightarrow> bool) \<Rightarrow> string \<Rightarrow> remoteUserList \<Rightarrow> string list option" where
  "nicksWithPrefix same p rul =
    (if rul_locked rul then None
     else Some (map (ru_nick \<circ> snd)
       (filter (\<lambda>(uid, ru). length p \<le> length (ru_nick ru) \<and> same (take (length p) (ru_nick ru)) p) (rul_m rul))))"

definition modifyUserNick :: "bytes \<Rightarrow> string \<Rightarrow> remoteUserList \<Rightarrow> remoteUserList option" where
  "modifyUserNick uid newNick rul =
    (if rul_locked rul then None
     else Some (case map_of (rul_m rul) uid of
       None \<Rightarrow> rul
     | Some ru \<Rightarrow> rul\<lparr>rul_m := AList.update uid (ru\<lparr>ru_nick := newNick\<rparr>) (rul_m rul)\<rparr>))"

definition allUsers :: "remoteUserList \<Rightarrow> (bytes \<times> RemoteUser) list option" where
  "allUsers rul = (if rul_locked rul then None else Some (rul_m rul))"

text \<open>Stopping empties the list; the users that were in it are stopped outside of the lock.\<close>

definition rul_stop :: "remoteUserList \<Rightarrow> (bytes list \<times> remoteUserList) option" where
  "rul_stop rul =
    (if rul_locked rul then None
     else Some (map fst (rul_m rul), rul\<lparr>rul_m := [], rul_stopped := True\<rparr>))"

section \<open>Free nicks\<close>

text \<open>
  What the search relies on of the collator: nicks that compare as the same as a third are the same
  as each other, and different numbers after a nick make different nicks.
\<close>

definition collator_laws :: "(string \<Rightarrow> string \<Rightarrow> bool) \<Rightarrow> string \<Rightarrow> bool" where
  "collator_laws same orig \<longleftrightarrow>
    (\<forall>a b c. same a b \<longrightarrow> same c b \<longrightarrow> same a c) \<and> (\<forall>a b. same a b \<longrightarrow> same b a)
    \<and> (\<forall>i j. 2 \<le> i \<longrightarrow> i < j \<longrightarrow> \<not> same (nick_try orig i) (nick_try orig j))"

lemma uniqueNick_loop_Some:
  "uniqueNick_loop fuel same my uid m orig i = Some nick \<Longrightarrow> \<not> isDupe same my uid m nick"
  by (induction fuel arbitrary: i) (auto split: if_splits)

lemma uniqueNick_loop_None:
  "uniqueNick_loop fuel same my uid m orig i = None \<Longrightarrow> k < fuel \<Longrightarrow> isDupe same my uid m (nick_try orig (i + k))"
proof (induction fuel arbitrary: i k)
  case (Suc fuel)
  from Suc.prems have now: "isDupe same my uid m (nick_try orig i)"
    and rest: "uniqueNick_loop fuel same my uid m orig (Suc i) = None"
    by (auto split: if_splits)
  show ?case
  proof (cases k)
    case (Suc k')
    with Suc.IH [OF rest, of k'] Suc.prems show ?thesis by simp
  qed (use now in simp)
qed simp

lemma hex_no_underscore: "CHR ''_'' \<notin> set (EncodeToString bs)"
proof -
  have "fromHexChar CHR ''_'' = None" by (simp add: fromHexChar_def)
  with hex_EncodeToString [of bs] show ?thesis by (auto simp: list_all_iff)
qed

lemma numbered_nick_no_id: "2 < i \<Longrightarrow> \<not> prefix (nick_try orig i) (id_String u)"
  using hex_no_underscore by (auto simp: nick_try_def id_String_def dest!: set_mono_prefix)

text \<open>The search for a free nick ends: with \<open>n\<close> users in the list at most \<open>n + 3\<close> nicks are tried, and the
  result is the same as neither the client's own nick nor the nick of any other user, and is not a
  prefix of another user's identity.
\<close>

theorem uniqueNick_free:
  assumes laws: "collator_laws same nick"
  shows "\<exists>res. uniqueNick same nick uid myNick m = Some res \<and> \<not> same res myNick
    \<and> (\<forall>(ruid, ru)\<in>set m. ruid = uid \<or> \<not> same (ru_nick ru) res \<and> \<not> prefix res (id_String ruid))"
proof (cases "uniqueNick same nick uid myNick m")
  case (Some res)
  then show ?thesis
    unfolding uniqueNick_def by (force dest: uniqueNick_loop_Some simp: isDupe_def list_ex_iff)
next
  case None
  let ?N = "insert myNick (ru_nick ` snd ` set m)"
  let ?R = "{3..<length m + 5}"
  have "\<exists>x\<in>?N. same x (nick_try nick i)" if "i \<in> ?R" for i
  proof -
    have "2 + (i - 2) = i" using that by auto
    moreover have "isDupe same myNick uid m (nick_try nick (2 + (i - 2)))"
      using None that unfolding uniqueNick_def by (intro uniqueNick_loop_None) auto
    ultimately have "isDupe same myNick uid m (nick_try nick i)" by argo
    then have "same (nick_try nick i) myNick \<or> (\<exists>(ruid, ru)\<in>set m. same (ru_nick ru) (nick_try nick i))"
      using numbered_nick_no_id [of i nick] that by (auto simp: isDupe_def list_ex_iff)
    moreover have "same myNick (nick_try nick i)" if "same (nick_try nick i) myNick"
      using that laws unfolding collator_laws_def by blast
    ultimately show ?thesis by force
  qed
  then obtain f where f: "\<And>i. i \<in> ?R \<Longrightarrow> f i \<in> ?N \<and> same (f i) (nick_try nick i)" by metis
  have "inj_on f ?R"
  proof (rule linorder_inj_onI)
    fix i j assume "i < j" "i \<in> ?R" "j \<in> ?R"
    then have f2: "same (f i) (nick_try nick i)" "same (f j) (nick_try nick j)" and "2 \<le> i" using f by auto
    then have "\<not> same (nick_try nick i) (nick_try nick j)"
      using laws \<open>i < j\<close> unfolding collator_laws_def by blast
    then show "f i \<noteq> f j"
      using f2 laws unfolding collator_laws_def by metis
  qed auto
  moreover have "f ` ?R \<subseteq> ?N" using f by blast
  ultimately have "card ?R \<le> card ?N" by (intro card_inj_on_le) auto
  also have "card ?N \<le> Suc (length m)"
  proof -
    have "?N = set (myNick # map (ru_nick \<circ> snd) m)" by (simp add: image_comp)
    then show ?thesis using card_length [of "myNick # map (ru_nick \<circ> snd) m"] by simp
  qed
  finally show ?thesis by simp
qed

lemma Itoa_nonempty [simp]: "Itoa n \<noteq> []" "[] \<noteq> Itoa n"
  by (subst Itoa.simps, simp)+

lemma digit_inj: "a < 10 \<Longrightarrow> b < 10 \<Longrightarrow> (char_of (48 + a) :: char) = char_of (48 + b) \<Longrightarrow> a = (b :: nat)"
  by (simp add: char_of_eq_iff take_bit_nat_eq_self)

lemma Itoa_inj: "Itoa m = Itoa n \<Longrightarrow> m = n"
proof (induction m arbitrary: n rule: less_induct)
  case (less m)
  have last: "last (Itoa k) = char_of (48 + k mod 10)" "butlast (Itoa k) = (if k < 10 then [] else Itoa (k div 10))" for k
    by (subst Itoa.simps, simp)+
  have "m mod 10 = n mod 10"
    using arg_cong [OF less.prems, of last] digit_inj [of "m mod 10" "n mod 10"] by (simp add: last)
  moreover have "m div 10 = n div 10"
  proof (cases "m < 10 \<or> n < 10")
    case True
    then show ?thesis
      using arg_cong [OF less.prems, of butlast] by (auto simp: last split: if_splits)
  next
    case False
    then show ?thesis
      using arg_cong [OF less.prems, of butlast] less.IH [of "m div 10" "n div 10"] by (simp add: last)
  qed
  ultimately show ?case by (metis div_mult_mod_eq)
qed

lemma equality_collator: "collator_laws (=) orig"
  by (auto simp: collator_laws_def nick_try_def dest!: Itoa_inj)

theorem uniqueNick_free_witness:
  "\<exists>res. uniqueNick (=) ''ab'' [9] ''me'' [([171], \<lparr>ru_nick = ''x'', ru_ignored = False\<rparr>), ([1], \<lparr>ru_nick = ''ab_2'', ru_ignored = False\<rparr>)]
      = Some res \<and> res \<noteq> ''me'' \<and> res \<noteq> ''ab_2'' \<and> res \<noteq> ''ab''"
proof -
  have "id_String [171] = ''ab''" by code_simp
  then show ?thesis
    using uniqueNick_free [OF equality_collator, of "''ab''" "[9]" "''me''"
        "[([171], \<lparr>ru_nick = ''x'', ru_ignored = False\<rparr>), ([1], \<lparr>ru_nick = ''ab_2'', ru_ignored = False\<rparr>)]"]
    by auto
qed

section \<open>Different nicks and the lock\<close>

definition nicks_differ :: "(string \<Rightarrow> string \<Rightarrow> bool) \<Rightarrow> (bytes, RemoteUser) gomap \<Rightarrow> bool" where
  "nicks_differ same m \<longleftrightarrow> wf_map m \<and>
    (\<forall>(u, ru)\<in>set m. \<forall>(v, rv)\<in>set m. u \<noteq> v \<longrightarrow> \<not> same (ru_nick ru) (ru_nick rv))"

lemma nicks_differ_add:
  assumes add: "rul_add same uid ru my rul = Some (e, rul')" and "nicks_differ same (rul_m rul)"
    and sym: "\<forall>a b. same a b \<longrightarrow> same b a"
  shows "nicks_differ same (rul_m rul')"
proof (cases "rul_m rul' = rul_m rul")
  case False
  then obtain nick where nick: "uniqueNick same (ru_nick ru) uid my (rul_m rul) = Some nick"
    and new: "map_of (rul_m rul) uid = None"
    and m: "rul_m rul' = AList.update uid (ru\<lparr>ru_nick := nick\<rparr>) (rul_m rul)"
    using add by (auto simp: rul_add_def split: if_splits option.splits)
  have "\<not> isDupe same my uid (rul_m rul) nick"
    using nick unfolding uniqueNick_def by (rule uniqueNick_loop_Some)
  moreover have "uid \<notin> fst ` set (rul_m rul)" using new by (simp add: map_of_eq_None_iff)
  ultimately show ?thesis
    using assms(2) sym unfolding m
    by (auto simp: nicks_differ_def update_absent isDupe_def list_ex_iff wf_map_def image_iff)
qed (use assms(2) in simp)

text \<open>The mutex is free after every operation, except after adding a user to a stopped list.\<close>

lemma rul_lock_kept:
  "\<not> rul_locked rul \<Longrightarrow> rul_del uid rul = Some rul' \<Longrightarrow> \<not> rul_locked rul'"
  "\<not> rul_locked rul \<Longrightarrow> modifyUserNick uid nick rul = Some rul' \<Longrightarrow> \<not> rul_locked rul'"
  "\<not> rul_locked rul \<Longrightarrow> rul_stop rul = Some (us, rul') \<Longrightarrow> \<not> rul_locked rul'"
  "\<not> rul_locked rul \<Longrightarrow> \<not> rul_stopped rul \<Longrightarrow> rul_add same uid ru my rul = Some (e, rul') \<Longrightarrow> \<not> rul_locked rul'"
  by (auto simp: rul_del_def modifyUserNick_def rul_stop_def rul_add_def split: if_splits option.splits)

text \<open>
  Adding a user to a list that is stopped returns with the mutex held: no later operation on the
  list returns.
\<close>

lemma add_after_stop_deadlocks:
  assumes "rul_stop rul = Some (us, rul1)"
  shows "\<exists>rul2. rul_add same uid ru my rul1 = Some (Some RemoteUserExiting, rul2)
    \<and> rul_byID v rul2 = None \<and> rul_add same v ru' my rul2 = None \<and> rul_del v rul2 = None \<and> userList b rul2 = None"
  using assms
  by (auto simp: rul_stop_def rul_add_def rul_byID_def rul_del_def userList_def split: if_splits)

end
