(* ===== verification/Kx_Store.thy ===== *)
theory Kx_Store
  imports ShortID
begin

text \<open>
  The part of the client database that tracks key exchanges, from \<^verbatim>\<open>src/client/clientdb/kx.go\<close>:
  key exchanges that are under way, requests to be introduced to a user by a mediator, what is known
  about users without a session, searches for a user, actions to take once a user is known, and
  suggestions to exchange keys. Every item is a file of its own; a directory is a map from the name
  of the file to its contents. Of the data of a key exchange only the fields that are read here are
  kept.
\<close>

record PublicIdentity =
  pi_Name :: string
  pi_Nick :: string
  pi_Identity :: bytes

record KXData =
  kx_Public :: bytes
  kx_InitialRV :: bytes
  kx_Invitee :: "bytes option"

record MediateIDRequest =
  mi_Mediator :: bytes
  mi_Target :: bytes
  mi_Date :: time
  mi_Manual :: bool

record UnkxdUserInfo =
  unkx_UID :: bytes
  MIRequests :: u32
  AddedToGCTime :: "time option"

record RMKXSearch =
  kxs_Refs :: "(string \<times> string) list"

record KXSearchQuery =
  qry_User :: bytes
  qry_DateSent :: time
  qry_IDsReceived :: "bytes list"

record KXSearch =
  kxs_Target :: bytes
  kxs_Search :: RMKXSearch
  kxs_Queries :: "KXSearchQuery list"

datatype PostKXActionType = PKXActionKXSearch | PKXActionFetchPost | PKXActionInviteGC

record PostKXAction =
  act_Type :: PostKXActionType
  act_DateAdded :: time
  act_Data :: string

record kx_db =
  kx_files :: "(bytes, KXData) gomap"
  mi_files :: "(bytes \<times> bytes, MediateIDRequest) gomap"
  unkxd_files :: "(bytes, UnkxdUserInfo) gomap"
  search_files :: "(bytes, KXSearch) gomap"
  init_actions :: "(bytes, PostKXAction list) gomap"
  post_actions :: "(bytes, PostKXAction list) gomap"
  suggested :: "(bytes \<times> bytes, PublicIdentity) gomap"

definition empty_kx_db :: kx_db where
  "empty_kx_db = \<lparr>kx_files = [], mi_files = [], unkxd_files = [], search_files = [], init_actions = [],
    post_actions = [], suggested = []\<rparr>"

datatype kxdb_error = KXNotFound | KXAlreadyExists

section \<open>Key exchanges under way\<close>

definition KXExists :: "bytes \<Rightarrow> kx_db \<Rightarrow> bool" where
  "KXExists rv db = (map_of (kx_files db) rv \<noteq> None)"

definition SaveKX :: "KXData \<Rightarrow> kx_db \<Rightarrow> kxdb_error option \<times> kx_db" where
  "SaveKX kx db =
    (if map_of (kx_files db) (kx_InitialRV kx) \<noteq> None then (Some KXAlreadyExists, db)
     else (None, db\<lparr>kx_files := AList.update (kx_InitialRV kx) kx (kx_files db)\<rparr>))"

definition DeleteKX :: "bytes \<Rightarrow> kx_db \<Rightarrow> kx_db" where
  "DeleteKX rv db = db\<lparr>kx_files := AList.delete rv (kx_files db)\<rparr>"

definition GetKX :: "bytes \<Rightarrow> kx_db \<Rightarrow> kxdb_error + KXData" where
  "GetKX rv db = (case map_of (kx_files db) rv of None \<Rightarrow> Inl KXNotFound | Some kx \<Rightarrow> Inr kx)"

definition ListKXs :: "kx_db \<Rightarrow> KXData list" where
  "ListKXs db = map snd (kx_files db)"

definition HasKXWithUser :: "bytes \<Rightarrow> kx_db \<Rightarrow> KXData list" where
  "HasKXWithUser target db =
    filter (\<lambda>kx. kx_Invitee kx = Some target \<or> kx_Public kx = target) (map snd (kx_files db))"

section \<open>Mediated introductions\<close>

definition StoreMediateIDRequested :: "time \<Rightarrow> bytes \<Rightarrow> bytes \<Rightarrow> bool \<Rightarrow> kx_db \<Rightarrow> kx_db" where
  "StoreMediateIDRequested now mediator target manual db =
    db\<lparr>mi_files := AList.update (mediator, target)
        \<lparr>mi_Mediator = mediator, mi_Target = target, mi_Date = now, mi_Manual = manual\<rparr> (mi_files db)\<rparr>"

definition HasMediateID :: "bytes \<Rightarrow> bytes \<Rightarrow> kx_db \<Rightarrow> MediateIDRequest option" where
  "HasMediateID mediator target db = map_of (mi_files db) (mediator, target)"

definition HasAnyRecentMediateID :: "time \<Rightarrow> bytes \<Rightarrow> duration \<Rightarrow> kx_db \<Rightarrow> bool" where
  "HasAnyRecentMediateID now target recentThreshold db =
    list_ex (\<lambda>((mediator, t), req). t = target \<and> \<not> mi_Date req < now - recentThreshold) (mi_files db)"

definition RemoveMediateID :: "bytes \<Rightarrow> bytes \<Rightarrow> kx_db \<Rightarrow> kx_db" where
  "RemoveMediateID mediator target db = db\<lparr>mi_files := AList.delete (mediator, target) (mi_files db)\<rparr>"

definition ListMediateIDs :: "kx_db \<Rightarrow> MediateIDRequest list" where
  "ListMediateIDs db = map snd (mi_files db)"

section \<open>Users without a session\<close>

definition StoreUnkxdUserInfo :: "UnkxdUserInfo \<Rightarrow> kx_db \<Rightarrow> kx_db" where
  "StoreUnkxdUserInfo info db = db\<lparr>unkxd_files := AList.update (unkx_UID info) info (unkxd_files db)\<rparr>"

definition ReadUnxkdUserInfo :: "bytes \<Rightarrow> kx_db \<Rightarrow> UnkxdUserInfo option" where
  "ReadUnxkdUserInfo uid db = map_of (unkxd_files db) uid"

definition RemoveUnkxUserInfo :: "bytes \<Rightarrow> kx_db \<Rightarrow> kx_db" where
  "RemoveUnkxUserInfo uid db = db\<lparr>unkxd_files := AList.delete uid (unkxd_files db)\<rparr>"

text \<open>Both callers fill in the identity of a user that has no file yet.\<close>

definition unkxd_or_new :: "bytes \<Rightarrow> kx_db \<Rightarrow> UnkxdUserInfo" where
  "unkxd_or_new uid db =
    (case ReadUnxkdUserInfo uid db of
      Some info \<Rightarrow> info
    | None \<Rightarrow> \<lparr>unkx_UID = uid, MIRequests = 0, AddedToGCTime = None\<rparr>)"

section \<open>Searches and actions\<close>

fun replace_query :: "KXSearchQuery \<Rightarrow> KXSearchQuery list \<Rightarrow> KXSearchQuery list" where
  "replace_query q [] = [q]"
| "replace_query q (x # xs) = (if qry_User x = qry_User q then q # xs else x # replace_query q xs)"

definition AddKXSearchQuery :: "bytes \<Rightarrow> RMKXSearch \<Rightarrow> KXSearchQuery \<Rightarrow> kx_db \<Rightarrow> kx_db" where
  "AddKXSearchQuery target search query db =
    (let kxs = (case map_of (search_files db) target of
         Some kxs \<Rightarrow> kxs\<lparr>kxs_Search := search, kxs_Queries := replace_query query (kxs_Queries kxs)\<rparr>
       | None \<Rightarrow> \<lparr>kxs_Target = target, kxs_Search = search, kxs_Queries = [query]\<rparr>)
     in db\<lparr>search_files := AList.update target kxs (search_files db)\<rparr>)"

definition GetKXSearch :: "bytes \<Rightarrow> kx_db \<Rightarrow> KXSearch option" where
  "GetKXSearch target db = map_of (search_files db) target"

definition RemoveKXSearch :: "bytes \<Rightarrow> kx_db \<Rightarrow> kx_db" where
  "RemoveKXSearch target db = db\<lparr>search_files := AList.delete target (search_files db)\<rparr>"

definition ListKXSearches :: "kx_db \<Rightarrow> bytes list" where
  "ListKXSearches db = map fst (search_files db)"

definition actions_of :: "(bytes, PostKXAction list) gomap \<Rightarrow> bytes \<Rightarrow> PostKXAction list" where
  "actions_of m k = (case map_of m k of None \<Rightarrow> [] | Some as \<Rightarrow> as)"

definition AddInitialKXAction :: "bytes \<Rightarrow> PostKXAction \<Rightarrow> kx_db \<Rightarrow> kx_db" where
  "AddInitialKXAction rv a db =
    db\<lparr>init_actions := AList.update rv (actions_of (init_actions db) rv @ [a]) (init_actions db)\<rparr>"

definition RemoveInitialKXActions :: "bytes \<Rightarrow> kx_db \<Rightarrow> kx_db" where
  "RemoveInitialKXActions rv db = db\<lparr>init_actions := AList.delete rv (init_actions db)\<rparr>"

definition AddPostKXAction :: "bytes \<Rightarrow> PostKXAction \<Rightarrow> kx_db \<Rightarrow> kx_db" where
  "AddPostKXAction target a db =
    db\<lparr>post_actions := AList.update target (actions_of (post_actions db) target @ [a]) (post_actions db)\<rparr>"

definition AddUniquePostKXAction :: "bytes \<Rightarrow> PostKXAction \<Rightarrow> kx_db \<Rightarrow> kx_db" where
  "AddUniquePostKXAction target a db =
    (if list_ex (\<lambda>act. act_Type act = act_Type a \<and> act_Data act = act_Data a) (actions_of (post_actions db) target)
     then db else AddPostKXAction target a db)"

definition InitialToPostKXActions :: "bytes \<Rightarrow> bytes \<Rightarrow> kx_db \<Rightarrow> kx_db" where
  "InitialToPostKXActions rv target db =
    (case map_of (init_actions db) rv of
      None \<Rightarrow> db
    | Some as \<Rightarrow> RemoveInitialKXActions rv (fold (AddUniquePostKXAction target) as db))"

definition ListPostKXActions :: "bytes \<Rightarrow> kx_db \<Rightarrow> PostKXAction list" where
  "ListPostKXActions target db = actions_of (post_actions db) target"

definition RemovePostKXActions :: "bytes \<Rightarrow> kx_db \<Rightarrow> kx_db" where
  "RemovePostKXActions target db = db\<lparr>post_actions := AList.delete target (post_actions db)\<rparr>"

section \<open>Suggestions\<close>

definition StoreSuggestedKX :: "bytes \<Rightarrow> PublicIdentity \<Rightarrow> kx_db \<Rightarrow> kx_db" where
  "StoreSuggestedKX from target db =
    db\<lparr>suggested := AList.update (from, pi_Identity target) target (suggested db)\<rparr>"

definition RemoveSuggestedKX :: "bytes \<Rightarrow> bytes \<Rightarrow> kx_db \<Rightarrow> kx_db" where
  "RemoveSuggestedKX from target db = db\<lparr>suggested := AList.delete (from, target) (suggested db)\<rparr>"

definition HasKXSuggestion :: "bytes \<Rightarrow> bytes \<Rightarrow> kx_db \<Rightarrow> bool" where
  "HasKXSuggestion from target db = (map_of (suggested db) (from, target) \<noteq> None)"

definition RemoveAllKXSuggestionsTo :: "bytes \<Rightarrow> kx_db \<Rightarrow> kx_db" where
  "RemoveAllKXSuggestionsTo target db = db\<lparr>suggested := filter (\<lambda>((from, t), _). t \<noteq> target) (suggested db)\<rparr>"

definition RemoveKXSuggestion :: "bytes \<Rightarrow> bytes \<Rightarrow> kx_db \<Rightarrow> kx_db" where
  "RemoveKXSuggestion from target db = db\<lparr>suggested := AList.delete (from, target) (suggested db)\<rparr>"

section \<open>Laws\<close>

lemma HasAnyRecentMediateID_iff:
  "HasAnyRecentMediateID now target thr db \<longleftrightarrow>
    (\<exists>mediator req. ((mediator, target), req) \<in> set (mi_files db) \<and> now - thr \<le> mi_Date req)"
  by (force simp: HasAnyRecentMediateID_def list_ex_iff)

lemma in_update_self: "(k, v) \<in> set (AList.update k v m)"
  by (induction m) auto

lemma in_update_other: "(k, v) \<in> set m \<Longrightarrow> (k, v) \<in> set (AList.update k' v' m) \<or> k = k'"
  by (induction m) auto

lemma recent_after_store:
  "0 \<le> thr \<Longrightarrow> HasAnyRecentMediateID now target thr (StoreMediateIDRequested now mediator target b db)"
  using in_update_self by (fastforce simp: HasAnyRecentMediateID_iff StoreMediateIDRequested_def)

lemma recent_kept_by_store:
  assumes "HasAnyRecentMediateID now' target thr db" and "now' - thr \<le> now"
  shows "HasAnyRecentMediateID now' target thr (StoreMediateIDRequested now mediator t b db)"
proof -
  from assms obtain m req where m: "((m, target), req) \<in> set (mi_files db)" "now' - thr \<le> mi_Date req"
    by (auto simp: HasAnyRecentMediateID_iff)
  let ?new = "\<lparr>mi_Mediator = mediator, mi_Target = t, mi_Date = now, mi_Manual = b\<rparr>"
  from in_update_other [OF m(1), of "(mediator, t)" ?new] show ?thesis
  proof
    assume "((m, target), req) \<in> set (AList.update (mediator, t) ?new (mi_files db))"
    with m(2) show ?thesis by (auto simp: HasAnyRecentMediateID_iff StoreMediateIDRequested_def)
  next
    assume "(m, target) = (mediator, t)"
    with assms(2) in_update_self [of "(mediator, t)" ?new "mi_files db"] show ?thesis
      by (force simp: HasAnyRecentMediateID_iff StoreMediateIDRequested_def)
  qed
qed

end
