(* ===== verification/Client_Base.thy ===== *)
theory Client_Base
  imports Sendq Remote_Users Kx_Store
begin

text \<open>
  What the handlers of the client share: the messages between users that the modelled parts send
  (\<^verbatim>\<open>src/rpc/routedrpc.go\<close>), the state they work on, the errors they return, and the ways a message
  goes out, through the send queue or directly. The environment of an operation holds the time at
  which it runs (all reads of the clock within one operation give the same time), the settings, and
  the outcome of what lies outside: composing a message, queueing it, and the server's answer.
\<close>

section \<open>Messages\<close>

record RMGroupInvite =
  gi_ID :: bytes
  gi_Name :: string
  gi_Token :: u64
  gi_Description :: string
  gi_Expires :: int
  gi_Version :: byte

record RMGroupJoin =
  gj_ID :: bytes
  gj_Token :: u64
  gj_Error :: string

record RMGroupPart =
  gp_ID :: bytes
  gp_Reason :: string

record RMGroupKill =
  gk_ID :: bytes
  gk_Reason :: string

record RMGroupList =
  gl_ID :: bytes
  gl_Name :: string
  Generation :: u64
  Timestamp :: int
  Version :: byte
  Members :: "bytes list"
  ExtraAdmins :: "bytes list"

record RMGroupKick =
  kick_Member :: bytes
  kick_Reason :: string
  kick_Parted :: bool
  kick_NewGroupList :: RMGroupList

record RMGroupUpgradeVersion =
  up_NewGroupList :: RMGroupList

record RMGroupUpdateAdmins =
  adm_Reason :: string
  adm_NewGroupList :: RMGroupList

record RMGroupMessage =
  gm_ID :: bytes
  gm_Generation :: u64
  gm_Message :: string
  gm_Mode :: nat

record GroupChat =
  Metadata :: RMGroupList
  gc_Alias :: string
  RTDTSessionRV :: "bytes option"
  LastReadMsgTime :: time

text \<open>
  The value \<^verbatim>\<open>clientdb.GroupChat\<close> is no message: composing it fails. It is listed because one
  operation hands it to the send queue.
\<close>

datatype client_rm =
    GroupInvite RMGroupInvite | GroupJoin RMGroupJoin | GroupPart RMGroupPart | GroupKill RMGroupKill
  | GroupKick RMGroupKick | GroupUpgrade RMGroupUpgradeVersion | GroupAdmins RMGroupUpdateAdmins
  | GroupList RMGroupList | GroupMessage RMGroupMessage
  | MediateIdentity bytes | InviteFor PublicIdentity | KXSearchRM RMKXSearch
  | KXSearchReply bytes "bytes list" | KXSuggestion PublicIdentity | NoRM GroupChat

section \<open>State, environment and errors\<close>

record client =
  PublicID :: bytes
  rul :: "(bytes, RemoteUser) gomap"
  addressBook :: "(bytes, PublicIdentity) gomap"
  post_files :: "(bytes \<times> bytes, (string \<times> string) list) gomap"
  kxdb :: kx_db
  sendq :: sendq_db
  outbox :: "(bytes \<times> client_rm) list"

record client_env = "client_rm sendq_env" +
  clock :: time
  id_draws :: "sendq_db \<Rightarrow> bytes list"
  sendAck :: "bytes \<Rightarrow> client_rm \<Rightarrow> sq_error option"
  RecentMediateIDThreshold :: duration
  MaxAutoKXMediateIDRequests :: nat
  UnkxdWarningTimeout :: duration
  GCInviteExpiration :: duration

datatype client_error =
    EUserNotFound | ENoMediator | EHasSession | ESendq sq_error | EDBNotFound | EAlreadyExists
  | EInvalidID | EPostNoAuthor | EKnownAuthor | ESearchSelf | EAlreadySearched | ENotQueried
  | EBadIdentity | EAcceptInvite | EUnknownAction
  | ENotPermitted | EUnsupportedVersion | EGCEmptyID | EInviteExpired | EWrongInvitee | EAlreadyMember
  | EZeroMembers | EGenerationBacktrack | EVersionDowngrade | ENameChange | EOwnerOnly
  | ENotMember | ERemoveOwner | ECannotPart | ENotOwner | EAliasEmpty | EAliasTaken | ENameTaken
  | EVersionTooLow | EUnknownAdmin | ENotAMember | EAlreadyOwner | ENoRandomToken
  | ERTDTNotAdmin | ERTDTFull | ERTDTOther | EPanic

abbreviation knows :: "('z) client_scheme \<Rightarrow> bytes \<Rightarrow> bool" where
  "knows st u \<equiv> map_of (rul st) u \<noteq> None"

definition sendq_view :: "('y) client_env_scheme \<Rightarrow> ('z) client_scheme \<Rightarrow> ('y) client_env_scheme" where
  "sendq_view env st = env\<lparr>byID := (\<lambda>u. knows st u), myID := PublicID st\<rparr>"

definition sendq_error :: "sq_error option \<Rightarrow> client_error option" where
  "sendq_error = map_option ESendq"

section \<open>Sending\<close>

text \<open>Through the send queue; the destinations are stored first, then the message is queued for each.\<close>

definition send_priority ::
  "('y) client_env_scheme \<Rightarrow> string \<Rightarrow> client_rm \<Rightarrow> nat \<Rightarrow> bytes list \<Rightarrow> ('z) client_scheme
     \<Rightarrow> client_error option \<times> ('z) client_scheme" where
  "send_priority env typ rm priority dests st =
    (let (e, out, q) = sendWithSendQPriority (sendq_view env st) (id_draws env (sendq st)) (clock env) typ (SendRM rm)
           priority dests (sendq st)
     in (sendq_error e, st\<lparr>sendq := q, outbox := outbox st @ out\<rparr>))"

definition send_default ::
  "('y) client_env_scheme \<Rightarrow> string \<Rightarrow> client_rm \<Rightarrow> bytes list \<Rightarrow> ('z) client_scheme
     \<Rightarrow> client_error option \<times> ('z) client_scheme" where
  "send_default env typ rm = send_priority env typ rm priorityDefault"

text \<open>Directly, with the server's answer as the result.\<close>

definition sendRM ::
  "('y) client_env_scheme \<Rightarrow> bytes \<Rightarrow> client_rm \<Rightarrow> ('z) client_scheme \<Rightarrow> client_error option \<times> ('z) client_scheme" where
  "sendRM env u rm st =
    (case queueRMPriority (sendq_view env st) u rm priorityDefault of
      Some e \<Rightarrow> (Some (ESendq e), st)
    | None \<Rightarrow> (sendq_error (sendAck env u rm), st\<lparr>outbox := outbox st @ [(u, rm)]\<rparr>))"

definition priorityGC :: nat where
  "priorityGC = 1"

section \<open>What sending changes\<close>

text \<open>Everything but the send queue and the messages that went out.\<close>

lemma send_priority_frame [simp]:
  "PublicID (snd (send_priority env typ rm p ds st)) = PublicID st"
  "rul (snd (send_priority env typ rm p ds st)) = rul st"
  "addressBook (snd (send_priority env typ rm p ds st)) = addressBook st"
  "post_files (snd (send_priority env typ rm p ds st)) = post_files st"
  "kxdb (snd (send_priority env typ rm p ds st)) = kxdb st"
  "client.more (snd (send_priority env typ rm p ds st)) = client.more st"
  by (simp_all add: send_priority_def split_beta Let_def)

lemma sendRM_frame [simp]:
  "PublicID (snd (sendRM env u rm st)) = PublicID st"
  "rul (snd (sendRM env u rm st)) = rul st"
  "addressBook (snd (sendRM env u rm st)) = addressBook st"
  "post_files (snd (sendRM env u rm st)) = post_files st"
  "kxdb (snd (sendRM env u rm st)) = kxdb st"
  "client.more (snd (sendRM env u rm st)) = client.more st"
  by (simp_all add: sendRM_def split: option.split)

lemma send_default_frame [simp]:
  "PublicID (snd (send_default env typ rm ds st)) = PublicID st"
  "rul (snd (send_default env typ rm ds st)) = rul st"
  "addressBook (snd (send_default env typ rm ds st)) = addressBook st"
  "post_files (snd (send_default env typ rm ds st)) = post_files st"
  "kxdb (snd (send_default env typ rm ds st)) = kxdb st"
  "client.more (snd (send_default env typ rm ds st)) = client.more st"
  by (simp_all add: send_default_def)

text \<open>The messages that go out through the queue are the given one, for known users of the list.\<close>

lemma sendPrepared_loop_out:
  "set (fst (sendPrepared_loop env rm p i us db)) \<subseteq> {(u, rm) | u. u \<in> set us \<and> byID env u}"
proof (induction us arbitrary: db)
  case (Cons u us)
  show ?case
    using Cons [of "removeFromSendQ i u db"] Cons [of db] Cons [of "send_failed (the (queueRMPriority env u rm p)) i u db"]
    by (auto simp: split_beta Let_def split: option.splits)
qed simp

lemma send_priority_out:
  "\<exists>out. outbox (snd (send_priority env typ rm p ds st)) = outbox st @ out
    \<and> set out \<subseteq> {(u, rm) | u. knows st u \<and> (u \<in> set ds \<and> u \<noteq> PublicID st \<or> u = zeroID)}"
proof -
  let ?env = "sendq_view env st"
  let ?r = "sendWithSendQPriority ?env (id_draws env (sendq st)) (clock env) typ (SendRM rm) p ds (sendq st)"
  have "set (fst (snd ?r)) \<subseteq> {(u, rm) | u. byID ?env u \<and> (u \<in> set ds \<and> u \<noteq> myID ?env \<or> u = zeroID)}"
    using sendPrepared_loop_out [of ?env rm]
    by (fastforce simp: sendWithSendQPriority_def prepareSendqItem_def sendPreparedSendqItem_def deleteMine_def
        prep_rm_def Let_def split: prod.splits sum.splits)
  then show ?thesis
    by (auto simp: send_priority_def split_beta Let_def sendq_view_def)
qed

lemma sendRM_out:
  "\<exists>out. outbox (snd (sendRM env u rm st)) = outbox st @ out \<and> set out \<subseteq> {(u, rm)}"
  by (auto simp: sendRM_def split: option.split)

text \<open>An environment in which every message can be composed and sent.\<close>

definition ex_cenv :: "time \<Rightarrow> client_env" where
  "ex_cenv t = \<lparr>compose = (\<lambda>rm. case rm of NoRM _ \<Rightarrow> None | _ \<Rightarrow> Some [1]), decompose = (\<lambda>_. None),
    files = (\<lambda>_. None), chunkReply = (\<lambda>_ _ _. MediateIdentity []), MaxMsgSize = 1000, myID = [], byID = (\<lambda>_. False),
    isStopped = (\<lambda>_. False), QueueRM = (\<lambda>_ _. None), clock = t, id_draws = (\<lambda>q. [[of_nat (length q)]]),
    sendAck = (\<lambda>_ _. None), RecentMediateIDThreshold = 1000, MaxAutoKXMediateIDRequests = 3,
    UnkxdWarningTimeout = 500, GCInviteExpiration = 10000000000\<rparr>"

definition ex_user :: RemoteUser where
  "ex_user = \<lparr>ru_nick = ''n'', ru_ignored = False\<rparr>"

lemmas send_defs = send_default_def send_priority_def sendWithSendQPriority_def prepareSendqItem_def addToSendQ_def
  deleteMine_def AddToSendQueue_def randomIDInDir_def sendPreparedSendqItem_def prep_rm_def queueRMPriority_def
  send_failed_def removeFromSendQ_def RemoveFromSendQueue_def EstimateRoutedRMWireSize_def sendq_view_def
  sendq_error_def priorityDefault_def sendRM_def

end
