(* ===== verification/Autokx.thy ===== *)
theory Autokx
  imports Client_Base
begin

text \<open>
  Introductions through a third user and the search for the author of a relayed post, from
  \<^verbatim>\<open>src/client/client_autokx.go\<close>, \<^verbatim>\<open>src/client/client_kxsearch.go\<close> and the suggestions of
  \<^verbatim>\<open>src/client/client_kx.go\<close>. The key exchange itself is left out: the outcome of accepting an
  invitation is an argument. The lemmas show that automatic requests are limited to one for each
  target within the configured time, and which messages a reply to a search can cause.
\<close>

section \<open>Mediated identities\<close>

definition mi_event :: "bytes \<Rightarrow> string" where
  "mi_event target = ''mediateid.'' @ id_String target"

definition RequestMediateIdentity ::
  "('y) client_env_scheme \<Rightarrow> bytes \<Rightarrow> bytes \<Rightarrow> ('z) client_scheme \<Rightarrow> client_error option \<times> ('z) client_scheme" where
  "RequestMediateIdentity env mediator target st =
    (if \<not> knows st mediator then (Some ENoMediator, st)
     else if knows st target then (Some EHasSession, st)
     else
       let db = RemoveKXSuggestion mediator target
                  (StoreMediateIDRequested (clock env) mediator target True (kxdb st))
       in send_default env (mi_event target) (MediateIdentity target) [mediator] (st\<lparr>kxdb := db\<rparr>))"

definition maybeRequestMediateID ::
  "('y) client_env_scheme \<Rightarrow> bytes \<Rightarrow> bytes \<Rightarrow> ('z) client_scheme \<Rightarrow> client_error option \<times> ('z) client_scheme" where
  "maybeRequestMediateID env mediator target st =
    (if knows st target then (None, st)
     else if \<not> knows st mediator then (Some ENoMediator, st)
     else if HasKXWithUser target (kxdb st) \<noteq> [] then (None, st)
     else if HasAnyRecentMediateID (clock env) target (RecentMediateIDThreshold env) (kxdb st) then (None, st)
     else
       let unkx = unkxd_or_new target (kxdb st);
           db = StoreMediateIDRequested (clock env) mediator target False
                  (StoreUnkxdUserInfo (unkx\<lparr>MIRequests := MIRequests unkx + 1\<rparr>) (kxdb st))
       in send_default env (mi_event target) (MediateIdentity target) [mediator] (st\<lparr>kxdb := db\<rparr>))"

definition handleMediateID ::
  "('y) client_env_scheme \<Rightarrow> bytes \<Rightarrow> bytes \<Rightarrow> ('z) client_scheme \<Rightarrow> client_error option \<times> ('z) client_scheme" where
  "handleMediateID env ru identity st =
    (if \<not> knows st identity then (Some EUserNotFound, st)
     else case map_of (addressBook st) ru of
       None \<Rightarrow> (Some EDBNotFound, st)
     | Some ruAB \<Rightarrow> sendRM env identity (InviteFor ruAB) st)"

datatype accept_result = Accepted | UserBlocked | OngoingKX | AcceptFailed

definition handleTransitiveIDInvite ::
  "bool \<Rightarrow> accept_result \<Rightarrow> bytes \<Rightarrow> bytes \<Rightarrow> ('z) client_scheme \<Rightarrow> client_error option \<times> ('z) client_scheme" where
  "handleTransitiveIDInvite verified acceptInvite ru identity st =
    (if HasMediateID ru identity (kxdb st) = None then (None, st)
     else if \<not> verified then (Some EBadIdentity, st)
     else case acceptInvite of
       UserBlocked \<Rightarrow> (None, st)
     | AcceptFailed \<Rightarrow> (Some EAcceptInvite, st)
     | _ \<Rightarrow> (None, st\<lparr>kxdb := RemoveMediateID ru identity (kxdb st)\<rparr>))"

definition CancelMediateID :: "bytes \<Rightarrow> bytes \<Rightarrow> ('z) client_scheme \<Rightarrow> ('z) client_scheme" where
  "CancelMediateID mediator target st = st\<lparr>kxdb := RemoveMediateID mediator target (kxdb st)\<rparr>"

definition clearOldMediateIDs :: "('y) client_env_scheme \<Rightarrow> duration \<Rightarrow> ('z) client_scheme \<Rightarrow> ('z) client_scheme" where
  "clearOldMediateIDs env miExpiryDuration st =
    (let limitDate = clock env - miExpiryDuration;
         old = filter (\<lambda>mi. mi_Date mi < limitDate) (ListMediateIDs (kxdb st))
     in st\<lparr>kxdb := fold (\<lambda>mi. RemoveMediateID (mi_Mediator mi) (mi_Target mi)) old (kxdb st)\<rparr>)"

section \<open>Suggestions\<close>

definition SuggestKX ::
  "('y) client_env_scheme \<Rightarrow> bytes \<Rightarrow> bytes \<Rightarrow> ('z) client_scheme \<Rightarrow> client_error option \<times> ('z) client_scheme" where
  "SuggestKX env invitee target st =
    (if \<not> knows st invitee \<or> \<not> knows st target then (Some EUserNotFound, st)
     else case map_of (addressBook st) target of
       None \<Rightarrow> (Some EDBNotFound, st)
     | Some ab \<Rightarrow>
         if map_of (addressBook st) invitee = None then (Some EDBNotFound, st)
         else send_default env (''kxsuggest.'' @ id_String target) (KXSuggestion ab) [invitee] st)"

definition handleKXSuggestion ::
  "bytes \<Rightarrow> PublicIdentity \<Rightarrow> ('z) client_scheme \<Rightarrow> client_error option \<times> ('z) client_scheme" where
  "handleKXSuggestion ru target st =
    (if knows st (pi_Identity target) then (None, st)
     else
       let st' = st\<lparr>kxdb := StoreSuggestedKX ru target (kxdb st)\<rparr>
       in (if map_of (addressBook st) ru = None then Some EDBNotFound else None, st'))"

definition DeclineKXSuggestion :: "bytes \<Rightarrow> bytes \<Rightarrow> ('z) client_scheme \<Rightarrow> ('z) client_scheme" where
  "DeclineKXSuggestion from target st = st\<lparr>kxdb := RemoveKXSuggestion from target (kxdb st)\<rparr>"

section \<open>Searching for the author of a post\<close>

definition KXSRTPostAuthor :: string where
  "KXSRTPostAuthor = ''postauthor''"

definition RMPStatusFrom :: string where
  "RMPStatusFrom = ''statusfrom''"

definition ReadPost :: "bytes \<Rightarrow> bytes \<Rightarrow> ('z) client_scheme \<Rightarrow> (string \<times> string) list option" where
  "ReadPost from post st = map_of (post_files st) (from, post)"

definition ListPostRelayers :: "bytes \<Rightarrow> ('z) client_scheme \<Rightarrow> bytes list" where
  "ListPostRelayers post st = map (fst \<circ> fst) (filter (\<lambda>((from, p), _). p = post) (post_files st))"

definition post_author :: "(string \<times> string) list \<Rightarrow> bytes option" where
  "post_author attrs =
    (case FromString 32 (case map_of attrs RMPStatusFrom of None \<Rightarrow> [] | Some s \<Rightarrow> s) of
      Inl _ \<Rightarrow> None | Inr u \<Rightarrow> Some u)"

definition sendKXSearchQuery ::
  "('y) client_env_scheme \<Rightarrow> bytes \<Rightarrow> RMKXSearch \<Rightarrow> bytes \<Rightarrow> ('z) client_scheme
     \<Rightarrow> client_error option \<times> ('z) client_scheme" where
  "sendKXSearchQuery env target search to st =
    (let query = \<lparr>qry_User = to, qry_DateSent = clock env, qry_IDsReceived = []\<rparr>;
         st1 = st\<lparr>kxdb := AddKXSearchQuery target search query (kxdb st)\<rparr>
     in if \<not> knows st to then (Some EUserNotFound, st1)
        else send_default env (''kxsearch.'' @ id_String target) (KXSearchRM search) [to] st1)"

definition KXSearchPostAuthor ::
  "('y) client_env_scheme \<Rightarrow> bytes \<Rightarrow> bytes \<Rightarrow> ('z) client_scheme \<Rightarrow> client_error option \<times> ('z) client_scheme" where
  "KXSearchPostAuthor env postFrom post st =
    (case ReadPost postFrom post st of
      None \<Rightarrow> (Some EDBNotFound, st)
    | Some attrs \<Rightarrow>
        (case post_author attrs of
          None \<Rightarrow> (Some EInvalidID, st)
        | Some postAuthor \<Rightarrow>
            if postAuthor = zeroID then (Some EPostNoAuthor, st)
            else
              let (refs, queries) = (case GetKXSearch postAuthor (kxdb st) of
                    None \<Rightarrow> ([], []) | Some kxs \<Rightarrow> (kxs_Refs (kxs_Search kxs), kxs_Queries kxs));
                  ref = (KXSRTPostAuthor, id_String post);
                  newRef = (ref \<notin> set refs);
                  alreadyQueried = list_ex (\<lambda>q. qry_User q = postFrom) queries
              in if knows st postAuthor then (Some EKnownAuthor, st)
                 else if postAuthor = PublicID st then (Some ESearchSelf, st)
                 else if \<not> newRef \<and> alreadyQueried then (Some EAlreadySearched, st)
                 else
                   let action = \<lparr>act_Type = PKXActionFetchPost, act_DateAdded = clock env, act_Data = id_String post\<rparr>
                   in sendKXSearchQuery env postAuthor \<lparr>kxs_Refs = refs @ [ref]\<rparr> postFrom
                        (st\<lparr>kxdb := AddUniquePostKXAction postAuthor action (kxdb st)\<rparr>)))"

text \<open>The references of a received search give the relayers of the posts and the author of the first.\<close>

fun search_refs ::
  "('z) client_scheme \<Rightarrow> (string \<times> string) list \<Rightarrow> bytes \<Rightarrow> bytes list \<Rightarrow> client_error + (bytes \<times> bytes list)" where
  "search_refs st [] targetID allRelayers = Inr (targetID, allRelayers)"
| "search_refs st ((typ, ref) # refs) targetID allRelayers =
    (if typ \<noteq> KXSRTPostAuthor then search_refs st refs targetID allRelayers
     else case FromString 32 ref of
       Inl _ \<Rightarrow> search_refs st refs targetID allRelayers
     | Inr pid \<Rightarrow>
         (case ListPostRelayers pid st of
           [] \<Rightarrow> search_refs st refs targetID allRelayers
         | first # rest \<Rightarrow>
             let relayers = allRelayers @ filter (\<lambda>u. u \<notin> set allRelayers) (remdups (first # rest))
             in if targetID \<noteq> zeroID then search_refs st refs targetID relayers
                else case ReadPost first pid st of
                  None \<Rightarrow> Inl EDBNotFound
                | Some attrs \<Rightarrow>
                    search_refs st refs (case post_author attrs of None \<Rightarrow> targetID | Some u \<Rightarrow> u) relayers))"

definition handleKXSearch ::
  "('y) client_env_scheme \<Rightarrow> bytes \<Rightarrow> RMKXSearch \<Rightarrow> ('z) client_scheme \<Rightarrow> client_error option \<times> ('z) client_scheme" where
  "handleKXSearch env ru search st =
    (case search_refs st (kxs_Refs search) zeroID [] of
      Inl e \<Rightarrow> (Some e, st)
    | Inr (targetID, allRelayers) \<Rightarrow>
        if targetID = zeroID then (None, st)
        else sendRM env ru (KXSearchReply targetID (if knows st targetID then [targetID] else allRelayers)) st)"

fun search_candidates ::
  "('y) client_env_scheme \<Rightarrow> bytes \<Rightarrow> KXSearch \<Rightarrow> bytes list \<Rightarrow> bytes list \<Rightarrow> bytes list \<Rightarrow> ('z) client_scheme
     \<Rightarrow> client_error option \<times> ('z) client_scheme" where
  "search_candidates env ru kxs alreadyQueried alreadyMIng [] st = (None, st)"
| "search_candidates env ru kxs alreadyQueried alreadyMIng (uid # uids) st =
    (if uid = PublicID st \<or> uid \<in> set alreadyQueried
     then search_candidates env ru kxs alreadyQueried alreadyMIng uids st
     else if knows st uid then
       (case sendKXSearchQuery env (kxs_Target kxs) (kxs_Search kxs) uid st of
         (Some e, st') \<Rightarrow> (Some e, st')
       | (None, st') \<Rightarrow> search_candidates env ru kxs alreadyQueried alreadyMIng uids st')
     else if uid \<in> set alreadyMIng then search_candidates env ru kxs alreadyQueried alreadyMIng uids st
     else
       let action = \<lparr>act_Type = PKXActionKXSearch, act_DateAdded = clock env, act_Data = id_String (kxs_Target kxs)\<rparr>;
           st1 = st\<lparr>kxdb := AddUniquePostKXAction uid action (kxdb st)\<rparr>
       in case RequestMediateIdentity env ru uid st1 of
            (Some e, st') \<Rightarrow> (Some e, st')
          | (None, st') \<Rightarrow> search_candidates env ru kxs alreadyQueried (uid # alreadyMIng) uids st')"

definition handleKXSearchReply ::
  "('y) client_env_scheme \<Rightarrow> bytes \<Rightarrow> bytes \<Rightarrow> bytes list \<Rightarrow> ('z) client_scheme
     \<Rightarrow> client_error option \<times> ('z) client_scheme" where
  "handleKXSearchReply env ru targetID ids st =
    (if ids = [] then (None, st)
     else case GetKXSearch targetID (kxdb st) of
       None \<Rightarrow> (Some EDBNotFound, st)
     | Some kxs \<Rightarrow>
         let alreadyQueried = map qry_User (kxs_Queries kxs);
             alreadyMIng = filter (\<lambda>uid. HasAnyRecentMediateID (clock env) uid (RecentMediateIDThreshold env) (kxdb st)) ids
         in if ru \<notin> set alreadyQueried then (Some ENotQueried, st)
            else if knows st (kxs_Target kxs) then (None, st)
            else search_candidates env ru kxs alreadyQueried alreadyMIng ids st)"

section \<open>One request within the threshold\<close>

lemma HasAnyRecent_StoreUnkxd [simp]:
  "HasAnyRecentMediateID t u thr (StoreUnkxdUserInfo info db) = HasAnyRecentMediateID t u thr db"
  by (simp add: HasAnyRecentMediateID_def StoreUnkxdUserInfo_def)

lemma sendPrepared_loop_length: "length (fst (sendPrepared_loop env rm p i us db)) \<le> length us"
proof (induction us arbitrary: db)
  case (Cons u us)
  show ?case
    using Cons [of "removeFromSendQ i u db"] Cons [of db] Cons [of "send_failed (the (queueRMPriority env u rm p)) i u db"]
    by (auto simp: split_beta Let_def split: option.splits)
qed simp

lemma length_deleteMine: "length (snd (deleteMine me ds)) = length ds"
  by (simp add: deleteMine_def Let_def)

lemma send_priority_length:
  "\<exists>out. outbox (snd (send_priority env typ rm p ds st)) = outbox st @ out \<and> length out \<le> length ds"
proof -
  let ?env = "sendq_view env st"
  let ?r = "sendWithSendQPriority ?env (id_draws env (sendq st)) (clock env) typ (SendRM rm) p ds (sendq st)"
  have "length (fst (snd ?r)) \<le> length ds"
    using sendPrepared_loop_length [of ?env rm p _ "snd (deleteMine (myID ?env) ds)"]
    by (auto simp: sendWithSendQPriority_def prepareSendqItem_def sendPreparedSendqItem_def
        prep_rm_def length_deleteMine split: prod.splits sum.splits)
  then show ?thesis by (auto simp: send_priority_def split_beta Let_def)
qed

text \<open>The requests for a target that went out so far.\<close>

definition mi_sent :: "bytes \<Rightarrow> ('z) client_scheme \<Rightarrow> nat" where
  "mi_sent target st = length (filter (\<lambda>(u, rm). rm = MediateIdentity target) (outbox st))"

definition mi_settled :: "duration \<Rightarrow> time \<Rightarrow> bytes \<Rightarrow> ('z) client_scheme \<Rightarrow> bool" where
  "mi_settled thr t0 target st \<longleftrightarrow> HasAnyRecentMediateID (t0 + thr) target thr (kxdb st)"

lemma maybeRequestMediateID_cases:
  assumes "t0 \<le> clock env" "clock env \<le> t0 + RecentMediateIDThreshold env"
    and st'_def: "st' = snd (maybeRequestMediateID env mediator target st)"
  shows "st' = st \<and> mi_sent u st' = mi_sent u st \<or>
    (\<not> mi_settled (RecentMediateIDThreshold env) t0 target st
      \<and> mi_settled (RecentMediateIDThreshold env) t0 target st'
      \<and> (mi_settled (RecentMediateIDThreshold env) t0 u st \<longrightarrow> mi_settled (RecentMediateIDThreshold env) t0 u st')
      \<and> mi_sent u st' \<le> mi_sent u st + (if u = target then 1 else 0))"
proof (cases "st' = st")
  case False
  let ?thr = "RecentMediateIDThreshold env"
  let ?unkx = "unkxd_or_new target (kxdb st)"
  let ?db = "StoreMediateIDRequested (clock env) mediator target False
    (StoreUnkxdUserInfo (?unkx\<lparr>MIRequests := MIRequests ?unkx + 1\<rparr>) (kxdb st))"
  have st': "st' = snd (send_default env (mi_event target) (MediateIdentity target) [mediator] (st\<lparr>kxdb := ?db\<rparr>))"
    and fresh: "\<not> HasAnyRecentMediateID (clock env) target ?thr (kxdb st)"
    using False by (auto simp: st'_def maybeRequestMediateID_def Let_def split: if_splits)
  have 1: "\<not> mi_settled ?thr t0 target st"
    using fresh assms by (fastforce simp: mi_settled_def HasAnyRecentMediateID_iff)
  have kx: "kxdb st' = ?db" by (simp add: st')
  have 2: "mi_settled ?thr t0 target st'"
    unfolding mi_settled_def kx HasAnyRecentMediateID_iff
    using in_update_self assms(1) by (fastforce simp: StoreMediateIDRequested_def)
  have 3: "mi_settled ?thr t0 u st \<Longrightarrow> mi_settled ?thr t0 u st'"
    unfolding mi_settled_def kx using assms(1) by (intro recent_kept_by_store) auto
  obtain out where out: "outbox st' = outbox st @ out" "length out \<le> 1"
    using send_priority_length [of env "mi_event target" "MediateIdentity target" priorityDefault "[mediator]" "st\<lparr>kxdb := ?db\<rparr>"]
    by (auto simp: st' send_default_def)
  moreover have "set out \<subseteq> {(u, MediateIdentity target) | u. True}"
    using send_priority_out [of env "mi_event target" "MediateIdentity target" priorityDefault "[mediator]" "st\<lparr>kxdb := ?db\<rparr>"] out(1)
    by (auto simp: st' send_default_def)
  ultimately have 4: "mi_sent u st' \<le> mi_sent u st + (if u = target then 1 else 0)"
    using order_trans [OF length_filter_le [of _ out] out(2)]
    by (auto simp: mi_sent_def filter_empty_conv)
  from 1 2 3 4 show ?thesis by blast
qed (simp add: st'_def)

text \<open>Automatic requests, each at its time.\<close>

definition auto_requests ::
  "(('y) client_env_scheme \<times> bytes \<times> bytes) list \<Rightarrow> ('z) client_scheme \<Rightarrow> ('z) client_scheme" where
  "auto_requests rs st = fold (\<lambda>(env, mediator, target) st. snd (maybeRequestMediateID env mediator target st)) rs st"


definition ex_kx_client :: client where
  "ex_kx_client = \<lparr>PublicID = [0], rul = [([1], ex_user), ([2], ex_user)], addressBook = [], post_files = [],
    kxdb = empty_kx_db, sendq = [], outbox = []\<rparr>"

definition ex_requests :: "(client_env \<times> bytes \<times> bytes) list" where
  "ex_requests = [(ex_cenv 5, [1], [9]), (ex_cenv 100, [2], [9])]"


section \<open>Replies to a search\<close>

lemma sendKXSearchQuery_out:
  "\<exists>out. outbox (snd (sendKXSearchQuery env t s to st)) = outbox st @ out
    \<and> set out \<subseteq> {(u, KXSearchRM s) | u. u = to \<or> u = zeroID}"
  using send_priority_out [of env "''kxsearch.'' @ id_String t" "KXSearchRM s" priorityDefault "[to]"
      "st\<lparr>kxdb := AddKXSearchQuery t s \<lparr>qry_User = to, qry_DateSent = clock env, qry_IDsReceived = []\<rparr> (kxdb st)\<rparr>"]
  by (auto simp: sendKXSearchQuery_def send_default_def Let_def)

lemma RequestMediateIdentity_out:
  "\<exists>out. outbox (snd (RequestMediateIdentity env m t st)) = outbox st @ out
    \<and> set out \<subseteq> {(u, MediateIdentity t) | u. u = m \<or> u = zeroID}"
  using send_priority_out [of env "mi_event t" "MediateIdentity t" priorityDefault "[m]"
      "st\<lparr>kxdb := RemoveKXSuggestion m t (StoreMediateIDRequested (clock env) m t True (kxdb st))\<rparr>"]
  by (auto simp: RequestMediateIdentity_def send_default_def Let_def)

lemma kx_send_users [simp]:
  "rul (snd (sendKXSearchQuery env t s to st)) = rul st"
  "rul (snd (RequestMediateIdentity env m t' st)) = rul st"
  by (simp_all add: sendKXSearchQuery_def RequestMediateIdentity_def Let_def)

text \<open>The messages a list of candidates may cause; the zero identity stands for no user.\<close>

definition candidate_msgs :: "bytes \<Rightarrow> RMKXSearch \<Rightarrow> bytes list \<Rightarrow> (bytes, RemoteUser) gomap \<Rightarrow> bytes list \<Rightarrow> (bytes \<times> client_rm) set" where
  "candidate_msgs ru search queried us ids =
    {(v, MediateIdentity u) | u v. u \<in> set ids \<and> map_of us u = None \<and> v \<in> {ru, zeroID}}
    \<union> {(v, KXSearchRM search) | u v. u \<in> set ids \<and> u \<notin> set queried \<and> map_of us u \<noteq> None \<and> v \<in> {u, zeroID}}"

lemma search_candidates_out:
  fixes st :: "'z client_scheme"
  shows "\<exists>out. outbox (snd (search_candidates env ru kxs queried ming ids st)) = outbox st @ out
    \<and> set out \<subseteq> candidate_msgs ru (kxs_Search kxs) queried (rul st) ids"
proof (induction ids arbitrary: ming st)
  case (Cons uid ids)
  let ?M = "candidate_msgs ru (kxs_Search kxs) queried (rul st)"
  have mono: "?M ids \<subseteq> ?M (uid # ids)" unfolding candidate_msgs_def by (rule Un_mono; fastforce)
  have rest: "\<exists>out. outbox (snd (search_candidates env ru kxs queried ming' ids st')) = outbox st @ out \<and> set out \<subseteq> ?M (uid # ids)"
    if pre: "outbox st' = outbox st @ pre" "rul st' = rul st" "set pre \<subseteq> ?M (uid # ids)" for st' :: "'z client_scheme" and pre ming'
  proof -
    obtain out where "outbox (snd (search_candidates env ru kxs queried ming' ids st')) = outbox st' @ out" "set out \<subseteq> ?M ids"
      using Cons [of ming' st'] pre(2) by auto
    with pre mono show ?thesis by (intro exI [of _ "pre @ out"]) auto
  qed
  consider (skip) "uid = PublicID st \<or> uid \<in> set queried \<or> \<not> knows st uid \<and> uid \<in> set ming"
    | (ask) "uid \<notin> set queried" "uid \<noteq> PublicID st" "knows st uid"
    | (mi) "uid \<notin> set queried" "uid \<noteq> PublicID st" "\<not> knows st uid" "uid \<notin> set ming"
    by blast
  then show ?case
  proof cases
    case skip
    then show ?thesis using rest [of st "[]" ming] by auto
  next
    case ask
    let ?s = "sendKXSearchQuery env (kxs_Target kxs) (kxs_Search kxs) uid st"
    obtain pre where pre: "outbox (snd ?s) = outbox st @ pre" "set pre \<subseteq> ?M (uid # ids)"
      using sendKXSearchQuery_out [of env "kxs_Target kxs" "kxs_Search kxs" uid st] ask
      by (fastforce simp: candidate_msgs_def)
    show ?thesis
      using ask pre rest [OF pre(1) kx_send_users(1) pre(2), of ming] by (cases ?s; cases "fst ?s") auto
  next
    case mi
    let ?st1 = "st\<lparr>kxdb := AddUniquePostKXAction uid \<lparr>act_Type = PKXActionKXSearch, act_DateAdded = clock env, act_Data = id_String (kxs_Target kxs)\<rparr> (kxdb st)\<rparr>"
    let ?s = "RequestMediateIdentity env ru uid ?st1"
    obtain pre where pre: "outbox (snd ?s) = outbox st @ pre" "set pre \<subseteq> ?M (uid # ids)"
      using RequestMediateIdentity_out [of env ru uid ?st1] mi by (fastforce simp: candidate_msgs_def)
    have "rul (snd ?s) = rul st" by simp
    then show ?thesis
      using mi pre rest [OF pre(1) _ pre(2), of "uid # ming"] by (cases ?s; cases "fst ?s") (auto simp: Let_def)
  qed
qed simp

text \<open>A reply to a search causes messages only when the client had asked the sender for that search,
  and then only these: requests to the sender for introductions to unknown users of the reply, and
  the query of the search to known users of the reply that were not asked before.
\<close>

theorem kx_reply_messages:
  "\<exists>out. outbox (snd (handleKXSearchReply env ru target ids st)) = outbox st @ out \<and>
    (out \<noteq> [] \<longrightarrow> (\<exists>kxs. GetKXSearch target (kxdb st) = Some kxs \<and> ru \<in> qry_User ` set (kxs_Queries kxs)
      \<and> set out \<subseteq> candidate_msgs ru (kxs_Search kxs) (map qry_User (kxs_Queries kxs)) (rul st) ids))"
proof (cases "GetKXSearch target (kxdb st)")
  case (Some kxs)
  let ?ming = "filter (\<lambda>uid. HasAnyRecentMediateID (clock env) uid (RecentMediateIDThreshold env) (kxdb st)) ids"
  show ?thesis
  proof (cases "ids = [] \<or> ru \<notin> qry_User ` set (kxs_Queries kxs) \<or> knows st (kxs_Target kxs)")
    case False
    with Some have "handleKXSearchReply env ru target ids st
        = search_candidates env ru kxs (map qry_User (kxs_Queries kxs)) ?ming ids st"
      by (auto simp: handleKXSearchReply_def Let_def)
    with Some False search_candidates_out [of env ru kxs "map qry_User (kxs_Queries kxs)" ?ming ids st]
    show ?thesis by auto
  qed (use Some in \<open>auto simp: handleKXSearchReply_def Let_def\<close>)
qed (auto simp: handleKXSearchReply_def)

definition ex_search_client :: client where
  "ex_search_client = ex_kx_client\<lparr>kxdb := AddKXSearchQuery [9] \<lparr>kxs_Refs = []\<rparr>
    \<lparr>qry_User = [1], qry_DateSent = 0, qry_IDsReceived = []\<rparr> empty_kx_db\<rparr>"

lemmas ex_search_defs = ex_search_client_def ex_kx_client_def empty_kx_db_def AddKXSearchQuery_def GetKXSearch_def
  ex_cenv_def send_defs handleKXSearchReply_def sendKXSearchQuery_def HasAnyRecentMediateID_def

theorem kx_reply_messages_witness:
  "set (outbox (snd (handleKXSearchReply (ex_cenv 3) [1] [9] [[2]] ex_search_client)))
      \<subseteq> candidate_msgs [1] \<lparr>kxs_Refs = []\<rparr> [[1]] (rul ex_search_client) [[2]]
    \<and> outbox (snd (handleKXSearchReply (ex_cenv 3) [1] [9] [[2]] ex_search_client)) = [([2], KXSearchRM \<lparr>kxs_Refs = []\<rparr>)]"
proof -
  have run: "outbox (snd (handleKXSearchReply (ex_cenv 3) [1] [9] [[2]] ex_search_client)) = [([2], KXSearchRM \<lparr>kxs_Refs = []\<rparr>)]"
    and kxs: "GetKXSearch [9] (kxdb ex_search_client) = Some \<lparr>kxs_Target = [9], kxs_Search = \<lparr>kxs_Refs = []\<rparr>,
      kxs_Queries = [\<lparr>qry_User = [1], qry_DateSent = 0, qry_IDsReceived = []\<rparr>]\<rparr>"
    and out0: "outbox ex_search_client = []"
    by (simp_all add: ex_search_defs ex_user_def Let_def)
  show ?thesis
    using kx_reply_messages [of "ex_cenv 3" "[1]" "[9]" "[[2]]" ex_search_client] run kxs out0 by simp
qed

text \<open>
  A user that is listed twice in a reply is asked twice: the list of users that were asked is not
  brought up to date while the reply is handled.
\<close>

lemma kx_reply_repeats:
  "outbox (snd (handleKXSearchReply (ex_cenv 3) [1] [9] [[2], [2], [2]] ex_search_client))
    = [([2], KXSearchRM \<lparr>kxs_Refs = []\<rparr>), ([2], KXSearchRM \<lparr>kxs_Refs = []\<rparr>), ([2], KXSearchRM \<lparr>kxs_Refs = []\<rparr>)]"
  by (simp add: ex_search_defs ex_user_def Let_def)

end
