(* ===== verification/Content_Filters.thy ===== *)
theory Content_Filters
  imports ShortID
begin

text \<open>
  The content filters of the client, from \<^verbatim>\<open>src/client/client_filters.go\<close> and
  \<^verbatim>\<open>src/client/clientdb/filters.go\<close>: rules with a regular expression that hide received private
  messages, group chat messages, posts and post comments. The rules are kept in three places: one
  numbered file per rule, the list \<^verbatim>\<open>c.filters\<close> in memory, and the map \<^verbatim>\<open>c.filtersRegexps\<close> from
  the number of a rule to its compiled expression (\<^verbatim>\<open>nil\<close> when it does not compile). The regular
  expression engine is a parameter: how to compile an expression, and whether a compiled one
  matches. The lemmas show that the cache of compiled expressions never changes the outcome while
  no rule is removed, and how a removal followed by a new rule lets it do so.
\<close>

section \<open>Rules and their storage\<close>

record ContentFilter =
  cf_ID :: u64
  cf_UID :: "bytes option"
  cf_GC :: "bytes option"
  SkipPMs :: bool
  SkipGCMs :: bool
  SkipPosts :: bool
  SkipPostComments :: bool
  cf_Regexp :: string

record 're regexp_lib =
  Compile :: "string \<Rightarrow> 're option"
  MatchString :: "'re \<Rightarrow> string \<Rightarrow> bool"

record 're filter_state =
  filter_files :: "(u64, ContentFilter) gomap"
  filters :: "ContentFilter list"
  filtersRegexps :: "(u64, 're option) gomap"

text \<open>The number of the last file of the directory, zero when there is none.\<close>

definition numbered_Last :: "u64 list \<Rightarrow> u64" where
  "numbered_Last ids = fold (\<lambda>i res. if res \<le> i then i else res) ids 0"

definition StoreContentFilter_db ::
  "ContentFilter \<Rightarrow> (u64, ContentFilter) gomap \<Rightarrow> ContentFilter \<times> (u64, ContentFilter) gomap" where
  "StoreContentFilter_db cf files =
    (let cf' = if cf_ID cf = 0 then cf\<lparr>cf_ID := numbered_Last (map fst files) + 1\<rparr> else cf
     in (cf', AList.update (cf_ID cf') cf' files))"

definition RemoveContentFilter_db ::
  "u64 \<Rightarrow> (u64, ContentFilter) gomap \<Rightarrow> (u64, ContentFilter) gomap" where
  "RemoveContentFilter_db = AList.delete"

definition ListContentFilters_db :: "(u64, ContentFilter) gomap \<Rightarrow> ContentFilter list" where
  "ListContentFilters_db files = map snd (sort_key fst files)"

section \<open>The client's operations\<close>

definition loadContentFilters :: "'re filter_state \<Rightarrow> 're filter_state" where
  "loadContentFilters st =
    st\<lparr>filters := ListContentFilters_db (filter_files st), filtersRegexps := []\<rparr>"

fun replace_first :: "ContentFilter \<Rightarrow> ContentFilter list \<Rightarrow> ContentFilter list option" where
  "replace_first cf [] = None"
| "replace_first cf (x # xs) =
    (if cf_ID x = cf_ID cf then Some (cf # xs) else map_option ((#) x) (replace_first cf xs))"

definition StoreContentFilter ::
  "'re regexp_lib \<Rightarrow> ContentFilter \<Rightarrow> 're filter_state \<Rightarrow> ContentFilter option \<times> 're filter_state" where
  "StoreContentFilter lib cf st =
    (case Compile lib (cf_Regexp cf) of
      None \<Rightarrow> (None, st)
    | Some _ \<Rightarrow>
        (let (cf', files) = StoreContentFilter_db cf (filter_files st)
         in (Some cf',
             case replace_first cf' (filters st) of
               Some fs \<Rightarrow> st\<lparr>filter_files := files, filters := fs,
                             filtersRegexps := AList.delete (cf_ID cf') (filtersRegexps st)\<rparr>
             | None \<Rightarrow> st\<lparr>filter_files := files, filters := filters st @ [cf']\<rparr>)))"

fun delete_first :: "u64 \<Rightarrow> ContentFilter list \<Rightarrow> ContentFilter list" where
  "delete_first i [] = []"
| "delete_first i (x # xs) = (if cf_ID x = i then xs else x # delete_first i xs)"

definition RemoveContentFilter :: "u64 \<Rightarrow> 're filter_state \<Rightarrow> 're filter_state" where
  "RemoveContentFilter i st =
    st\<lparr>filter_files := RemoveContentFilter_db i (filter_files st), filters := delete_first i (filters st)\<rparr>"

definition RemoveAllContentFilters :: "'re filter_state \<Rightarrow> 're filter_state" where
  "RemoveAllContentFilters st =
    st\<lparr>filters := [],
       filter_files := fold (\<lambda>cf. RemoveContentFilter_db (cf_ID cf)) (filters st) (filter_files st)\<rparr>"

record filter_msg =
  fm_uid :: bytes
  fm_gcid :: "bytes option"
  fm_pid :: "bytes option"
  fm_postFrom :: "bytes option"
  fm_data :: string

text \<open>The conditions under which a rule is passed over.\<close>

definition cf_skips :: "filter_msg \<Rightarrow> ContentFilter \<Rightarrow> bool" where
  "cf_skips m cf =
    (let isGCM = fm_gcid m \<noteq> None;
         isPostComment = fm_postFrom m \<noteq> None;
         isPost = fm_pid m \<noteq> None \<and> \<not> isPostComment;
         isPM = \<not> isPost \<and> \<not> isPostComment \<and> \<not> isGCM
     in isPM \<and> SkipPMs cf \<or> isGCM \<and> SkipGCMs cf \<or> isPost \<and> SkipPosts cf
        \<or> isPostComment \<and> SkipPostComments cf
        \<or> (case cf_UID cf of None \<Rightarrow> False | Some u \<Rightarrow> \<not> ConstantTimeEq u (fm_uid m))
        \<or> (case (cf_GC cf, fm_gcid m) of (Some g, Some g') \<Rightarrow> \<not> ConstantTimeEq g g' | _ \<Rightarrow> False))"

fun shouldFilter_loop ::
  "'re regexp_lib \<Rightarrow> filter_msg \<Rightarrow> ContentFilter list \<Rightarrow> (u64, 're option) gomap
     \<Rightarrow> ContentFilter option \<times> (u64, 're option) gomap" where
  "shouldFilter_loop lib m [] cache = (None, cache)"
| "shouldFilter_loop lib m (cf # cfs) cache =
    (if cf_skips m cf then shouldFilter_loop lib m cfs cache
     else
       let (re, cache') =
         (case map_of cache (cf_ID cf) of
           Some re \<Rightarrow> (re, cache)
         | None \<Rightarrow> (let re = Compile lib (cf_Regexp cf) in (re, AList.update (cf_ID cf) re cache)))
       in case re of
            None \<Rightarrow> shouldFilter_loop lib m cfs cache'
          | Some r \<Rightarrow>
              if \<not> MatchString lib r (fm_data m) then shouldFilter_loop lib m cfs cache'
              else (Some cf, cache'))"

text \<open>
  The answer is whether to filter, and the number of the rule (zero when no rule applies). The rule
  itself goes into the notification, which is the last part of the answer.
\<close>

definition shouldFilter ::
  "'re regexp_lib \<Rightarrow> filter_msg \<Rightarrow> 're filter_state
     \<Rightarrow> (bool \<times> u64 \<times> ContentFilter option) \<times> 're filter_state" where
  "shouldFilter lib m st =
    (let (hit, cache) = shouldFilter_loop lib m (filters st) (filtersRegexps st)
     in ((hit \<noteq> None, case hit of None \<Rightarrow> 0 | Some cf \<Rightarrow> cf_ID cf, hit), st\<lparr>filtersRegexps := cache\<rparr>))"

definition FilterPM :: "'re regexp_lib \<Rightarrow> bytes \<Rightarrow> string \<Rightarrow> 're filter_state
    \<Rightarrow> (bool \<times> u64 \<times> ContentFilter option) \<times> 're filter_state" where
  "FilterPM lib u s = shouldFilter lib \<lparr>fm_uid = u, fm_gcid = None, fm_pid = None, fm_postFrom = None, fm_data = s\<rparr>"

definition FilterGCM :: "'re regexp_lib \<Rightarrow> bytes \<Rightarrow> bytes \<Rightarrow> string \<Rightarrow> 're filter_state
    \<Rightarrow> (bool \<times> u64 \<times> ContentFilter option) \<times> 're filter_state" where
  "FilterGCM lib u g s = shouldFilter lib \<lparr>fm_uid = u, fm_gcid = Some g, fm_pid = None, fm_postFrom = None, fm_data = s\<rparr>"

definition FilterPost :: "'re regexp_lib \<Rightarrow> bytes \<Rightarrow> bytes \<Rightarrow> string \<Rightarrow> 're filter_state
    \<Rightarrow> (bool \<times> u64 \<times> ContentFilter option) \<times> 're filter_state" where
  "FilterPost lib u p s = shouldFilter lib \<lparr>fm_uid = u, fm_gcid = None, fm_pid = Some p, fm_postFrom = None, fm_data = s\<rparr>"

definition FilterPostComment :: "'re regexp_lib \<Rightarrow> bytes \<Rightarrow> bytes \<Rightarrow> bytes \<Rightarrow> string \<Rightarrow> 're filter_state
    \<Rightarrow> (bool \<times> u64 \<times> ContentFilter option) \<times> 're filter_state" where
  "FilterPostComment lib u from p s =
    shouldFilter lib \<lparr>fm_uid = u, fm_gcid = None, fm_pid = Some p, fm_postFrom = Some from, fm_data = s\<rparr>"

section \<open>The cache of compiled expressions\<close>

text \<open>
  The rule that decides, without a cache: the first one that is not passed over and whose own
  expression compiles and matches.
\<close>

definition cf_hits :: "'re regexp_lib \<Rightarrow> filter_msg \<Rightarrow> ContentFilter \<Rightarrow> bool" where
  "cf_hits lib m cf \<longleftrightarrow> \<not> cf_skips m cf \<and>
    (case Compile lib (cf_Regexp cf) of None \<Rightarrow> False | Some r \<Rightarrow> MatchString lib r (fm_data m))"

definition first_hit :: "'re regexp_lib \<Rightarrow> filter_msg \<Rightarrow> ContentFilter list \<Rightarrow> ContentFilter option" where
  "first_hit lib m cfs = find (cf_hits lib m) cfs"

definition cache_coherent :: "'re regexp_lib \<Rightarrow> ContentFilter list \<Rightarrow> (u64, 're option) gomap \<Rightarrow> bool" where
  "cache_coherent lib cfs cache \<longleftrightarrow>
    (\<forall>cf\<in>set cfs. \<forall>re. map_of cache (cf_ID cf) = Some re \<longrightarrow> re = Compile lib (cf_Regexp cf))"

lemma cache_coherent_compiled:
  assumes "cache_coherent lib cfs cache" and "cf \<in> set cfs" and "inj_on cf_ID (set cfs)"
  shows "cache_coherent lib cfs (AList.update (cf_ID cf) (Compile lib (cf_Regexp cf)) cache)"
  using assms by (auto simp: cache_coherent_def dest: inj_onD)

lemma shouldFilter_loop_first_hit:
  assumes "cache_coherent lib all cache" and "set cfs \<subseteq> set all" and "inj_on cf_ID (set all)"
  shows "fst (shouldFilter_loop lib m cfs cache) = first_hit lib m cfs
    \<and> cache_coherent lib all (snd (shouldFilter_loop lib m cfs cache))
    \<and> fst ` set (snd (shouldFilter_loop lib m cfs cache)) \<subseteq> fst ` set cache \<union> cf_ID ` set cfs"
  using assms
proof (induction cfs arbitrary: cache)
  case Nil
  then show ?case by (simp add: first_hit_def)
next
  case (Cons cf cfs)
  show ?case
  proof (cases "cf_skips m cf")
    case True
    with Cons show ?thesis by (auto simp: first_hit_def cf_hits_def)
  next
    case False
    define cache' where "cache' = (case map_of cache (cf_ID cf) of Some _ \<Rightarrow> cache
      | None \<Rightarrow> AList.update (cf_ID cf) (Compile lib (cf_Regexp cf)) cache)"
    have coh: "cache_coherent lib all cache'"
      using Cons.prems by (auto simp: cache'_def intro!: cache_coherent_compiled split: option.splits)
    have dom: "fst ` set cache' \<subseteq> insert (cf_ID cf) (fst ` set cache)"
      using set_update_subset [of "cf_ID cf" "Compile lib (cf_Regexp cf)" cache]
      by (auto simp: cache'_def split: option.splits)
    have re: "(case map_of cache (cf_ID cf) of Some re \<Rightarrow> (re, cache)
        | None \<Rightarrow> (let re = Compile lib (cf_Regexp cf) in (re, AList.update (cf_ID cf) re cache)))
        = (Compile lib (cf_Regexp cf), cache')"
      using Cons.prems by (auto simp: cache'_def cache_coherent_def Let_def split: option.splits)
    have IH: "fst (shouldFilter_loop lib m cfs cache') = first_hit lib m cfs
      \<and> cache_coherent lib all (snd (shouldFilter_loop lib m cfs cache'))
      \<and> fst ` set (snd (shouldFilter_loop lib m cfs cache')) \<subseteq> fst ` set cache' \<union> cf_ID ` set cfs"
      using Cons.IH [OF coh] Cons.prems by auto
    have bound: "fst ` set (snd (shouldFilter_loop lib m cfs cache')) \<subseteq> insert (cf_ID cf) (fst ` set cache) \<union> cf_ID ` set cfs"
      using IH dom by blast
    show ?thesis
      using False IH coh dom bound
      by (simp add: re first_hit_def cf_hits_def Let_def split: option.splits) blast
  qed
qed

text \<open>
  What the client keeps between calls: the rules in memory have different numbers and are those of
  the files, and the cache is coherent and holds numbers of present rules only.
\<close>

definition files_ok :: "(u64, ContentFilter) gomap \<Rightarrow> bool" where
  "files_ok files \<longleftrightarrow> wf_map files \<and> (\<forall>(i, cf)\<in>set files. cf_ID cf = i)"

definition filters_ok :: "'re regexp_lib \<Rightarrow> 're filter_state \<Rightarrow> bool" where
  "filters_ok lib st \<longleftrightarrow>
    distinct (map cf_ID (filters st)) \<and> files_ok (filter_files st)
    \<and> cf_ID ` set (filters st) = fst ` set (filter_files st)
    \<and> cache_coherent lib (filters st) (filtersRegexps st)
    \<and> fst ` set (filtersRegexps st) \<subseteq> cf_ID ` set (filters st)"


lemma replace_first_None: "replace_first cf xs = None \<longleftrightarrow> cf_ID cf \<notin> cf_ID ` set xs"
  by (induction xs) auto

lemma replace_first_Some:
  "replace_first cf xs = Some ys \<Longrightarrow> map cf_ID ys = map cf_ID xs \<and> set ys \<subseteq> insert cf (set xs)"
  by (induction xs arbitrary: ys) (auto split: if_splits)

lemma files_ok_update [simp]: "files_ok files \<Longrightarrow> files_ok (AList.update (cf_ID cf) cf files)"
  using set_update_subset [of "cf_ID cf" cf files] by (auto simp: files_ok_def)

lemma keys_update [simp]: "fst ` set (AList.update k v m) = insert k (fst ` set m)"
  by (simp add: dom_update)

lemma filters_ok_inserted:
  assumes ok: "filters_ok lib st"
  shows "filters_ok lib (case replace_first cf (filters st) of
      Some fs \<Rightarrow> st\<lparr>filter_files := AList.update (cf_ID cf) cf (filter_files st), filters := fs,
                    filtersRegexps := AList.delete (cf_ID cf) (filtersRegexps st)\<rparr>
    | None \<Rightarrow> st\<lparr>filter_files := AList.update (cf_ID cf) cf (filter_files st), filters := filters st @ [cf]\<rparr>)"
proof (cases "replace_first cf (filters st)")
  case None
  then have new: "cf_ID cf \<notin> cf_ID ` set (filters st)" by (simp add: replace_first_None)
  then have "map_of (filtersRegexps st) (cf_ID cf) = None"
    using ok unfolding filters_ok_def map_of_eq_None_iff by blast
  with None new ok show ?thesis
    unfolding filters_ok_def by (simp add: cache_coherent_def) blast
next
  case (Some fs)
  note laws = replace_first_Some [OF Some]
  have ids: "cf_ID ` set fs = cf_ID ` set (filters st)"
    using laws by (metis list.set_map)
  have "cf_ID cf \<in> cf_ID ` set (filters st)"
    using Some replace_first_None [of cf "filters st"] by auto
  moreover have "cache_coherent lib fs (AList.delete (cf_ID cf) (filtersRegexps st))"
    using ok laws by (auto simp: filters_ok_def cache_coherent_def)
  ultimately show ?thesis
    using Some ok laws ids set_delete_subset [of "cf_ID cf" "filtersRegexps st"]
    unfolding filters_ok_def by simp blast
qed

lemma filters_ok_store: "filters_ok lib st \<Longrightarrow> filters_ok lib (snd (StoreContentFilter lib cf st))"
  using filters_ok_inserted [of lib st]
  by (auto simp: StoreContentFilter_def StoreContentFilter_db_def Let_def split: option.split)

lemma filters_ok_shouldFilter:
  assumes ok: "filters_ok lib st"
  shows "filters_ok lib (snd (shouldFilter lib m st))"
    and "fst (shouldFilter lib m st) =
      (case first_hit lib m (filters st) of None \<Rightarrow> (False, 0, None) | Some cf \<Rightarrow> (True, cf_ID cf, Some cf))"
proof -
  have inj: "inj_on cf_ID (set (filters st))"
    using ok by (simp add: filters_ok_def distinct_map)
  note laws = shouldFilter_loop_first_hit [OF _ subset_refl inj, of lib "filtersRegexps st" m]
  show "filters_ok lib (snd (shouldFilter lib m st))"
    using ok laws unfolding filters_ok_def by (simp add: shouldFilter_def split_beta Let_def) blast
  show "fst (shouldFilter lib m st) =
      (case first_hit lib m (filters st) of None \<Rightarrow> (False, 0, None) | Some cf \<Rightarrow> (True, cf_ID cf, Some cf))"
    using ok laws by (auto simp: filters_ok_def shouldFilter_def split_beta Let_def split: option.split)
qed

lemma filters_ok_load:
  assumes "files_ok (filter_files st)"
  shows "filters_ok lib (loadContentFilters st)"
proof -
  let ?fs = "map snd (sort_key fst (filter_files st))"
  have ids: "map cf_ID ?fs = map fst (sort_key fst (filter_files st))"
    using assms by (auto simp: files_ok_def)
  have "distinct (map cf_ID ?fs)"
    using assms by (simp only: ids) (simp add: files_ok_def wf_map_def distinct_map distinct_sort)
  moreover have "cf_ID ` set ?fs = fst ` set (filter_files st)"
    using arg_cong [OF ids, of set] by (simp only: set_map set_sort)
  ultimately show ?thesis
    using assms by (simp add: filters_ok_def loadContentFilters_def ListContentFilters_db_def
        cache_coherent_def del: map_map set_map)
qed

text \<open>Rules are added and changed, and messages are checked, in any order.\<close>

datatype filter_op = OpStore ContentFilter | OpCheck filter_msg

fun filter_step :: "'re regexp_lib \<Rightarrow> filter_op \<Rightarrow> 're filter_state \<Rightarrow> 're filter_state" where
  "filter_step lib (OpStore cf) st = snd (StoreContentFilter lib cf st)"
| "filter_step lib (OpCheck m) st = snd (shouldFilter lib m st)"

definition filter_run :: "'re regexp_lib \<Rightarrow> filter_op list \<Rightarrow> 're filter_state \<Rightarrow> 're filter_state" where
  "filter_run lib ops st = fold (filter_step lib) ops st"

lemma filters_ok_run: "filters_ok lib st \<Longrightarrow> filters_ok lib (filter_run lib ops st)"
  unfolding filter_run_def
proof (induction ops arbitrary: st)
  case (Cons op ops)
  then show ?case by (cases op) (simp_all add: filters_ok_store filters_ok_shouldFilter)
qed simp

text \<open>C29: After the rules are loaded, and after any sequence of added or changed rules and checked
  messages, the check answers with the first rule of the list that applies to the message and whose
  own expression compiles and matches, as if every expression were compiled anew; without such a
  rule it lets the message pass. The map of compiled expressions makes no difference.
\<close>

theorem filter_first_match:
  assumes "files_ok (filter_files st0)"
    and st: "st = filter_run lib ops (loadContentFilters st0)"
  shows "fst (shouldFilter lib m st) =
    (case first_hit lib m (filters st) of None \<Rightarrow> (False, 0, None) | Some cf \<Rightarrow> (True, cf_ID cf, Some cf))"
  unfolding st by (intro filters_ok_shouldFilter filters_ok_run filters_ok_load assms)

definition ex_lib :: "string regexp_lib" where
  "ex_lib = \<lparr>Compile = (\<lambda>s. if s = ''('' then None else Some s), MatchString = (\<lambda>r s. take (length r) s = r)\<rparr>"

definition ex_rule :: "u64 \<Rightarrow> string \<Rightarrow> ContentFilter" where
  "ex_rule i r = \<lparr>cf_ID = i, cf_UID = None, cf_GC = None, SkipPMs = False, SkipGCMs = False,
    SkipPosts = False, SkipPostComments = False, cf_Regexp = r\<rparr>"

definition ex_pm :: "string \<Rightarrow> filter_msg" where
  "ex_pm s = \<lparr>fm_uid = [1], fm_gcid = None, fm_pid = None, fm_postFrom = None, fm_data = s\<rparr>"

definition ex_filters0 :: "string filter_state" where
  "ex_filters0 = \<lparr>filter_files = [(1, ex_rule 1 ''ab'')], filters = [], filtersRegexps = []\<rparr>"

lemmas ex_filter_defs = ex_lib_def ex_rule_def ex_pm_def ex_filters0_def loadContentFilters_def
  ListContentFilters_db_def StoreContentFilter_def StoreContentFilter_db_def RemoveContentFilter_def
  RemoveContentFilter_db_def numbered_Last_def shouldFilter_def cf_skips_def filter_run_def

theorem filter_first_match_witness:
  "fst (shouldFilter ex_lib (ex_pm ''abc'')
      (filter_run ex_lib [OpCheck (ex_pm ''x''), OpStore (ex_rule 0 ''a'')] (loadContentFilters ex_filters0)))
    = (True, 1, Some (ex_rule 1 ''ab''))"
proof -
  have "first_hit ex_lib (ex_pm ''abc'') (filters (filter_run ex_lib [OpCheck (ex_pm ''x''), OpStore (ex_rule 0 ''a'')]
      (loadContentFilters ex_filters0))) = Some (ex_rule 1 ''ab'')"
    by (simp add: ex_filter_defs first_hit_def cf_hits_def Let_def)
  then show ?thesis
    using filter_first_match [OF _ refl, of ex_filters0 ex_lib "ex_pm ''abc''" "[OpCheck (ex_pm ''x''), OpStore (ex_rule 0 ''a'')]"]
    by (simp add: ex_filters0_def ex_rule_def files_ok_def wf_map_def)
qed

text \<open>
  A removed rule leaves its compiled expression behind, and the number of the removed last rule is
  given to the next one: the new rule then filters by the old expression until the client restarts.
\<close>

lemma removed_expression_stays:
  "let st1 = snd (shouldFilter ex_lib (ex_pm ''abc'') (loadContentFilters ex_filters0));
       st2 = snd (StoreContentFilter ex_lib (ex_rule 0 ''z'') (RemoveContentFilter 1 st1))
   in filters st2 = [ex_rule 1 ''z''] \<and> fst (shouldFilter ex_lib (ex_pm ''abc'') st2) = (True, 1, Some (ex_rule 1 ''z''))
      \<and> first_hit ex_lib (ex_pm ''abc'') (filters st2) = None"
  by (simp add: ex_filter_defs first_hit_def cf_hits_def Let_def)

end
