(* ===== verification/Groupchat_Db.thy ===== *)
theory Groupchat_Db
  imports Autokx Content_Filters
begin

text \<open>
  The group chats in the client database, from \<^verbatim>\<open>src/client/clientdb/gc.go\<close>, and the state of the
  client that the group chat handlers work on. A group chat is a file named by its identifier, in
  the present format or in an older one that holds the list of members alone; invitations, sent and
  received, are records of one table; block lists and messages that wait for their display have
  files of their own. The content of a file is the value that was written, and reading and writing do
  not fail for other reasons than a missing file. Go iterates over maps and directories in an order
  of its own; here it is the order of the list, and the lemmas hold for every order.
\<close>

section \<open>State\<close>

datatype gc_file = GCFile GroupChat | OldGCFile RMGroupList

record GCInvite =
  inv_Invite :: RMGroupInvite
  inv_User :: bytes
  inv_ID :: u64
  inv_Accepted :: bool

record ReceivedGCMsg =
  rg_MsgID :: bytes
  rg_UID :: bytes
  rg_GCM :: RMGroupMessage
  rg_TS :: time
  rg_GCAlias :: string

text \<open>What the user interface is told.\<close>

datatype gc_ntfn =
    NInvited bytes u64 RMGroupInvite
  | NInviteAccepted bytes RMGroupList
  | NUpgraded RMGroupList byte
  | NAddedMembers RMGroupList "bytes list"
  | NRemovedMembers RMGroupList "bytes list"
  | NAdminsChanged bytes RMGroupList "bytes list" "bytes list"
  | NJoined RMGroupList
  | NParted bytes bytes string bool
  | NKilled bytes bytes string
  | NMessage bytes RMGroupMessage string time
  | NVersionWarning bytes RMGroupList
  | NUnkxdMember bytes bytes bool bool u32 "bytes option"

record gc_client = client +
  gc_files :: "(bytes, gc_file) gomap"
  gc_aliases :: "(string, bytes) gomap"
  invites :: "(u64, GCInvite) gomap"
  block_lists :: "(bytes, bytes list) gomap"
  cachedGCMs :: "(bytes, ReceivedGCMsg) gomap"
  gc_filters :: "string filter_state"
  unkxdWarnings :: "(bytes, time) gomap"
  gcWarnedVersions :: "bytes list"
  gcmq :: "ReceivedGCMsg list"
  ntfns :: "gc_ntfn list"

section \<open>Group chat files\<close>

definition readGC :: "gc_client \<Rightarrow> gc_file \<Rightarrow> GroupChat" where
  "readGC st f =
    (case f of
      GCFile gc \<Rightarrow> gc
    | OldGCFile gl \<Rightarrow>
        \<lparr>Metadata = gl,
         gc_Alias = (case List.find (\<lambda>(name, i). i = gl_ID gl) (gc_aliases st) of None \<Rightarrow> [] | Some (name, _) \<Rightarrow> name),
         RTDTSessionRV = None, LastReadMsgTime = zero_time\<rparr>)"

definition GetGC :: "bytes \<Rightarrow> gc_client \<Rightarrow> GroupChat option" where
  "GetGC i st = map_option (readGC st) (map_of (gc_files st) i)"

definition gc_Name :: "GroupChat \<Rightarrow> string" where
  "gc_Name gc = (if gc_Alias gc \<noteq> [] then gc_Alias gc else gl_Name (Metadata gc))"

text \<open>The fields of \<^verbatim>\<open>minGCStruct\<close>: the alias, the name of an old file, and the name in the metadata.\<close>

definition min_fields :: "gc_file \<Rightarrow> string \<times> string \<times> string" where
  "min_fields f = (case f of GCFile gc \<Rightarrow> (gc_Alias gc, [], gl_Name (Metadata gc)) | OldGCFile gl \<Rightarrow> ([], gl_Name gl, []))"

definition min_name :: "gc_file \<Rightarrow> string" where
  "min_name f = (case min_fields f of (alias, name, mname) \<Rightarrow> if alias \<noteq> [] then alias else if name \<noteq> [] then name else mname)"

definition GetGCName :: "bytes \<Rightarrow> gc_client \<Rightarrow> string option" where
  "GetGCName i st = map_option min_name (map_of (gc_files st) i)"

definition has_gc_prefix :: "string \<Rightarrow> bytes \<Rightarrow> gc_file \<Rightarrow> bool" where
  "has_gc_prefix p i f =
    (case min_fields f of (alias, name, mname) \<Rightarrow>
      prefix p alias \<or> prefix p mname \<or> prefix p name \<or> 4 < length p \<and> prefix p (id_String i))"

definition FindGCsWithPrefix :: "string \<Rightarrow> gc_client \<Rightarrow> (bytes, string) gomap" where
  "FindGCsWithPrefix p st = map (\<lambda>(i, f). (i, min_name f)) (filter (\<lambda>(i, f). has_gc_prefix p i f) (gc_files st))"

definition SaveGC :: "GroupChat \<Rightarrow> gc_client \<Rightarrow> gc_client" where
  "SaveGC gc st = st\<lparr>gc_files := AList.update (gl_ID (Metadata gc)) (GCFile gc) (gc_files st)\<rparr>"

definition DeleteGC :: "bytes \<Rightarrow> gc_client \<Rightarrow> client_error option \<times> gc_client" where
  "DeleteGC i st =
    (if map_of (gc_files st) i = None then (Some EDBNotFound, st)
     else (None, st\<lparr>gc_files := AList.delete i (gc_files st), block_lists := AList.delete i (block_lists st)\<rparr>))"

definition ListGCs :: "gc_client \<Rightarrow> GroupChat list" where
  "ListGCs st = map (readGC st \<circ> snd) (gc_files st)"

definition ListGCsWithMember :: "bytes \<Rightarrow> gc_client \<Rightarrow> bytes list" where
  "ListGCsWithMember u st =
    map (\<lambda>gc. gl_ID (Metadata gc)) (filter (\<lambda>gc. u \<in> set (Members (Metadata gc))) (ListGCs st))"

section \<open>Invitations\<close>

text \<open>The numbers that are drawn until an unused one comes up; there may be none among the given ones.\<close>

definition newInviteID :: "u64 \<Rightarrow> u64" where
  "newInviteID r = 100000 + r mod (1000000 - 100000)"

definition AddGCInvite :: "u64 list \<Rightarrow> bytes \<Rightarrow> RMGroupInvite \<Rightarrow> gc_client \<Rightarrow> u64 option \<times> gc_client" where
  "AddGCInvite draws u iv st =
    (case List.find (\<lambda>i. map_of (invites st) i = None) (map newInviteID draws) of
      None \<Rightarrow> (None, st)
    | Some i \<Rightarrow>
        (Some i, st\<lparr>invites := AList.update i
            \<lparr>inv_Invite = iv, inv_User = u, inv_ID = i, inv_Accepted = False\<rparr> (invites st)\<rparr>))"

definition GetGCInvite :: "u64 \<Rightarrow> gc_client \<Rightarrow> (RMGroupInvite \<times> bytes) option" where
  "GetGCInvite i st = map_option (\<lambda>dbi. (inv_Invite dbi, inv_User dbi)) (map_of (invites st) i)"

definition MarkGCInviteAccepted :: "u64 \<Rightarrow> gc_client \<Rightarrow> client_error option \<times> gc_client" where
  "MarkGCInviteAccepted i st =
    (case map_of (invites st) i of
      None \<Rightarrow> (Some EDBNotFound, st)
    | Some dbi \<Rightarrow> (None, st\<lparr>invites := AList.update (inv_ID dbi) (dbi\<lparr>inv_Accepted := True\<rparr>) (invites st)\<rparr>))"

definition DelGCInvite :: "u64 \<Rightarrow> gc_client \<Rightarrow> gc_client" where
  "DelGCInvite i st = st\<lparr>invites := AList.delete i (invites st)\<rparr>"

definition DelAllInvitesToGC :: "bytes \<Rightarrow> gc_client \<Rightarrow> gc_client" where
  "DelAllInvitesToGC g st = st\<lparr>invites := filter (\<lambda>(k, dbi). gi_ID (inv_Invite dbi) \<noteq> g) (invites st)\<rparr>"

definition ListGCInvites :: "bytes option \<Rightarrow> gc_client \<Rightarrow> GCInvite list" where
  "ListGCInvites gc st =
    filter (\<lambda>dbi. case gc of None \<Rightarrow> True | Some g \<Rightarrow> gi_ID (inv_Invite dbi) = g) (map snd (invites st))"

definition FindGCInvite :: "bytes \<Rightarrow> u64 \<Rightarrow> gc_client \<Rightarrow> (RMGroupInvite \<times> bytes \<times> u64) option" where
  "FindGCInvite g token st =
    map_option (\<lambda>(k, dbi). (inv_Invite dbi, inv_User dbi, k))
      (List.find (\<lambda>(k, dbi). gi_ID (inv_Invite dbi) = g \<and> gi_Token (inv_Invite dbi) = token) (invites st))"

definition FindAcceptedGCInvite :: "bytes \<Rightarrow> bytes \<Rightarrow> gc_client \<Rightarrow> (RMGroupInvite \<times> u64) option" where
  "FindAcceptedGCInvite g u st =
    map_option (\<lambda>(k, dbi). (inv_Invite dbi, k))
      (List.find (\<lambda>(k, dbi). inv_Accepted dbi \<and> gi_ID (inv_Invite dbi) = g \<and> inv_User dbi = u) (invites st))"

section \<open>Block lists\<close>

definition GetGCBlockList :: "bytes \<Rightarrow> gc_client \<Rightarrow> bytes list" where
  "GetGCBlockList g st = (case map_of (block_lists st) g of None \<Rightarrow> [] | Some l \<Rightarrow> l)"

definition FilterMembers :: "bytes list \<Rightarrow> bytes list \<Rightarrow> bytes list" where
  "FilterMembers bl members = filter (\<lambda>u. u \<notin> set bl) members"

definition IsBlocked :: "bytes list \<Rightarrow> bytes \<Rightarrow> bool" where
  "IsBlocked bl u = (u \<in> set bl)"

definition AddToGCBlockList_db :: "bytes \<Rightarrow> bytes \<Rightarrow> gc_client \<Rightarrow> gc_client" where
  "AddToGCBlockList_db g u st =
    st\<lparr>block_lists := AList.update g (List.insert u (GetGCBlockList g st)) (block_lists st)\<rparr>"

definition RemoveFromGCBlockList_db :: "bytes \<Rightarrow> bytes \<Rightarrow> gc_client \<Rightarrow> gc_client" where
  "RemoveFromGCBlockList_db g u st =
    (case map_of (block_lists st) g of
      None \<Rightarrow> st
    | Some l \<Rightarrow> st\<lparr>block_lists := AList.update g (removeAll u l) (block_lists st)\<rparr>)"

section \<open>Messages that wait for their display\<close>

definition CacheReceivedGCM :: "ReceivedGCMsg \<Rightarrow> gc_client \<Rightarrow> gc_client" where
  "CacheReceivedGCM m st = st\<lparr>cachedGCMs := AList.update (rg_MsgID m) m (cachedGCMs st)\<rparr>"

definition RemoveCachedRGCM :: "ReceivedGCMsg \<Rightarrow> gc_client \<Rightarrow> gc_client" where
  "RemoveCachedRGCM m st = st\<lparr>cachedGCMs := AList.delete (rg_MsgID m) (cachedGCMs st)\<rparr>"

definition ListCachedRGCMs :: "gc_client \<Rightarrow> ReceivedGCMsg list" where
  "ListCachedRGCMs st = map snd (cachedGCMs st)"

section \<open>Laws of the storage\<close>

lemma GetGC_cong: "gc_files st' = gc_files st \<Longrightarrow> gc_aliases st' = gc_aliases st \<Longrightarrow> GetGC i st' = GetGC i st"
  by (cases "map_of (gc_files st) i") (auto simp: GetGC_def readGC_def split: gc_file.split)

lemma GetGC_SaveGC [simp]:
  "GetGC i (SaveGC gc st) = (if i = gl_ID (Metadata gc) then Some gc else GetGC i st)"
  by (cases "map_of (gc_files st) i") (auto simp: GetGC_def SaveGC_def readGC_def split: gc_file.split)

lemma GetGC_None_iff: "GetGC i st = None \<longleftrightarrow> map_of (gc_files st) i = None"
  by (simp add: GetGC_def)

lemma DeleteGC_Some: "GetGC i st \<noteq> None \<Longrightarrow> DeleteGC i st =
    (None, st\<lparr>gc_files := AList.delete i (gc_files st), block_lists := AList.delete i (block_lists st)\<rparr>)"
  by (simp add: DeleteGC_def GetGC_None_iff)

lemma GetGC_DeleteGC:
  "GetGC j (snd (DeleteGC i st)) = (if GetGC i st \<noteq> None \<and> j = i then None else GetGC j st)"
  by (cases "map_of (gc_files st) j") (auto simp: GetGC_def DeleteGC_def readGC_def split: gc_file.split)

lemma GetGCBlockList_DeleteGC:
  "GetGC i st \<noteq> None \<Longrightarrow> GetGCBlockList j (snd (DeleteGC i st)) = (if j = i then [] else GetGCBlockList j st)"
  by (auto simp: DeleteGC_Some GetGCBlockList_def)

lemma blocked_after_add: "IsBlocked (GetGCBlockList g (AddToGCBlockList_db g u st)) v \<longleftrightarrow> v = u \<or> IsBlocked (GetGCBlockList g st) v"
  by (auto simp: IsBlocked_def AddToGCBlockList_db_def GetGCBlockList_def)

lemma blocked_after_remove: "IsBlocked (GetGCBlockList g (RemoveFromGCBlockList_db g u st)) v \<longleftrightarrow> v \<noteq> u \<and> IsBlocked (GetGCBlockList g st) v"
  by (auto simp: IsBlocked_def RemoveFromGCBlockList_db_def GetGCBlockList_def split: option.splits)

lemma AddGCInvite_returns: "\<exists>r\<in>set draws. map_of (invites st) (newInviteID r) = None \<Longrightarrow> fst (AddGCInvite draws u iv st) \<noteq> None"
  by (auto simp: AddGCInvite_def find_None_iff split: option.split)

text \<open>
  A file in the old format whose alias is in the file of aliases: reading it gives the alias,
  reading its name does not.
\<close>

lemma old_alias_not_in_name:
  assumes "map_of (gc_files st) i = Some (OldGCFile gl)" "gc_aliases st = [(a, gl_ID gl)]" "a \<noteq> []" "a \<noteq> gl_Name gl"
  shows "map_option gc_Name (GetGC i st) = Some a \<and> GetGCName i st = Some (gl_Name gl)"
  using assms by (auto simp: GetGC_def readGC_def gc_Name_def GetGCName_def min_name_def min_fields_def)

end
