(* ===== verification/Groupchat.thy ===== *)
theory Groupchat
  imports Groupchat_Db
begin

text \<open>
  The operations and handlers of group chats, from \<^verbatim>\<open>src/client/client_groupchat.go\<close>. An operation
  returns its error, if any, and the state of the client; messages go out through the send queue or
  directly. Log lines are left out. The realtime session that may belong to a group chat is another
  component: what the operations ask of it are fields of the environment.
\<close>

section \<open>Environment\<close>

datatype rtdt_call =
    InviteToRTDT bytes bytes | RemoveRTDTMember bytes bytes | RotateRTDTCookies bytes
  | ExitRTDT bytes | DissolveRTDT bytes | ModifyRTDTAdmins bytes "bytes list"

text \<open>A realtime session gives whether the local client administers it, its number of members and its size.\<close>

record gc_env = client_env +
  regexps :: "string regexp_lib"
  iid_draws :: "u64 list"
  token_draws :: "u64 list"
  rand_ID :: bytes
  rtdt_session :: "bytes \<Rightarrow> (bool \<times> nat \<times> nat) option"
  rtdt_isLive :: "bytes \<Rightarrow> bool"
  rtdt_do :: "rtdt_call \<Rightarrow> client_error option"

definition minSupportedGCVersion :: byte where
  "minSupportedGCVersion = 0"

definition maxSupportedGCVersion :: byte where
  "maxSupportedGCVersion = 1"

definition newGCVersion :: byte where
  "newGCVersion = 1"

definition unsupported :: "byte \<Rightarrow> bool" where
  "unsupported v \<longleftrightarrow> v < minSupportedGCVersion \<or> maxSupportedGCVersion < v"

definition notify :: "gc_ntfn \<Rightarrow> gc_client \<Rightarrow> gc_client" where
  "notify n st = st\<lparr>ntfns := ntfns st @ [n]\<rparr>"

section \<open>Names\<close>

text \<open>
  \<^verbatim>\<open>strings.TrimSpace\<close> on the bytes of a text: the white space runes in their encoding, one byte for
  the ASCII ones.
\<close>

definition ws_runes :: "nat list list" where
  "ws_runes = map (\<lambda>b. [b]) [9, 10, 11, 12, 13, 32] @ [[194, 133], [194, 160], [225, 154, 128]]
    @ map (\<lambda>b. [226, 128, b]) ([128..<139] @ [168, 169, 175]) @ [[226, 129, 159], [227, 128, 128]]"

function trim_left :: "string list \<Rightarrow> string \<Rightarrow> string" where
  "trim_left ws s =
    (case List.find (\<lambda>w. w \<noteq> [] \<and> prefix w s) ws of None \<Rightarrow> s | Some w \<Rightarrow> trim_left ws (drop (length w) s))"
  by pat_completeness auto
termination
  by (relation "measure (\<lambda>(ws, s). length s)") (auto simp: find_Some_iff prefix_def)

declare trim_left.simps [simp del]

definition TrimSpace :: "string \<Rightarrow> string" where
  "TrimSpace s =
    (let ws = map (map char_of) ws_runes
     in rev (trim_left (map rev ws) (rev (trim_left ws s))))"

definition AliasGC :: "bytes \<Rightarrow> string \<Rightarrow> gc_client \<Rightarrow> client_error option \<times> gc_client" where
  "AliasGC g newAlias st =
    (let a = TrimSpace newAlias
     in if a = [] then (Some EAliasEmpty, st)
        else case GetGC g st of
          None \<Rightarrow> (Some EDBNotFound, st)
        | Some gc \<Rightarrow>
            if list_ex (\<lambda>(i, oldAlias). i \<noteq> g \<and> oldAlias = a) (FindGCsWithPrefix a st) then (Some EAliasTaken, st)
            else (None, SaveGC (gc\<lparr>gc_Alias := a\<rparr>) st))"

definition gcIDByName :: "string \<Rightarrow> gc_client \<Rightarrow> bytes option" where
  "gcIDByName byName st = map_option fst (List.find (\<lambda>(i, name). name = byName) (FindGCsWithPrefix byName st))"

definition GCIDByName :: "string \<Rightarrow> gc_client \<Rightarrow> bytes option" where
  "GCIDByName name st = (case FromString 32 name of Inr i \<Rightarrow> Some i | Inl _ \<Rightarrow> gcIDByName name st)"

definition GCsWithPrefix :: "string \<Rightarrow> gc_client \<Rightarrow> string list" where
  "GCsWithPrefix p st = map snd (FindGCsWithPrefix p st)"

section \<open>Creation and permissions\<close>

definition NewGroupChatVersion ::
  "gc_env \<Rightarrow> string \<Rightarrow> byte \<Rightarrow> gc_client \<Rightarrow> client_error option \<times> gc_client" where
  "NewGroupChatVersion env name version st =
    (if GCIDByName name st \<noteq> None then (Some ENameTaken, st)
     else if GetGC (rand_ID env) st \<noteq> None then (Some EAlreadyExists, st)
     else (None, SaveGC
       \<lparr>Metadata = \<lparr>gl_ID = rand_ID env, gl_Name = name, Generation = 1, Timestamp = time_unix (clock env),
          Version = version, Members = [PublicID st], ExtraAdmins = []\<rparr>,
        gc_Alias = [], RTDTSessionRV = None, LastReadMsgTime = zero_time\<rparr> st))"

definition NewGroupChat :: "gc_env \<Rightarrow> string \<Rightarrow> gc_client \<Rightarrow> client_error option \<times> gc_client" where
  "NewGroupChat env name = NewGroupChatVersion env name newGCVersion"

definition uidHasGCPerm :: "RMGroupList \<Rightarrow> bytes \<Rightarrow> client_error option" where
  "uidHasGCPerm gl u =
    (if Version gl = 0 then
       if 0 < length (Members gl) \<and> ConstantTimeEq (Members gl ! 0) u then None else Some ENotPermitted
     else if Version gl = 1 then
       if 0 < length (Members gl) \<and> ConstantTimeEq (Members gl ! 0) u then None
       else if u \<in> set (ExtraAdmins gl) then None
       else Some ENotPermitted
     else Some EUnsupportedVersion)"

section \<open>Invitations\<close>

definition rtdt_room :: "gc_env \<Rightarrow> GroupChat \<Rightarrow> client_error option" where
  "rtdt_room env gc =
    (case RTDTSessionRV gc of
      None \<Rightarrow> None
    | Some rv \<Rightarrow>
        (case rtdt_session env rv of
          None \<Rightarrow> Some EDBNotFound
        | Some (localIsAdmin, members, cap) \<Rightarrow>
            if \<not> localIsAdmin then Some ERTDTNotAdmin
            else if cap \<le> members then Some ERTDTFull else None))"

definition InviteToGroupChat ::
  "gc_env \<Rightarrow> bytes \<Rightarrow> bytes \<Rightarrow> gc_client \<Rightarrow> client_error option \<times> gc_client" where
  "InviteToGroupChat env g u st =
    (if \<not> knows st u then (Some EUserNotFound, st)
     else case GetGC g st of
       None \<Rightarrow> (Some EDBNotFound, st)
     | Some gc \<Rightarrow>
         (case uidHasGCPerm (Metadata gc) (PublicID st) of
           Some e \<Rightarrow> (Some e, st)
         | None \<Rightarrow>
             (case rtdt_room env gc of
               Some e \<Rightarrow> (Some e, st)
             | None \<Rightarrow>
                 (case List.find (\<lambda>t. FindGCInvite g t st = None) (map (\<lambda>r. r mod 1000000) (token_draws env)) of
                   None \<Rightarrow> (Some ENoRandomToken, st)
                 | Some token \<Rightarrow>
                     let invite = \<lparr>gi_ID = g, gi_Name = gl_Name (Metadata gc), gi_Token = token, gi_Description = [],
                           gi_Expires = time_unix (clock env + GCInviteExpiration env), gi_Version = Version (Metadata gc)\<rparr>
                     in case AddGCInvite (iid_draws env) u invite st of
                          (None, st1) \<Rightarrow> (Some ENoRandomToken, st1)
                        | (Some _, st1) \<Rightarrow> sendRM env u (GroupInvite invite) st1))))"

definition expired :: "gc_env \<Rightarrow> RMGroupInvite \<Rightarrow> bool" where
  "expired env invite \<longleftrightarrow> from_unix (gi_Expires invite) < clock env"

definition handleGCInvite :: "gc_env \<Rightarrow> bytes \<Rightarrow> RMGroupInvite \<Rightarrow> gc_client \<Rightarrow> client_error option \<times> gc_client" where
  "handleGCInvite env ru invite0 st =
    (if IsEmpty (gi_ID invite0) then (Some EGCEmptyID, st)
     else
       let name = TrimSpace (gi_Name invite0);
           invite = invite0\<lparr>gi_Name := (if name = [] then EncodeToString (take 8 (gi_ID invite0)) else name)\<rparr>
       in if unsupported (gi_Version invite) then (Some EUnsupportedVersion, st)
          else if expired env invite then (None, st)
          else if GetGC (gi_ID invite) st \<noteq> None then (Some EAlreadyExists, st)
          else case AddGCInvite (iid_draws env) ru invite st of
            (None, st1) \<Rightarrow> (Some ENoRandomToken, st1)
          | (Some iid, st1) \<Rightarrow> (None, notify (NInvited ru iid invite) st1))"

definition DeclineGroupChatInvite :: "u64 \<Rightarrow> gc_client \<Rightarrow> client_error option \<times> gc_client" where
  "DeclineGroupChatInvite iid st =
    (case GetGCInvite iid st of
      None \<Rightarrow> (Some EDBNotFound, st)
    | Some (iv, u) \<Rightarrow> (if knows st u then None else Some EUserNotFound, DelGCInvite iid st))"

definition AcceptGroupChatInvite :: "gc_env \<Rightarrow> u64 \<Rightarrow> gc_client \<Rightarrow> client_error option \<times> gc_client" where
  "AcceptGroupChatInvite env iid st =
    (case GetGCInvite iid st of
      None \<Rightarrow> (Some EDBNotFound, st)
    | Some (invite, u) \<Rightarrow>
        (case MarkGCInviteAccepted iid st of
          (Some e, st1) \<Rightarrow> (Some e, st1)
        | (None, st1) \<Rightarrow>
            if \<not> knows st u then (Some EUserNotFound, st1)
            else if expired env invite then (Some EInviteExpired, st1)
            else sendRM env u (GroupJoin \<lparr>gj_ID = gi_ID invite, gj_Token = gi_Token invite, gj_Error = []\<rparr>) st1))"

definition removeExpiredGCInvites :: "gc_env \<Rightarrow> gc_client \<Rightarrow> gc_client" where
  "removeExpiredGCInvites env st =
    fold (\<lambda>iv. DelGCInvite (inv_ID iv))
      (filter (\<lambda>iv. \<not> clock env < from_unix (gi_Expires (inv_Invite iv))) (ListGCInvites None st)) st"

section \<open>Sending to the members\<close>

record missingKXInfo =
  mk_uid :: bytes
  mk_hasKX :: bool
  mk_hasMI :: bool
  mk_medID :: "bytes option"
  mk_miCount :: u32
  mk_skipWarn :: bool
  mk_skipMI :: bool

definition last_warning :: "bytes \<Rightarrow> gc_client \<Rightarrow> time" where
  "last_warning u st = (case map_of (unkxdWarnings st) u of None \<Rightarrow> zero_time | Some t \<Rightarrow> t)"

definition store_unkx :: "UnkxdUserInfo \<Rightarrow> gc_client \<Rightarrow> gc_client" where
  "store_unkx info st = st\<lparr>kxdb := StoreUnkxdUserInfo info (kxdb st)\<rparr>"

text \<open>The stored counters of a user without a session: whether to skip the request and the warning.\<close>

definition unkx_skips :: "gc_env \<Rightarrow> UnkxdUserInfo option \<Rightarrow> gc_client \<Rightarrow> u32 \<times> bool \<times> bool \<times> gc_client" where
  "unkx_skips env info st =
    (case info of
      None \<Rightarrow> (0, False, False, st)
    | Some unkx \<Rightarrow>
        let max = of_nat (MaxAutoKXMediateIDRequests env);
            since = (\<lambda>d. case AddedToGCTime unkx of None \<Rightarrow> False | Some t \<Rightarrow> time_sub (clock env) t < d);
            (skipMI, skipWarn, st1) =
              (if max \<le> MIRequests unkx then
                 (True, max < MIRequests unkx,
                  if max < MIRequests unkx then st
                  else store_unkx (unkx\<lparr>MIRequests := MIRequests unkx + 1\<rparr>) st)
               else (since (RecentMediateIDThreshold env), False, st))
        in (MIRequests unkx, skipMI, skipWarn \<or> since (UnkxdWarningTimeout env), st1))"

fun missing_infos ::
  "gc_env \<Rightarrow> bytes \<Rightarrow> bytes list \<Rightarrow> gc_client \<Rightarrow> (client_error + missingKXInfo list) \<times> gc_client" where
  "missing_infos env g [] st = (Inr [], st)"
| "missing_infos env g (target # targets) st =
    (let hasKX = HasKXWithUser target (kxdb st) \<noteq> [];
         hasMI = HasAnyRecentMediateID (clock env) target (RecentMediateIDThreshold env) (kxdb st);
         (miCount, skipMI, skipWarn, st1) = unkx_skips env (ReadUnxkdUserInfo target (kxdb st)) st;
         info = (\<lambda>medID. \<lparr>mk_uid = target, mk_hasKX = hasKX, mk_hasMI = hasMI, mk_medID = medID, mk_miCount = miCount,
                    mk_skipWarn = skipWarn, mk_skipMI = skipMI\<rparr>);
         rest = (\<lambda>medID. case missing_infos env g targets st1 of
                    (Inl e, st2) \<Rightarrow> (Inl e, st2) | (Inr is, st2) \<Rightarrow> (Inr (info medID # is), st2))
     in if skipMI \<or> hasMI then rest None
        else case GetGC g st1 of
          None \<Rightarrow> (Inl EDBNotFound, st1)
        | Some gc \<Rightarrow>
            let gcOwner = Members (Metadata gc) ! 0
            in rest (if gcOwner \<noteq> PublicID st1 then Some gcOwner else None))"

definition warn_missing :: "gc_env \<Rightarrow> bytes \<Rightarrow> missingKXInfo \<Rightarrow> gc_client \<Rightarrow> gc_client" where
  "warn_missing env g mkx st =
    (if mk_skipWarn mkx \<or> time_sub (clock env) (last_warning (mk_uid mkx) st) < UnkxdWarningTimeout env then st
     else notify (NUnkxdMember g (mk_uid mkx) (mk_hasKX mkx) (mk_hasMI mkx) (mk_miCount mkx) (mk_medID mkx))
            (st\<lparr>unkxdWarnings := AList.update (mk_uid mkx) (clock env) (unkxdWarnings st)\<rparr>))"

definition mediate_missing :: "gc_env \<Rightarrow> missingKXInfo \<Rightarrow> gc_client \<Rightarrow> gc_client" where
  "mediate_missing env mkx st =
    (case mk_medID mkx of
      None \<Rightarrow> st
    | Some medID \<Rightarrow>
        if mk_hasKX mkx \<or> mk_hasMI mkx \<or> mk_skipMI mkx then st
        else snd (maybeRequestMediateID env medID (mk_uid mkx) st))"

text \<open>The slice of recipients is made with the number of members less one as its capacity, which panics when there are none.\<close>

definition sendToGCMembers ::
  "gc_env \<Rightarrow> bytes \<Rightarrow> bytes list \<Rightarrow> string \<Rightarrow> client_rm \<Rightarrow> gc_client \<Rightarrow> client_error option \<times> gc_client" where
  "sendToGCMembers env g members payType msg st =
    (if members = [] then (Some EPanic, st) else
     let others = filter (\<lambda>u. u \<noteq> PublicID st) members;
         missing = filter (\<lambda>u. \<not> knows st u \<and> UnkxdWarningTimeout env < time_sub (clock env) (last_warning u st)) others;
         ids = filter (\<lambda>u. knows st u) others
     in case send_priority env (''gc.'' @ ShortLogID g @ ''.'' @ payType) msg priorityGC ids st of
          (Some e, st1) \<Rightarrow> (Some e, st1)
        | (None, st1) \<Rightarrow>
            if missing = [] then (None, st1)
            else case missing_infos env g missing st1 of
              (Inl e, st2) \<Rightarrow> (Some e, st2)
            | (Inr infos, st2) \<Rightarrow>
                (None, fold (mediate_missing env) infos (fold (warn_missing env g) infos st2)))"

section \<open>Updates of the list\<close>

definition maybeNotifyGCVersionWarning :: "bytes \<Rightarrow> bytes \<Rightarrow> RMGroupList \<Rightarrow> gc_client \<Rightarrow> gc_client" where
  "maybeNotifyGCVersionWarning ru g gl st =
    (if unsupported (Version gl) \<and> g \<notin> set (gcWarnedVersions st)
     then notify (NVersionWarning ru gl) (st\<lparr>gcWarnedVersions := g # gcWarnedVersions st\<rparr>) else st)"

text \<open>Members that are in no address book are expected to introduce themselves; the time is noted once.\<close>

definition mark_added :: "gc_env \<Rightarrow> bytes \<Rightarrow> gc_client \<Rightarrow> gc_client" where
  "mark_added env u st =
    (if u = PublicID st \<or> map_of (addressBook st) u \<noteq> None then st
     else
       let unkx = unkxd_or_new u (kxdb st)
       in if AddedToGCTime unkx \<noteq> None then st
          else store_unkx (unkx\<lparr>AddedToGCTime := Some (clock env)\<rparr>) st)"

definition maybeUpdateGCFunc ::
  "gc_env \<Rightarrow> bytes option \<Rightarrow> bytes \<Rightarrow> (GroupChat \<Rightarrow> client_error + GroupChat) \<Rightarrow> gc_client
     \<Rightarrow> (client_error + (GroupChat \<times> GroupChat)) \<times> gc_client" where
  "maybeUpdateGCFunc env ru g f st =
    (let updaterID = (case ru of None \<Rightarrow> PublicID st | Some u \<Rightarrow> u)
     in case GetGC g st of
       None \<Rightarrow> (Inl EDBNotFound, st)
     | Some oldGC \<Rightarrow>
         if Members (Metadata oldGC) = [] then (Inl EZeroMembers, st)
         else case f oldGC of
           Inl e \<Rightarrow> (Inl e, st)
         | Inr newGC \<Rightarrow>
             let oldMeta = Metadata oldGC; newMeta = Metadata newGC;
                 warn = (\<lambda>st. case ru of None \<Rightarrow> st | Some u \<Rightarrow> maybeNotifyGCVersionWarning u (gl_ID newMeta) newMeta st)
             in if Generation newMeta < Generation oldMeta then (Inl EGenerationBacktrack, st)
                else if Version newMeta < Version oldMeta then (Inl EVersionDowngrade, st)
                else if gl_Name newMeta \<noteq> gl_Name oldMeta then (Inl ENameChange, st)
                else if Members newMeta = [] then (Inl EZeroMembers, st)
                else if Members oldMeta ! 0 \<noteq> Members newMeta ! 0 \<and> Members oldMeta ! 0 \<noteq> updaterID
                then (Inl EOwnerOnly, st)
                else case uidHasGCPerm oldMeta updaterID of
                  Some e \<Rightarrow> (Inl e, warn st)
                | None \<Rightarrow>
                    if PublicID st \<notin> set (Members newMeta) then
                      (case DeleteGC (gl_ID oldMeta) st of
                        (Some e, st1) \<Rightarrow> (Inl e, warn st1)
                      | (None, st1) \<Rightarrow> (Inr (oldGC, newGC), warn st1))
                    else
                      (Inr (oldGC, newGC),
                       warn (SaveGC newGC (if ru = None then st else fold (mark_added env) (Members newMeta) st))))"

definition maybeUpdateGC ::
  "gc_env \<Rightarrow> bytes \<Rightarrow> RMGroupList \<Rightarrow> gc_client \<Rightarrow> (client_error + GroupChat) \<times> gc_client" where
  "maybeUpdateGC env ru newGCMeta st =
    (case maybeUpdateGCFunc env (Some ru) (gl_ID newGCMeta) (\<lambda>gc. Inr (gc\<lparr>Metadata := newGCMeta\<rparr>)) st of
      (Inl e, st1) \<Rightarrow> (Inl e, st1)
    | (Inr (oldGC, _), st1) \<Rightarrow> (Inr oldGC, st1))"

text \<open>The items of a new list that are not in the old one, and those of the old one that are not in the new.\<close>

definition sliceDiff :: "bytes list \<Rightarrow> bytes list \<Rightarrow> bytes list \<times> bytes list" where
  "sliceDiff oldSlice newSlice =
    (filter (\<lambda>v. v \<notin> set oldSlice) (remdups newSlice), filter (\<lambda>v. v \<notin> set newSlice) oldSlice)"

text \<open>
  When the owner changes, the notification of changed administrators carries the changed members
  instead of the changed administrators.
\<close>

definition notifyUpdatedGC :: "bytes \<Rightarrow> RMGroupList \<Rightarrow> RMGroupList \<Rightarrow> gc_client \<Rightarrow> gc_client" where
  "notifyUpdatedGC ru oldGC newGC st =
    (let (mAdded, mRemoved) = sliceDiff (Members oldGC) (Members newGC);
         (aAdded, aRemoved) = sliceDiff (ExtraAdmins oldGC) (ExtraAdmins newGC);
         ownerChanged = (Members oldGC ! 0 \<noteq> Members newGC ! 0);
         st = (if Version oldGC \<noteq> Version newGC then notify (NUpgraded newGC (Version oldGC)) st else st);
         st = (if mAdded \<noteq> [] then notify (NAddedMembers newGC mAdded) st else st);
         st = (if mRemoved \<noteq> [] then notify (NRemovedMembers newGC mRemoved) st else st)
     in if ownerChanged \<or> aRemoved \<noteq> [] \<or> aAdded \<noteq> [] then
          notify (if ownerChanged
            then NAdminsChanged ru newGC (mAdded @ [Members newGC ! 0]) (mRemoved @ [Members oldGC ! 0])
            else NAdminsChanged ru newGC aAdded aRemoved) st
        else st)"

definition handleGCJoin :: "gc_env \<Rightarrow> bytes \<Rightarrow> RMGroupJoin \<Rightarrow> gc_client \<Rightarrow> client_error option \<times> gc_client" where
  "handleGCJoin env ru join st =
    (case FindGCInvite (gj_ID join) (gj_Token join) st of
      None \<Rightarrow> (Some EDBNotFound, st)
    | Some (sentInvite, u, iid) \<Rightarrow>
        if expired env sentInvite then (Some EInviteExpired, st)
        else if u \<noteq> ru then (Some EWrongInvitee, st)
        else case GetGC (gj_ID join) st of
          None \<Rightarrow> (Some EDBNotFound, st)
        | Some gc \<Rightarrow>
            (case uidHasGCPerm (Metadata gc) (PublicID st) of
              Some e \<Rightarrow> (Some e, st)
            | None \<Rightarrow>
                let st1 = DelGCInvite iid st
                in if u \<in> set (Members (Metadata gc)) then (Some EAlreadyMember, st1)
                   else if gj_Error join \<noteq> [] then (None, st1)
                   else
                     let meta = Metadata gc;
                         meta' = meta\<lparr>Members := Members meta @ [u], Generation := Generation meta + 1,
                                   Timestamp := time_unix (clock env)\<rparr>;
                         st2 = SaveGC (gc\<lparr>Metadata := meta'\<rparr>) st1
                     in case sendToGCMembers env (gl_ID meta') (Members meta') ''sendlist'' (GroupList meta') st2 of
                          (Some e, st3) \<Rightarrow> (Some e, st3)
                        | (None, st3) \<Rightarrow>
                            (case RTDTSessionRV gc of None \<Rightarrow> None | Some rv \<Rightarrow> rtdt_do env (InviteToRTDT rv ru),
                             notify (NInviteAccepted ru meta') st3)))"

text \<open>The alias under which a chat is stored when its name is taken: the name of the invitation with a number.\<close>

fun alias_loop :: "nat \<Rightarrow> string \<Rightarrow> nat \<Rightarrow> gc_client \<Rightarrow> string option" where
  "alias_loop 0 name i st = None"
| "alias_loop (Suc fuel) name i st =
    (let alias = name @ ''_'' @ Itoa i
     in if gcIDByName alias st \<noteq> None then alias_loop fuel name (Suc i) st else Some alias)"

definition joined_alias :: "string \<Rightarrow> string \<Rightarrow> gc_client \<Rightarrow> string option" where
  "joined_alias name inviteName st =
    (if gcIDByName name st = None then Some [] else alias_loop (Suc (length (gc_files st))) inviteName 1 st)"

definition saveJoinedGC :: "bytes \<Rightarrow> RMGroupList \<Rightarrow> gc_client \<Rightarrow> client_error option \<times> gc_client" where
  "saveJoinedGC ru gl st =
    (if GetGC (gl_ID gl) st \<noteq> None then (Some EAlreadyExists, st)
     else case FindAcceptedGCInvite (gl_ID gl) ru st of
       None \<Rightarrow> (Some EDBNotFound, st)
     | Some (invite, _) \<Rightarrow>
         let warn = maybeNotifyGCVersionWarning ru (gl_ID gl) gl
         in case uidHasGCPerm gl ru of
              Some e \<Rightarrow> (Some e, warn st)
            | None \<Rightarrow>
                let st1 = DelAllInvitesToGC (gl_ID gl) st
                in case joined_alias (gl_Name gl) (gi_Name invite) st1 of
                     None \<Rightarrow> (Some EAliasTaken, warn st1)
                   | Some alias \<Rightarrow>
                       (None, warn (SaveGC \<lparr>Metadata = gl, gc_Alias = alias, RTDTSessionRV = None,
                          LastReadMsgTime = zero_time\<rparr> st1)))"

definition handleGCList :: "gc_env \<Rightarrow> bytes \<Rightarrow> RMGroupList \<Rightarrow> gc_client \<Rightarrow> client_error option \<times> gc_client" where
  "handleGCList env ru gl st =
    (if GetGC (gl_ID gl) st \<noteq> None then
       (case maybeUpdateGC env ru gl st of
         (Inl e, st1) \<Rightarrow> (Some e, st1)
       | (Inr oldGC, st1) \<Rightarrow> (None, notifyUpdatedGC ru (Metadata oldGC) gl st1))
     else
       case saveJoinedGC ru gl st of
         (Some e, st1) \<Rightarrow> (Some e, st1)
       | (None, st1) \<Rightarrow>
           (None, fold (\<lambda>v st. snd (maybeRequestMediateID env ru v st))
              (filter (\<lambda>v. v \<noteq> PublicID st1 \<and> \<not> knows st1 v) (Members gl)) (notify (NJoined gl) st1)))"

section \<open>Messages\<close>

definition GCMessage ::
  "gc_env \<Rightarrow> bytes \<Rightarrow> string \<Rightarrow> nat \<Rightarrow> gc_client \<Rightarrow> client_error option \<times> gc_client" where
  "GCMessage env g msg mode st =
    (case GetGC g st of
      None \<Rightarrow> (Some EDBNotFound, st)
    | Some gc \<Rightarrow>
        let p = \<lparr>gm_ID = g, gm_Generation = Generation (Metadata gc), gm_Message = msg, gm_Mode = mode\<rparr>;
            members = FilterMembers (GetGCBlockList g st) (Members (Metadata gc))
        in if members = [] then (None, st)
           else sendToGCMembers env g members ''msg'' (GroupMessage p) st)"

definition ignored :: "bytes \<Rightarrow> gc_client \<Rightarrow> bool" where
  "ignored u st = (case map_of (rul st) u of None \<Rightarrow> False | Some ru \<Rightarrow> ru_ignored ru)"

text \<open>
  The answer to a message for an unknown group chat is sent by a goroutine; here it goes out before
  the handler returns. A message that passes the checks is stored before the content filters see it.
\<close>

definition handleGCMessage ::
  "gc_env \<Rightarrow> bytes \<Rightarrow> RMGroupMessage \<Rightarrow> time \<Rightarrow> gc_client \<Rightarrow> client_error option \<times> gc_client" where
  "handleGCMessage env ru gcm ts st =
    (if ignored ru st then (None, st)
     else case GetGC (gm_ID gcm) st of
       None \<Rightarrow>
         (Some EDBNotFound,
          snd (send_priority env (''gc.'' @ ShortLogID (gm_ID gcm) @ ''.preventiveGroupPart'')
            (GroupPart \<lparr>gp_ID = gm_ID gcm, gp_Reason = ''I am not in that groupchat''\<rparr>) priorityGC [ru] st))
     | Some gc \<Rightarrow>
         if ru \<notin> set (Members (Metadata gc)) then (None, st)
         else if IsBlocked (GetGCBlockList (gm_ID gcm) st) ru then (None, st)
         else
           let rgcm = \<lparr>rg_MsgID = rand_ID env, rg_UID = ru, rg_GCM = gcm, rg_TS = ts, rg_GCAlias = gc_Name gc\<rparr>;
               st1 = CacheReceivedGCM rgcm st;
               ((filtered, _), fs) = FilterGCM (regexps env) ru (gl_ID (Metadata gc)) (gm_Message gcm) (gc_filters st1);
               st2 = st1\<lparr>gc_filters := fs\<rparr>
           in if filtered then (None, st2) else (None, st2\<lparr>gcmq := gcmq st2 @ [rgcm]\<rparr>))"

definition handleDelayedGCMessages :: "ReceivedGCMsg \<Rightarrow> gc_client \<Rightarrow> gc_client" where
  "handleDelayedGCMessages msg st =
    (if \<not> knows st (rg_UID msg) then st
     else notify (NMessage (rg_UID msg) (rg_GCM msg) (rg_GCAlias msg) (rg_TS msg)) (RemoveCachedRGCM msg st))"

definition loadCachedRGCMs :: "gc_client \<Rightarrow> gc_client" where
  "loadCachedRGCMs st = st\<lparr>gcmq := gcmq st @ ListCachedRGCMs st\<rparr>"

text \<open>The loop drops the last element in every round, and skips an element that is not the local client.\<close>

function dest_count_loop :: "bytes \<Rightarrow> nat \<Rightarrow> bytes list \<Rightarrow> nat" where
  "dest_count_loop me i members =
    (if i < length members then
       let i' = (if members ! i \<noteq> me then i + 1 else i);
           members' = (if i' < length members - 1 then members[i' := members ! (length members - 1)] else members)
       in dest_count_loop me i' (butlast members')
     else length members)"
  by pat_completeness auto
termination
  by (relation "measure (\<lambda>(me, i, members). length members)") (auto simp: Let_def)

declare dest_count_loop.simps [simp del]

definition GetGCDestCount :: "bytes \<Rightarrow> gc_client \<Rightarrow> nat" where
  "GetGCDestCount g st =
    (case GetGC g st of
      None \<Rightarrow> 0
    | Some gc \<Rightarrow> dest_count_loop (PublicID st) 0 (FilterMembers (GetGCBlockList g st) (Members (Metadata gc))))"

section \<open>Leaving and removing\<close>

definition removeFromGC ::
  "gc_env \<Rightarrow> bytes \<Rightarrow> bytes \<Rightarrow> bool \<Rightarrow> gc_client \<Rightarrow> (client_error + (bytes list \<times> GroupChat)) \<times> gc_client" where
  "removeFromGC env g u localUserMustBeAdmin st =
    (case GetGC g st of
      None \<Rightarrow> (Inl EDBNotFound, st)
    | Some gc \<Rightarrow>
        let meta = Metadata gc
        in case (if localUserMustBeAdmin then uidHasGCPerm meta (PublicID st) else None) of
             Some e \<Rightarrow> (Inl e, st)
           | None \<Rightarrow>
               if u \<notin> set (Members meta) then (Inl ENotMember, st)
               else if Members meta ! 0 = u then (Inl ERemoveOwner, st)
               else
                 let gc' = gc\<lparr>Metadata := meta\<lparr>ExtraAdmins := remove1 u (ExtraAdmins meta),
                       Members := remove1 u (Members meta), Timestamp := time_unix (clock env),
                       Generation := (if localUserMustBeAdmin then Generation meta + 1 else Generation meta)\<rparr>\<rparr>
                 in (Inr (Members meta, gc'), SaveGC gc' st))"

text \<open>The calls to the realtime session after the members were told; the first error is returned.\<close>

definition rtdt_calls :: "gc_env \<Rightarrow> bytes option \<Rightarrow> (bytes \<Rightarrow> rtdt_call list) \<Rightarrow> client_error option" where
  "rtdt_calls env rv calls =
    (case rv of
      None \<Rightarrow> None
    | Some r \<Rightarrow> foldl (\<lambda>e c. case e of Some _ \<Rightarrow> e | None \<Rightarrow> rtdt_do env c) None (calls r))"

definition GCKick :: "gc_env \<Rightarrow> bytes \<Rightarrow> bytes \<Rightarrow> string \<Rightarrow> gc_client \<Rightarrow> client_error option \<times> gc_client" where
  "GCKick env g u reason st =
    (case GetGC g st of
      None \<Rightarrow> (Some EDBNotFound, st)
    | Some gc \<Rightarrow>
        if (case RTDTSessionRV gc of None \<Rightarrow> False | Some rv \<Rightarrow> \<not> rtdt_isLive env rv) then (Some ERTDTOther, st)
        else case removeFromGC env g u True st of
          (Inl e, st1) \<Rightarrow> (Some e, st1)
        | (Inr (oldMembers, gc'), st1) \<Rightarrow>
            let rmgk = \<lparr>kick_Member = u, kick_Reason = reason, kick_Parted = False, kick_NewGroupList = Metadata gc'\<rparr>
            in case sendToGCMembers env g oldMembers ''kick'' (GroupKick rmgk) (notify (NParted g u reason True) st1) of
                 (Some e, st2) \<Rightarrow> (Some e, st2)
               | (None, st2) \<Rightarrow>
                   (rtdt_calls env (RTDTSessionRV gc') (\<lambda>rv. [RemoveRTDTMember rv u, RotateRTDTCookies rv]), st2))"

definition handleGCKick :: "gc_env \<Rightarrow> bytes \<Rightarrow> RMGroupKick \<Rightarrow> gc_client \<Rightarrow> client_error option \<times> gc_client" where
  "handleGCKick env ru rmgk st =
    (case maybeUpdateGC env ru (kick_NewGroupList rmgk) st of
      (Inl e, st1) \<Rightarrow> (Some e, st1)
    | (Inr oldGC, st1) \<Rightarrow>
        (None, notifyUpdatedGC ru (Metadata oldGC) (kick_NewGroupList rmgk)
          (notify (NParted (gl_ID (kick_NewGroupList rmgk)) (kick_Member rmgk) (kick_Reason rmgk) (\<not> kick_Parted rmgk)) st1)))"

definition PartFromGC :: "gc_env \<Rightarrow> bytes \<Rightarrow> string \<Rightarrow> gc_client \<Rightarrow> client_error option \<times> gc_client" where
  "PartFromGC env g reason st =
    (case GetGC g st of
      None \<Rightarrow> (Some EDBNotFound, st)
    | Some gc \<Rightarrow>
        if Members (Metadata gc) = [] \<or> Members (Metadata gc) ! 0 = PublicID st then (Some ECannotPart, st)
        else case DeleteGC g st of
          (Some e, st1) \<Rightarrow> (Some e, st1)
        | (None, st1) \<Rightarrow>
            (case sendToGCMembers env g (Members (Metadata gc)) ''part'' (GroupPart \<lparr>gp_ID = g, gp_Reason = reason\<rparr>) st1 of
              (Some e, st2) \<Rightarrow> (Some e, st2)
            | (None, st2) \<Rightarrow> (rtdt_calls env (RTDTSessionRV gc) (\<lambda>rv. [ExitRTDT rv]), st2)))"

definition handleGCPart :: "gc_env \<Rightarrow> bytes \<Rightarrow> RMGroupPart \<Rightarrow> gc_client \<Rightarrow> client_error option \<times> gc_client" where
  "handleGCPart env ru rmgp st =
    (case removeFromGC env (gp_ID rmgp) ru False st of
      (Inl e, st1) \<Rightarrow> (Some e, st1)
    | (Inr _, st1) \<Rightarrow> (None, notify (NParted (gp_ID rmgp) ru (gp_Reason rmgp) False) st1))"

definition KillGroupChat :: "gc_env \<Rightarrow> bytes \<Rightarrow> string \<Rightarrow> gc_client \<Rightarrow> client_error option \<times> gc_client" where
  "KillGroupChat env g reason st =
    (case GetGC g st of
      None \<Rightarrow> (Some EDBNotFound, st)
    | Some gc \<Rightarrow>
        if Members (Metadata gc) = [] \<or> Members (Metadata gc) ! 0 \<noteq> PublicID st then (Some ENotOwner, st)
        else case DeleteGC (gl_ID (Metadata gc)) st of
          (Some e, st1) \<Rightarrow> (Some e, st1)
        | (None, st1) \<Rightarrow>
            (case sendToGCMembers env g (Members (Metadata gc)) ''kill'' (GroupKill \<lparr>gk_ID = g, gk_Reason = reason\<rparr>) st1 of
              (Some e, st2) \<Rightarrow> (Some e, st2)
            | (None, st2) \<Rightarrow> (rtdt_calls env (RTDTSessionRV gc) (\<lambda>rv. [DissolveRTDT rv]), st2)))"

definition handleGCKill :: "bytes \<Rightarrow> RMGroupKill \<Rightarrow> gc_client \<Rightarrow> client_error option \<times> gc_client" where
  "handleGCKill ru rmgk st =
    (case GetGC (gk_ID rmgk) st of
      None \<Rightarrow> (Some EDBNotFound, st)
    | Some gc \<Rightarrow>
        if Members (Metadata gc) = [] \<or> Members (Metadata gc) ! 0 \<noteq> ru then (Some ENotOwner, st)
        else case DeleteGC (gl_ID (Metadata gc)) st of
          (Some e, st1) \<Rightarrow> (Some e, st1)
        | (None, st1) \<Rightarrow> (None, notify (NKilled ru (gk_ID rmgk) (gk_Reason rmgk)) st1))"

section \<open>Block lists\<close>

definition block_list_op ::
  "(bytes \<Rightarrow> bytes \<Rightarrow> gc_client \<Rightarrow> gc_client) \<Rightarrow> bytes \<Rightarrow> bytes \<Rightarrow> gc_client \<Rightarrow> client_error option \<times> gc_client" where
  "block_list_op op g u st =
    (if \<not> knows st u then (Some EUserNotFound, st)
     else case GetGC g st of
       None \<Rightarrow> (Some EDBNotFound, st)
     | Some gc \<Rightarrow> if u \<notin> set (Members (Metadata gc)) then (Some ENotMember, st) else (None, op g u st))"

definition AddToGCBlockList :: "bytes \<Rightarrow> bytes \<Rightarrow> gc_client \<Rightarrow> client_error option \<times> gc_client" where
  "AddToGCBlockList = block_list_op AddToGCBlockList_db"

definition RemoveFromGCBlockList :: "bytes \<Rightarrow> bytes \<Rightarrow> gc_client \<Rightarrow> client_error option \<times> gc_client" where
  "RemoveFromGCBlockList = block_list_op RemoveFromGCBlockList_db"

section \<open>Administration\<close>

definition ResendGCList :: "gc_env \<Rightarrow> bytes \<Rightarrow> bytes option \<Rightarrow> gc_client \<Rightarrow> client_error option \<times> gc_client" where
  "ResendGCList env g u st =
    (if (case u of None \<Rightarrow> False | Some v \<Rightarrow> \<not> knows st v) then (Some EUserNotFound, st)
     else case GetGC g st of
       None \<Rightarrow> (Some EDBNotFound, st)
     | Some gc \<Rightarrow>
         (case uidHasGCPerm (Metadata gc) (PublicID st) of
           Some e \<Rightarrow> (Some e, st)
         | None \<Rightarrow>
             (case u of
               None \<Rightarrow>
                 if Members (Metadata gc) = [] then (Some EPanic, st)
                 else (None, snd (sendToGCMembers env g (Members (Metadata gc)) ''resendGCList'' (NoRM gc) st))
             | Some v \<Rightarrow>
                 if v \<notin> set (Members (Metadata gc)) then (Some ENotMember, st)
                 else send_default env (''gc.'' @ ShortLogID g @ ''.resendGCList'') (NoRM gc) [v] st)))"

definition upgraded :: "gc_env \<Rightarrow> byte \<Rightarrow> GroupChat \<Rightarrow> client_error + GroupChat" where
  "upgraded env newVersion gc =
    (let meta = Metadata gc
     in if newVersion \<le> Version meta then Inl EVersionDowngrade
        else Inr (gc\<lparr>Metadata := meta\<lparr>Version := newVersion, Timestamp := time_unix (clock env),
               Generation := Generation meta + 1\<rparr>\<rparr>))"

definition UpgradeGC :: "gc_env \<Rightarrow> bytes \<Rightarrow> byte \<Rightarrow> gc_client \<Rightarrow> client_error option \<times> gc_client" where
  "UpgradeGC env g newVersion st =
    (if unsupported newVersion then (Some EUnsupportedVersion, st)
     else case maybeUpdateGCFunc env None g (upgraded env newVersion) st of
       (Inl e, st1) \<Rightarrow> (Some e, st1)
     | (Inr (oldGC, newGC), st1) \<Rightarrow>
         sendToGCMembers env g (Members (Metadata newGC)) ''upgradeGC''
           (GroupUpgrade \<lparr>up_NewGroupList = Metadata newGC\<rparr>) st1)"

definition handleGCUpgradeVersion ::
  "gc_env \<Rightarrow> bytes \<Rightarrow> RMGroupUpgradeVersion \<Rightarrow> gc_client \<Rightarrow> client_error option \<times> gc_client" where
  "handleGCUpgradeVersion env ru gcuv st =
    (case maybeUpdateGC env ru (up_NewGroupList gcuv) st of
      (Inl e, st1) \<Rightarrow> (Some e, st1)
    | (Inr oldGC, st1) \<Rightarrow> (None, notifyUpdatedGC ru (Metadata oldGC) (up_NewGroupList gcuv) st1))"

text \<open>The first new administrator that is no member, or that the client does not know.\<close>

fun check_admins :: "gc_client \<Rightarrow> bytes list \<Rightarrow> bytes list \<Rightarrow> client_error option" where
  "check_admins st members [] = None"
| "check_admins st members (u # us) =
    (if u \<notin> set members then Some ENotAMember
     else if \<not> knows st u then Some EUnknownAdmin
     else check_admins st members us)"

definition with_admins :: "gc_env \<Rightarrow> gc_client \<Rightarrow> bytes list \<Rightarrow> GroupChat \<Rightarrow> client_error + GroupChat" where
  "with_admins env st extraAdmins gc =
    (let meta = Metadata gc
     in if Version meta < 1 then Inl EVersionTooLow
        else case check_admins st (Members meta) extraAdmins of
          Some e \<Rightarrow> Inl e
        | None \<Rightarrow> Inr (gc\<lparr>Metadata := meta\<lparr>Timestamp := time_unix (clock env), Generation := Generation meta + 1,
                     ExtraAdmins := extraAdmins\<rparr>\<rparr>))"

definition ModifyGCAdmins ::
  "gc_env \<Rightarrow> bytes \<Rightarrow> bytes list \<Rightarrow> string \<Rightarrow> gc_client \<Rightarrow> client_error option \<times> gc_client" where
  "ModifyGCAdmins env g extraAdmins reason st =
    (case maybeUpdateGCFunc env None g (with_admins env st extraAdmins) st of
      (Inl e, st1) \<Rightarrow> (Some e, st1)
    | (Inr (oldGC, newGC), st1) \<Rightarrow>
        (case sendToGCMembers env g (Members (Metadata newGC)) ''modifyAdmins''
            (GroupAdmins \<lparr>adm_Reason = reason, adm_NewGroupList = Metadata newGC\<rparr>) st1 of
          (Some e, st2) \<Rightarrow> (Some e, st2)
        | (None, st2) \<Rightarrow> (rtdt_calls env (RTDTSessionRV newGC) (\<lambda>rv. [ModifyRTDTAdmins rv extraAdmins]), st2)))"

text \<open>The position of the first occurrence.\<close>

fun slices_Index :: "bytes list \<Rightarrow> bytes \<Rightarrow> nat option" where
  "slices_Index [] v = None"
| "slices_Index (x # xs) v = (if x = v then Some 0 else map_option Suc (slices_Index xs v))"

definition with_owner :: "gc_env \<Rightarrow> bytes \<Rightarrow> GroupChat \<Rightarrow> client_error + GroupChat" where
  "with_owner env newOwner gc =
    (let meta = Metadata gc; ms = Members meta
     in if Version meta < 1 then Inl EVersionTooLow
        else case slices_Index ms newOwner of
          None \<Rightarrow> Inl ENotMember
        | Some k \<Rightarrow>
            if k = 0 then Inl EAlreadyOwner
            else Inr (gc\<lparr>Metadata := meta\<lparr>Timestamp := time_unix (clock env), Generation := Generation meta + 1,
                   Members := ms[0 := ms ! k, k := ms ! 0], ExtraAdmins := remove1 newOwner (ExtraAdmins meta)\<rparr>\<rparr>))"

definition ModifyGCOwner :: "gc_env \<Rightarrow> bytes \<Rightarrow> bytes \<Rightarrow> string \<Rightarrow> gc_client \<Rightarrow> client_error option \<times> gc_client" where
  "ModifyGCOwner env g newOwner reason st =
    (case maybeUpdateGCFunc env None g (with_owner env newOwner) st of
      (Inl e, st1) \<Rightarrow> (Some e, st1)
    | (Inr (oldGC, newGC), st1) \<Rightarrow>
        sendToGCMembers env g (Members (Metadata newGC)) ''modifyOwner''
          (GroupAdmins \<lparr>adm_Reason = reason, adm_NewGroupList = Metadata newGC\<rparr>) st1)"

definition handleGCUpdateAdmins ::
  "gc_env \<Rightarrow> bytes \<Rightarrow> RMGroupUpdateAdmins \<Rightarrow> gc_client \<Rightarrow> client_error option \<times> gc_client" where
  "handleGCUpdateAdmins env ru gcup st =
    (case maybeUpdateGC env ru (adm_NewGroupList gcup) st of
      (Inl e, st1) \<Rightarrow> (Some e, st1)
    | (Inr oldGC, st1) \<Rightarrow> (None, notifyUpdatedGC ru (Metadata oldGC) (adm_NewGroupList gcup) st1))"

definition UpdateLastMsgReadTime_gc :: "bytes \<Rightarrow> time \<Rightarrow> gc_client \<Rightarrow> client_error option \<times> gc_client" where
  "UpdateLastMsgReadTime_gc g t st =
    (case GetGC g st of
      None \<Rightarrow> (Some EDBNotFound, st)
    | Some gc \<Rightarrow> (None, SaveGC (gc\<lparr>LastReadMsgTime := t\<rparr>) st))"

definition AddInviteOnKX :: "gc_env \<Rightarrow> bytes \<Rightarrow> bytes \<Rightarrow> gc_client \<Rightarrow> gc_client" where
  "AddInviteOnKX env initialRV g st =
    st\<lparr>kxdb := AddInitialKXAction initialRV
        \<lparr>act_Type = PKXActionInviteGC, act_DateAdded = clock env, act_Data = id_String g\<rparr> (kxdb st)\<rparr>"

section \<open>Steps\<close>

text \<open>
  What can happen to the group chats of a client: operations of its user, messages from other users,
  the release of a message by the message cache, and the reload at start.
\<close>

datatype gc_step =
    LAlias bytes string
  | LNew string byte
  | LInvite bytes bytes
  | LDecline u64
  | LAccept u64
  | LExpire
  | LMessage bytes string nat
  | LKick bytes bytes string
  | LPart bytes string
  | LKill bytes string
  | LBlock bytes bytes
  | LUnblock bytes bytes
  | LResend bytes "bytes option"
  | LUpgrade bytes byte
  | LAdmins bytes "bytes list" string
  | LOwner bytes bytes string
  | LRead bytes time
  | LDelayed ReceivedGCMsg
  | LReload
  | RInvite bytes RMGroupInvite
  | RJoin bytes RMGroupJoin
  | RList bytes RMGroupList
  | RKick bytes RMGroupKick
  | RPart bytes RMGroupPart
  | RKill bytes RMGroupKill
  | RUpgrade bytes RMGroupUpgradeVersion
  | RAdmins bytes RMGroupUpdateAdmins
  | RMsg bytes RMGroupMessage time

fun gc_exec :: "gc_env \<Rightarrow> gc_step \<Rightarrow> gc_client \<Rightarrow> client_error option \<times> gc_client" where
  "gc_exec env (LAlias g a) st = AliasGC g a st"
| "gc_exec env (LNew name v) st = NewGroupChatVersion env name v st"
| "gc_exec env (LInvite g u) st = InviteToGroupChat env g u st"
| "gc_exec env (LDecline i) st = DeclineGroupChatInvite i st"
| "gc_exec env (LAccept i) st = AcceptGroupChatInvite env i st"
| "gc_exec env LExpire st = (None, removeExpiredGCInvites env st)"
| "gc_exec env (LMessage g m mode) st = GCMessage env g m mode st"
| "gc_exec env (LKick g u r) st = GCKick env g u r st"
| "gc_exec env (LPart g r) st = PartFromGC env g r st"
| "gc_exec env (LKill g r) st = KillGroupChat env g r st"
| "gc_exec env (LBlock g u) st = AddToGCBlockList g u st"
| "gc_exec env (LUnblock g u) st = RemoveFromGCBlockList g u st"
| "gc_exec env (LResend g u) st = ResendGCList env g u st"
| "gc_exec env (LUpgrade g v) st = UpgradeGC env g v st"
| "gc_exec env (LAdmins g us r) st = ModifyGCAdmins env g us r st"
| "gc_exec env (LOwner g u r) st = ModifyGCOwner env g u r st"
| "gc_exec env (LRead g t) st = UpdateLastMsgReadTime_gc g t st"
| "gc_exec env (LDelayed m) st = (None, handleDelayedGCMessages m st)"
| "gc_exec env LReload st = (None, loadCachedRGCMs st)"
| "gc_exec env (RInvite ru m) st = handleGCInvite env ru m st"
| "gc_exec env (RJoin ru m) st = handleGCJoin env ru m st"
| "gc_exec env (RList ru m) st = handleGCList env ru m st"
| "gc_exec env (RKick ru m) st = handleGCKick env ru m st"
| "gc_exec env (RPart ru m) st = handleGCPart env ru m st"
| "gc_exec env (RKill ru m) st = handleGCKill ru m st"
| "gc_exec env (RUpgrade ru m) st = handleGCUpgradeVersion env ru m st"
| "gc_exec env (RAdmins ru m) st = handleGCUpdateAdmins env ru m st"
| "gc_exec env (RMsg ru m ts) st = handleGCMessage env ru m ts st"

text \<open>Who acts in a step: the sender of a message, or the local client.\<close>

fun actor :: "gc_client \<Rightarrow> gc_step \<Rightarrow> bytes" where
  "actor st (RInvite ru m) = ru"
| "actor st (RJoin ru m) = ru"
| "actor st (RList ru m) = ru"
| "actor st (RKick ru m) = ru"
| "actor st (RPart ru m) = ru"
| "actor st (RKill ru m) = ru"
| "actor st (RUpgrade ru m) = ru"
| "actor st (RAdmins ru m) = ru"
| "actor st (RMsg ru m ts) = ru"
| "actor st _ = PublicID st"

end
