(* ===== verification/Groupchat_Correct.thy ===== *)
theory Groupchat_Correct
  imports Groupchat
begin

text \<open>
  What holds of the group chats of a client, for all operations and messages: who can change a chat
  and how, that versions, generations and names do not go back, how a chat and a member come in, and
  which messages reach the message cache and the members.
\<close>

section \<open>What sending leaves alone\<close>

text \<open>The part of the state that the group chat handlers change themselves.\<close>

definition gcv where
  "gcv (st :: gc_client) = (PublicID st, rul st, gc_files st, gc_aliases st, invites st, block_lists st, cachedGCMs st,
    gc_filters st, gcmq st)"

lemma more_gcv:
  fixes st st' :: gc_client
  assumes "client.more st' = client.more st" "PublicID st' = PublicID st" "rul st' = rul st"
  shows "gcv st' = gcv st"
  using assms by (cases st; cases st') (simp add: gcv_def)

lemma gcv_sends [simp]:
  "gcv (snd (send_priority env typ rm p ds st)) = gcv st"
  "gcv (snd (send_default env typ rm ds st)) = gcv st"
  "gcv (snd (sendRM env u rm st)) = gcv st"
  by (rule more_gcv; simp)+

lemma gcv_kxdb [simp]: "gcv (st\<lparr>kxdb := k\<rparr>) = gcv st"
  by (simp add: gcv_def)

lemma gcv_notify [simp]: "gcv (notify n st) = gcv st"
  by (simp add: gcv_def notify_def)

lemma gcv_maybeRequest [simp]: "gcv (snd (maybeRequestMediateID env m t st)) = gcv st"
  by (simp add: maybeRequestMediateID_def Let_def)

lemma gcv_fold: "(\<And>x st. gcv (f x st) = gcv st) \<Longrightarrow> gcv (fold f xs st) = gcv st"
  by (induction xs arbitrary: st) auto

lemma gcv_store_unkx [simp]: "gcv (store_unkx i st) = gcv st"
  by (simp add: store_unkx_def)

lemma gcv_unkx_skips: "gcv (snd (snd (snd (unkx_skips env i st)))) = gcv st"
  by (simp add: unkx_skips_def Let_def split: option.split)

lemma gcv_missing_infos: "gcv (snd (missing_infos env g us st)) = gcv st"
proof (induction us arbitrary: st)
  case (Cons u us)
  obtain c sm sw st1 where s: "unkx_skips env (ReadUnxkdUserInfo u (kxdb st)) st = (c, sm, sw, st1)"
    by (cases "unkx_skips env (ReadUnxkdUserInfo u (kxdb st)) st") auto
  then have "gcv st1 = gcv st" using gcv_unkx_skips [of env "ReadUnxkdUserInfo u (kxdb st)" st] by simp
  with Cons [of st1] show ?case by (auto simp: s Let_def split: prod.splits sum.splits option.splits)
qed simp

lemma gcv_warn_missing [simp]: "gcv (warn_missing env g m st) = gcv st"
  by (simp add: warn_missing_def) (simp add: gcv_def)

lemma gcv_mediate_missing [simp]: "gcv (mediate_missing env m st) = gcv st"
  by (simp add: mediate_missing_def split: option.split)

lemma gcv_sendToGCMembers [simp]: "gcv (snd (sendToGCMembers env g ms pt msg st)) = gcv st"
proof -
  define ids where "ids = filter (\<lambda>u. knows st u) (filter (\<lambda>u. u \<noteq> PublicID st) ms)"
  obtain e st1 where s: "send_priority env (''gc.'' @ ShortLogID g @ ''.'' @ pt) msg priorityGC ids st = (e, st1)"
    by (cases "send_priority env (''gc.'' @ ShortLogID g @ ''.'' @ pt) msg priorityGC ids st")
  then have 1: "gcv st1 = gcv st" by (metis gcv_sends(1) snd_conv)
  define missing where "missing = filter (\<lambda>u. \<not> knows st u \<and> UnkxdWarningTimeout env < time_sub (clock env) (last_warning u st))
    (filter (\<lambda>u. u \<noteq> PublicID st) ms)"
  obtain r st2 where m: "missing_infos env g missing st1 = (r, st2)" by (cases "missing_infos env g missing st1")
  then have 2: "gcv st2 = gcv st" using gcv_missing_infos [of env g missing st1] 1 by simp
  have def: "sendToGCMembers env g ms pt msg st = (if ms = [] then (Some EPanic, st) else case e of Some e \<Rightarrow> (Some e, st1) | None \<Rightarrow>
      if missing = [] then (None, st1) else case r of Inl e \<Rightarrow> (Some e, st2)
      | Inr infos \<Rightarrow> (None, fold (mediate_missing env) infos (fold (warn_missing env g) infos st2)))"
    unfolding sendToGCMembers_def Let_def ids_def [symmetric] missing_def [symmetric] s prod.case m ..
  show ?thesis
    unfolding def using 1 2 by (simp add: gcv_fold split: option.split sum.split)
qed

lemma gcv_warnVersion [simp]: "gcv (maybeNotifyGCVersionWarning ru g gl st) = gcv st"
  by (simp add: maybeNotifyGCVersionWarning_def) (simp add: gcv_def)

lemma gcv_mark_added [simp]: "gcv (mark_added env u st) = gcv st"
  by (simp add: mark_added_def Let_def)

lemma gcv_notifyUpdated [simp]: "gcv (notifyUpdatedGC ru o' n st) = gcv st"
  by (simp add: notifyUpdatedGC_def Let_def split_beta)

lemma gcvD:
  assumes "gcv st' = gcv st"
  shows "PublicID st' = PublicID st" "rul st' = rul st" "gc_files st' = gc_files st" "invites st' = invites st"
    "block_lists st' = block_lists st" "cachedGCMs st' = cachedGCMs st" "gcmq st' = gcmq st" "gc_filters st' = gc_filters st"
    "GetGC g st' = GetGC g st" "gc_aliases st' = gc_aliases st"
  using assms GetGC_cong [of st' st g] by (auto simp: gcv_def)

section \<open>How a chat can change\<close>

definition meta :: "bytes \<Rightarrow> gc_client \<Rightarrow> RMGroupList option" where
  "meta g st = map_option Metadata (GetGC g st)"

lemma meta_gcv: "gcv st' = gcv st \<Longrightarrow> meta g st' = meta g st"
  by (drule gcvD(9) [of _ _ g]) (simp add: meta_def)

lemma meta_sends [simp]:
  "meta g (snd (sendToGCMembers env h ms pt msg st)) = meta g st"
  "meta g (snd (send_priority env typ rm p ds st)) = meta g st"
  "meta g (snd (send_default env typ rm ds st)) = meta g st"
  "meta g (snd (sendRM env u rm st)) = meta g st"
  "meta g (notify n st) = meta g st"
  "meta g (notifyUpdatedGC ru o' n' st) = meta g st"
  by (rule meta_gcv; simp)+

text \<open>Chats are stored under their identifier. The first member is the owner.\<close>

definition gc_ok :: "gc_client \<Rightarrow> bool" where
  "gc_ok st \<longleftrightarrow> (\<forall>g gl. meta g st = Some gl \<longrightarrow> gl_ID gl = g)"

definition owner :: "RMGroupList \<Rightarrow> bytes" where
  "owner gl = hd (Members gl)"

text \<open>
  The possible changes of one chat in a step, from its old to its new list: a chat that the client
  creates or joins; an update by somebody with permission in the old list, which removes the chat
  when the local client is no longer a member; a member that is removed or leaves; a member that
  joins with an invitation; the local client that leaves; and the end of the chat.
\<close>

definition without :: "bytes \<Rightarrow> int \<Rightarrow> RMGroupList \<Rightarrow> RMGroupList" where
  "without u t gl = gl\<lparr>ExtraAdmins := remove1 u (ExtraAdmins gl), Members := remove1 u (Members gl), Timestamp := t\<rparr>"

inductive gc_effect :: "gc_env \<Rightarrow> gc_client \<Rightarrow> gc_step \<Rightarrow> bytes \<Rightarrow> RMGroupList option \<Rightarrow> RMGroupList option \<Rightarrow> bool"
  for env st s g where
  same: "gc_effect env st s g old old"
| created: "s = LNew name v \<Longrightarrow> g = rand_ID env \<Longrightarrow> gl_ID gl = g \<Longrightarrow> Members gl = [PublicID st] \<Longrightarrow> ExtraAdmins gl = []
    \<Longrightarrow> Generation gl = 1 \<Longrightarrow> Version gl = v \<Longrightarrow> gl_Name gl = name \<Longrightarrow> gc_effect env st s g None (Some gl)"
| joined: "s = RList ru gl \<Longrightarrow> gl_ID gl = g \<Longrightarrow> FindAcceptedGCInvite g ru st \<noteq> None \<Longrightarrow> uidHasGCPerm gl ru = None
    \<Longrightarrow> gc_effect env st s g None (Some gl)"
| updated: "uidHasGCPerm gl (actor st s) = None \<Longrightarrow> Members gl \<noteq> [] \<Longrightarrow> gl_ID new = g \<Longrightarrow> gl_Name new = gl_Name gl
    \<Longrightarrow> Version gl \<le> Version new \<Longrightarrow> Generation gl \<le> Generation new \<Longrightarrow> Members new \<noteq> []
    \<Longrightarrow> owner new = owner gl \<or> owner gl = actor st s
    \<Longrightarrow> gc_effect env st s g (Some gl) (if PublicID st \<in> set (Members new) then Some new else None)"
| kicked: "s = LKick g u r \<Longrightarrow> uidHasGCPerm gl (PublicID st) = None \<Longrightarrow> u \<in> set (Members gl) \<Longrightarrow> owner gl \<noteq> u
    \<Longrightarrow> gc_effect env st s g (Some gl) (Some ((without u t gl)\<lparr>Generation := Generation gl + 1\<rparr>))"
| parted: "s = RPart u m \<Longrightarrow> gp_ID m = g \<Longrightarrow> u \<in> set (Members gl) \<Longrightarrow> owner gl \<noteq> u
    \<Longrightarrow> gc_effect env st s g (Some gl) (Some (without u t gl))"
| added: "s = RJoin u m \<Longrightarrow> gj_ID m = g \<Longrightarrow> FindGCInvite g (gj_Token m) st = Some (iv, u, i) \<Longrightarrow> \<not> expired env iv
    \<Longrightarrow> uidHasGCPerm gl (PublicID st) = None \<Longrightarrow> u \<notin> set (Members gl)
    \<Longrightarrow> gc_effect env st s g (Some gl)
          (Some (gl\<lparr>Members := Members gl @ [u], Generation := Generation gl + 1, Timestamp := t\<rparr>))"
| left: "s = LPart g r \<Longrightarrow> Members gl \<noteq> [] \<Longrightarrow> owner gl \<noteq> PublicID st \<Longrightarrow> gc_effect env st s g (Some gl) None"
| killed: "s = LKill g r \<or> (\<exists>m. s = RKill (actor st s) m \<and> gk_ID m = g) \<Longrightarrow> Members gl \<noteq> [] \<Longrightarrow> owner gl = actor st s
    \<Longrightarrow> gc_effect env st s g (Some gl) None"

lemma owner_nth: "Members gl \<noteq> [] \<Longrightarrow> Members gl ! 0 = owner gl"
  by (simp add: owner_def hd_conv_nth)

lemma meta_Some: "GetGC h st = Some gc \<Longrightarrow> meta h st = Some (Metadata gc)"
  by (simp add: meta_def)

lemma meta_SaveGC: "meta g (SaveGC gc st) = (if g = gl_ID (Metadata gc) then Some (Metadata gc) else meta g st)"
  by (simp add: meta_def)

lemma meta_DeleteGC: "GetGC i st \<noteq> None \<Longrightarrow> meta g (snd (DeleteGC i st)) = (if g = i then None else meta g st)"
  by (simp add: meta_def GetGC_DeleteGC)

lemma gc_okD: "gc_ok st \<Longrightarrow> GetGC g st = Some gc \<Longrightarrow> gl_ID (Metadata gc) = g"
  unfolding gc_ok_def by (drule spec [of _ g], drule spec [of _ "Metadata gc"]) (simp add: meta_def)

lemma meta_invites [simp]: "meta g (st\<lparr>invites := x\<rparr>) = meta g st"
  unfolding meta_def by (rule arg_cong [where f = "map_option Metadata"], rule GetGC_cong) simp_all

lemma meta_DelGCInvite [simp]:
  "meta g (DelGCInvite i st) = meta g st"
  "meta g (DelAllInvitesToGC h st) = meta g st"
  by (simp_all add: DelGCInvite_def DelAllInvitesToGC_def)

lemma meta_AddGCInvite [simp]: "meta g (snd (AddGCInvite draws u iv st)) = meta g st"
  by (simp add: AddGCInvite_def split: option.split)

lemma meta_MarkGCInviteAccepted [simp]: "meta g (snd (MarkGCInviteAccepted i st)) = meta g st"
  by (simp add: MarkGCInviteAccepted_def split: option.split)

text \<open>An update of the list, by a remote user or the local one.\<close>

lemma maybeUpdateGCFunc_meta:
  assumes ok: "gc_ok st"
    and upd: "maybeUpdateGCFunc env ru h f st = (res, st')"
    and f: "\<And>gc new. f gc = Inr new \<Longrightarrow> gl_ID (Metadata gc) = h \<Longrightarrow> gl_ID (Metadata new) = h"
    and ru: "actor st s = (case ru of None \<Rightarrow> PublicID st | Some u \<Rightarrow> u)"
  shows "gc_effect env st s g (meta g st) (meta g st')"
proof (cases "meta g st' = meta g st")
  case False
  let ?u = "actor st s"
  have un: "(case ru of None \<Rightarrow> PublicID st | Some u \<Rightarrow> u) = ?u" using ru by simp
  obtain old where old: "GetGC h st = Some old"
    using False upd by (auto simp: maybeUpdateGCFunc_def Let_def split: option.splits)
  have okh: "gl_ID (Metadata old) = h" "Members (Metadata old) \<noteq> []"
    using gc_okD [OF ok old] False upd old by (auto simp: maybeUpdateGCFunc_def Let_def)
  obtain new where new: "f old = Inr new"
    using False upd old by (auto simp: maybeUpdateGCFunc_def Let_def split: if_splits sum.splits)
  have idn: "gl_ID (Metadata new) = h" using f [OF new] okh by simp
  let ?om = "Metadata old" let ?nm = "Metadata new"
  define W where "W = (\<lambda>st. case ru of None \<Rightarrow> st | Some u \<Rightarrow> maybeNotifyGCVersionWarning u (gl_ID ?nm) ?nm st)"
  have warn: "meta k (W x) = meta k x" for k x by (rule meta_gcv) (simp add: W_def split: option.split)
  have upd': "maybeUpdateGCFunc env ru h f st = (if Generation ?nm < Generation ?om then (Inl EGenerationBacktrack, st)
      else if Version ?nm < Version ?om then (Inl EVersionDowngrade, st)
      else if gl_Name ?nm \<noteq> gl_Name ?om then (Inl ENameChange, st)
      else if Members ?nm = [] then (Inl EZeroMembers, st)
      else if Members ?om ! 0 \<noteq> Members ?nm ! 0 \<and> Members ?om ! 0 \<noteq> ?u then (Inl EOwnerOnly, st)
      else case uidHasGCPerm ?om ?u of Some e \<Rightarrow> (Inl e, W st)
      | None \<Rightarrow> if PublicID st \<notin> set (Members ?nm) then (Inr (old, new), W (snd (DeleteGC h st)))
          else (Inr (old, new), W (SaveGC new (if ru = None then st else fold (mark_added env) (Members ?nm) st))))"
    using okh old new
    by (simp only: maybeUpdateGCFunc_def Let_def un old new option.case sum.case W_def if_False DeleteGC_Some [of h st]
        prod.case snd_conv option.distinct not_False_eq_True)
  have checks: "\<not> Generation ?nm < Generation ?om" "\<not> Version ?nm < Version ?om" "gl_Name ?nm = gl_Name ?om"
      "Members ?nm \<noteq> []" "\<not> (Members ?om ! 0 \<noteq> Members ?nm ! 0 \<and> Members ?om ! 0 \<noteq> ?u)"
      "uidHasGCPerm ?om ?u = None"
    using False upd unfolding upd' by (auto simp: warn split: if_splits option.splits)
  have st': "st' = (if PublicID st \<notin> set (Members ?nm) then W (snd (DeleteGC h st))
      else W (SaveGC new (if ru = None then st else fold (mark_added env) (Members ?nm) st)))"
    using upd checks unfolding upd' by (auto split: if_splits)
  have base: "meta k (if ru = None then st else fold (mark_added env) (Members ?nm) st) = meta k st" for k
    by (rule meta_gcv) (simp add: gcv_fold)
  have "meta g st' = (if g = h then (if PublicID st \<in> set (Members ?nm) then Some ?nm else None) else meta g st)"
    unfolding st' using old idn by (auto simp: warn meta_DeleteGC meta_SaveGC base)
  with False have g: "g = h" and m: "meta g st' = (if PublicID st \<in> set (Members ?nm) then Some ?nm else None)"
    by (auto split: if_splits)
  have "gc_effect env st s g (Some ?om) (if PublicID st \<in> set (Members ?nm) then Some ?nm else None)"
    using checks okh idn g by (intro gc_effect.updated) (auto simp: owner_nth)
  then show ?thesis using m old g by (simp add: meta_def)
qed (simp add: gc_effect.same)

lemma maybeUpdateGC_meta:
  assumes "gc_ok st" "maybeUpdateGC env ru gl st = (res, st')" "actor st s = ru"
  shows "gc_effect env st s g (meta g st) (meta g st')"
proof -
  obtain r where "maybeUpdateGCFunc env (Some ru) (gl_ID gl) (\<lambda>gc. Inr (gc\<lparr>Metadata := gl\<rparr>)) st = (r, st')"
    using assms(2) by (auto simp: maybeUpdateGC_def split: prod.splits sum.splits)
  from maybeUpdateGCFunc_meta [OF assms(1) this] assms(3) show ?thesis by auto
qed

lemma meta_send_case:
  "meta g (snd (case sendToGCMembers env h ms pt msg st of (Some e, st2) \<Rightarrow> (Some e, st2) | (None, st2) \<Rightarrow> (k, st2))) = meta g st"
  by (cases "sendToGCMembers env h ms pt msg st")
    (use meta_sends(1) [of g env h ms pt msg st] in \<open>auto split: option.split\<close>)

text \<open>A member that is removed.\<close>

lemma removeFromGC_cases:
  assumes ok: "gc_ok st" and r: "removeFromGC env h u adm st = (res, st')"
  obtains "isl res" "st' = st"
  | gc t where "GetGC h st = Some gc" "adm \<Longrightarrow> uidHasGCPerm (Metadata gc) (PublicID st) = None"
      "u \<in> set (Members (Metadata gc))" "owner (Metadata gc) \<noteq> u"
      "\<And>g. meta g st' = (if g = h then
         Some ((without u t (Metadata gc))\<lparr>Generation := (if adm then Generation (Metadata gc) + 1 else Generation (Metadata gc))\<rparr>)
         else meta g st)"
proof (cases "GetGC h st")
  case (Some gc)
  note okh = gc_okD [OF ok Some]
  show ?thesis
  proof (cases "(if adm then uidHasGCPerm (Metadata gc) (PublicID st) else None) = None \<and> u \<in> set (Members (Metadata gc))
      \<and> Members (Metadata gc) ! 0 \<noteq> u")
    case True
    then have "Members (Metadata gc) \<noteq> []" by auto
    with True have "adm \<Longrightarrow> uidHasGCPerm (Metadata gc) (PublicID st) = None" "owner (Metadata gc) \<noteq> u"
      using owner_nth [of "Metadata gc"] by (auto split: if_splits)
    with True r Some okh show ?thesis
      by (intro that(2) [of gc "time_unix (clock env)"])
        (auto simp: removeFromGC_def Let_def meta_SaveGC without_def)
  next
    case False
    with r Some show ?thesis
      by (intro that(1)) (auto simp: removeFromGC_def Let_def split: option.splits if_splits)
  qed
qed (use r that(1) in \<open>auto simp: removeFromGC_def\<close>)

lemma GCKick_meta:
  assumes ok: "gc_ok st"
  shows "gc_effect env st (LKick h u r) g (meta g st) (meta g (snd (GCKick env h u r st)))"
proof -
  obtain res st1 where rm: "removeFromGC env h u True st = (res, st1)" by (cases "removeFromGC env h u True st")
  have same: "meta g (snd (GCKick env h u r st)) = meta g st \<or> meta g (snd (GCKick env h u r st)) = meta g st1"
    by (auto simp: GCKick_def rm Let_def split: option.split sum.split prod.split)
       (metis meta_sends(1,5) snd_conv)+
  show ?thesis
  proof (rule removeFromGC_cases [OF ok rm])
    fix gc t
    assume *: "GetGC h st = Some gc" "True \<Longrightarrow> uidHasGCPerm (Metadata gc) (PublicID st) = None"
      "u \<in> set (Members (Metadata gc))" "owner (Metadata gc) \<noteq> u"
      "\<And>g. meta g st1 = (if g = h then
         Some ((without u t (Metadata gc))\<lparr>Generation := (if True then Generation (Metadata gc) + 1 else Generation (Metadata gc))\<rparr>)
         else meta g st)"
    show ?thesis
    proof (cases "g = h \<and> meta g (snd (GCKick env h u r st)) = meta g st1")
      case True
      then have "meta g st = Some (Metadata gc)" using *(1) by (simp add: meta_def)
      with True * show ?thesis by (auto intro!: gc_effect.kicked)
    next
      case False
      with same *(5) show ?thesis by (auto intro: gc_effect.same)
    qed
  qed (use same in \<open>auto intro: gc_effect.same\<close>)
qed

lemma handleGCPart_meta:
  assumes ok: "gc_ok st"
  shows "gc_effect env st (RPart u m) g (meta g st) (meta g (snd (handleGCPart env u m st)))"
proof -
  obtain res st1 where rm: "removeFromGC env (gp_ID m) u False st = (res, st1)" by (cases "removeFromGC env (gp_ID m) u False st")
  have same: "meta g (snd (handleGCPart env u m st)) = meta g st1"
    by (simp add: handleGCPart_def rm split: sum.split)
  show ?thesis unfolding same
  proof (rule removeFromGC_cases [OF ok rm])
    fix gc t
    assume *: "GetGC (gp_ID m) st = Some gc"
      "u \<in> set (Members (Metadata gc))" "owner (Metadata gc) \<noteq> u"
      "\<And>g. meta g st1 = (if g = gp_ID m then
         Some ((without u t (Metadata gc))\<lparr>Generation := (if False then Generation (Metadata gc) + 1 else Generation (Metadata gc))\<rparr>)
         else meta g st)"
    have w: "(without u t gl)\<lparr>Generation := Generation gl\<rparr> = without u t gl" for gl by (simp add: without_def)
    show "gc_effect env st (RPart u m) g (meta g st) (meta g st1)"
    proof (cases "g = gp_ID m")
      case True
      then have "meta g st = Some (Metadata gc)" using *(1) by (simp add: meta_def)
      with True * show ?thesis by (auto intro!: gc_effect.parted simp: w)
    qed (simp add: * gc_effect.same)
  qed (simp add: gc_effect.same)
qed

text \<open>The local client leaves, or the owner ends the chat.\<close>

lemma after_DeleteGC:
  assumes "GetGC h st = Some gc" "DeleteGC h st = (e, st1)"
  shows "e = None" "meta g st1 = (if g = h then None else meta g st)"
  using assms meta_DeleteGC [of h st g] by (auto simp: DeleteGC_Some)

lemma PartFromGC_meta:
  "gc_effect env st (LPart h r) g (meta g st) (meta g (snd (PartFromGC env h r st)))"
proof (cases "GetGC h st")
  case (Some gc)
  obtain e st1 where d: "DeleteGC h st = (e, st1)" by (cases "DeleteGC h st")
  note del = after_DeleteGC [OF Some d]
  show ?thesis
  proof (cases "Members (Metadata gc) = [] \<or> owner (Metadata gc) = PublicID st")
    case True
    then show ?thesis by (auto simp: PartFromGC_def Some owner_nth gc_effect.same)
  next
    case False
    then have "meta g (snd (PartFromGC env h r st)) = meta g st1"
      by (simp add: PartFromGC_def Some owner_nth d del(1) meta_send_case)
    then show ?thesis using False by (auto simp: del meta_Some [OF Some] intro: gc_effect.left gc_effect.same)
  qed
qed (simp add: PartFromGC_def gc_effect.same)

lemma KillGroupChat_meta:
  assumes ok: "gc_ok st"
  shows "gc_effect env st (LKill h r) g (meta g st) (meta g (snd (KillGroupChat env h r st)))"
proof (cases "GetGC h st")
  case (Some gc)
  obtain e st1 where d: "DeleteGC h st = (e, st1)" by (cases "DeleteGC h st")
  note del = after_DeleteGC [OF Some d]
  show ?thesis
  proof (cases "Members (Metadata gc) = [] \<or> owner (Metadata gc) \<noteq> PublicID st")
    case True
    then show ?thesis by (auto simp: KillGroupChat_def Some owner_nth gc_effect.same)
  next
    case False
    then have "meta g (snd (KillGroupChat env h r st)) = meta g st1"
      by (simp add: KillGroupChat_def Some owner_nth gc_okD [OF ok Some] d del(1) meta_send_case)
    then show ?thesis using False by (auto simp: del meta_Some [OF Some] intro!: gc_effect.killed intro: gc_effect.same)
  qed
qed (simp add: KillGroupChat_def gc_effect.same)

lemma handleGCKill_meta:
  assumes ok: "gc_ok st"
  shows "gc_effect env st (RKill ru m) g (meta g st) (meta g (snd (handleGCKill ru m st)))"
proof (cases "GetGC (gk_ID m) st")
  case (Some gc)
  obtain e st1 where d: "DeleteGC (gk_ID m) st = (e, st1)" by (cases "DeleteGC (gk_ID m) st")
  note del = after_DeleteGC [OF Some d]
  show ?thesis
  proof (cases "Members (Metadata gc) = [] \<or> owner (Metadata gc) \<noteq> ru")
    case True
    then show ?thesis by (auto simp: handleGCKill_def Some owner_nth gc_effect.same)
  next
    case False
    then have "meta g (snd (handleGCKill ru m st)) = meta g st1"
      by (simp add: handleGCKill_def Some owner_nth gc_okD [OF ok Some] d del(1))
    then show ?thesis using False by (auto simp: del meta_Some [OF Some] intro!: gc_effect.killed intro: gc_effect.same)
  qed
qed (simp add: handleGCKill_def gc_effect.same)

text \<open>A member that joins, and a list that arrives.\<close>

lemma handleGCJoin_meta:
  assumes ok: "gc_ok st"
  shows "gc_effect env st (RJoin ru m) g (meta g st) (meta g (snd (handleGCJoin env ru m st)))"
proof (cases "meta g (snd (handleGCJoin env ru m st)) = meta g st")
  case False
  obtain iv u i where find: "FindGCInvite (gj_ID m) (gj_Token m) st = Some (iv, u, i)"
    using False by (cases "FindGCInvite (gj_ID m) (gj_Token m) st") (auto simp: handleGCJoin_def)
  have exp: "\<not> expired env iv" and u: "u = ru"
    using False find by (auto simp: handleGCJoin_def split: if_splits)
  obtain gc where gc: "GetGC (gj_ID m) st = Some gc"
    using False find exp u by (auto simp: handleGCJoin_def split: option.splits)
  note okh = gc_okD [OF ok gc]
  let ?new = "(Metadata gc)\<lparr>Members := Members (Metadata gc) @ [ru], Generation := Generation (Metadata gc) + 1,
    Timestamp := time_unix (clock env)\<rparr>"
  have perm: "uidHasGCPerm (Metadata gc) (PublicID st) = None" and mem: "ru \<notin> set (Members (Metadata gc))"
    using False find exp u gc by (auto simp: handleGCJoin_def Let_def split: if_splits option.splits)
  have "meta g (snd (handleGCJoin env ru m st)) = meta g (DelGCInvite i st) \<or>
      meta g (snd (handleGCJoin env ru m st)) = meta g (SaveGC (gc\<lparr>Metadata := ?new\<rparr>) (DelGCInvite i st))"
    using find exp u gc perm mem
    by (auto simp: handleGCJoin_def Let_def split: option.split prod.split) (metis meta_sends(1) snd_conv)+
  with False okh have g: "g = gj_ID m" and m: "meta g (snd (handleGCJoin env ru m st)) = Some ?new"
    by (auto simp: meta_SaveGC split: if_splits)
  show ?thesis
    using find exp u perm mem gc g unfolding m by (auto simp: meta_def intro!: gc_effect.added)
qed (simp add: gc_effect.same)

lemma saveJoinedGC_meta:
  assumes "meta g (snd (saveJoinedGC ru gl st)) \<noteq> meta g st"
  shows "g = gl_ID gl \<and> GetGC (gl_ID gl) st = None \<and> FindAcceptedGCInvite g ru st \<noteq> None \<and> uidHasGCPerm gl ru = None
    \<and> meta g (snd (saveJoinedGC ru gl st)) = Some gl"
proof -
  have w: "meta g (maybeNotifyGCVersionWarning ru' h gl' x) = meta g x" for ru' h gl' x
    by (rule meta_gcv) simp
  have new: "GetGC (gl_ID gl) st = None"
    using assms by (cases "GetGC (gl_ID gl) st") (auto simp: saveJoinedGC_def)
  obtain iv k where f: "FindAcceptedGCInvite (gl_ID gl) ru st = Some (iv, k)"
    using assms new by (cases "FindAcceptedGCInvite (gl_ID gl) ru st") (auto simp: saveJoinedGC_def)
  have perm: "uidHasGCPerm gl ru = None"
    using assms new f by (cases "uidHasGCPerm gl ru") (auto simp: saveJoinedGC_def Let_def w)
  obtain a where a: "joined_alias (gl_Name gl) (gi_Name iv) (DelAllInvitesToGC (gl_ID gl) st) = Some a"
    using assms new f perm
    by (cases "joined_alias (gl_Name gl) (gi_Name iv) (DelAllInvitesToGC (gl_ID gl) st)") (auto simp: saveJoinedGC_def Let_def w)
  have "meta g (snd (saveJoinedGC ru gl st)) = (if g = gl_ID gl then Some gl else meta g st)"
    by (simp add: saveJoinedGC_def new f perm a Let_def w meta_SaveGC)
  with assms new f perm show ?thesis by (auto split: if_splits)
qed

lemma handleGCList_meta:
  assumes ok: "gc_ok st"
  shows "gc_effect env st (RList ru gl) g (meta g st) (meta g (snd (handleGCList env ru gl st)))"
proof (cases "GetGC (gl_ID gl) st")
  case (Some gc)
  obtain r st1 where u: "maybeUpdateGC env ru gl st = (r, st1)" by (cases "maybeUpdateGC env ru gl st")
  have "meta g (snd (handleGCList env ru gl st)) = meta g st1"
    by (simp add: handleGCList_def Some u split: sum.split)
  then show ?thesis using maybeUpdateGC_meta [OF ok u, of "RList ru gl" g] by simp
next
  case None
  obtain e st1 where s: "saveJoinedGC ru gl st = (e, st1)" by (cases "saveJoinedGC ru gl st")
  have "meta g (fold (\<lambda>v st. snd (maybeRequestMediateID env ru v st)) xs (notify n x)) = meta g x" for xs n and x :: gc_client
    by (rule meta_gcv) (simp add: gcv_fold)
  then have m: "meta g (snd (handleGCList env ru gl st)) = meta g st1"
    by (simp add: handleGCList_def None s split: option.split)
  show ?thesis
    using saveJoinedGC_meta [of g ru gl st] None unfolding m
    by (cases "meta g st1 = meta g st") (auto simp: s gc_effect.same meta_def intro!: gc_effect.joined)
qed

text \<open>Lists that other messages carry, and the changes of the local user.\<close>

lemma handled_meta:
  assumes ok: "gc_ok st"
  shows "gc_effect env st (RKick ru k) g (meta g st) (meta g (snd (handleGCKick env ru k st)))"
    and "gc_effect env st (RUpgrade ru v) g (meta g st) (meta g (snd (handleGCUpgradeVersion env ru v st)))"
    and "gc_effect env st (RAdmins ru a) g (meta g st) (meta g (snd (handleGCUpdateAdmins env ru a st)))"
proof -
  have "gc_effect env st s g (meta g st) (meta g (snd (maybeUpdateGC env ru gl st)))" if "actor st s = ru" for s gl
    using maybeUpdateGC_meta [OF ok surjective_pairing that] .
  note upd = this
  have "meta g (snd (handleGCKick env ru k st)) = meta g (snd (maybeUpdateGC env ru (kick_NewGroupList k) st))"
    by (simp add: handleGCKick_def split: prod.split sum.split)
  then show "gc_effect env st (RKick ru k) g (meta g st) (meta g (snd (handleGCKick env ru k st)))" using upd by simp
  have "meta g (snd (handleGCUpgradeVersion env ru v st)) = meta g (snd (maybeUpdateGC env ru (up_NewGroupList v) st))"
    by (simp add: handleGCUpgradeVersion_def split: prod.split sum.split)
  then show "gc_effect env st (RUpgrade ru v) g (meta g st) (meta g (snd (handleGCUpgradeVersion env ru v st)))" using upd by simp
  have "meta g (snd (handleGCUpdateAdmins env ru a st)) = meta g (snd (maybeUpdateGC env ru (adm_NewGroupList a) st))"
    by (simp add: handleGCUpdateAdmins_def split: prod.split sum.split)
  then show "gc_effect env st (RAdmins ru a) g (meta g st) (meta g (snd (handleGCUpdateAdmins env ru a st)))" using upd by simp
qed

lemma changed_lists_ID:
  "upgraded env v gc = Inr new \<Longrightarrow> gl_ID (Metadata new) = gl_ID (Metadata gc)"
  "with_admins env st us gc = Inr new \<Longrightarrow> gl_ID (Metadata new) = gl_ID (Metadata gc)"
  "with_owner env u gc = Inr new \<Longrightarrow> gl_ID (Metadata new) = gl_ID (Metadata gc)"
  by (auto simp: upgraded_def with_admins_def with_owner_def Let_def split: if_splits option.splits)

lemma local_meta:
  assumes ok: "gc_ok st"
  shows "gc_effect env st (LUpgrade h v) g (meta g st) (meta g (snd (UpgradeGC env h v st)))"
    and "gc_effect env st (LAdmins h us r) g (meta g st) (meta g (snd (ModifyGCAdmins env h us r st)))"
    and "gc_effect env st (LOwner h u r) g (meta g st) (meta g (snd (ModifyGCOwner env h u r st)))"
proof -
  have upd: "gc_effect env st s g (meta g st) (meta g (snd (maybeUpdateGCFunc env None h f st)))"
    if "actor st s = PublicID st" "\<And>gc new. f gc = Inr new \<Longrightarrow> gl_ID (Metadata new) = gl_ID (Metadata gc)" for s f
    by (rule maybeUpdateGCFunc_meta [OF ok, where ru = None and h = h and f = f and res = "fst (maybeUpdateGCFunc env None h f st)"])
       (use that in auto)
  have "meta g (snd (UpgradeGC env h v st)) = (if unsupported v then meta g st
      else meta g (snd (maybeUpdateGCFunc env None h (upgraded env v) st)))"
    by (simp add: UpgradeGC_def split: prod.split sum.split)
  then show "gc_effect env st (LUpgrade h v) g (meta g st) (meta g (snd (UpgradeGC env h v st)))"
    using upd [of "LUpgrade h v" "upgraded env v"] by (simp add: gc_effect.same changed_lists_ID)
  have "meta g (snd (ModifyGCAdmins env h us r st)) = meta g (snd (maybeUpdateGCFunc env None h (with_admins env st us) st))"
    by (simp add: ModifyGCAdmins_def split: prod.split sum.split option.split) (metis meta_sends(1) snd_conv)
  then show "gc_effect env st (LAdmins h us r) g (meta g st) (meta g (snd (ModifyGCAdmins env h us r st)))"
    using upd [of "LAdmins h us r" "with_admins env st us"] by (simp add: changed_lists_ID)
  have "meta g (snd (ModifyGCOwner env h u r st)) = meta g (snd (maybeUpdateGCFunc env None h (with_owner env u) st))"
    by (simp add: ModifyGCOwner_def split: prod.split sum.split)
  then show "gc_effect env st (LOwner h u r) g (meta g st) (meta g (snd (ModifyGCOwner env h u r st)))"
    using upd [of "LOwner h u r" "with_owner env u"] by (simp add: changed_lists_ID)
qed

lemma NewGroupChat_meta:
  "gc_effect env st (LNew name v) g (meta g st) (meta g (snd (NewGroupChatVersion env name v st)))"
proof (cases "g = rand_ID env \<and> GetGC g st = None \<and> GCIDByName name st = None")
  case True
  then have "meta g st = None" by (auto simp: meta_def)
  with True show ?thesis
    by (auto simp: NewGroupChatVersion_def meta_SaveGC intro!: gc_effect.created)
qed (auto simp: NewGroupChatVersion_def meta_SaveGC gc_effect.same)

text \<open>Everything else leaves the lists as they are.\<close>

lemma meta_AliasGC: "gc_ok st \<Longrightarrow> meta g (snd (AliasGC h a st)) = meta g st"
  by (cases "GetGC h st") (auto simp: AliasGC_def Let_def meta_SaveGC gc_okD meta_def dest: gc_okD)

lemma meta_UpdateLast: "gc_ok st \<Longrightarrow> meta g (snd (UpdateLastMsgReadTime_gc h t st)) = meta g st"
  by (cases "GetGC h st") (auto simp: UpdateLastMsgReadTime_gc_def meta_SaveGC meta_def dest: gc_okD)

lemma meta_Invite: "meta g (snd (InviteToGroupChat env h u st)) = meta g st"
  by (auto simp: InviteToGroupChat_def Let_def split: option.split prod.split) (metis meta_AddGCInvite snd_conv)+

lemma meta_handleInvite: "meta g (snd (handleGCInvite env ru iv st)) = meta g st"
  by (auto simp: handleGCInvite_def Let_def split: option.split prod.split) (metis meta_AddGCInvite snd_conv)+

lemma meta_Decline: "meta g (snd (DeclineGroupChatInvite i st)) = meta g st"
  by (simp add: DeclineGroupChatInvite_def split: option.split prod.split)

lemma meta_Accept: "meta g (snd (AcceptGroupChatInvite env i st)) = meta g st"
  by (auto simp: AcceptGroupChatInvite_def split: option.split prod.split) (metis meta_MarkGCInviteAccepted snd_conv)+

lemma meta_Expire: "meta g (removeExpiredGCInvites env st) = meta g st"
proof -
  have "meta g (fold (\<lambda>iv. DelGCInvite (inv_ID iv)) xs st) = meta g st" for xs
    by (induction xs arbitrary: st) simp_all
  then show ?thesis by (simp add: removeExpiredGCInvites_def)
qed

lemma meta_files: "gc_files st' = gc_files st \<Longrightarrow> gc_aliases st' = gc_aliases st \<Longrightarrow> meta g st' = meta g st"
  using GetGC_cong [of st' st g] by (simp add: meta_def)

lemma meta_messages:
  "meta g (snd (GCMessage env h m mode st)) = meta g st"
  "meta g (snd (handleGCMessage env ru gm ts st)) = meta g st"
  "meta g (handleDelayedGCMessages rm st) = meta g st"
  "meta g (loadCachedRGCMs st) = meta g st"
proof -
  show "meta g (snd (GCMessage env h m mode st)) = meta g st"
    by (simp add: GCMessage_def Let_def split: option.split)
  show "meta g (snd (handleGCMessage env ru gm ts st)) = meta g st"
    by (auto simp: handleGCMessage_def Let_def CacheReceivedGCM_def split: option.split prod.split intro!: meta_files)
  show "meta g (handleDelayedGCMessages rm st) = meta g st"
    by (auto simp: handleDelayedGCMessages_def RemoveCachedRGCM_def intro!: meta_files)
  show "meta g (loadCachedRGCMs st) = meta g st"
    by (auto simp: loadCachedRGCMs_def intro!: meta_files)
qed

lemma meta_block:
  "meta g (snd (AddToGCBlockList h u st)) = meta g st"
  "meta g (snd (RemoveFromGCBlockList h u st)) = meta g st"
  by (auto simp: AddToGCBlockList_def RemoveFromGCBlockList_def block_list_op_def AddToGCBlockList_db_def
      RemoveFromGCBlockList_db_def split: option.split intro!: meta_files)

lemma meta_Resend: "meta g (snd (ResendGCList env h u st)) = meta g st"
  by (simp add: ResendGCList_def split: option.split)

lemmas meta_kept = meta_AliasGC meta_UpdateLast meta_Invite meta_handleInvite meta_Decline meta_Accept meta_Expire
  meta_messages meta_block meta_Resend

lemma gc_exec_effect:
  assumes ok: "gc_ok st"
  shows "gc_effect env st s g (meta g st) (meta g (snd (gc_exec env s st)))"
proof (cases "meta g (snd (gc_exec env s st)) = meta g st")
  case False
  then show ?thesis
    by (cases s) (simp_all add: meta_kept handled_meta [OF ok] local_meta [OF ok] GCKick_meta [OF ok]
        handleGCPart_meta [OF ok] PartFromGC_meta KillGroupChat_meta [OF ok] handleGCKill_meta [OF ok]
        handleGCJoin_meta [OF ok] handleGCList_meta [OF ok] NewGroupChat_meta ok)
qed (simp add: gc_effect.same)

end
