(* ===== verification/Groupchat_Promises.thy ===== *)
theory Groupchat_Promises
  imports Groupchat_Correct
begin

text \<open>
  What the users of group chats may rely on: who can change a chat, that its name stays and its
  version and generation do not go back, which messages are shown and to whom messages go. The last
  section shows where the code does something else than it means to.
\<close>

section \<open>Permissions\<close>

lemma ConstantTimeEq_iff: "ConstantTimeEq u v \<longleftrightarrow> u = v"
  by (auto simp: ConstantTimeEq_def fold_or_diff)

definition may_change :: "RMGroupList \<Rightarrow> bytes \<Rightarrow> bool" where
  "may_change gl u \<longleftrightarrow> Members gl \<noteq> [] \<and> owner gl = u \<and> Version gl \<le> 1 \<or> Version gl = 1 \<and> u \<in> set (ExtraAdmins gl)"

lemma byte_le_one: "(v :: byte) \<le> 1 \<longleftrightarrow> v = 0 \<or> v = 1"
proof
  assume "v \<le> 1"
  then have "unat v = 0 \<or> unat v = 1" by (auto simp: word_le_nat_alt)
  then show "v = 0 \<or> v = 1" by (auto simp: word_unat_eq_iff)
qed auto

lemma uidHasGCPerm_iff: "uidHasGCPerm gl u = None \<longleftrightarrow> may_change gl u"
  by (auto simp: uidHasGCPerm_def may_change_def ConstantTimeEq_iff owner_def hd_conv_nth byte_le_one)

lemma owner_snoc: "Members gl \<noteq> [] \<Longrightarrow> owner (gl\<lparr>Members := Members gl @ [u], Generation := x, Timestamp := t\<rparr>) = owner gl"
  by (simp add: owner_def)

lemma owner_without: "Members gl \<noteq> [] \<Longrightarrow> owner gl \<noteq> u \<Longrightarrow> owner (without u t gl) = owner gl \<and> Members (without u t gl) \<noteq> []"
  by (cases "Members gl") (auto simp: owner_def without_def)

lemma owner_kicked: "owner (gl\<lparr>Generation := x\<rparr>) = owner gl"
  by (simp add: owner_def)

section \<open>The invariant\<close>

lemma gc_ok_exec:
  assumes ok: "gc_ok st"
  shows "gc_ok (snd (gc_exec env s st))"
  unfolding gc_ok_def
proof (intro allI impI)
  fix g gl assume new: "meta g (snd (gc_exec env s st)) = Some gl"
  have old: "gl_ID gl0 = g" if "meta g st = Some gl0" for gl0
    using ok that by (simp add: gc_ok_def)
  from gc_exec_effect [OF ok, of env s g] show "gl_ID gl = g"
    unfolding new by cases (use old in \<open>auto simp: without_def split: if_splits\<close>)
qed

section \<open>Authority\<close>

text \<open>C8: A stored group chat changes only by the hand of somebody with permission: in any step of the
  client, whatever message arrives and from whom, the stored list of a chat stays as it is unless
  the local user or the sender of the message is its owner or, from version 1, one of its
  administrators. The exceptions are a member that leaves, which takes itself off the list and
  changes nothing else, a user that joins with an unexpired invitation of the local client, which
  has permission, and the local user that leaves. The owner changes only when the owner says so.
\<close>

theorem gc_authority:
  assumes ok: "gc_ok st" and old: "meta g st = Some gl" and st': "st' = snd (gc_exec env s st)"
    and changed: "meta g st' \<noteq> Some gl" and a: "a = actor st s"
  shows "(may_change gl a
      \<or> (\<exists>m t. s = RPart a m \<and> a \<in> set (Members gl) \<and> owner gl \<noteq> a \<and> meta g st' = Some (without a t gl))
      \<or> (\<exists>m iv i t. s = RJoin a m \<and> FindGCInvite g (gj_Token m) st = Some (iv, a, i) \<and> \<not> expired env iv
          \<and> may_change gl (PublicID st)
          \<and> meta g st' = Some (gl\<lparr>Members := Members gl @ [a], Generation := Generation gl + 1, Timestamp := t\<rparr>))
      \<or> (\<exists>r. s = LPart g r \<and> meta g st' = None)
      \<or> Members gl \<noteq> [] \<and> owner gl = a)
    \<and> (\<forall>gl'. Members gl \<noteq> [] \<and> meta g st' = Some gl' \<and> owner gl' \<noteq> owner gl \<longrightarrow> owner gl = a)"
  using gc_exec_effect [OF ok, of env s g] changed
  unfolding old st' [symmetric]
proof cases
  case (kicked u r t)
  then show ?thesis using owner_without [of gl u t] by (auto simp: a uidHasGCPerm_iff owner_kicked)
next
  case (parted u m t)
  then show ?thesis using owner_without [of gl u t] by (auto simp: a)
next
  case (added u m iv i t)
  then show ?thesis by (auto simp: a uidHasGCPerm_iff owner_snoc)
qed (auto simp: a uidHasGCPerm_iff split: if_splits)

section \<open>Aliases\<close>

text \<open>The search for a free alias ends: one of the first aliases, one more than there are chats, is not the name of a chat.\<close>

lemma gcIDByName_taken: "gcIDByName a st \<noteq> None \<Longrightarrow> a \<in> min_name ` snd ` set (gc_files st)"
proof -
  assume "gcIDByName a st \<noteq> None"
  then obtain i where "(i, a) \<in> set (FindGCsWithPrefix a st)"
    by (auto simp: gcIDByName_def find_None_iff)
  then show ?thesis by (force simp: FindGCsWithPrefix_def)
qed

lemma alias_loop_None:
  "alias_loop fuel name i st = None \<Longrightarrow> k < fuel \<Longrightarrow> gcIDByName (name @ ''_'' @ Itoa (i + k)) st \<noteq> None"
proof (induction fuel arbitrary: i k)
  case (Suc fuel)
  from Suc.prems have now: "gcIDByName (name @ ''_'' @ Itoa i) st \<noteq> None" and rest: "alias_loop fuel name (Suc i) st = None"
    by (auto simp: Let_def split: if_splits)
  show ?case
  proof (cases k)
    case (Suc k')
    with Suc.IH [OF rest, of k'] Suc.prems show ?thesis by simp
  qed (use now in simp)
qed simp

lemma joined_alias_returns: "joined_alias name inviteName st \<noteq> None"
proof
  assume "joined_alias name inviteName st = None"
  then have none: "alias_loop (Suc (length (gc_files st))) inviteName 1 st = None"
    by (auto simp: joined_alias_def split: if_splits)
  let ?f = "\<lambda>k. inviteName @ ''_'' @ Itoa (1 + k)"
  have "?f ` {..length (gc_files st)} \<subseteq> min_name ` snd ` set (gc_files st)"
    using alias_loop_None [OF none] gcIDByName_taken by (auto simp: less_Suc_eq_le)
  moreover have "inj_on ?f {..length (gc_files st)}" by (auto simp: inj_on_def dest!: Itoa_inj)
  ultimately have "card {..length (gc_files st)} \<le> card (min_name ` snd ` set (gc_files st))"
    by (intro card_inj_on_le) auto
  also have "\<dots> \<le> length (gc_files st)"
    using card_length [of "map (min_name \<circ> snd) (gc_files st)"] by (simp add: image_comp)
  finally show False by simp
qed

section \<open>No way back\<close>

definition gc_run :: "(gc_env \<times> gc_step) list \<Rightarrow> gc_client \<Rightarrow> gc_client" where
  "gc_run ss st = fold (\<lambda>(env, s) st. snd (gc_exec env s st)) ss st"

lemma gc_run_simps [simp]:
  "gc_run [] st = st"
  "gc_run ((env, s) # ss) st = gc_run ss (snd (gc_exec env s st))"
  by (simp_all add: gc_run_def)

definition gc_later :: "RMGroupList \<Rightarrow> RMGroupList \<Rightarrow> bool" where
  "gc_later gl gl' \<longleftrightarrow> gl_Name gl' = gl_Name gl \<and> Version gl \<le> Version gl' \<and> Generation gl \<le> Generation gl'"

lemma u64_le_Suc: "(x :: u64) \<noteq> - 1 \<Longrightarrow> x \<le> x + 1"
proof -
  assume "x \<noteq> - 1"
  then have "unat x \<noteq> 2 ^ 64 - 1" by (auto simp: word_unat_eq_iff unsigned_minus_1_eq_mask mask_eq_exp_minus_1)
  then have "unat x + 1 < 2 ^ 64" using unsigned_less [of x, where ?'a = nat] by simp
  then have "unat (x + 1) = unat x + 1" by (simp add: unat_word_ariths)
  then show ?thesis by (simp add: word_le_nat_alt)
qed

lemma gc_step_later:
  assumes "gc_ok st" "meta g st = Some gl" "meta g (snd (gc_exec env s st)) = Some gl'" "Generation gl \<noteq> - 1"
  shows "gc_later gl gl'"
  using gc_exec_effect [OF assms(1), of env s g] unfolding assms(2,3)
  by cases (use assms(4) in \<open>auto simp: gc_later_def without_def u64_le_Suc split: if_splits\<close>)

text \<open>C10: While a group chat is stored, whatever the local user does and whatever messages arrive in
  whatever order, its name stays, and its version and generation do not go back, as long as
  the generation has not reached its largest value; and chats stay filed under their identifier.
\<close>

theorem gc_history:
  assumes "gc_ok st" and "meta g st = Some gl" and "meta g (gc_run ss st) = Some gl'"
    and "\<forall>n < length ss. \<exists>x. meta g (gc_run (take n ss) st) = Some x \<and> Generation x \<noteq> - 1"
  shows "gc_ok (gc_run ss st) \<and> gc_later gl gl'"
  using assms
proof (induction ss arbitrary: st gl)
  case Nil
  then show ?case by (simp add: gc_later_def)
next
  case (Cons p ss)
  obtain env s where p: "p = (env, s)" by (cases p)
  let ?st1 = "snd (gc_exec env s st)"
  have ok1: "gc_ok ?st1" using Cons.prems(1) by (rule gc_ok_exec)
  have "meta g ?st1 \<noteq> None"
  proof (cases ss)
    case Nil
    then show ?thesis using Cons.prems(3) p by simp
  next
    case (Cons q qs)
    then show ?thesis using \<open>\<forall>n < length (p # ss). _ n\<close> [rule_format, of 1] p by auto
  qed
  then obtain gl1 where gl1: "meta g ?st1 = Some gl1" by blast
  have "\<forall>n < length ss. \<exists>x. meta g (gc_run (take n ss) ?st1) = Some x \<and> Generation x \<noteq> - 1"
    using Cons.prems(4) [rule_format, of "Suc _"] p by auto
  with Cons.IH [OF ok1 gl1] Cons.prems(3) p have 1: "gc_ok (gc_run ss ?st1) \<and> gc_later gl1 gl'" by simp
  have "Generation gl \<noteq> - 1" using Cons.prems(2,4) by auto
  then have "gc_later gl gl1" using gc_step_later Cons.prems(1,2) gl1 by blast
  with 1 p show ?case by (auto simp: gc_later_def)
qed

section \<open>Messages\<close>


text \<open>A message that is held back is in the store of messages that wait, and the next start shows it.\<close>

lemma filtered_message_reappears:
  assumes "\<not> ignored ru st" "GetGC (gm_ID gcm) st = Some gc" "ru \<in> set (Members (Metadata gc))"
    "ru \<notin> set (GetGCBlockList (gm_ID gcm) st)" "rg_MsgID m = rand_ID env" "rg_UID m = ru" "rg_GCM m = gcm" "rg_TS m = ts"
    "rg_GCAlias m = gc_Name gc"
  shows "m \<in> set (gcmq (loadCachedRGCMs (snd (handleGCMessage env ru gcm ts st))))"
proof -
  have m: "m = \<lparr>rg_MsgID = rand_ID env, rg_UID = ru, rg_GCM = gcm, rg_TS = ts, rg_GCAlias = gc_Name gc\<rparr>"
    using assms(5-9) by (cases m) simp
  have u: "v \<in> snd ` set (AList.update k v m)" for k v and m :: "(bytes, ReceivedGCMsg) gomap"
    using map_of_SomeD [of "AList.update k v m" k v] by force
  show ?thesis
    using assms(1-4) by (auto simp: m loadCachedRGCMs_def ListCachedRGCMs_def handleGCMessage_def Let_def IsBlocked_def
        CacheReceivedGCM_def u split: prod.split)
qed

section \<open>To whom messages go\<close>

definition is_message :: "bytes \<times> client_rm \<Rightarrow> bool" where
  "is_message p = (case snd p of GroupMessage _ \<Rightarrow> True | _ \<Rightarrow> False)"

lemma maybeRequest_out: "\<exists>out. outbox (snd (maybeRequestMediateID env m t st)) = outbox st @ out \<and> filter is_message out = []"
proof -
  have "\<exists>out. outbox (snd (send_default env ty (MediateIdentity t) ds st)) = outbox st @ out \<and> filter is_message out = []" for ty ds st
    using send_priority_out [of env ty "MediateIdentity t" priorityDefault ds st]
    by (fastforce simp: send_default_def is_message_def filter_empty_conv)
  from this [of "mi_event t" "[m]" "st\<lparr>kxdb := k\<rparr>" for k] show ?thesis
    by (simp add: maybeRequestMediateID_def Let_def)
qed

lemma fold_out:
  assumes "\<And>x (st :: gc_client). \<exists>out. outbox (f x st) = outbox st @ out \<and> filter is_message out = []"
  shows "\<exists>out. outbox (fold f xs st) = outbox st @ out \<and> filter is_message out = []"
proof (induction xs arbitrary: st)
  case (Cons x xs)
  from assms [of x st] Cons [of "f x st"] show ?case by fastforce
qed simp

lemma missing_infos_out: "outbox (snd (missing_infos env g us st)) = outbox st"
proof (induction us arbitrary: st)
  case (Cons u us)
  obtain c sm sw st1 where s: "unkx_skips env (ReadUnxkdUserInfo u (kxdb st)) st = (c, sm, sw, st1)"
    by (cases "unkx_skips env (ReadUnxkdUserInfo u (kxdb st)) st") auto
  then have "outbox st1 = outbox st"
    by (auto simp: unkx_skips_def Let_def store_unkx_def split: option.splits if_splits)
  with Cons [of st1] show ?case by (auto simp: s Let_def split: prod.splits sum.splits option.splits)
qed simp

lemma sendToGCMembers_out:
  assumes sent: "sendToGCMembers env g ms pt rm st = (None, st')"
    and ms: "distinct ms" "zeroID \<notin> set ms" "\<not> knows st zeroID"
  shows "\<exists>rest. outbox st' = outbox st @ map (\<lambda>u. (u, rm)) (filter (\<lambda>u. u \<noteq> PublicID st \<and> knows st u
      \<and> queueRMPriority (sendq_view env st) u rm priorityGC = None) ms) @ rest \<and> filter is_message rest = []"
proof -
  let ?ids = "filter (\<lambda>u. knows st u) (filter (\<lambda>u. u \<noteq> PublicID st) ms)"
  let ?ty = "''gc.'' @ ShortLogID g @ ''.'' @ pt"
  obtain st1 where send: "send_priority env ?ty rm priorityGC ?ids st = (None, st1)"
    using sent by (auto simp: sendToGCMembers_def Let_def split: prod.splits option.splits if_splits)
  obtain e out q where run: "sendWithSendQPriority (sendq_view env st) (id_draws env (sendq st)) (clock env) ?ty (SendRM rm)
      priorityGC ?ids (sendq st) = (e, out, q)" by (metis prod_cases3)
  with send have e: "e = None" and st1: "outbox st1 = outbox st @ out"
    by (auto simp: send_priority_def sendq_error_def)
  have "out = map (\<lambda>u. (u, rm)) (filter (\<lambda>u. u \<noteq> PublicID st \<and> knows st u
      \<and> queueRMPriority (sendq_view env st) u rm priorityGC = None) ?ids)"
    using sendq_destinations [OF run [unfolded e]] ms by (auto simp: prep_rm_def sendq_view_def)
  then have out: "out = map (\<lambda>u. (u, rm)) (filter (\<lambda>u. u \<noteq> PublicID st \<and> knows st u
      \<and> queueRMPriority (sendq_view env st) u rm priorityGC = None) ms)"
    by (auto intro!: arg_cong [of _ _ "map _"] filter_cong)
  have "\<exists>rest. outbox st' = outbox st1 @ rest \<and> filter is_message rest = []"
  proof -
    define missing where "missing = filter (\<lambda>u. \<not> knows st u \<and> UnkxdWarningTimeout env < time_sub (clock env) (last_warning u st))
      (filter (\<lambda>u. u \<noteq> PublicID st) ms)"
    have "st' = st1 \<or> (\<exists>infos st2. missing_infos env g missing st1 = (Inr infos, st2)
        \<and> st' = fold (mediate_missing env) infos (fold (warn_missing env g) infos st2))"
      using sent unfolding sendToGCMembers_def Let_def missing_def [symmetric] send
      by (auto split: if_splits prod.splits sum.splits)
    moreover have "\<exists>rest. outbox (fold (mediate_missing env) infos st3) = outbox st3 @ rest \<and> filter is_message rest = []" for infos st3
      by (rule fold_out) (use maybeRequest_out in \<open>auto simp: mediate_missing_def split: option.split\<close>)
    moreover have "outbox (fold (warn_missing env g) infos st3) = outbox st3" for infos st3
      by (induction infos arbitrary: st3) (auto simp: warn_missing_def notify_def)
    moreover have "outbox st2 = outbox st1" if "missing_infos env g missing st1 = (Inr infos, st2)" for infos st2
      using missing_infos_out [of env g missing st1] that by simp
    ultimately show ?thesis by (metis append_Nil2 filter.simps(1))
  qed
  then show ?thesis using st1 out by auto
qed


section \<open>Where the code does something else\<close>

text \<open>
  The number of members that a message would go to is half of what it should be: in a chat whose
  first member is the local client, it is half the number of the others.
\<close>

lemma dest_count_others:
  assumes "me \<notin> set ms" "i \<le> length ms"
  shows "dest_count_loop me i ms = (length ms + i) div 2"
  using assms
proof (induction "length ms" arbitrary: i ms rule: less_induct)
  case less
  show ?case
  proof (cases "i < length ms")
    case True
    define ms' where "ms' = (if i + 1 < length ms - 1 then ms[i + 1 := ms ! (length ms - 1)] else ms)"
    have len: "length ms' = length ms" by (simp add: ms'_def)
    have ne: "ms ! i \<noteq> me" using True less.prems(1) nth_mem by fastforce
    have "set ms' \<subseteq> set ms" using True by (auto simp: ms'_def dest!: set_update_subset_insert [THEN subsetD])
    then have notin: "me \<notin> set (butlast ms')" using less.prems(1) by (auto dest: in_set_butlastD)
    have step: "dest_count_loop me i ms = dest_count_loop me (i + 1) (butlast ms')"
      by (subst dest_count_loop.simps) (simp add: True ne Let_def ms'_def)
    show ?thesis
    proof (cases "i + 1 \<le> length ms - 1")
      case inside: True
      have "dest_count_loop me (i + 1) (butlast ms') = (length (butlast ms') + (i + 1)) div 2"
        using less.hyps [of "butlast ms'" "i + 1"] notin inside len True by simp
      then show ?thesis using step len True by simp
    next
      case False
      then have last: "length ms = i + 1" using True by simp
      then show ?thesis using step len by (simp add: dest_count_loop.simps)
    qed
  next
    case False
    then have "length ms = i" using less.prems(2) by simp
    then show ?thesis by (simp add: dest_count_loop.simps)
  qed
qed

lemma dest_count_half:
  assumes "me \<notin> set ms"
  shows "dest_count_loop me 0 (me # ms) = length ms div 2"
proof -
  define ms' where "ms' = (if 0 < length ms then (me # ms)[0 := (me # ms) ! length ms] else me # ms)"
  have step: "dest_count_loop me 0 (me # ms) = dest_count_loop me 0 (butlast ms')"
    by (subst dest_count_loop.simps) (simp add: Let_def ms'_def)
  have "butlast ms' = (if ms = [] then [] else last ms # butlast ms)"
    by (simp add: ms'_def last_conv_nth)
  moreover have "me \<notin> set (if ms = [] then [] else last ms # butlast ms)"
    using assms last_in_set by (auto dest: in_set_butlastD)
  ultimately show ?thesis using step dest_count_others [of me "butlast ms'" 0] by (auto split: if_splits)
qed

text \<open>
  A list without members passes the check of permissions when its sender is one of its
  administrators. The chat is stored, and as long as the local client is none of them, no step
  changes it any more: it cannot be updated, left or ended.
\<close>

lemma memberless_chat_stuck:
  assumes "gc_ok st" "meta g st = Some gl" "Members gl = []" "\<not> may_change gl (PublicID st)"
  shows "meta g (snd (gc_exec env s st)) = Some gl"
  using gc_exec_effect [OF assms(1), of env s g] unfolding assms(2)
  by cases (use assms in \<open>auto simp: uidHasGCPerm_iff\<close>)

lemma memberless_chat_joined:
  assumes "GetGC (gl_ID gl) st = None" "FindAcceptedGCInvite (gl_ID gl) ru st = Some iv" "Version gl = 1" "Members gl = []"
    "ru \<in> set (ExtraAdmins gl)" "gcIDByName (gl_Name gl) (DelAllInvitesToGC (gl_ID gl) st) = None"
  shows "meta (gl_ID gl) (snd (saveJoinedGC ru gl st)) = Some gl"
proof -
  have w: "meta g (maybeNotifyGCVersionWarning ru' h gl' x) = meta g x" for g ru' h gl' x
    by (rule meta_gcv) simp
  show ?thesis
    using assms by (cases iv) (simp add: saveJoinedGC_def uidHasGCPerm_def joined_alias_def Let_def w meta_SaveGC)
qed

lemma memberless_resend_panics:
  assumes "GetGC g st = Some gc" "Members (Metadata gc) = []" "may_change (Metadata gc) (PublicID st)"
  shows "fst (ResendGCList env g None st) = Some EPanic"
  using assms by (simp add: ResendGCList_def uidHasGCPerm_iff [symmetric])

text \<open>The stored chat is no message, so that resending the list of members sends nothing.\<close>

lemma resend_sends_nothing:
  assumes "\<And>gc. compose env (NoRM gc) = None"
  shows "outbox (snd (ResendGCList env g (Some v) st)) = outbox st \<and> fst (ResendGCList env g (Some v) st) \<noteq> None"
proof -
  have "send_default env ty (NoRM gc) ds st = (Some (ESendq ErrCompose), st)" for ty gc ds
    by (simp add: send_default_def send_priority_def sendWithSendQPriority_def prepareSendqItem_def addToSendQ_def
        sendq_view_def sendq_error_def deleteMine_def Let_def assms)
  then show ?thesis by (simp add: ResendGCList_def split: option.split)
qed

section \<open>Examples\<close>

definition ex_genv :: "time \<Rightarrow> gc_env" where
  "ex_genv t = client_env.extend (ex_cenv t) \<lparr>regexps = ex_lib, iid_draws = [5], token_draws = [7], rand_ID = [8],
    rtdt_session = (\<lambda>_. None), rtdt_isLive = (\<lambda>_. False), rtdt_do = (\<lambda>_. None)\<rparr>"

definition ex_gl :: RMGroupList where
  "ex_gl = \<lparr>gl_ID = [9], gl_Name = ''c'', Generation = 3, Timestamp = 0, Version = 1, Members = [[1], [0], [2]],
    ExtraAdmins = []\<rparr>"

definition ex_gcc :: gc_client where
  "ex_gcc = client.extend ex_kx_client \<lparr>gc_files = [([9], OldGCFile ex_gl)], gc_aliases = [], invites = [],
    block_lists = [], cachedGCMs = [], gc_filters = ex_filters0, unkxdWarnings = [], gcWarnedVersions = [], gcmq = [], ntfns = []\<rparr>"

definition ex_admins :: gc_step where
  "ex_admins = RAdmins [1] \<lparr>adm_Reason = [], adm_NewGroupList = ex_gl\<lparr>Generation := 4, ExtraAdmins := [[2]]\<rparr>\<rparr>"

lemmas ex_gcc_defs = ex_gcc_def client.extend_def ex_kx_client_def ex_genv_def client_env.extend_def ex_cenv_def ex_gl_def

lemma ex_gcc_ok: "gc_ok ex_gcc" and ex_gcc_meta: "meta [9] ex_gcc = Some ex_gl"
  by (auto simp: gc_ok_def meta_def GetGC_def readGC_def ex_gcc_defs split: if_splits)

lemma ex_admins_meta: "meta [9] (snd (gc_exec (ex_genv 5) ex_admins ex_gcc)) = Some (ex_gl\<lparr>Generation := 4, ExtraAdmins := [[2]]\<rparr>)"
  by (simp add: ex_admins_def handleGCUpdateAdmins_def maybeUpdateGC_def maybeUpdateGCFunc_def Let_def meta_def GetGC_def
      readGC_def uidHasGCPerm_def ConstantTimeEq_iff ex_gcc_defs mark_added_def unkxd_or_new_def ReadUnxkdUserInfo_def
      empty_kx_db_def store_unkx_def StoreUnkxdUserInfo_def SaveGC_def maybeNotifyGCVersionWarning_def unsupported_def
      minSupportedGCVersion_def maxSupportedGCVersion_def notifyUpdatedGC_def sliceDiff_def notify_def)

theorem gc_authority_witness:
  "meta [9] (snd (gc_exec (ex_genv 5) ex_admins ex_gcc)) \<noteq> Some ex_gl \<and> may_change ex_gl [1]"
proof -
  have ch: "meta [9] (snd (gc_exec (ex_genv 5) ex_admins ex_gcc)) \<noteq> Some ex_gl"
    unfolding ex_admins_meta by (simp add: ex_gl_def)
  have "actor ex_gcc ex_admins = [1]" by (simp add: ex_admins_def)
  with gc_authority [OF ex_gcc_ok ex_gcc_meta refl ch refl] ch show ?thesis
    by (auto simp: ex_admins_def may_change_def ex_gl_def)
qed

theorem gc_history_witness:
  "gc_later ex_gl (ex_gl\<lparr>Generation := 4, ExtraAdmins := [[2]]\<rparr>)
    \<and> gc_ok (gc_run [(ex_genv 5, ex_admins)] ex_gcc)"
  using gc_history [OF ex_gcc_ok ex_gcc_meta, of "[(ex_genv 5, ex_admins)]" "ex_gl\<lparr>Generation := 4, ExtraAdmins := [[2]]\<rparr>"]
    ex_admins_meta ex_gcc_meta by (simp add: ex_gl_def)


text \<open>
  The local client leaves a chat that has a member it knows nothing of: the chat is deleted before the
  owner is looked up in it, so that leaving fails after it was done and the realtime session stays.
\<close>

lemma part_fails_when_done:
  assumes "st = ex_gcc\<lparr>rul := [([1], ex_user)]\<rparr>"
  shows "fst (PartFromGC (ex_genv 1000) [9] [] st) = Some EDBNotFound \<and> GetGC [9] (snd (PartFromGC (ex_genv 1000) [9] [] st)) = None"
  by (simp add: assms PartFromGC_def GetGC_def readGC_def DeleteGC_def sendToGCMembers_def send_defs ex_gcc_defs ex_user_def
      priorityGC_def Let_def last_warning_def zero_time_def HasKXWithUser_def HasAnyRecentMediateID_def unkx_skips_def
      ReadUnxkdUserInfo_def empty_kx_db_def time_sub_def second_def)

text \<open>When the owner changes, the changed administrators are not reported, the members are instead.\<close>

lemma owner_change_hides_admins:
  assumes "new = ex_gl\<lparr>Members := [[2], [0], [1]]\<rparr>"
  shows "ntfns (notifyUpdatedGC [1] (ex_gl\<lparr>ExtraAdmins := [[2]]\<rparr>) new ex_gcc) = [NAdminsChanged [1] new [[2]] [[1]]]"
  by (simp add: assms notifyUpdatedGC_def sliceDiff_def notify_def ex_gcc_defs)

end
