(* ===== verification/Spec2Isabelle.thy ===== *)
theory Spec2Isabelle
  imports Ratchet_Correct Tagstack Seqtracker Session Gcmcacher Rmq Rendezvous Server_Session Rtdt_System Groupchat_Promises
begin

text \<open>
  Bison Relay: verification of the core of the client, of the relay server and of the real-time datagram server.

  \<^bold>\<open>The program.\<close> Clients exchange end-to-end encrypted messages through a server that stores them. Two users share a ratchet
  (\<^verbatim>\<open>src/ratchet\<close>); each message has a rendezvous point derived from the ratchet, under which the sender stores the encrypted
  message on the server and to which the receiver subscribes. The client's queue of outbound messages (\<^verbatim>\<open>rmq.go\<close>) pays for
  each push and repeats it until it is acknowledged; its rendezvous manager (\<^verbatim>\<open>rendezvous.go\<close>) keeps the subscriptions
  registered and paid. Client and server talk over an encrypted transport (\<^verbatim>\<open>src/session\<close>). The server (\<^verbatim>\<open>src/server\<close>) checks
  payments, stores messages in a database and pushes them to subscribed sessions. For voice and chat in real time the server issues
  cookies (\<^verbatim>\<open>src/server/rtdt.go\<close>), with which clients join sessions on a separate server that relays datagrams
  between the members of a session (\<^verbatim>\<open>src/rtdt/server\<close>). Above the outbound queue, the client keeps the messages for many users in a
  queue that survives restarts (\<^verbatim>\<open>client_sendq.go\<close>), introduces users to each other, and runs group chats, whose lists of members
  are owned by one member and copied to all (\<^verbatim>\<open>src/client/client_groupchat.go\<close>).

  \<^bold>\<open>Theories and sources.\<close>
  \<^item> \<open>BR_Prelude\<close>: machine integers as words, times, byte encodings, Go maps as association lists; \<open>Crypto\<close>: the third-party
    primitives as a record \<open>crypto\<close> that is an argument, their documented laws as predicates, and \<^verbatim>\<open>src/sw/sw.go\<close>.
  \<^item> \<open>Ratchet\<close> (\<^verbatim>\<open>src/ratchet/ratchet.go\<close>): state \<open>ratchet\<close>, key exchange, \<open>Encrypt\<close>, \<open>Decrypt\<close> with saved keys. \<open>Ratchet_Protocol\<close>: two
    ends in step (\<open>synced\<close>). \<open>Ratchet_Reorder\<close>: late, reordered and repeated messages. \<open>Ratchet_Disk\<close> (\<^verbatim>\<open>src/ratchet/disk\<close>): the stored
    form. \<open>Ratchet_Correct\<close>: what callers may rely on (delivery, agreement, refusal of replays, errors without effect,
    termination, a bound on saved keys, round trip through the disk).
  \<^item> \<open>Session\<close> (\<^verbatim>\<open>src/session\<close>): nonce sequences, key exchange and framing; what is written is read, and no nonce is used twice.
  \<^item> \<open>Tagstack\<close> (\<^verbatim>\<open>src/server/internal/tagstack\<close>), \<open>Seqtracker\<close> (\<^verbatim>\<open>src/rtdt/internal/seqtracker\<close>), \<open>Multipriq\<close>
    (\<^verbatim>\<open>src/client/internal/multipriq\<close>), \<open>Go_Heap\<close> (\<^verbatim>\<open>container/heap\<close>), \<open>Gcmcacher\<close> (\<^verbatim>\<open>src/client/internal/gcmcacher\<close>): the containers, each with
    the abstract queue, set or order that it refines.
  \<^item> \<open>ShortID\<close> (\<^verbatim>\<open>src/zkidentity/shortid.go\<close>, error texts of \<^verbatim>\<open>src/rpc/errors.go\<close>), \<open>Pay_Rates\<close> (rates in \<^verbatim>\<open>src/rpc\<close>), \<open>Paid_RVs\<close>
    (\<^verbatim>\<open>src/client/clientdb/rvs.go\<close>): identifiers, prices at the width of the code, and the client's record of payments.
  \<^item> \<open>Rmq\<close> (\<^verbatim>\<open>src/client/internal/lowlevel/rmq.go\<close>): both loops and the senders as steps \<open>rmqStep\<close>; no message is lost, none
    is paid for twice, an acknowledged one was routed. \<open>Rendezvous\<close> (\<^verbatim>\<open>src/client/internal/lowlevel/rendezvous.go\<close>): the manager as
    steps \<open>rvmStep\<close>; no subscription is forgotten, points are recorded as paid only after the server's acknowledgement, nothing is paid twice.
  \<^item> \<open>Server_DB\<close> (\<^verbatim>\<open>src/server/serverdb\<close>, \<^verbatim>\<open>src/server/internal/fsdb\<close>), \<open>Server_Payments\<close> (\<^verbatim>\<open>src/server/svrpayments.go\<close>), \<open>Server_Rtdt\<close>
    (\<^verbatim>\<open>src/server/rtdt.go\<close>), \<open>Server_Session\<close> (\<^verbatim>\<open>src/server/session.go\<close>, \<^verbatim>\<open>src/server/rendezvous.go\<close>): the server as steps \<open>zksStep\<close> of its
    sessions' goroutines on the shared state \<open>zks\<close>; a stored message stays until it is acknowledged, a pushed message is
    the stored one and its point is paid for, every invoice pays once, and the cookies of real-time sessions are exact and paid for.
  \<^item> \<open>Rtdt_Rpc\<close> (\<^verbatim>\<open>src/rpc/rtdt.go\<close>): cookies, packets and commands, which are read back exactly. \<open>Rtdt_Server\<close> (\<^verbatim>\<open>src/rtdt/server\<close>): the
    datagram server as steps \<open>rtStep\<close> with the invariant of its sessions. \<open>Rtdt_Correct\<close>: the invariant of its payments.
    \<open>Rtdt_Promises\<close>: data stays in a session and reaches all its members, joins need a valid cookie, bytes relayed
    are covered by redeemed allowances, a banned peer stays out. \<open>Rtdt_System\<close>: both servers together; peers appointed for
    one session can join and meet in one session.
  \<^item> \<open>Sendq\<close> (\<^verbatim>\<open>client_sendq.go\<close>, \<^verbatim>\<open>clientdb/sendqueue.go\<close>): a message reaches the queues of exactly the users it can be queued
    for, and the loop over left-over messages ends with each of them settled. \<open>Remote_Users\<close> (the list of \<^verbatim>\<open>remoteuser.go\<close>): nicks are unique. \<open>Content_Filters\<close>
    (\<^verbatim>\<open>client_filters.go\<close>, \<^verbatim>\<open>clientdb/filters.go\<close>): the check with a table of compiled expressions gives the first rule that applies.
  \<^item> \<open>Kx_Store\<close> (\<^verbatim>\<open>clientdb/kx.go\<close>), \<open>Client_Base\<close> (messages, the state of a client, the ways to send), \<open>Autokx\<close> (\<^verbatim>\<open>client_autokx.go\<close>, \<^verbatim>\<open>client_kxsearch.go\<close>, the
    suggestions of \<^verbatim>\<open>client_kx.go\<close>): introductions and searches; a user is asked for once within the threshold, and replies to searches
    cause messages only to candidates of searches under way.
  \<^item> \<open>Groupchat_Db\<close> (\<^verbatim>\<open>clientdb/gc.go\<close>), \<open>Groupchat\<close> (\<^verbatim>\<open>client_groupchat.go\<close>): storage, operations and handlers of group chats, each step
    \<open>gc_exec\<close> an operation of the user or a message of another user. \<open>Groupchat_Correct\<close>: the possible changes of a stored list in a step
    (\<open>gc_effect\<close>). \<open>Groupchat_Promises\<close>: only owners and administrators change a chat, names stay and versions and generations do not go
    back, which messages are shown, and to whom messages go.

  \<^bold>\<open>Modelling.\<close> A struct is a record, its methods are functions that return the new state. Errors are values of a sum or option
  type; a panic or a loop that does not end is \<open>None\<close> or a flag of the state, and where code is claimed to return, that is a theorem. Concurrent
  code is a step function on one state: a step is one iteration of a loop or one critical section of a goroutine, so every
  interleaving of such steps is covered, and reachability is an inductive predicate. What the outside answers
  (Lightning node, file system, network, random generator, clock) is an argument of the step. What has left a component is recorded in ghost
  fields, which no operation reads. Integers have the width of the source where they can wrap around; lengths and times are unbounded.

  \<^bold>\<open>Interfaces.\<close> \<open>tag_pool\<close> (what a session relies on in its tags; interpreted on both kinds of tag stack), \<open>work_queue\<close> (the priority queue
  under the outbound queue; on \<open>Multipriq\<close>), \<open>min_queue\<close> (the heap under the cacher; on \<open>Go_Heap\<close>), \<open>rv_manager_db\<close> (the database
  under the rendezvous manager; on \<open>Paid_RVs\<close>), \<open>server_db\<close> (the interface ServerDB; on the file-system database), and \<open>cookie_kind\<close> (what
  all cookies share; on the four cookies). Clients' lemmas are proved in these locales and used through the interpretations.

  \<^bold>\<open>Bounds.\<close> The searches for a free nick and a free alias have a few more tries than there are users or chats; \<open>uniqueNick_free\<close> and
  \<open>joined_alias_returns\<close> show that this is enough. No other definition uses fuel. The two loops of the sources that can run for ever, the key loop of \<open>Decrypt\<close> and the lane search of
  \<open>Multipriq\<close>, are partial functions into option, with theorems that they return. Hypotheses of theorems that bound
  numbers (rates that fit in 32 bits, counters that have not wrapped, datagrams of at most 65535 bytes) are part of the statements.

  \<^bold>\<open>Faults.\<close> Where the code does something else than it means to, a lemma shows a run: among them a deadlock of the server and requests that
  crash it (\<open>Server_Session\<close>, \<open>Server_Rtdt\<close>), joins that crash the datagram server, members left behind in sessions, bans that are lost
  and allowances that overflow (\<open>Rtdt_Promises\<close>), left-over messages that crash the client (\<open>Sendq\<close>), a list of users that stays locked
  (\<open>Remote_Users\<close>), filters that outlive their rule (\<open>Content_Filters\<close>), and group chats that cannot be left, lists that are never
  resent and filtered messages that come back (\<open>Groupchat_Promises\<close>).

  \<^bold>\<open>Not modelled.\<close> Of the client: the dispatch of messages, the ratchets of users and their storage, key exchange by invitation, posts, content and
  resources, tips and payments through the Lightning node, and the client side of real-time chat, whose work is mostly files, JSON and calls
  to the parts modelled here; user interfaces and their bindings; generated RPC code; the PostgreSQL database, which is SQL behind the
  interface \<open>server_db\<close>; process start, settings, TLS and logging; statistics; audio.
\<close>

end
